(* ===== verification/Prelude.thy ===== *)
theory Prelude
  imports Main "HOL-Library.Word" "HOL-Library.Monad_Syntax" "HOL-Library.AList"
begin

text \<open>
  Shared vocabulary of the development: the machine types of the C code, NULL, the
  linked-list predicate of the pointer structures (queues, timers, free lists) and the
  two loops every one of those structures is walked with.  A loop over a linked list may
  fail to return (a cyclic list), so it is a \<^verbatim>\<open>partial_function (option)\<close>: the value
  \<^term>\<open>None\<close> is a computation with no result.
\<close>

section \<open>Machine types\<close>

type_synonym u8 = "8 word"
type_synonym u16 = "16 word"
type_synonym u32 = "32 word"
type_synonym u64 = "64 word"
type_synonym ptr = u64

abbreviation NULL :: ptr where "NULL \<equiv> 0"

named_theorems kdefs \<open>straight-line operations of the model, unfolded together\<close>
named_theorems walk \<open>results of the list-walking loops on a well-formed list\<close>

section \<open>Unsigned arithmetic without wrap-around\<close>

lemma unat_plus_fits:
  fixes a b :: "'a::len word"
  assumes "unat a + unat b < 2 ^ LENGTH('a)"
  shows "unat (a + b) = unat a + unat b"
  using assms by (simp add: unat_word_ariths)

lemma unat_plus_fits64:
  fixes a b :: u64
  assumes "unat a + unat b < 2 ^ 64"
  shows "unat (a + b) = unat a + unat b"
  using assms unat_plus_fits [of a b] by simp

lemma unat_minus_fits:
  fixes a b :: "'a::len word"
  assumes "b \<le> a"
  shows "unat (a - b) = unat a - unat b"
  using assms by (rule unat_sub)

lemma unat_less_64: "unat (a::u64) < 2 ^ 64"
  using unsigned_less [of a, where 'a = nat] by simp

lemma unat_inj [simp]: "unat (a::'a::len word) = unat b \<longleftrightarrow> a = b"
  by (simp add: word_unat_eq_iff)

text \<open>
  Evaluation of closed option-monad terms by \<^verbatim>\<open>simp\<close>: with this congruence rule the rest of a
  computation is not touched before the result of its first step is known.
\<close>

lemma bind_weak_cong: "x = y \<Longrightarrow> Option.bind x f = Option.bind y f"
  by simp

text \<open>
  Heaps given by a table of their interesting cells, so that closed runs evaluate: an update of
  a table heap is again a table heap, with one entry for each address.
\<close>

definition tbl :: "'v \<Rightarrow> (ptr \<times> 'v) list \<Rightarrow> ptr \<Rightarrow> 'v" where
  "tbl d t p = (case map_of t p of None \<Rightarrow> d | Some v \<Rightarrow> v)"

lemma tbl_eval:
  "tbl d [] p = d"
  "tbl d ((q, v) # t) p = (if p = q then v else tbl d t p)"
  "(tbl d t)(p := v) = tbl d (AList.update p v t)"
  by (auto simp: tbl_def update_conv' split: option.splits)

section \<open>Linked lists in memory\<close>

text \<open>
  \<open>lseg f p xs q\<close>: following \<open>f\<close> from \<open>p\<close> one meets exactly the non-null nodes \<open>xs\<close>
  and arrives at \<open>q\<close>; a whole list ends at NULL.
\<close>

fun lseg :: "(ptr \<Rightarrow> ptr) \<Rightarrow> ptr \<Rightarrow> ptr list \<Rightarrow> ptr \<Rightarrow> bool" where
  "lseg f p [] q = (p = q)"
| "lseg f p (x # xs) q = (p = x \<and> x \<noteq> NULL \<and> lseg f (f x) xs q)"

abbreviation llist :: "(ptr \<Rightarrow> ptr) \<Rightarrow> ptr \<Rightarrow> ptr list \<Rightarrow> bool" where
  "llist f p xs \<equiv> lseg f p xs NULL"

lemma lseg_append [simp]: "lseg f p (xs @ ys) q = (\<exists>r. lseg f p xs r \<and> lseg f r ys q)"
  by (induction xs arbitrary: p) auto

lemma lseg_upd [simp]: "u \<notin> set xs \<Longrightarrow> lseg (f(u := v)) p xs q = lseg f p xs q"
  by (induction xs arbitrary: p) auto

lemma lseg_cong: "(\<And>x. x \<in> set xs \<Longrightarrow> f x = g x) \<Longrightarrow> lseg f p xs q = lseg g p xs q"
  by (induction xs arbitrary: p) auto

lemma llist_NULL [simp]: "llist f NULL xs = (xs = [])"
  by (cases xs) auto

lemma llist_nonnull: "p \<noteq> NULL \<Longrightarrow> llist f p xs = (\<exists>ys. xs = p # ys \<and> llist f (f p) ys)"
  by (cases xs) auto

lemma llist_not_null_mem: "llist f p xs \<Longrightarrow> NULL \<notin> set xs"
  by (induction xs arbitrary: p) auto

lemma llist_unique: "llist f p xs \<Longrightarrow> llist f p ys \<Longrightarrow> xs = ys"
proof (induction xs arbitrary: p ys)
  case Nil
  then show ?case by simp
next
  case (Cons x xs)
  then show ?case by (cases ys) auto
qed

lemma llist_mem_suffix:
  "llist f p xs \<Longrightarrow> x \<in> set xs \<Longrightarrow> \<exists>as bs. xs = as @ x # bs \<and> llist f (f x) bs"
  by (metis lseg.simps(2) lseg_append split_list)

lemma llist_hd_notin_tl: "llist f (f a) xs \<Longrightarrow> a \<notin> set xs"
proof
  assume l: "llist f (f a) xs" and "a \<in> set xs"
  then obtain as bs where "xs = as @ a # bs" "llist f (f a) bs"
    using llist_mem_suffix by blast
  moreover from this l have "xs = bs" using llist_unique by blast
  ultimately show False by simp
qed

lemma llist_distinct: "llist f p xs \<Longrightarrow> distinct xs"
  by (induction xs arbitrary: p) (auto dest: llist_hd_notin_tl)

text \<open>Linking a new node behind the last one, and unlinking a node that is not the first.\<close>

lemma lseg_last: "xs \<noteq> [] \<Longrightarrow> lseg f p xs q \<Longrightarrow> f (last xs) = q"
  by (induction xs arbitrary: p) auto

lemma lseg_relink: "lseg f p xs q \<Longrightarrow> distinct xs \<Longrightarrow> xs \<noteq> [] \<Longrightarrow> lseg (f(last xs := r)) p xs r"
proof (induction xs arbitrary: p)
  case Nil
  then show ?case by simp
next
  case (Cons x xs)
  then show ?case by (cases "xs = []") (auto simp: last_in_set)
qed

lemma llist_append_last:
  assumes "llist f p xs" "xs \<noteq> []" "n \<notin> set xs" "n \<noteq> NULL"
  shows "llist (f(last xs := n, n := NULL)) p (xs @ [n])"
proof -
  have "lseg (f(last xs := n)) p xs n"
    using assms by (intro lseg_relink) (auto dest: llist_distinct)
  then have "lseg (f(last xs := n, n := NULL)) p xs n" using assms(3) by simp
  then show ?thesis using assms(4) by simp
qed

lemma llist_unlink:
  assumes "llist f p (as @ x # bs)" "as \<noteq> []"
  shows "llist (f(last as := f x)) p (as @ bs)"
proof -
  have d: "distinct (as @ x # bs)" using assms(1) by (rule llist_distinct)
  have "lseg f p as x" "llist f (f x) bs" using assms(1) by auto
  then have "lseg (f(last as := f x)) p as (f x)" using d assms(2) by (intro lseg_relink) auto
  moreover have "last as \<notin> set bs" using d last_in_set [OF assms(2)] by auto
  then have "llist (f(last as := f x)) (f x) bs" using \<open>llist f (f x) bs\<close> by simp
  ultimately show ?thesis by auto
qed

section \<open>The two list loops\<close>

text \<open>
  Walking to the end: \<^verbatim>\<open>while(aux != NULL){ previous = aux; aux = aux->next; }\<close>, returning
  \<open>previous\<close>.  Searching: the walk stops at the first node that satisfies \<open>P\<close> (or at NULL)
  and returns the pair of the previous node and that node.
\<close>

partial_function (option) walk_last :: "(ptr \<Rightarrow> ptr) \<Rightarrow> ptr \<Rightarrow> ptr \<Rightarrow> ptr option" where
  "walk_last f prev aux = (if aux = NULL then Some prev else walk_last f aux (f aux))"

partial_function (option) walk_find ::
    "(ptr \<Rightarrow> ptr) \<Rightarrow> (ptr \<Rightarrow> bool) \<Rightarrow> ptr \<Rightarrow> ptr \<Rightarrow> (ptr \<times> ptr) option" where
  "walk_find f P prev aux =
     (if aux = NULL then Some (prev, NULL)
      else if P aux then Some (prev, aux)
      else walk_find f P aux (f aux))"

lemma walk_last_llist [walk]:
  "llist f p xs \<Longrightarrow> walk_last f prev p = Some (last (prev # xs))"
proof (induction xs arbitrary: p prev)
  case Nil
  then show ?case by (simp add: walk_last.simps)
next
  case (Cons x xs)
  then show ?case by (subst walk_last.simps) (cases xs, auto)
qed

lemma walk_find_none [walk]:
  "llist f p xs \<Longrightarrow> \<forall>x\<in>set xs. \<not> P x \<Longrightarrow> walk_find f P prev p = Some (last (prev # xs), NULL)"
proof (induction xs arbitrary: p prev)
  case Nil
  then show ?case by (simp add: walk_find.simps)
next
  case (Cons x xs)
  then show ?case by (subst walk_find.simps) (cases xs, auto)
qed

lemma walk_find_hit [walk]:
  "lseg f p xs x \<Longrightarrow> \<forall>y\<in>set xs. \<not> P y \<Longrightarrow> x \<noteq> NULL \<Longrightarrow> P x \<Longrightarrow>
     walk_find f P prev p = Some (last (prev # xs), x)"
proof (induction xs arbitrary: p prev)
  case Nil
  then show ?case by (simp add: walk_find.simps)
next
  case (Cons y ys)
  then show ?case by (subst walk_find.simps) (cases ys, auto)
qed

text \<open>On a well-formed list the search returns; what it returns is determined by the first hit.\<close>

lemma walk_find_total:
  assumes "llist f p xs"
  obtains (none) "\<forall>x\<in>set xs. \<not> P x" "walk_find f P prev p = Some (last (prev # xs), NULL)"
    | (hit) as x bs where "xs = as @ x # bs" "\<forall>y\<in>set as. \<not> P y" "P x" "x \<noteq> NULL"
        "walk_find f P prev p = Some (last (prev # as), x)"
proof (cases "\<exists>x\<in>set xs. P x")
  case True
  then obtain as x bs where xs: "xs = as @ x # bs" "\<forall>y\<in>set as. \<not> P y" "P x"
    using split_list_first_prop [of xs P] by blast
  with assms have "lseg f p as x" and "x \<noteq> NULL" by auto
  with xs show thesis using hit walk_find_hit [of f p as x P prev] by blast
next
  case False
  with assms show thesis using none walk_find_none [of f p xs P prev] by blast
qed

end
