(* ===== verification/Allocator.thy ===== *)
theory Allocator
  imports Prelude
begin

text \<open>
  The contract of \<^verbatim>\<open>Kernel/include/memoryManager.h\<close>: what the kernel relies on when it asks a
  memory manager for blocks and gives them back.  Both managers of the repository (the free
  list and the buddy tree) interpret it; what follows for a client that makes any sequence of
  calls is proved once, here.
\<close>

section \<open>Blocks and client runs\<close>

text \<open>A block handed out: its first address and its length in bytes.\<close>

type_synonym block = "nat \<times> nat"

definition span :: "block \<Rightarrow> nat set" where
  "span b = {fst b ..< fst b + snd b}"

lemma span_shrink: "k \<le> l \<Longrightarrow> span (a, k) \<subseteq> span (a, l)"
  by (auto simp: span_def)

text \<open>
  The calls of a client.  A run carries the grants that are outstanding: the non-null pointers
  returned and not given back yet, each with its request.
\<close>

datatype 'r mm_call = Alloc 'r | Free ptr

type_synonym 'r grants = "(ptr \<times> 'r) list"

fun run_calls :: "('r \<Rightarrow> 's \<Rightarrow> (ptr \<times> 's) option) \<Rightarrow> (ptr \<Rightarrow> 's \<Rightarrow> 's) \<Rightarrow>
    'r mm_call list \<Rightarrow> 'r grants \<Rightarrow> 's \<Rightarrow> ('r grants \<times> 's) option" where
  "run_calls al fr [] g s = Some (g, s)"
| "run_calls al fr (Alloc r # cs) g s = do {
     (p, s1) \<leftarrow> al r s;
     run_calls al fr cs (if p = NULL then g else (p, r) # g) s1
   }"
| "run_calls al fr (Free p # cs) g s = run_calls al fr cs (filter (\<lambda>x. fst x \<noteq> p) g) (fr p s)"

lemma run_calls_append:
  "run_calls al fr (cs @ ds) g s = do { (g1, s1) \<leftarrow> run_calls al fr cs g s; run_calls al fr ds g1 s1 }"
  by (induction al fr cs g s rule: run_calls.induct) (auto split: Option.bind_splits)

text \<open>A run is admissible when every request fits and every pointer given back may be given back.\<close>

fun admissible :: "('r \<Rightarrow> bool) \<Rightarrow> ('s \<Rightarrow> ptr \<Rightarrow> bool) \<Rightarrow> ('r \<Rightarrow> 's \<Rightarrow> (ptr \<times> 's) option) \<Rightarrow>
    (ptr \<Rightarrow> 's \<Rightarrow> 's) \<Rightarrow> 'r mm_call list \<Rightarrow> 's \<Rightarrow> bool" where
  "admissible ft rel al fr [] s = True"
| "admissible ft rel al fr (Alloc r # cs) s =
     (ft r \<and> (case al r s of None \<Rightarrow> True | Some (p, s1) \<Rightarrow> admissible ft rel al fr cs s1))"
| "admissible ft rel al fr (Free p # cs) s = (rel s p \<and> admissible ft rel al fr cs (fr p s))"

text \<open>Outstanding grants do not overlap: no byte belongs to two of them.\<close>

definition grants_disjoint :: "('r \<Rightarrow> nat) \<Rightarrow> 'r grants \<Rightarrow> bool" where
  "grants_disjoint sz g \<longleftrightarrow>
     (\<forall>i<length g. \<forall>j<i. span (unat (fst (g ! i)), sz (snd (g ! i))) \<inter>
                         span (unat (fst (g ! j)), sz (snd (g ! j))) = {})"

section \<open>The allocation contract\<close>

locale block_allocator =
  fixes inv :: "'s \<Rightarrow> bool"
    and live :: "'s \<Rightarrow> block set"
    and fits :: "'r \<Rightarrow> bool"
    and req_size :: "'r \<Rightarrow> nat"
    and alloc :: "'r \<Rightarrow> 's \<Rightarrow> (ptr \<times> 's) option"
  assumes alloc_returns: "inv s \<Longrightarrow> fits r \<Longrightarrow> \<exists>p s'. alloc r s = Some (p, s') \<and> inv s'"
    and alloc_refused: "inv s \<Longrightarrow> fits r \<Longrightarrow> alloc r s = Some (NULL, s') \<Longrightarrow> live s' = live s"
    and alloc_granted: "inv s \<Longrightarrow> fits r \<Longrightarrow> alloc r s = Some (p, s') \<Longrightarrow> p \<noteq> NULL \<Longrightarrow>
      \<exists>l \<ge> req_size r. unat p \<notin> fst ` live s \<and> live s' = insert (unat p, l) (live s)"
    and live_disjoint: "inv s \<Longrightarrow> b \<in> live s \<Longrightarrow> c \<in> live s \<Longrightarrow> b \<noteq> c \<Longrightarrow> span b \<inter> span c = {}"
begin

text \<open>Every grant is backed by a live block that starts there and is long enough.\<close>

definition backed :: "'r grants \<Rightarrow> 's \<Rightarrow> bool" where
  "backed g s \<longleftrightarrow> distinct (map fst g) \<and>
     (\<forall>(p, r)\<in>set g. \<exists>l \<ge> req_size r. (unat p, l) \<in> live s)"

lemma backed_Nil [simp]: "backed [] s"
  by (simp add: backed_def)

lemma backedD: "backed g s \<Longrightarrow> (p, r) \<in> set g \<Longrightarrow> \<exists>l \<ge> req_size r. (unat p, l) \<in> live s"
  by (auto simp: backed_def)

lemma backed_disjoint: "inv s \<Longrightarrow> backed g s \<Longrightarrow> grants_disjoint req_size g"
  unfolding grants_disjoint_def
proof (intro allI impI)
  fix i j assume inv: "inv s" and b: "backed g s" and ij: "i < length g" "j < i"
  obtain p r q t where pr: "g ! i = (p, r)" and qt: "g ! j = (q, t)" by fastforce
  have mem: "(p, r) \<in> set g" "(q, t) \<in> set g" using pr qt ij by (metis nth_mem order.strict_trans)+
  have "map fst g ! i \<noteq> map fst g ! j"
    using b ij nth_eq_iff_index_eq [of "map fst g" i j] by (auto simp: backed_def)
  then have "p \<noteq> q" using pr qt ij by simp
  moreover obtain l k where "req_size r \<le> l" "(unat p, l) \<in> live s" "req_size t \<le> k" "(unat q, k) \<in> live s"
    using backedD [OF b mem(1)] backedD [OF b mem(2)] by blast
  ultimately show "span (unat (fst (g ! i)), req_size (snd (g ! i))) \<inter>
      span (unat (fst (g ! j)), req_size (snd (g ! j))) = {}"
    using live_disjoint [OF inv, of "(unat p, l)" "(unat q, k)"] pr qt
      span_shrink [of "req_size r" l "unat p"] span_shrink [of "req_size t" k "unat q"] by auto
qed

lemma alloc_backed:
  assumes "inv s" "fits r" "backed g s" "alloc r s = Some (p, s')"
  shows "inv s'" and "backed (if p = NULL then g else (p, r) # g) s'"
proof -
  show "inv s'" using alloc_returns [OF assms(1,2)] assms(4) by auto
  show "backed (if p = NULL then g else (p, r) # g) s'"
  proof (cases "p = NULL")
    case True
    then show ?thesis using assms alloc_refused by (auto simp: backed_def)
  next
    case False
    obtain l where l: "req_size r \<le> l" "unat p \<notin> fst ` live s" "live s' = insert (unat p, l) (live s)"
      using alloc_granted [OF assms(1,2,4) False] by blast
    have "p \<notin> fst ` set g"
    proof
      assume "p \<in> fst ` set g"
      then obtain t where "(p, t) \<in> set g" by auto
      then obtain k where "(unat p, k) \<in> live s" using assms(3) by (fastforce simp: backed_def)
      then show False using l(2) by force
    qed
    then show ?thesis using assms(3) l(1,3) False by (fastforce simp: backed_def)
  qed
qed

end

section \<open>Giving blocks back\<close>

locale block_manager = block_allocator inv live fits req_size alloc
  for inv :: "'s \<Rightarrow> bool" and live and fits :: "'r \<Rightarrow> bool" and req_size and alloc +
  fixes releasable :: "'s \<Rightarrow> ptr \<Rightarrow> bool"
    and release :: "ptr \<Rightarrow> 's \<Rightarrow> 's"
  assumes release_inv: "inv s \<Longrightarrow> releasable s p \<Longrightarrow> inv (release p s)"
    and release_live: "inv s \<Longrightarrow> releasable s p \<Longrightarrow>
      live (release p s) = {b \<in> live s. fst b \<noteq> unat p}"
begin

lemma release_backed:
  assumes "inv s" "releasable s p" "backed g s"
  shows "backed (filter (\<lambda>x. fst x \<noteq> p) g) (release p s)"
proof -
  have "distinct (map fst (filter (\<lambda>x. fst x \<noteq> p) g))"
    using assms(3) by (simp add: backed_def distinct_map_filter)
  then show ?thesis using assms(3) release_live [OF assms(1,2)] by (fastforce simp: backed_def)
qed

text \<open>Any admissible run returns, and its outstanding grants never overlap.\<close>

lemma run_backed:
  "inv s \<Longrightarrow> backed g s \<Longrightarrow> admissible fits releasable alloc release cs s \<Longrightarrow>
     \<exists>g' s'. run_calls alloc release cs g s = Some (g', s') \<and> inv s' \<and> backed g' s'"
proof (induction cs arbitrary: g s)
  case Nil
  then show ?case by simp
next
  case (Cons c cs)
  show ?case
  proof (cases c)
    case (Free p)
    then show ?thesis
      using Cons.IH [of "release p s" "filter (\<lambda>x. fst x \<noteq> p) g"] Cons.prems
        release_inv release_backed by simp
  next
    case (Alloc r)
    then have r: "fits r" using Cons.prems by simp
    obtain p s1 where a: "alloc r s = Some (p, s1)" using alloc_returns Cons.prems r by blast
    show ?thesis
      using Cons.IH [of s1 "if p = NULL then g else (p, r) # g"] Cons.prems Alloc a
        alloc_backed [OF Cons.prems(1) r Cons.prems(2) a] by simp
  qed
qed

lemma run_disjoint:
  assumes "inv s" "admissible fits releasable alloc release cs s"
  shows "\<exists>g s'. run_calls alloc release cs [] s = Some (g, s') \<and> inv s' \<and> grants_disjoint req_size g"
  using run_backed [OF assms(1) backed_Nil assms(2)] backed_disjoint by blast

end

section \<open>Clients that use their blocks\<close>

text \<open>
  A client also writes into the blocks it holds: \<open>ClientWrite p w\<close> puts \<open>w\<close> into the bytes that were
  asked for with the grant at \<open>p\<close>, and does nothing when there is no such grant.  The managers
  keep their headers in the same memory, so what a client leaves there is part of their state.
\<close>

datatype ('r, 'w) client_call = ManagerCall "'r mm_call" | ClientWrite ptr 'w

definition write_in :: "('r \<Rightarrow> nat) \<Rightarrow> (ptr \<Rightarrow> nat \<Rightarrow> 'w \<Rightarrow> 's \<Rightarrow> 's) \<Rightarrow> 'r grants \<Rightarrow> ptr \<Rightarrow> 'w \<Rightarrow> 's \<Rightarrow> 's" where
  "write_in sz wr g p w s = (case map_of g p of None \<Rightarrow> s | Some r \<Rightarrow> wr p (sz r) w s)"

fun run_client :: "('r \<Rightarrow> nat) \<Rightarrow> ('r \<Rightarrow> 's \<Rightarrow> (ptr \<times> 's) option) \<Rightarrow> (ptr \<Rightarrow> 's \<Rightarrow> 's) \<Rightarrow>
    (ptr \<Rightarrow> nat \<Rightarrow> 'w \<Rightarrow> 's \<Rightarrow> 's) \<Rightarrow> ('r, 'w) client_call list \<Rightarrow> 'r grants \<Rightarrow> 's \<Rightarrow> ('r grants \<times> 's) option" where
  "run_client sz al fr wr [] g s = Some (g, s)"
| "run_client sz al fr wr (ManagerCall c # cs) g s = do {
     (g1, s1) \<leftarrow> run_calls al fr [c] g s;
     run_client sz al fr wr cs g1 s1
   }"
| "run_client sz al fr wr (ClientWrite p w # cs) g s = run_client sz al fr wr cs g (write_in sz wr g p w s)"

fun client_ok :: "('r \<Rightarrow> bool) \<Rightarrow> ('s \<Rightarrow> ptr \<Rightarrow> bool) \<Rightarrow> ('r \<Rightarrow> nat) \<Rightarrow> ('r \<Rightarrow> 's \<Rightarrow> (ptr \<times> 's) option) \<Rightarrow>
    (ptr \<Rightarrow> 's \<Rightarrow> 's) \<Rightarrow> (ptr \<Rightarrow> nat \<Rightarrow> 'w \<Rightarrow> 's \<Rightarrow> 's) \<Rightarrow> ('r, 'w) client_call list \<Rightarrow> 'r grants \<Rightarrow> 's \<Rightarrow> bool" where
  "client_ok ft rel sz al fr wr [] g s = True"
| "client_ok ft rel sz al fr wr (ManagerCall c # cs) g s =
     (admissible ft rel al fr [c] s \<and>
      (case run_calls al fr [c] g s of None \<Rightarrow> True | Some (g1, s1) \<Rightarrow> client_ok ft rel sz al fr wr cs g1 s1))"
| "client_ok ft rel sz al fr wr (ClientWrite p w # cs) g s =
     client_ok ft rel sz al fr wr cs g (write_in sz wr g p w s)"

locale written_manager = block_manager inv live fits req_size alloc releasable release
  for inv :: "'s \<Rightarrow> bool" and live and fits :: "'r \<Rightarrow> bool" and req_size and alloc and releasable and release +
  fixes wr :: "ptr \<Rightarrow> nat \<Rightarrow> 'w \<Rightarrow> 's \<Rightarrow> 's"
  assumes write_keeps: "inv s \<Longrightarrow> (unat p, l) \<in> live s \<Longrightarrow> n \<le> l \<Longrightarrow>
      inv (wr p n w s) \<and> live (wr p n w s) = live s"
begin

lemma write_in_backed:
  assumes "inv s" "backed g s"
  shows "inv (write_in req_size wr g p w s)" and "backed g (write_in req_size wr g p w s)"
proof -
  have "inv (write_in req_size wr g p w s) \<and> backed g (write_in req_size wr g p w s)"
  proof (cases "map_of g p")
    case None
    then show ?thesis using assms by (simp add: write_in_def)
  next
    case (Some r)
    then obtain l where "req_size r \<le> l" "(unat p, l) \<in> live s"
      using backedD [OF assms(2)] map_of_SomeD by metis
    then show ?thesis using assms write_keeps Some by (simp add: write_in_def backed_def)
  qed
  then show "inv (write_in req_size wr g p w s)" "backed g (write_in req_size wr g p w s)" by auto
qed

lemma client_backed:
  "inv s \<Longrightarrow> backed g s \<Longrightarrow> client_ok fits releasable req_size alloc release wr cs g s \<Longrightarrow>
     \<exists>g' s'. run_client req_size alloc release wr cs g s = Some (g', s') \<and> inv s' \<and> backed g' s'"
proof (induction cs arbitrary: g s)
  case Nil
  then show ?case by simp
next
  case (Cons c cs)
  show ?case
  proof (cases c)
    case (ClientWrite p w)
    then show ?thesis using Cons.IH [OF write_in_backed [OF Cons.prems(1,2)]] Cons.prems(3) by simp
  next
    case (ManagerCall x)
    then obtain g1 s1 where "run_calls alloc release [x] g s = Some (g1, s1)" "inv s1" "backed g1 s1"
      using run_backed [OF Cons.prems(1,2), of "[x]"] Cons.prems(3) by auto
    then show ?thesis using Cons.IH [of s1 g1] Cons.prems(3) ManagerCall by simp
  qed
qed

lemma client_disjoint:
  assumes "inv s" "client_ok fits releasable req_size alloc release wr cs [] s"
  shows "\<exists>g s'. run_client req_size alloc release wr cs [] s = Some (g, s') \<and> inv s' \<and> grants_disjoint req_size g"
  using client_backed [OF assms(1) backed_Nil assms(2)] backed_disjoint by blast

end

end
