(* ===== verification/Buddy.thy ===== *)
theory Buddy
  imports Allocator
begin

text \<open>
  The other memory manager, \<^verbatim>\<open>Kernel/memoryManagement/buddyMemoryManager.c\<close>, built with
  \<^verbatim>\<open>make buddy\<close>: a binary tree of headers kept inside the managed memory.  Every header is
  followed by its payload, and a split node keeps its two halves inside its payload.
\<close>

section \<open>Data\<close>

datatype MemoryStatus = EMPTY | PARTIAL | FULL

record MemNode =
  bn_right :: ptr
  bn_left :: ptr
  bn_size :: u64
  bn_status :: MemoryStatus

type_synonym bheap = "ptr \<Rightarrow> MemNode"

record BuddyMemoryManager =
  b_root :: ptr
  b_memAllocated :: u64
  b_totalSize :: u64
  b_freeMemory :: u64

type_synonym bstate = "BuddyMemoryManager \<times> bheap"

definition sizeof_MemNode :: u64 where "sizeof_MemNode = 32"
definition BLOCK :: u64 where "BLOCK = 0x1000"

definition IS_POWER_OF_2 :: "u64 \<Rightarrow> bool" where
  "IS_POWER_OF_2 x \<longleftrightarrow> and x (x - 1) = 0"

section \<open>Operations\<close>

text \<open>\<^verbatim>\<open>initMemory\<close> sets up the root header; the counters keep the values they have.\<close>

definition buddy_initMemory :: "ptr \<Rightarrow> u64 \<Rightarrow> bstate \<Rightarrow> bstate" where
  "buddy_initMemory init sz s =
    (let (M, h) = s
     in (M\<lparr>b_root := init\<rparr>,
         h(init := \<lparr>bn_right = NULL, bn_left = NULL, bn_size = sz - sizeof_MemNode, bn_status = EMPTY\<rparr>)))"

definition align :: "u64 \<Rightarrow> u64" where
  "align size0 =
    (let size1 = or size0 (drop_bit 1 size0);
         size2 = or size1 (drop_bit 2 size1);
         size3 = or size2 (drop_bit 4 size2);
         size4 = or size3 (drop_bit 8 size3);
         size5 = or size4 (drop_bit 16 size4)
     in size5 + 1)"

definition set_left :: "ptr \<Rightarrow> ptr \<Rightarrow> bheap \<Rightarrow> bheap" where
  "set_left n p h = h(n := (h n)\<lparr>bn_left := p\<rparr>)"

definition set_right :: "ptr \<Rightarrow> ptr \<Rightarrow> bheap \<Rightarrow> bheap" where
  "set_right n p h = h(n := (h n)\<lparr>bn_right := p\<rparr>)"

definition set_status :: "ptr \<Rightarrow> MemoryStatus \<Rightarrow> bheap \<Rightarrow> bheap" where
  "set_status n st h = h(n := (h n)\<lparr>bn_status := st\<rparr>)"

text \<open>A new child gets its size and status; its own child pointers are left as they are in memory.\<close>

definition init_child :: "ptr \<Rightarrow> u64 \<Rightarrow> bheap \<Rightarrow> bheap" where
  "init_child n sz h = h(n := (h n)\<lparr>bn_size := sz, bn_status := EMPTY\<rparr>)"

definition charge :: "u64 \<Rightarrow> BuddyMemoryManager \<Rightarrow> BuddyMemoryManager" where
  "charge n M = M\<lparr>b_memAllocated := b_memAllocated M + n, b_freeMemory := b_freeMemory M - n\<rparr>"

definition refund :: "u64 \<Rightarrow> BuddyMemoryManager \<Rightarrow> BuddyMemoryManager" where
  "refund n M = M\<lparr>b_freeMemory := b_freeMemory M + n, b_memAllocated := b_memAllocated M - n\<rparr>"

definition setDescendants :: "ptr \<Rightarrow> bstate \<Rightarrow> bstate" where
  "setDescendants node s =
    (let (M, h) = s;
         descendantSize = bn_size (h node) div 2;
         left = node + sizeof_MemNode;
         h1 = set_left node left h;
         limit = b_root M + bn_size (h1 (b_root M)) + sizeof_MemNode
     in if limit \<le> left then (M, h1)
        else
          let h2 = init_child left (descendantSize - sizeof_MemNode) h1;
              M2 = charge sizeof_MemNode M;
              right = node + descendantSize + sizeof_MemNode;
              h3 = set_right node right h2
          in if limit \<le> right then (M2, h3)
             else (charge sizeof_MemNode M2, init_child right (descendantSize - sizeof_MemNode) h3))"

text \<open>The test as it is written: it holds when a child is missing.\<close>

definition hasDescendants :: "bheap \<Rightarrow> ptr \<Rightarrow> bool" where
  "hasDescendants h node \<longleftrightarrow> bn_left (h node) = NULL \<or> bn_right (h node) = NULL"

definition endRecursiveCall :: "ptr \<Rightarrow> bstate \<Rightarrow> bstate" where
  "endRecursiveCall node s =
    (let (M, h) = s;
         l = bn_status (h (bn_left (h node)));
         r = bn_status (h (bn_right (h node)))
     in if hasDescendants h node
        then (refund (bn_size (h node)) M, set_status node EMPTY h)
        else if l = FULL \<and> r = FULL then (M, set_status node FULL h)
        else if l = FULL \<or> r = FULL \<or> l = PARTIAL \<or> r = PARTIAL then (M, set_status node PARTIAL h)
        else (refund (bn_size (h node)) M, set_status node EMPTY h))"

text \<open>The recursion follows the pointers it finds in memory, so it need not end.\<close>

partial_function (option) genericAllocMemoryRec ::
    "u32 \<Rightarrow> ptr \<Rightarrow> bstate \<Rightarrow> (ptr \<times> bstate) option" where
  "genericAllocMemoryRec sz node s =
    (let (M, h) = s in
     if node = NULL \<or> bn_status (h node) = FULL then Some (NULL, s)
     else if bn_left (h node) \<noteq> NULL \<or> bn_right (h node) \<noteq> NULL then do {
       (a, s1) \<leftarrow> genericAllocMemoryRec sz (bn_left (h node)) s;
       (b, s2) \<leftarrow> (if a = NULL then genericAllocMemoryRec sz (bn_right (snd s1 node)) s1
                  else Some (a, s1));
       Some (b, endRecursiveCall node s2)
     }
     else if bn_size (h node) < ucast sz then Some (NULL, s)
     else if ucast sz \<le> bn_size (h node) div 2 then do {
       let s1 = setDescendants node s;
       (a, s2) \<leftarrow> genericAllocMemoryRec sz (bn_left (snd s1 node)) s1;
       Some (a, endRecursiveCall node s2)
     }
     else Some (node + sizeof_MemNode,
                charge (bn_size (h node) + sizeof_MemNode) M, set_status node FULL h))"

text \<open>The size is a 64-bit integer here and an \<^verbatim>\<open>unsigned int\<close> in the recursion.\<close>

definition buddy_genericAllocMemory :: "u64 \<Rightarrow> bstate \<Rightarrow> (ptr \<times> bstate) option" where
  "buddy_genericAllocMemory sz s =
    (let (M, h) = s in
     if BLOCK \<le> sz \<and> bn_size (h (b_root M)) < sz then Some (NULL, s)
     else
       let size1 = (if sz < BLOCK then BLOCK else sz);
           size2 = (if IS_POWER_OF_2 size1 then size1 else align size1)
       in genericAllocMemoryRec (ucast size2) (b_root M) s)"

partial_function (option) genericFreeRec :: "ptr \<Rightarrow> ptr \<Rightarrow> bstate \<Rightarrow> bstate option" where
  "genericFreeRec memoryToFree node s =
    (let (M, h) = s in
     if node = NULL then Some s
     else if bn_left (h node) \<noteq> NULL \<or> bn_right (h node) \<noteq> NULL then do {
       s1 \<leftarrow> (if bn_right (h node) \<noteq> NULL \<and> memoryToFree < bn_right (h node) + sizeof_MemNode
              then genericFreeRec memoryToFree (bn_left (h node)) s
              else genericFreeRec memoryToFree (bn_right (h node)) s);
       let (M2, h2) = endRecursiveCall node s1;
       if bn_status (h2 node) = EMPTY
       then Some (refund (2 * sizeof_MemNode) M2, set_left node NULL (set_right node NULL h2))
       else Some (M2, h2)
     }
     else if bn_status (h node) = FULL \<and> node + sizeof_MemNode = memoryToFree
     then Some (refund (bn_size (h node)) M, set_status node EMPTY h)
     else Some s)"

section \<open>The two managers\<close>

record buddy_globals =
  b_kernelMemoryManager :: BuddyMemoryManager
  b_userlandMemoryManager :: BuddyMemoryManager
  b_heap :: bheap
  b_PCBNodeSize :: u64
  b_semNodeSize :: u64
  b_IPCBufferSize :: u64
  b_timerSize :: u64

definition buddy_createMemoryManager ::
    "ptr \<Rightarrow> u64 \<Rightarrow> u64 \<times> u64 \<times> u64 \<times> u64 \<Rightarrow> buddy_globals \<Rightarrow> buddy_globals" where
  "buddy_createMemoryManager init sz sizes g =
    (let (um, h1) = buddy_initMemory init sz (b_userlandMemoryManager g, b_heap g);
         (km, h2) = buddy_initMemory 0x50000 0x140000 (b_kernelMemoryManager g, h1);
         (pcbs, sems, ipcs, timers) = sizes
     in g\<lparr>b_userlandMemoryManager := um, b_kernelMemoryManager := km, b_heap := h2,
          b_PCBNodeSize := pcbs, b_semNodeSize := sems, b_IPCBufferSize := ipcs, b_timerSize := timers\<rparr>)"

definition buddy_userAlloc :: "u64 \<Rightarrow> buddy_globals \<Rightarrow> (ptr \<times> buddy_globals) option" where
  "buddy_userAlloc n g = do {
     (p, M, h) \<leftarrow> buddy_genericAllocMemory n (b_userlandMemoryManager g, b_heap g);
     Some (p, g\<lparr>b_userlandMemoryManager := M, b_heap := h\<rparr>)
   }"

definition buddy_kernelAlloc :: "u64 \<Rightarrow> buddy_globals \<Rightarrow> (ptr \<times> buddy_globals) option" where
  "buddy_kernelAlloc n g = do {
     (p, M, h) \<leftarrow> buddy_genericAllocMemory n (b_kernelMemoryManager g, b_heap g);
     Some (p, g\<lparr>b_kernelMemoryManager := M, b_heap := h\<rparr>)
   }"

definition buddy_allocMemory :: "u64 \<Rightarrow> buddy_globals \<Rightarrow> (ptr \<times> buddy_globals) option" where
  "buddy_allocMemory n g = buddy_userAlloc n g"

definition buddy_allocPCB :: "buddy_globals \<Rightarrow> (ptr \<times> buddy_globals) option" where
  "buddy_allocPCB g = buddy_kernelAlloc (b_PCBNodeSize g) g"

definition buddy_allocSemaphore :: "buddy_globals \<Rightarrow> (ptr \<times> buddy_globals) option" where
  "buddy_allocSemaphore g = buddy_kernelAlloc (b_semNodeSize g) g"

definition buddy_allocBuffer :: "buddy_globals \<Rightarrow> (ptr \<times> buddy_globals) option" where
  "buddy_allocBuffer g = buddy_kernelAlloc (b_IPCBufferSize g) g"

definition buddy_allocTimer :: "buddy_globals \<Rightarrow> (ptr \<times> buddy_globals) option" where
  "buddy_allocTimer g = buddy_kernelAlloc (b_timerSize g) g"

definition buddy_freeMemory :: "ptr \<Rightarrow> buddy_globals \<Rightarrow> buddy_globals option" where
  "buddy_freeMemory p g = do {
     (M, h) \<leftarrow> genericFreeRec p (b_root (b_userlandMemoryManager g)) (b_userlandMemoryManager g, b_heap g);
     Some (g\<lparr>b_userlandMemoryManager := M, b_heap := h\<rparr>)
   }"

text \<open>\<^verbatim>\<open>freePCB\<close>, \<^verbatim>\<open>freeSemaphore\<close>, \<^verbatim>\<open>freeBuffer\<close> and \<^verbatim>\<open>freeTimer\<close> have this body.\<close>

definition buddy_kernelFree :: "ptr \<Rightarrow> buddy_globals \<Rightarrow> buddy_globals option" where
  "buddy_kernelFree p g = do {
     (M, h) \<leftarrow> genericFreeRec p (b_root (b_kernelMemoryManager g)) (b_kernelMemoryManager g, b_heap g);
     Some (g\<lparr>b_kernelMemoryManager := M, b_heap := h\<rparr>)
   }"

text \<open>
  \<^verbatim>\<open>copyBlocks\<close> computes both headers from the uninitialised variables it is declaring, so it
  has no defined behaviour; \<^verbatim>\<open>reAllocMemory\<close> reaches it whenever the block has to grow.
\<close>

definition buddy_copyBlocks :: "ptr \<Rightarrow> ptr \<Rightarrow> buddy_globals \<Rightarrow> buddy_globals option" where
  "buddy_copyBlocks target source g = None"

definition buddy_reAllocMemory :: "ptr \<Rightarrow> u64 \<Rightarrow> buddy_globals \<Rightarrow> (ptr \<times> buddy_globals) option" where
  "buddy_reAllocMemory p newSize g =
    (if newSize \<le> bn_size (b_heap g (p - sizeof_MemNode)) then Some (p, g)
     else do {
       (q, g1) \<leftarrow> buddy_allocMemory newSize g;
       g2 \<leftarrow> buddy_copyBlocks q p g1;
       Some (q, g2)
     })"

definition buddy_getFreeMemoryAmount :: "buddy_globals \<Rightarrow> u64" where
  "buddy_getFreeMemoryAmount g = b_freeMemory (b_userlandMemoryManager g)"

definition buddy_getUsedMemoryAmount :: "buddy_globals \<Rightarrow> u64" where
  "buddy_getUsedMemoryAmount g = b_memAllocated (b_userlandMemoryManager g)"

section \<open>Rounding to a power of two\<close>

definition smear :: "nat \<Rightarrow> u64 \<Rightarrow> u64" where
  "smear k x = or x (drop_bit k x)"

lemma smear_bits: "(\<And>i. bit x i = (\<exists>d<k. bit n (i + d))) \<Longrightarrow> bit (smear k x) i = (\<exists>d<k + k. bit n (i + d))"
proof -
  assume x: "\<And>i. bit x i = (\<exists>d<k. bit n (i + d))"
  have "bit (smear k x) i = ((\<exists>d<k. bit n (i + d)) \<or> (\<exists>d<k. bit n (k + i + d)))"
    by (simp add: smear_def bit_or_iff bit_drop_bit_eq x)
  also have "\<dots> = (\<exists>d<k + k. bit n (i + d))"
  proof
    assume "(\<exists>d<k. bit n (i + d)) \<or> (\<exists>d<k. bit n (k + i + d))"
    then obtain d where "d < k" "bit n (i + d) \<or> bit n (k + i + d)" by blast
    then show "\<exists>d<k + k. bit n (i + d)"
      by (auto intro: exI [of _ d] exI [of _ "k + d"] simp: add.commute add.left_commute)
  next
    assume "\<exists>d<k + k. bit n (i + d)"
    then obtain d where d: "d < k + k" "bit n (i + d)" by blast
    then show "(\<exists>d<k. bit n (i + d)) \<or> (\<exists>d<k. bit n (k + i + d))"
    proof (cases "d < k")
      case False
      then have "k + i + (d - k) = i + d" "d - k < k" using d by simp_all
      then show ?thesis using d by metis
    qed auto
  qed
  finally show ?thesis .
qed

lemma align_smear: "align n = smear 16 (smear 8 (smear 4 (smear 2 (smear 1 n)))) + 1"
  by (simp add: align_def smear_def Let_def)

lemma align_bits: "bit (smear 16 (smear 8 (smear 4 (smear 2 (smear 1 n))))) i = (\<exists>d<32. bit n (i + d))"
proof -
  have 0: "bit n i = (\<exists>d<1. bit n (i + d))" for i by simp
  have 1: "bit (smear 1 n) i = (\<exists>d<2. bit n (i + d))" for i
    using smear_bits [OF 0, of i] by (simp add: numeral_2_eq_2)
  have 2: "bit (smear 2 (smear 1 n)) i = (\<exists>d<4. bit n (i + d))" for i
    using smear_bits [of "smear 1 n" 2 n, OF 1, of i] by simp
  have 3: "bit (smear 4 (smear 2 (smear 1 n))) i = (\<exists>d<8. bit n (i + d))" for i
    using smear_bits [of "smear 2 (smear 1 n)" 4 n, OF 2, of i] by simp
  have 4: "bit (smear 8 (smear 4 (smear 2 (smear 1 n)))) i = (\<exists>d<16. bit n (i + d))" for i
    using smear_bits [of "smear 4 (smear 2 (smear 1 n))" 8 n, OF 3, of i] by simp
  show ?thesis
    using smear_bits [of "smear 8 (smear 4 (smear 2 (smear 1 n)))" 16 n, OF 4, of i] by simp
qed

lemma bit_iff_odd_unat: "bit (n::u64) i = odd (unat n div 2 ^ i)"
proof -
  have "odd (unat n div 2 ^ i) = bit (unat n) i" by (simp add: bit_iff_odd)
  also have "\<dots> = bit n i" using bit_imp_le_length [of n i] by (auto simp: bit_unsigned_iff)
  finally show ?thesis by simp
qed

lemma align_next_power:
  assumes "2 ^ k \<le> unat n" "unat n < 2 ^ Suc k" "k < 32"
  shows "align n = 2 ^ Suc k"
proof -
  have "unat n div 2 ^ k = 1" using assms(1,2) by (intro div_nat_eqI) auto
  then have top: "bit n k" by (simp add: bit_iff_odd_unat)
  have hi: "\<not> bit n j" if "k < j" for j
  proof -
    have "(2::nat) ^ Suc k \<le> 2 ^ j" using that by (intro power_increasing) auto
    then have "unat n div 2 ^ j = 0" using assms(2) by simp
    then show ?thesis by (simp add: bit_iff_odd_unat)
  qed
  have "smear 16 (smear 8 (smear 4 (smear 2 (smear 1 n)))) = mask (Suc k)"
  proof (rule bit_word_eqI)
    fix i
    have "(\<exists>d<32. bit n (i + d)) = (i < Suc k)"
    proof
      show "\<exists>d<32. bit n (i + d) \<Longrightarrow> i < Suc k" using hi by (metis leI less_Suc_eq_le not_less_eq trans_less_add1)
      show "i < Suc k \<Longrightarrow> \<exists>d<32. bit n (i + d)" using top assms(3) by (intro exI [of _ "k - i"]) auto
    qed
    then show "bit (smear 16 (smear 8 (smear 4 (smear 2 (smear 1 n))))) i = bit (mask (Suc k) :: u64) i"
      unfolding align_bits using assms(3) by (auto simp: bit_mask_iff)
  qed
  then show ?thesis by (simp add: align_smear mask_eq_exp_minus_1)
qed

end
