(* ===== verification/Lib.thy ===== *)
theory Lib
  imports Prelude
begin

text \<open>
  The byte routines of \<^verbatim>\<open>Kernel/lib.c\<close>, on the machine's memory as a map from addresses to
  bytes.  \<open>memcpy\<close> has a fast path that copies 32-bit words when everything is aligned; it is
  shown to do what the byte loop does.
\<close>

type_synonym bytes = "ptr \<Rightarrow> u8"

section \<open>\<^verbatim>\<open>memset\<close>\<close>

text \<open>\<^verbatim>\<open>while(length--) dst[length] = chr;\<close> counts down, so the highest byte is written first.\<close>

fun memset_loop :: "bytes \<Rightarrow> ptr \<Rightarrow> u8 \<Rightarrow> nat \<Rightarrow> bytes" where
  "memset_loop m dst chr 0 = m"
| "memset_loop m dst chr (Suc n) = memset_loop (m(dst + of_nat n := chr)) dst chr n"

definition memset :: "bytes \<Rightarrow> ptr \<Rightarrow> u32 \<Rightarrow> u64 \<Rightarrow> bytes" where
  "memset m destination c len = memset_loop m destination (ucast c) (unat len)"

lemma memset_loop_eq:
  "memset_loop m dst chr n = (\<lambda>a. if \<exists>i<n. a = dst + of_nat i then chr else m a)"
proof (induction n arbitrary: m)
  case 0
  then show ?case by simp
next
  case (Suc n)
  then show ?case by (auto simp: less_Suc_eq fun_eq_iff)
qed

section \<open>\<^verbatim>\<open>memcpy\<close>\<close>

text \<open>The two loops: byte by byte, and word by word (the four bytes are read before any is written).\<close>

fun copy_bytes :: "bytes \<Rightarrow> ptr \<Rightarrow> ptr \<Rightarrow> nat \<Rightarrow> nat \<Rightarrow> bytes" where
  "copy_bytes m d s i 0 = m"
| "copy_bytes m d s i (Suc k) = copy_bytes (m(d + of_nat i := m (s + of_nat i))) d s (Suc i) k"

definition copy_word :: "bytes \<Rightarrow> ptr \<Rightarrow> ptr \<Rightarrow> bytes" where
  "copy_word m d s = m(d := m s, d + 1 := m (s + 1), d + 2 := m (s + 2), d + 3 := m (s + 3))"

fun copy_words :: "bytes \<Rightarrow> ptr \<Rightarrow> ptr \<Rightarrow> nat \<Rightarrow> nat \<Rightarrow> bytes" where
  "copy_words m d s i 0 = m"
| "copy_words m d s i (Suc k) =
     copy_words (copy_word m (d + 4 * of_nat i) (s + 4 * of_nat i)) d s (Suc i) k"

definition memcpy :: "bytes \<Rightarrow> ptr \<Rightarrow> ptr \<Rightarrow> u64 \<Rightarrow> bytes" where
  "memcpy m destination source len =
    (if destination mod 4 = 0 \<and> source mod 4 = 0 \<and> len mod 4 = 0
     then copy_words m destination source 0 (unat (len div 4))
     else copy_bytes m destination source 0 (unat len))"

lemma mod4_unat: "(a::u64) mod 4 = 0 \<longleftrightarrow> unat a mod 4 = 0"
proof -
  have "unat (a mod 4) = unat a mod 4" by (simp add: unat_mod)
  then show ?thesis by (metis unat_eq_0)
qed

lemma mod4_unat_add:
  assumes "(a::u64) mod 4 = 0"
  shows "unat (a + of_nat i) mod 4 = i mod 4"
proof -
  have "unat (a + of_nat i) mod 4 = (unat a + i) mod 2 ^ 64 mod 4"
    by (simp add: unat_word_ariths unat_of_nat mod_simps)
  also have "\<dots> = (unat a + i) mod 4"
    by (rule mod_mod_cancel) simp
  also have "\<dots> = i mod 4" using assms by (metis add.left_neutral mod_add_left_eq mod4_unat)
  finally show ?thesis .
qed

lemma aligned_offset:
  fixes a b :: u64
  assumes "a mod 4 = 0" "b mod 4 = 0" "a + of_nat i = b + of_nat j" "i < 4" "j < 4"
  shows "i = j"
  using mod4_unat_add [OF assms(1), of i] mod4_unat_add [OF assms(2), of j] assms(3-5) by simp

lemma copy_word_bytes:
  assumes "d mod 4 = 0" "s mod 4 = 0"
  shows "copy_word m d s = copy_bytes m d s 0 4"
proof -
  have n: "(4::nat) = Suc (Suc (Suc (Suc 0)))" by simp
  have ne: "s + of_nat j \<noteq> d + of_nat i" if "i < j" "j < 4" for i j
    using aligned_offset [OF assms(2,1), of j i] that by auto
  show ?thesis
    unfolding n copy_word_def
    using ne [of 0 1] ne [of 0 2] ne [of 0 3] ne [of 1 2] ne [of 1 3] ne [of 2 3] by simp
qed

lemma copy_bytes_shift: "copy_bytes m (d + of_nat c) (s + of_nat c) i k = copy_bytes m d s (c + i) k"
  by (induction k arbitrary: m i) (simp_all add: algebra_simps)

lemma copy_bytes_add: "copy_bytes m d s i (j + k) = copy_bytes (copy_bytes m d s i j) d s (i + j) k"
  by (induction j arbitrary: m i) simp_all

lemma copy_words_bytes:
  assumes "d mod 4 = 0" "s mod 4 = 0"
  shows "copy_words m d s i k = copy_bytes m d s (4 * i) (4 * k)"
proof (induction k arbitrary: m i)
  case 0
  then show ?case by simp
next
  case (Suc k)
  have al: "(d + 4 * of_nat i) mod 4 = 0" "(s + 4 * of_nat i) mod 4 = 0"
    using mod4_unat_add [OF assms(1), of "4 * i"] mod4_unat_add [OF assms(2), of "4 * i"]
    by (simp_all add: mod4_unat)
  have "copy_word m (d + 4 * of_nat i) (s + 4 * of_nat i) = copy_bytes m d s (4 * i) 4"
    using copy_word_bytes [OF al, of m] copy_bytes_shift [of m d "4 * i" s 0 4] by simp
  then show ?case
    using Suc.IH copy_bytes_add [of m d s "4 * i" 4 "4 * k"] by (simp add: algebra_simps)
qed

lemma memcpy_bytewise:
  "memcpy m destination source len = copy_bytes m destination source 0 (unat len)"
proof (cases "destination mod 4 = 0 \<and> source mod 4 = 0 \<and> len mod 4 = 0")
  case True
  then have "unat len mod 4 = 0" by (simp add: mod4_unat)
  then have "4 * (unat len div 4) = unat len" by presburger
  then have "4 * unat (len div 4) = unat len" by (simp add: unat_div)
  then show ?thesis using True copy_words_bytes [of destination source m 0] by (simp add: memcpy_def)
next
  case False
  then show ?thesis by (simp only: memcpy_def if_False)
qed

section \<open>What they leave in memory\<close>

text \<open>The \<open>n\<close> bytes at \<open>p\<close>.\<close>

definition bytes_at :: "bytes \<Rightarrow> ptr \<Rightarrow> nat \<Rightarrow> u8 list" where
  "bytes_at m p n = map (\<lambda>i. m (p + of_nat i)) [0..<n]"

lemma bytes_at_length [simp]: "length (bytes_at m p n) = n"
  by (simp add: bytes_at_def)

lemma bytes_at_nth [simp]: "i < n \<Longrightarrow> bytes_at m p n ! i = m (p + of_nat i)"
  by (simp add: bytes_at_def)

lemma bytes_at_eqI: "(\<And>i. i < n \<Longrightarrow> m (p + of_nat i) = m' (q + of_nat i)) \<Longrightarrow> bytes_at m p n = bytes_at m' q n"
  by (simp add: bytes_at_def)

text \<open>The destination does not overlap the source when no byte of it has the address of a source byte.\<close>

definition apart :: "ptr \<Rightarrow> ptr \<Rightarrow> nat \<Rightarrow> bool" where
  "apart d s n \<longleftrightarrow> (\<forall>i<n. \<forall>j<n. d + of_nat i \<noteq> s + of_nat j)"

lemma copy_bytes_outside:
  "(\<And>j. i \<le> j \<Longrightarrow> j < i + k \<Longrightarrow> a \<noteq> d + of_nat j) \<Longrightarrow> copy_bytes m d s i k a = m a"
proof (induction k arbitrary: m i)
  case 0
  then show ?case by simp
next
  case (Suc k)
  have "a \<noteq> d + of_nat i" using Suc.prems [of i] by simp
  moreover have "copy_bytes (m(d + of_nat i := m (s + of_nat i))) d s (Suc i) k a =
      (m(d + of_nat i := m (s + of_nat i))) a"
    using Suc.prems by (intro Suc.IH) simp
  ultimately show ?case by simp
qed

lemma unat_of_nat64: "i < 2 ^ 64 \<Longrightarrow> unat (of_nat i :: u64) = i"
  by (simp add: unat_of_nat)

lemma of_nat_u64_inj: "i < 2 ^ 64 \<Longrightarrow> j < 2 ^ 64 \<Longrightarrow> (of_nat i :: u64) = of_nat j \<longleftrightarrow> i = j"
  by (metis unat_of_nat64)

lemma copy_bytes_inside:
  assumes "\<And>i. i < n \<Longrightarrow> d + of_nat i \<noteq> s + of_nat j" "n \<le> 2 ^ 64"
  shows "i + k \<le> n \<Longrightarrow> i \<le> j \<Longrightarrow> j < i + k \<Longrightarrow> copy_bytes m d s i k (d + of_nat j) = m (s + of_nat j)"
proof (induction k arbitrary: m i)
  case 0
  then show ?case by simp
next
  case (Suc k)
  let ?m = "m(d + of_nat i := m (s + of_nat i))"
  show ?case
  proof (cases "j = i")
    case True
    have "copy_bytes ?m d s (Suc i) k (d + of_nat i) = ?m (d + of_nat i)"
      using Suc.prems assms(2) by (intro copy_bytes_outside) (simp add: of_nat_u64_inj)
    then show ?thesis using True by simp
  next
    case False
    have "copy_bytes ?m d s (Suc i) k (d + of_nat j) = ?m (s + of_nat j)"
      using Suc.prems False by (intro Suc.IH) auto
    moreover have "s + of_nat j \<noteq> d + of_nat i" using assms(1) [of i] Suc.prems by simp
    ultimately show ?thesis by simp
  qed
qed

lemma memcpy_copies:
  assumes "apart destination source (unat len)"
  shows "bytes_at (memcpy m destination source len) destination (unat len) = bytes_at m source (unat len)"
    and "\<And>a. (\<And>i. i < unat len \<Longrightarrow> a \<noteq> destination + of_nat i) \<Longrightarrow> memcpy m destination source len a = m a"
proof -
  have "unat len \<le> 2 ^ 64" using unat_less_64 [of len] by simp
  then show "bytes_at (memcpy m destination source len) destination (unat len) = bytes_at m source (unat len)"
    using assms
    by (intro bytes_at_eqI) (simp add: memcpy_bytewise apart_def copy_bytes_inside [of "unat len"])
  show "\<And>a. (\<And>i. i < unat len \<Longrightarrow> a \<noteq> destination + of_nat i) \<Longrightarrow> memcpy m destination source len a = m a"
    by (simp add: memcpy_bytewise copy_bytes_outside)
qed

end
