(* ===== verification/BuddyTree.thy ===== *)
theory BuddyTree
  imports Buddy Lib
begin

text \<open>
  The buddy manager as a tree.  The abstract operations \<open>bt_alloc\<close> and \<open>bt_free\<close> work on a
  binary tree whose leaves are free or in use; the pointer code of \<open>Buddy\<close> is shown to
  implement them on every heap that holds such a tree, and so to satisfy the allocation
  contract of \<open>Allocator\<close>.
\<close>

section \<open>The abstract tree\<close>

text \<open>A leaf carries whether it is in use.  Trees are placed: \<open>a\<close> is the address of the header, \<open>s\<close> its size.\<close>

datatype bt = Leaf bool | Split bt bt

fun status_of :: "bt \<Rightarrow> MemoryStatus" where
  "status_of (Leaf b) = (if b then FULL else EMPTY)"
| "status_of (Split l r) =
     (if status_of l = FULL \<and> status_of r = FULL then FULL
      else if status_of l = EMPTY \<and> status_of r = EMPTY then EMPTY else PARTIAL)"

definition half :: "nat \<Rightarrow> nat" where "half s = s div 2 - 32"

function bt_alloc :: "nat \<Rightarrow> nat \<Rightarrow> nat \<Rightarrow> bt \<Rightarrow> (nat \<times> bt) option" where
  "bt_alloc k a s (Leaf b) =
     (if b \<or> s < k then None
      else if 0 < s \<and> k \<le> s div 2
      then map_option (\<lambda>(p, l). (p, Split l (Leaf False))) (bt_alloc k (a + 32) (half s) (Leaf False))
      else Some (a + 32, Leaf True))"
| "bt_alloc k a s (Split l r) =
     (case bt_alloc k (a + 32) (half s) l of
        Some (p, l') \<Rightarrow> Some (p, Split l' r)
      | None \<Rightarrow> map_option (\<lambda>(p, r'). (p, Split l r')) (bt_alloc k (a + 32 + s div 2) (half s) r))"
  by pat_completeness auto
termination
  by (relation "measures [\<lambda>(k, a, s, t). size t, \<lambda>(k, a, s, t). s]") (auto simp: half_def)

declare bt_alloc.simps(1) [simp del]

text \<open>The three cases of a leaf.\<close>

lemma bt_alloc_leaf_cases:
  "b \<or> s < k \<Longrightarrow> bt_alloc k a s (Leaf b) = None"
  "k \<le> s \<Longrightarrow> 0 < s \<and> k \<le> s div 2 \<Longrightarrow> bt_alloc k a s (Leaf False) =
     map_option (\<lambda>(p, l). (p, Split l (Leaf False))) (bt_alloc k (a + 32) (half s) (Leaf False))"
  "k \<le> s \<Longrightarrow> \<not> (0 < s \<and> k \<le> s div 2) \<Longrightarrow> bt_alloc k a s (Leaf False) = Some (a + 32, Leaf True)"
    apply (subst bt_alloc.simps(1), simp only: if_True)
   apply (subst bt_alloc.simps(1), simp only: if_True, simp)
  apply (subst bt_alloc.simps(1), simp only: if_False, simp)
  done

definition join :: "bt \<Rightarrow> bt \<Rightarrow> bt" where
  "join l r = (if l = Leaf False \<and> r = Leaf False then Leaf False else Split l r)"

fun bt_free :: "nat \<Rightarrow> nat \<Rightarrow> nat \<Rightarrow> bt \<Rightarrow> bt" where
  "bt_free p a s (Leaf b) = Leaf (b \<and> p \<noteq> a + 32)"
| "bt_free p a s (Split l r) =
     (if p < a + 64 + s div 2 then join (bt_free p (a + 32) (half s) l) r
      else join l (bt_free p (a + 32 + s div 2) (half s) r))"

text \<open>The blocks in use, and the well-formed trees: splits have room for two headers and are not empty.\<close>

fun bt_blocks :: "nat \<Rightarrow> nat \<Rightarrow> bt \<Rightarrow> block set" where
  "bt_blocks a s (Leaf b) = (if b then {(a + 32, s)} else {})"
| "bt_blocks a s (Split l r) = bt_blocks (a + 32) (half s) l \<union> bt_blocks (a + 32 + s div 2) (half s) r"

fun bt_ok :: "nat \<Rightarrow> bt \<Rightarrow> bool" where
  "bt_ok s (Leaf b) = True"
| "bt_ok s (Split l r) =
     (64 \<le> s \<and> bt_ok (half s) l \<and> bt_ok (half s) r \<and> \<not> (l = Leaf False \<and> r = Leaf False))"

text \<open>
  A split at size \<open>s\<close> is useful when the halves still serve the request that caused it: requests
  are powers of two of at least a page.
\<close>

function good_size :: "nat \<Rightarrow> bool" where
  "good_size s = (if s div 2 < 4096 then True
     else (\<forall>k<32. 2 ^ k \<le> s div 2 \<longrightarrow> 2 ^ k \<le> half s) \<and> good_size (half s))"
  by pat_completeness auto
termination
  by (relation "measure id") (auto simp: half_def)

declare good_size.simps [simp del]

definition page_power :: "nat \<Rightarrow> bool" where
  "page_power k \<longleftrightarrow> (\<exists>i. 12 \<le> i \<and> i < 32 \<and> k = 2 ^ i)"

lemma page_power_le: "page_power k \<Longrightarrow> 4096 \<le> k"
proof -
  assume "page_power k"
  then obtain i where "12 \<le> i" "k = 2 ^ i" by (auto simp: page_power_def)
  then show ?thesis using power_increasing [of 12 i "2::nat"] by simp
qed

lemma good_size_half:
  assumes "good_size s" "page_power k" "k \<le> s div 2"
  shows "k \<le> half s" and "good_size (half s)"
proof -
  have "\<not> s div 2 < 4096" using page_power_le [OF assms(2)] assms(3) by simp
  then have "good_size s = ((\<forall>k<32. 2 ^ k \<le> s div 2 \<longrightarrow> 2 ^ k \<le> half s) \<and> good_size (half s))"
    by (subst good_size.simps) (simp only: if_False)
  then have g: "\<forall>k<32. 2 ^ k \<le> s div 2 \<longrightarrow> 2 ^ k \<le> half s" "good_size (half s)"
    using assms(1) by blast+
  from g(2) show "good_size (half s)" .
  obtain i where "i < 32" "k = 2 ^ i" using assms(2) by (auto simp: page_power_def)
  then show "k \<le> half s" using g(1) assms(3) by blast
qed

lemma good_size_down: "good_size s \<Longrightarrow> good_size (half s)"
proof (cases "s div 2 < 4096")
  case True
  then have "half s div 2 < 4096" by (auto simp: half_def)
  then show ?thesis by (subst good_size.simps) (simp only: if_True)
next
  case False
  then show "good_size s \<Longrightarrow> good_size (half s)"
    by (subst (asm) good_size.simps) (simp only: if_False)
qed

lemma bt_ok_empty: "bt_ok s t \<Longrightarrow> status_of t = EMPTY \<longleftrightarrow> t = Leaf False"
  by (induction t arbitrary: s) auto

lemma bt_blocks_range:
  "bt_ok s t \<Longrightarrow> (p, l) \<in> bt_blocks a s t \<Longrightarrow> a + 32 \<le> p \<and> p + l \<le> a + 32 + s"
proof (induction t arbitrary: a s)
  case (Leaf b)
  then show ?case by (auto split: if_splits)
next
  case (Split l r)
  then show ?case by (fastforce simp: half_def)
qed

lemma bt_blocks_disjoint:
  "bt_ok s t \<Longrightarrow> b \<in> bt_blocks a s t \<Longrightarrow> c \<in> bt_blocks a s t \<Longrightarrow> b \<noteq> c \<Longrightarrow> span b \<inter> span c = {}"
proof (induction t arbitrary: a s)
  case (Leaf x)
  then show ?case by (auto split: if_splits)
next
  case (Split l r)
  let ?L = "bt_blocks (a + 32) (half s) l" and ?R = "bt_blocks (a + 32 + s div 2) (half s) r"
  have ok: "64 \<le> s" "bt_ok (half s) l" "bt_ok (half s) r" using Split.prems(1) by auto
  have cross: "span x \<inter> span y = {}" if "x \<in> ?L" "y \<in> ?R" for x y
    using bt_blocks_range [OF ok(2), of "fst x" "snd x" "a + 32"]
      bt_blocks_range [OF ok(3), of "fst y" "snd y" "a + 32 + s div 2"] that ok(1)
    by (auto simp: span_def half_def)
  from Split.prems have "b \<in> ?L \<or> b \<in> ?R" "c \<in> ?L \<or> c \<in> ?R" by auto
  then show ?case
    using Split.IH(1) [OF ok(2), of "a + 32"] Split.IH(2) [OF ok(3), of "a + 32 + s div 2"] Split.prems(4)
      cross [of b c] cross [of c b] by blast
qed

text \<open>A block in use starts right behind a header inside the tree, never at the same place as another.\<close>

lemma bt_blocks_fst:
  "bt_ok s t \<Longrightarrow> p \<in> fst ` bt_blocks a s t \<Longrightarrow> a + 32 \<le> p \<and> p \<le> a + 32 + s"
  using bt_blocks_range by fastforce

section \<open>The abstract operations\<close>

lemma bt_alloc_full: "status_of t = FULL \<Longrightarrow> bt_alloc k a s t = None"
  by (induction t arbitrary: a s) (auto simp: bt_alloc_leaf_cases split: if_splits)

lemma bt_alloc_leaf:
  "page_power k \<Longrightarrow> good_size s \<Longrightarrow> k \<le> s \<Longrightarrow> \<exists>p t. bt_alloc k a s (Leaf False) = Some (p, t)"
proof (induction s arbitrary: a rule: less_induct)
  case (less s)
  show ?case
  proof (cases "0 < s \<and> k \<le> s div 2")
    case True
    then have "k \<le> half s" "good_size (half s)" "half s < s"
      using good_size_half less.prems by (auto simp: half_def)
    then obtain p t where "bt_alloc k (a + 32) (half s) (Leaf False) = Some (p, t)"
      using less.IH less.prems by blast
    then show ?thesis using True less.prems(3) by (simp add: bt_alloc_leaf_cases)
  next
    case False
    then show ?thesis using bt_alloc_leaf_cases(3) less.prems(3) by blast
  qed
qed

text \<open>What a granted request does to the tree.\<close>

definition grants :: "nat \<Rightarrow> nat \<Rightarrow> nat \<Rightarrow> bt \<Rightarrow> nat \<Rightarrow> bt \<Rightarrow> bool" where
  "grants k a s t p t' \<longleftrightarrow> bt_ok s t' \<and> t' \<noteq> Leaf False \<and> a + 32 \<le> p \<and> p \<le> a + 32 + s \<and>
     (\<exists>l \<ge> k. p \<notin> fst ` bt_blocks a s t \<and> bt_blocks a s t' = insert (p, l) (bt_blocks a s t))"

lemma grants_left:
  assumes "grants k (a + 32) (half s) l p l'" "64 \<le> s" "bt_ok (half s) r" "bt_ok (half s) l"
  shows "grants k a s (Split l r) p (Split l' r)"
proof -
  have "p \<notin> fst ` bt_blocks (a + 32 + s div 2) (half s) r"
    using bt_blocks_fst [OF assms(3), of p "a + 32 + s div 2"] assms(1,2) by (auto simp: grants_def half_def)
  then show ?thesis using assms by (auto simp: grants_def half_def image_Un)
qed

lemma grants_right:
  assumes "grants k (a + 32 + s div 2) (half s) r p r'" "64 \<le> s" "bt_ok (half s) r" "bt_ok (half s) l"
  shows "grants k a s (Split l r) p (Split l r')"
proof -
  have "p \<notin> fst ` bt_blocks (a + 32) (half s) l"
    using bt_blocks_fst [OF assms(4), of p "a + 32"] assms(1,2) by (auto simp: grants_def half_def)
  then show ?thesis using assms by (auto simp: grants_def half_def image_Un)
qed

lemma bt_alloc_ok:
  "64 \<le> k \<Longrightarrow> bt_ok s t \<Longrightarrow> bt_alloc k a s t = Some (p, t') \<Longrightarrow> grants k a s t p t'"
proof (induction k a s t arbitrary: p t' rule: bt_alloc.induct)
  case (1 k a s b)
  show ?case
  proof (cases "0 < s \<and> k \<le> s div 2")
    case True
    have b: "\<not> b" "k \<le> s" using 1(4) by (auto simp: bt_alloc_leaf_cases intro: ccontr)
    with 1(4) True obtain l where l: "bt_alloc k (a + 32) (half s) (Leaf False) = Some (p, l)"
      and t': "t' = Split l (Leaf False)"
      by (auto simp: bt_alloc_leaf_cases)
    have g: "grants k (a + 32) (half s) (Leaf False) p l" using 1(1) [OF _ True 1(2) _ l] b by simp
    have s: "64 \<le> s" using True 1(2) by linarith
    have "grants k a s (Split (Leaf False) (Leaf False)) p t'"
      unfolding t' using grants_left [OF g s] by simp
    then show ?thesis using b by (simp add: grants_def)
  next
    case False
    have b: "\<not> b" "k \<le> s" using 1(4) by (auto simp: bt_alloc_leaf_cases intro: ccontr)
    then have "p = a + 32" "t' = Leaf True" using 1(4) bt_alloc_leaf_cases(3) [OF b(2) False] by simp_all
    then show ?thesis using b by (auto simp: grants_def)
  qed
next
  case (2 k a s l r)
  then have ok: "64 \<le> s" "bt_ok (half s) r" "bt_ok (half s) l" by auto
  show ?case
  proof (cases "bt_alloc k (a + 32) (half s) l")
    case None
    then obtain r' where "bt_alloc k (a + 32 + s div 2) (half s) r = Some (p, r')" "t' = Split l r'"
      using 2(5) by auto
    then show ?thesis using 2(2) [OF None 2(3) ok(2)] grants_right ok by blast
  next
    case (Some x)
    then obtain l' where "bt_alloc k (a + 32) (half s) l = Some (p, l')" "t' = Split l' r"
      using 2(5) by (cases x) auto
    then show ?thesis using 2(1) [OF 2(3) ok(3)] grants_left ok by blast
  qed
qed

lemma bt_blocks_join: "bt_blocks a s (join l r) = bt_blocks a s (Split l r)"
  by (simp add: join_def)

lemma bt_ok_join: "64 \<le> s \<Longrightarrow> bt_ok (half s) l \<Longrightarrow> bt_ok (half s) r \<Longrightarrow> bt_ok s (join l r)"
  by (simp add: join_def)

text \<open>Freeing removes exactly the block that starts at the pointer given back.\<close>

lemma bt_free_ok:
  "bt_ok s t \<Longrightarrow> bt_ok s (bt_free p a s t) \<and>
     bt_blocks a s (bt_free p a s t) = {b \<in> bt_blocks a s t. fst b \<noteq> p}"
proof (induction t arbitrary: a s)
  case (Leaf b)
  then show ?case by auto
next
  case (Split l r)
  then have ok: "64 \<le> s" "bt_ok (half s) l" "bt_ok (half s) r" by auto
  have L: "fst b \<noteq> p" if "b \<in> bt_blocks (a + 32) (half s) l" "\<not> p < a + 64 + s div 2" for b
    using bt_blocks_range [OF ok(2), of "fst b" "snd b" "a + 32"] that ok(1) by (auto simp: half_def)
  have R: "fst b \<noteq> p" if "b \<in> bt_blocks (a + 32 + s div 2) (half s) r" "p < a + 64 + s div 2" for b
    using bt_blocks_range [OF ok(3), of "fst b" "snd b" "a + 32 + s div 2"] that by auto
  show ?case
    using Split.IH(1) [OF ok(2), of "a + 32"] Split.IH(2) [OF ok(3), of "a + 32 + s div 2"] ok L R
    by (auto simp: bt_blocks_join bt_ok_join)
qed

section \<open>Trees in memory\<close>

text \<open>
  A node is split when half of its size still serves a request, and requests are of a page or
  more.  \<open>fresh h a s\<close> says that no child pointers are found at any place where a header can be
  put below a node of size \<open>s\<close> at \<open>a\<close>; between these places the memory may hold anything.
\<close>

definition no_children :: "bheap \<Rightarrow> nat \<Rightarrow> bool" where
  "no_children h a \<longleftrightarrow> bn_left (h (of_nat a)) = NULL \<and> bn_right (h (of_nat a)) = NULL"

function fresh :: "bheap \<Rightarrow> nat \<Rightarrow> nat \<Rightarrow> bool" where
  "fresh h a s =
     (no_children h a \<and> (8192 \<le> s \<longrightarrow> fresh h (a + 32) (half s) \<and> fresh h (a + 32 + s div 2) (half s)))"
  by pat_completeness auto
termination
  by (relation "measure (\<lambda>(h, a, s). s)") (auto simp: half_def)

declare fresh.simps [simp del]

lemma freshD:
  "fresh h a s \<Longrightarrow> no_children h a"
  "fresh h a s \<Longrightarrow> 8192 \<le> s \<Longrightarrow> fresh h (a + 32) (half s)"
  "fresh h a s \<Longrightarrow> 8192 \<le> s \<Longrightarrow> fresh h (a + 32 + s div 2) (half s)"
  by (subst (asm) fresh.simps; simp)+

lemma freshI:
  "no_children h a \<Longrightarrow> (8192 \<le> s \<Longrightarrow> fresh h (a + 32) (half s)) \<Longrightarrow>
     (8192 \<le> s \<Longrightarrow> fresh h (a + 32 + s div 2) (half s)) \<Longrightarrow> fresh h a s"
  by (subst fresh.simps) blast

lemma fresh_short: "s < 8192 \<Longrightarrow> fresh h a s = no_children h a"
  by (subst fresh.simps) simp

text \<open>Only the child pointers in the range of the node matter.\<close>

lemma fresh_mono:
  "fresh h a s \<Longrightarrow> (\<And>x. a \<le> x \<Longrightarrow> x < a + 32 + s \<Longrightarrow> no_children h x \<Longrightarrow> no_children h' x) \<Longrightarrow> fresh h' a s"
proof (induction h a s rule: fresh.induct)
  case (1 h a s)
  show ?case
  proof (rule freshI)
    show "no_children h' a" using 1(4) freshD(1) [OF 1(3)] by simp
    assume s: "8192 \<le> s"
    show "fresh h' (a + 32) (half s)"
      by (rule 1(1) [OF s freshD(2) [OF 1(3) s]]) (use 1(4) s in \<open>auto simp: half_def\<close>)
    show "fresh h' (a + 32 + s div 2) (half s)"
      by (rule 1(2) [OF s freshD(3) [OF 1(3) s]])
        (use 1(4) s in \<open>auto simp: half_def\<close>)
  qed
qed

lemma fresh_cong:
  "(\<And>x. a \<le> x \<Longrightarrow> x < a + 32 + s \<Longrightarrow> h (of_nat x) = h' (of_nat x)) \<Longrightarrow> fresh h a s = fresh h' a s"
  using fresh_mono [of h a s h'] fresh_mono [of h' a s h] by (auto simp: no_children_def)

lemma fresh_all: "(\<And>x. no_children h x) \<Longrightarrow> fresh h a s"
  by (induction h a s rule: fresh.induct) (auto intro: freshI)

fun tree_at :: "bheap \<Rightarrow> nat \<Rightarrow> nat \<Rightarrow> bt \<Rightarrow> bool" where
  "tree_at h a s (Leaf b) =
     (bn_size (h (of_nat a)) = of_nat s \<and> bn_status (h (of_nat a)) = status_of (Leaf b) \<and>
      (if b then no_children h a else fresh h a s))"
| "tree_at h a s (Split l r) =
     (bn_size (h (of_nat a)) = of_nat s \<and> bn_status (h (of_nat a)) = status_of (Split l r) \<and>
      bn_left (h (of_nat a)) = of_nat (a + 32) \<and> bn_right (h (of_nat a)) = of_nat (a + 32 + s div 2) \<and>
      tree_at h (a + 32) (half s) l \<and> tree_at h (a + 32 + s div 2) (half s) r)"

lemma tree_at_leaf: "tree_at h a s (Leaf b) \<Longrightarrow> no_children h a"
  using freshD(1) by (auto split: if_splits)

lemma tree_at_head: "tree_at h a s t \<Longrightarrow> bn_size (h (of_nat a)) = of_nat s \<and> bn_status (h (of_nat a)) = status_of t"
  by (cases t) auto

lemma tree_at_cong:
  "bt_ok s t \<Longrightarrow> (\<And>x. a \<le> x \<Longrightarrow> x < a + 32 + s \<Longrightarrow> h (of_nat x) = h' (of_nat x)) \<Longrightarrow>
     tree_at h a s t = tree_at h' a s t"
proof (induction t arbitrary: a s)
  case (Leaf b)
  then show ?case using fresh_cong [of a s h h'] by (simp add: no_children_def)
next
  case (Split l r)
  then have ok: "64 \<le> s" "bt_ok (half s) l" "bt_ok (half s) r" by auto
  have "h (of_nat a) = h' (of_nat a)" using Split.prems(2) by simp
  moreover have "tree_at h (a + 32) (half s) l = tree_at h' (a + 32) (half s) l"
    using Split.prems(2) ok by (intro Split.IH(1)) (auto simp: half_def)
  moreover have "tree_at h (a + 32 + s div 2) (half s) r = tree_at h' (a + 32 + s div 2) (half s) r"
    using Split.prems(2) ok by (intro Split.IH(2)) (auto simp: half_def)
  ultimately show ?case by simp
qed

text \<open>The heap outside a placed tree, and the size in its header, do not change.\<close>

definition framed :: "nat \<Rightarrow> nat \<Rightarrow> bheap \<Rightarrow> bheap \<Rightarrow> bool" where
  "framed a s h h' \<longleftrightarrow>
     (\<forall>x < 2 ^ 64. x < a \<or> a + 32 + s \<le> x \<longrightarrow> h' (of_nat x) = h (of_nat x)) \<and>
     bn_size (h' (of_nat a)) = bn_size (h (of_nat a))"

lemma framed_refl [simp]: "framed a s h h"
  by (simp add: framed_def)

lemma framed_outside:
  "framed a s h h' \<Longrightarrow> x < 2 ^ 64 \<Longrightarrow> x < a \<or> a + 32 + s \<le> x \<Longrightarrow> h' (of_nat x) = h (of_nat x)"
  unfolding framed_def by blast

lemma framed_size: "framed a s h h' \<Longrightarrow> bn_size (h' (of_nat a)) = bn_size (h (of_nat a))"
  unfolding framed_def by blast

lemma framed_tree:
  assumes "framed a s h h'" "bt_ok s' t" "b + 32 + s' \<le> a \<or> a + 32 + s \<le> b" "b + 32 + s' \<le> 2 ^ 64"
  shows "tree_at h b s' t \<Longrightarrow> tree_at h' b s' t"
proof -
  have "h (of_nat x) = h' (of_nat x)" if "b \<le> x" "x < b + 32 + s'" for x
    using framed_outside [OF assms(1), of x] that assms(3,4) by auto
  then show "tree_at h b s' t \<Longrightarrow> tree_at h' b s' t" using tree_at_cong [OF assms(2), of b h h'] by blast
qed

text \<open>The memory of blocks that is left as it was.\<close>

definition untouched :: "block set \<Rightarrow> bheap \<Rightarrow> bheap \<Rightarrow> bool" where
  "untouched B h h' \<longleftrightarrow> (\<forall>b\<in>B. \<forall>x\<in>span b. h' (of_nat x) = h (of_nat x))"

lemma untouched_simps [simp]: "untouched {} h h'" "untouched B h h"
  "untouched (B \<union> C) h h' \<longleftrightarrow> untouched B h h' \<and> untouched C h h'"
  by (auto simp: untouched_def)

lemma untouched_trans: "untouched B h h1 \<Longrightarrow> untouched B h1 h2 \<Longrightarrow> untouched B h h2"
  by (simp add: untouched_def)

lemma untouched_framed:
  assumes "framed a s h h'" "bt_ok s' t" "b + 32 + s' \<le> a \<or> a + 32 + s \<le> b" "b + 32 + s' \<le> 2 ^ 64"
  shows "untouched (bt_blocks b s' t) h h'"
  unfolding untouched_def
proof (intro ballI)
  fix c x assume "c \<in> bt_blocks b s' t" "x \<in> span c"
  then have "b \<le> x" "x < b + 32 + s'" using bt_blocks_range [OF assms(2), of "fst c" "snd c" b] by (auto simp: span_def)
  then show "h' (of_nat x) = h (of_nat x)" using framed_outside [OF assms(1), of x] assms(3,4) by auto
qed

text \<open>A change inside a half, or to the status of the node, is a change inside the node.\<close>

lemma framed_sub:
  assumes "framed b k h h'" "a < b" "b + k \<le> a + s" "b < 2 ^ 64"
  shows "framed a s h h'"
  unfolding framed_def
proof (intro conjI allI impI)
  fix x :: nat assume "x < 2 ^ 64" "x < a \<or> a + 32 + s \<le> x"
  then show "h' (of_nat x) = h (of_nat x)" using assms by (intro framed_outside [OF assms(1)]) auto
next
  show "bn_size (h' (of_nat a)) = bn_size (h (of_nat a))"
    using framed_outside [OF assms(1), of a] assms(2,4) by simp
qed

lemma framed_trans: "framed a s h h1 \<Longrightarrow> framed a s h1 h2 \<Longrightarrow> framed a s h h2"
  unfolding framed_def by metis

lemma framed_upd:
  assumes "framed a s h h'" "a \<le> b" "b < a + 32 + s" "a + 32 + s \<le> 2 ^ 64"
    and "a = b \<longrightarrow> bn_size v = bn_size (h (of_nat a))"
  shows "framed a s h (h'(of_nat b := v))"
  unfolding framed_def
proof (intro conjI allI impI)
  fix x :: nat assume x: "x < 2 ^ 64" "x < a \<or> a + 32 + s \<le> x"
  then have "(of_nat x :: ptr) \<noteq> of_nat b" using assms(2-4) by (subst of_nat_u64_inj) auto
  then show "(h'(of_nat b := v)) (of_nat x) = h (of_nat x)" using framed_outside [OF assms(1) x] by simp
next
  have "(of_nat a :: ptr) = of_nat b \<longleftrightarrow> a = b" using assms(2-4) by (subst of_nat_u64_inj) auto
  then show "bn_size ((h'(of_nat b := v)) (of_nat a)) = bn_size (h (of_nat a))"
    using framed_size [OF assms(1)] assms(5) by simp
qed

lemma upd_other:
  assumes "x \<noteq> b" "x < 2 ^ 64" "b < 2 ^ 64"
  shows "(h(of_nat b := v)) (of_nat x :: ptr) = h (of_nat x)"
  using assms of_nat_u64_inj [of x b] by auto

lemma tree_at_upd:
  assumes "bt_ok s t" "b < a \<or> a + 32 + s \<le> b" "a + 32 + s \<le> 2 ^ 64" "b < 2 ^ 64"
  shows "tree_at (h(of_nat b := v)) a s t = tree_at h a s t"
proof (rule tree_at_cong [OF assms(1)])
  fix x assume "a \<le> x" "x < a + 32 + s"
  then show "(h(of_nat b := v)) (of_nat x) = h (of_nat x)" using assms(2-4) by (intro upd_other) auto
qed

lemma untouched_upd:
  assumes "bt_ok s t" "a + 32 + s \<le> 2 ^ 64"
  shows "untouched (bt_blocks a s t) h (h(of_nat a := v))"
  unfolding untouched_def
proof (intro ballI)
  fix c x assume "c \<in> bt_blocks a s t" "x \<in> span c"
  then have "a + 32 \<le> x" "x < a + 32 + s" using bt_blocks_range [OF assms(1), of "fst c" "snd c" a] by (auto simp: span_def)
  then show "(h(of_nat a := v)) (of_nat x) = h (of_nat x)" using assms(2) by (intro upd_other) auto
qed

text \<open>\<^verbatim>\<open>endRecursiveCall\<close> puts the status of the node in line with its halves.\<close>

lemma endRecursiveCall_ok:
  assumes "bn_left (h (of_nat a)) = of_nat (a + 32)" "bn_right (h (of_nat a)) = of_nat (a + 32 + s div 2)"
    and "tree_at h (a + 32) (half s) l" "tree_at h (a + 32 + s div 2) (half s) r"
    and "a + 32 + s < 2 ^ 64"
  shows "\<exists>M'. endRecursiveCall (of_nat a) (M, h) = (M', set_status (of_nat a) (status_of (Split l r)) h) \<and>
    b_root M' = b_root M"
proof -
  have "(of_nat (a + 32) :: ptr) \<noteq> of_nat 0" "(of_nat (a + 32 + s div 2) :: ptr) \<noteq> of_nat 0"
    using assms(5) by (subst of_nat_u64_inj; simp)+
  then have "\<not> hasDescendants h (of_nat a)"
    using assms(1,2) by (simp add: hasDescendants_def)
  moreover have "bn_status (h (of_nat (a + 32))) = status_of l" "bn_status (h (of_nat (a + 32 + s div 2))) = status_of r"
    using assms(3,4) tree_at_head by blast+
  moreover have "status_of t = FULL \<or> status_of t = PARTIAL \<or> status_of t = EMPTY" for t
    by (cases "status_of t") auto
  ultimately show ?thesis
    using assms(1,2) by (auto simp: endRecursiveCall_def Let_def refund_def simp del: of_nat_add)
qed

text \<open>\<^verbatim>\<open>setDescendants\<close> places two free halves under a free leaf.\<close>

definition limit_at :: "BuddyMemoryManager \<Rightarrow> bheap \<Rightarrow> nat \<Rightarrow> bool" where
  "limit_at M h e \<longleftrightarrow> b_root M + bn_size (h (b_root M)) + 32 = of_nat e"

definition halves_at :: "bheap \<Rightarrow> nat \<Rightarrow> nat \<Rightarrow> bt \<Rightarrow> bt \<Rightarrow> bool" where
  "halves_at h a s l r \<longleftrightarrow> bn_size (h (of_nat a)) = of_nat s \<and>
     bn_left (h (of_nat a)) = of_nat (a + 32) \<and> bn_right (h (of_nat a)) = of_nat (a + 32 + s div 2) \<and>
     tree_at h (a + 32) (half s) l \<and> tree_at h (a + 32 + s div 2) (half s) r"

lemma tree_at_Split:
  "tree_at h a s (Split l r) \<longleftrightarrow> halves_at h a s l r \<and> bn_status (h (of_nat a)) = status_of (Split l r)"
  by (auto simp: halves_at_def)

lemma setDescendants_ok:
  assumes t: "tree_at h a s (Leaf False)" and s: "8192 \<le> s" and e: "a + 32 + s \<le> e" "e < 2 ^ 64"
    and lim: "limit_at M h e"
  shows "\<exists>M' h'. setDescendants (of_nat a) (M, h) = (M', h') \<and> b_root M' = b_root M \<and>
    halves_at h' a s (Leaf False) (Leaf False) \<and> framed a s h h'"
proof -
  define l r where "l = a + 32" and "r = a + 32 + s div 2"
  define h1 where "h1 = set_left (of_nat a) (of_nat l) h"
  define h2 where "h2 = init_child (of_nat l) (of_nat (half s)) h1"
  define h3 where "h3 = set_right (of_nat a) (of_nat r) h2"
  define h4 where "h4 = init_child (of_nat r) (of_nat (half s)) h3"
  note hs = h1_def h2_def h3_def h4_def set_left_def set_right_def init_child_def
  have ne: "(of_nat a :: ptr) \<noteq> of_nat l" "(of_nat a :: ptr) \<noteq> of_nat r" "(of_nat l :: ptr) \<noteq> of_nat r"
    using s e by (subst of_nat_u64_inj; simp add: l_def r_def)+
  have sz: "bn_size (h (of_nat a)) = of_nat s" using t by simp
  have d: "(of_nat s :: u64) div 2 = of_nat (s div 2)"
    using e s by (simp add: word_unat_eq_iff unat_div unat_of_nat64 del: unat_inj)
  have d32: "(of_nat (s div 2) :: u64) - sizeof_MemNode = of_nat (half s)"
    using s by (simp add: half_def of_nat_diff sizeof_MemNode_def)
  have lt: "(of_nat l :: ptr) < of_nat e" "(of_nat r :: ptr) < of_nat e"
  proof -
    have "l < e" "r < e" using e s by (auto simp: l_def r_def)
    then show "(of_nat l :: ptr) < of_nat e" "(of_nat r :: ptr) < of_nat e"
      using e(2) by (simp_all add: word_less_nat_alt unat_of_nat64)
  qed
  have lim1: "b_root M + bn_size (h1 (b_root M)) + sizeof_MemNode = of_nat e"
  proof -
    have "bn_size (h1 (b_root M)) = bn_size (h (b_root M))" by (simp add: h1_def set_left_def)
    then show ?thesis using lim by (simp add: limit_at_def sizeof_MemNode_def)
  qed
  have lr: "of_nat a + sizeof_MemNode = (of_nat l :: ptr)"
    "of_nat a + of_nat (s div 2) + sizeof_MemNode = (of_nat r :: ptr)"
    by (simp_all add: l_def r_def sizeof_MemNode_def)
  have run: "setDescendants (of_nat a) (M, h) = (charge 32 (charge 32 M), h4)"
    by (simp add: setDescendants_def Let_def sz d lr d32 lim1 lt [folded not_le]
      h1_def [symmetric] h2_def [symmetric] h3_def [symmetric] h4_def [symmetric])
      (simp add: sizeof_MemNode_def)
  have A: "h4 (of_nat a) = (h (of_nat a))\<lparr>bn_left := of_nat l, bn_right := of_nat r\<rparr>"
    using ne by (simp add: hs)
  have L: "bn_size (h4 (of_nat l)) = of_nat (half s) \<and> bn_status (h4 (of_nat l)) = EMPTY"
    and R: "bn_size (h4 (of_nat r)) = of_nat (half s) \<and> bn_status (h4 (of_nat r)) = EMPTY"
    using ne by (simp_all add: hs)
  have keep: "bn_left (h4 p) = bn_left (h p) \<and> bn_right (h4 p) = bn_right (h p)" if "p \<noteq> of_nat a" for p
    using that by (simp add: hs)
  have sub: "no_children h4 x" if "a < x" "x < a + 32 + s" "no_children h x" for x
  proof -
    have "(of_nat x :: ptr) \<noteq> of_nat a" using that(1,2) e by (subst of_nat_u64_inj) auto
    then show ?thesis using keep that(3) by (simp add: no_children_def)
  qed
  have fr: "fresh h (a + 32) (half s)" "fresh h (a + 32 + s div 2) (half s)" using t s freshD by auto
  have "fresh h4 (a + 32) (half s)" using fr(1) by (rule fresh_mono) (use sub s in \<open>auto simp: half_def\<close>)
  moreover have "fresh h4 (a + 32 + s div 2) (half s)"
    using fr(2) by (rule fresh_mono) (use sub s in \<open>auto simp: half_def\<close>)
  ultimately have "halves_at h4 a s (Leaf False) (Leaf False)"
    unfolding halves_at_def tree_at.simps
    using A L R sz by (simp add: l_def r_def)
  moreover have "framed a s h h4"
    unfolding hs using s e by (intro framed_upd framed_refl) (auto simp: l_def r_def)
  ultimately show ?thesis using run by (simp add: charge_def)
qed

section \<open>The pointer code implements the tree operations\<close>

lemma halves_left:
  assumes "halves_at h a s l r" "framed (a + 32) (half s) h h'" "tree_at h' (a + 32) (half s) l'"
    and "64 \<le> s" "bt_ok (half s) r" "a + 32 + s < 2 ^ 64"
  shows "halves_at h' a s l' r" and "framed a s h h'"
    and "untouched (bt_blocks (a + 32) (half s) l) h h' \<Longrightarrow> untouched (bt_blocks a s (Split l r)) h h'"
proof -
  have "h' (of_nat a) = h (of_nat a)" using framed_outside [OF assms(2), of a] assms(6) by simp
  moreover have "tree_at h (a + 32 + s div 2) (half s) r \<Longrightarrow> tree_at h' (a + 32 + s div 2) (half s) r"
    using assms(4,6) by (intro framed_tree [OF assms(2,5)]) (auto simp: half_def)
  ultimately show "halves_at h' a s l' r" using assms(1,3) by (simp add: halves_at_def)
  have "untouched (bt_blocks (a + 32 + s div 2) (half s) r) h h'"
    using assms(4,6) by (intro untouched_framed [OF assms(2,5)]) (auto simp: half_def)
  then show "untouched (bt_blocks (a + 32) (half s) l) h h' \<Longrightarrow> untouched (bt_blocks a s (Split l r)) h h'" by simp
  show "framed a s h h'" using assms(4,6) by (intro framed_sub [OF assms(2)]) (auto simp: half_def)
qed

lemma halves_right:
  assumes "halves_at h a s l r" "framed (a + 32 + s div 2) (half s) h h'"
    and "tree_at h' (a + 32 + s div 2) (half s) r'"
    and "64 \<le> s" "bt_ok (half s) l" "a + 32 + s < 2 ^ 64"
  shows "halves_at h' a s l r'" and "framed a s h h'"
    and "untouched (bt_blocks (a + 32 + s div 2) (half s) r) h h' \<Longrightarrow> untouched (bt_blocks a s (Split l r)) h h'"
proof -
  have "h' (of_nat a) = h (of_nat a)" using framed_outside [OF assms(2), of a] assms(6) by simp
  moreover have "tree_at h (a + 32) (half s) l \<Longrightarrow> tree_at h' (a + 32) (half s) l"
    using assms(4,6) by (intro framed_tree [OF assms(2,5)]) (auto simp: half_def)
  ultimately show "halves_at h' a s l r'" using assms(1,3) by (simp add: halves_at_def)
  have "untouched (bt_blocks (a + 32) (half s) l) h h'"
    using assms(4,6) by (intro untouched_framed [OF assms(2,5)]) (auto simp: half_def)
  then show "untouched (bt_blocks (a + 32 + s div 2) (half s) r) h h' \<Longrightarrow> untouched (bt_blocks a s (Split l r)) h h'" by simp
  show "framed a s h h'" using assms(4,6) by (intro framed_sub [OF assms(2)]) (auto simp: half_def)
qed

lemma halves_upd:
  assumes "halves_at h a s l r" "bt_ok (half s) l" "bt_ok (half s) r" "64 \<le> s" "a + 32 + s < 2 ^ 64"
    and "bn_size v = bn_size (h (of_nat a))" "bn_left v = bn_left (h (of_nat a))"
    "bn_right v = bn_right (h (of_nat a))"
  shows "halves_at (h(of_nat a := v)) a s l r"
proof -
  let ?h = "h(of_nat a := v)"
  have "tree_at ?h (a + 32) (half s) l = tree_at h (a + 32) (half s) l"
    using assms(2,4,5) by (intro tree_at_upd) (auto simp: half_def)
  moreover have "tree_at ?h (a + 32 + s div 2) (half s) r = tree_at h (a + 32 + s div 2) (half s) r"
    using assms(3-5) by (intro tree_at_upd) (auto simp: half_def)
  ultimately show ?thesis using assms(1,6-8) unfolding halves_at_def by simp
qed

lemma close_split:
  assumes "halves_at h a s l r" "bt_ok (half s) l" "bt_ok (half s) r" "64 \<le> s" "a + 32 + s < 2 ^ 64"
  shows "\<exists>M' h'. endRecursiveCall (of_nat a) (M, h) = (M', h') \<and> b_root M' = b_root M \<and>
    tree_at h' a s (Split l r) \<and> framed a s h h' \<and>
    (\<forall>t. bt_ok s t \<longrightarrow> untouched (bt_blocks a s t) h h')"
proof -
  let ?h = "set_status (of_nat a) (status_of (Split l r)) h"
  obtain M' where run: "endRecursiveCall (of_nat a) (M, h) = (M', ?h)" "b_root M' = b_root M"
    using endRecursiveCall_ok [of h a s l r M] assms by (auto simp: halves_at_def)
  have "halves_at ?h a s l r"
    unfolding set_status_def using assms by (intro halves_upd) simp_all
  moreover have "bn_status (?h (of_nat a)) = status_of (Split l r)"
    by (simp only: set_status_def fun_upd_same) simp
  ultimately have "tree_at ?h a s (Split l r)" unfolding tree_at_Split by blast
  moreover have "framed a s h ?h" unfolding set_status_def
    using assms(5) by (intro framed_upd framed_refl) auto
  moreover have "untouched (bt_blocks a s t) h ?h" if "bt_ok s t" for t
    unfolding set_status_def using untouched_upd [OF that] assms(5) by simp
  ultimately show ?thesis using run by blast
qed

text \<open>What the recursive allocation leaves, in terms of \<open>bt_alloc\<close>.\<close>

definition alloc_post :: "nat \<Rightarrow> nat \<Rightarrow> nat \<Rightarrow> bt \<Rightarrow> bstate \<Rightarrow> (ptr \<times> bstate) option \<Rightarrow> bool" where
  "alloc_post k a s t st out \<longleftrightarrow> (\<exists>res M' h'. out = Some (res, M', h') \<and>
     b_root M' = b_root (fst st) \<and> framed a s (snd st) h' \<and> untouched (bt_blocks a s t) (snd st) h' \<and>
     (case bt_alloc k a s t of None \<Rightarrow> res = NULL \<and> tree_at h' a s t
      | Some (p, t') \<Rightarrow> res = of_nat p \<and> res \<noteq> NULL \<and> tree_at h' a s t'))"

lemma limit_framed:
  assumes "limit_at M h e" "framed a s h h'" "b_root M' = b_root M" "unat (b_root M) \<le> a" "a < 2 ^ 64"
  shows "limit_at M' h' e"
proof -
  define R where "R = unat (b_root M)"
  have R: "b_root M = of_nat R" "R \<le> a" using assms(4) by (simp_all add: R_def)
  have "bn_size (h' (of_nat R)) = bn_size (h (of_nat R))"
  proof (cases "R = a")
    case True
    then show ?thesis using framed_size [OF assms(2)] by simp
  next
    case False
    then show ?thesis using framed_outside [OF assms(2), of R] R assms(5) by simp
  qed
  then show ?thesis using assms(1,3) R by (simp add: limit_at_def)
qed

text \<open>Words and numbers below the end of the address space.\<close>

lemma of_nat64_simps:
  assumes "x < 2 ^ 64" "y < 2 ^ 64"
  shows "((of_nat x :: u64) < of_nat y) = (x < y)" "((of_nat x :: u64) \<le> of_nat y) = (x \<le> y)"
    "(of_nat x :: u64) div 2 = of_nat (x div 2)"
  using assms by (simp_all add: word_less_nat_alt word_le_nat_alt unat_of_nat64 word_unat_eq_iff unat_div
      del: unat_inj)

lemma page_power_less: "page_power k \<Longrightarrow> k < 2 ^ 32"
proof -
  assume "page_power k"
  then obtain i where "i < 32" "k = 2 ^ i" by (auto simp: page_power_def)
  then show ?thesis using power_strict_increasing [of i 32 "2::nat"] by simp
qed

lemma page_power_ucast: "page_power k \<Longrightarrow> ucast (of_nat k :: u32) = (of_nat k :: u64)"
  using page_power_less [of k] by (simp add: unsigned_of_nat take_bit_nat_eq_self)

lemma page_power_64: "page_power k \<Longrightarrow> k < 2 ^ 64"
  using page_power_less [of k] by simp

text \<open>One step of the recursion on each kind of node.\<close>

lemma rec_full: "bn_status (h n) = FULL \<Longrightarrow> genericAllocMemoryRec sz n (M, h) = Some (NULL, M, h)"
  by (subst genericAllocMemoryRec.simps) simp

lemma rec_leaf:
  assumes "n \<noteq> NULL" "bn_status (h n) \<noteq> FULL" "bn_left (h n) = NULL" "bn_right (h n) = NULL"
  shows "genericAllocMemoryRec sz n (M, h) =
    (if bn_size (h n) < ucast sz then Some (NULL, M, h)
     else if ucast sz \<le> bn_size (h n) div 2 then do {
       let s1 = setDescendants n (M, h);
       (a, s2) \<leftarrow> genericAllocMemoryRec sz (bn_left (snd s1 n)) s1;
       Some (a, endRecursiveCall n s2)
     }
     else Some (n + 32, charge (bn_size (h n) + 32) M, set_status n FULL h))"
  using assms by (subst genericAllocMemoryRec.simps) (simp add: sizeof_MemNode_def)

lemma rec_split:
  assumes "n \<noteq> NULL" "bn_status (h n) \<noteq> FULL" "bn_left (h n) \<noteq> NULL"
  shows "genericAllocMemoryRec sz n (M, h) =
     do {
       (a, s1) \<leftarrow> genericAllocMemoryRec sz (bn_left (h n)) (M, h);
       (b, s2) \<leftarrow> (if a = NULL then genericAllocMemoryRec sz (bn_right (snd s1 n)) s1
                  else Some (a, s1));
       Some (b, endRecursiveCall n s2)
     }"
  using assms by (subst genericAllocMemoryRec.simps) simp

lemma alloc_post_leaf:
  assumes k: "page_power k" "sz = of_nat k" and t: "tree_at h a s (Leaf b)" and g: "good_size s"
    and e: "0 < a" "a + 32 + s \<le> e" "e < 2 ^ 64" and lim: "limit_at M h e" "unat (b_root M) \<le> a"
    and IH: "\<And>M h. \<not> (b \<or> s < k) \<Longrightarrow> 0 < s \<and> k \<le> s div 2 \<Longrightarrow>
      tree_at h (a + 32) (half s) (Leaf False) \<Longrightarrow> good_size (half s) \<Longrightarrow>
      a + 32 + 32 + half s \<le> e \<Longrightarrow> limit_at M h e \<Longrightarrow> unat (b_root M) \<le> a + 32 \<Longrightarrow>
      alloc_post k (a + 32) (half s) (Leaf False) (M, h) (genericAllocMemoryRec sz (of_nat (a + 32)) (M, h))"
  shows "alloc_post k a s (Leaf b) (M, h) (genericAllocMemoryRec sz (of_nat a) (M, h))"
proof (cases b)
  case True
  then have "bn_status (h (of_nat a)) = FULL" using t by simp
  then show ?thesis using True t by (simp add: rec_full alloc_post_def bt_alloc_leaf_cases)
next
  case False
  have n0: "(of_nat a :: ptr) \<noteq> NULL" using of_nat_u64_inj [of a 0] e by simp
  have sz: "bn_size (h (of_nat a)) = of_nat s" and st: "bn_status (h (of_nat a)) \<noteq> FULL"
    and lr: "bn_left (h (of_nat a)) = NULL" "bn_right (h (of_nat a)) = NULL"
    using t False tree_at_leaf [OF t] by (auto simp: no_children_def)
  have s64: "s < 2 ^ 64" "k < 2 ^ 64" using e page_power_64 [OF k(1)] by auto
  have run: "genericAllocMemoryRec sz (of_nat a) (M, h) =
    (if s < k then Some (NULL, M, h)
     else if k \<le> s div 2 then do {
       let s1 = setDescendants (of_nat a) (M, h);
       (p, s2) \<leftarrow> genericAllocMemoryRec sz (bn_left (snd s1 (of_nat a))) s1;
       Some (p, endRecursiveCall (of_nat a) s2)
     }
     else Some (of_nat a + 32, charge (of_nat s + 32) M, set_status (of_nat a) FULL h))"
    unfolding rec_leaf [where h = h, OF n0 st lr] sz k(2) page_power_ucast [OF k(1)]
    using s64 of_nat64_simps [of "s div 2" k] of_nat64_simps [of k "s div 2"] of_nat64_simps [of s k] by simp
  consider (small) "s < k" | (split) "k \<le> s" "k \<le> s div 2" | (take) "k \<le> s" "\<not> k \<le> s div 2" by linarith
  then show ?thesis
  proof cases
    case small
    then show ?thesis using run t False by (simp add: alloc_post_def bt_alloc_leaf_cases)
  next
    case take
    have "genericAllocMemoryRec sz (of_nat a) (M, h) =
        Some (of_nat (a + 32), charge (of_nat s + 32) M, set_status (of_nat a) FULL h)"
      using run take by simp
    moreover have "(of_nat (a + 32) :: ptr) \<noteq> NULL" using of_nat_u64_inj [of "a + 32" 0] e by simp
    moreover have "tree_at (set_status (of_nat a) FULL h) a s (Leaf True)"
      using t False sz lr by (auto simp: set_status_def no_children_def)
    moreover have "framed a s h (set_status (of_nat a) FULL h)"
      unfolding set_status_def using e by (intro framed_upd framed_refl) auto
    moreover have "bt_alloc k a s (Leaf False) = Some (a + 32, Leaf True)"
      using take by (intro bt_alloc_leaf_cases) auto
    ultimately show ?thesis using False unfolding alloc_post_def by (auto simp: charge_def simp del: of_nat_add)
  next
    case split
    have s: "8192 \<le> s" "64 \<le> s" "0 < s" using split page_power_le [OF k(1)] by auto
    have kh: "k \<le> half s" "good_size (half s)" using good_size_half [OF g k(1) split(2)] by auto
    have t0: "tree_at h a s (Leaf False)" using t False by simp
    obtain M1 h1 where sd: "setDescendants (of_nat a) (M, h) = (M1, h1)" "b_root M1 = b_root M"
      and hv: "halves_at h1 a s (Leaf False) (Leaf False)" and fr: "framed a s h h1"
      using setDescendants_ok [OF t0 s(1) e(2,3) lim(1)] by blast
    have lim1: "limit_at M1 h1 e" using e by (intro limit_framed [OF lim(1) fr sd(2) lim(2)]) simp
    obtain p l where pl: "bt_alloc k (a + 32) (half s) (Leaf False) = Some (p, l)"
      using bt_alloc_leaf [OF k(1) kh(2,1)] by blast
    have okl: "bt_ok (half s) l"
      using bt_alloc_ok [OF _ _ pl] page_power_le [OF k(1)] by (simp add: grants_def)
    have "alloc_post k (a + 32) (half s) (Leaf False) (M1, h1) (genericAllocMemoryRec sz (of_nat (a + 32)) (M1, h1))"
      using hv kh lim1 split s False e lim(2) sd(2)
      by (intro IH) (auto simp: halves_at_def half_def)
    then obtain M2 h2 where rec: "genericAllocMemoryRec sz (of_nat (a + 32)) (M1, h1) = Some (of_nat p, M2, h2)"
      and M2: "b_root M2 = b_root M1" "(of_nat p :: ptr) \<noteq> NULL"
      and fr2: "framed (a + 32) (half s) h1 h2" and t2: "tree_at h2 (a + 32) (half s) l"
      using pl by (auto simp: alloc_post_def)
    note hl = halves_left [OF hv fr2 t2 s(2)]
    have "halves_at h2 a s l (Leaf False)" "framed a s h1 h2" using hl e by auto
    from close_split [OF this(1) okl _ s(2), of M2] e obtain M3 h3
      where ec: "endRecursiveCall (of_nat a) (M2, h2) = (M3, h3)" "b_root M3 = b_root M2"
        "tree_at h3 a s (Split l (Leaf False))" "framed a s h2 h3" by auto
    have "genericAllocMemoryRec sz (of_nat a) (M, h) = Some (of_nat p, M3, h3)"
      using run split sd(1) rec ec(1) hv by (simp add: halves_at_def del: of_nat_add)
    moreover have "framed a s h h3" using fr \<open>framed a s h1 h2\<close> ec(4) framed_trans by blast
    moreover have "bt_alloc k a s (Leaf False) = Some (p, Split l (Leaf False))"
      using split s pl by (simp add: bt_alloc_leaf_cases)
    ultimately show ?thesis
      using False ec(2,3) M2 sd(2) unfolding alloc_post_def by simp
  qed
qed

lemma genericAllocMemoryRec_refines:
  assumes "page_power k" "sz = of_nat k" "tree_at h a s t" "bt_ok s t" "good_size s"
    and "0 < a" "a + 32 + s \<le> e" "e < 2 ^ 64" "limit_at M h e" "unat (b_root M) \<le> a"
  shows "alloc_post k a s t (M, h) (genericAllocMemoryRec sz (of_nat a) (M, h))"
  using assms
proof (induction k a s t arbitrary: M h rule: bt_alloc.induct)
  case (1 k a s b)
  show ?case
    by (rule alloc_post_leaf [OF 1(2,3,4,6-11)], rule 1(1)) (use 1(2,3,7,9) in auto)
next
  case (2 k a s l r)
  have ok: "64 \<le> s" "bt_ok (half s) l" "bt_ok (half s) r" and e: "a + 32 + s < 2 ^ 64"
    using 2(6,9,10) by auto
  have n0: "(of_nat a :: ptr) \<noteq> NULL" using of_nat_u64_inj [of a 0] 2(8) e by simp
  have hv: "halves_at h a s l r" and st: "bn_status (h (of_nat a)) = status_of (Split l r)"
    using 2(5) by (simp_all only: tree_at_Split)
  have l0: "bn_left (h (of_nat a)) = of_nat (a + 32)" "(of_nat (a + 32) :: ptr) \<noteq> NULL"
    using hv of_nat_u64_inj [of "a + 32" 0] e by (auto simp: halves_at_def)
  have fits: "a + 32 + 32 + half s \<le> e" "a + 32 + s div 2 + 32 + half s \<le> e"
    using ok(1) 2(9) by (auto simp: half_def)
  have gh: "good_size (half s)" using 2(7) by (rule good_size_down)
  show ?case
  proof (cases "status_of (Split l r) = FULL")
    case True
    then show ?thesis
      using 2(5) st rec_full [of h "of_nat a" sz M] bt_alloc_full [OF True, of k a s]
      by (simp add: alloc_post_def del: tree_at.simps bt_alloc.simps status_of.simps)
  next
    case False
    have run: "genericAllocMemoryRec sz (of_nat a) (M, h) =
     do {
       (p, s1) \<leftarrow> genericAllocMemoryRec sz (of_nat (a + 32)) (M, h);
       (q, s2) \<leftarrow> (if p = NULL then genericAllocMemoryRec sz (bn_right (snd s1 (of_nat a))) s1
                  else Some (p, s1));
       Some (q, endRecursiveCall (of_nat a) s2)
     }"
      using rec_split [of "of_nat a" h sz M] n0 st False l0 by simp
    have "alloc_post k (a + 32) (half s) l (M, h) (genericAllocMemoryRec sz (of_nat (a + 32)) (M, h))"
      using hv gh fits 2(3,4,10-12) ok by (intro 2(1)) (auto simp: halves_at_def)
    then obtain p M1 h1 where rec: "genericAllocMemoryRec sz (of_nat (a + 32)) (M, h) = Some (p, M1, h1)"
      and M1: "b_root M1 = b_root M" and fr: "framed (a + 32) (half s) h h1"
      and un: "untouched (bt_blocks (a + 32) (half s) l) h h1"
      and res: "case bt_alloc k (a + 32) (half s) l of None \<Rightarrow> p = NULL \<and> tree_at h1 (a + 32) (half s) l
        | Some (q, t') \<Rightarrow> p = of_nat q \<and> p \<noteq> NULL \<and> tree_at h1 (a + 32) (half s) t'"
      by (auto simp: alloc_post_def)
    show ?thesis
    proof (cases "bt_alloc k (a + 32) (half s) l")
      case (Some x)
      obtain q l' where x: "x = (q, l')" by fastforce
      have q: "p = of_nat q" "p \<noteq> NULL" "tree_at h1 (a + 32) (half s) l'" using res Some x by auto
      have okl: "bt_ok (half s) l'"
        using bt_alloc_ok [of k "half s" l "a + 32" q l'] ok(2) Some x page_power_le [OF 2(3)]
        by (simp add: grants_def)
      from halves_left [OF hv fr q(3) ok(1,3) e] un
      have hl: "halves_at h1 a s l' r" "framed a s h h1" "untouched (bt_blocks a s (Split l r)) h h1" by blast+
      from close_split [OF hl(1) okl ok(3,1) e, of M1] obtain M3 h3
        where ec: "endRecursiveCall (of_nat a) (M1, h1) = (M3, h3)" "b_root M3 = b_root M1"
          "tree_at h3 a s (Split l' r)" "framed a s h1 h3" "\<forall>t. bt_ok s t \<longrightarrow> untouched (bt_blocks a s t) h1 h3" by auto
      have "genericAllocMemoryRec sz (of_nat a) (M, h) = Some (p, M3, h3)"
        using run rec q(2) ec(1) by simp
      moreover have "framed a s h h3" using hl(2) ec(4) framed_trans by blast
      moreover have "untouched (bt_blocks a s (Split l r)) h h3"
        using hl(3) ec(5) 2(6) untouched_trans by blast
      ultimately show ?thesis using Some x q ec(2,3) M1 by (simp add: alloc_post_def)
    next
      case None
      have p: "p = NULL" "tree_at h1 (a + 32) (half s) l" using res None by auto
      from halves_left [OF hv fr p(2) ok(1,3) e] un
      have hl: "halves_at h1 a s l r" "framed a s h h1" "untouched (bt_blocks a s (Split l r)) h h1" by blast+
      have lim1: "limit_at M1 h1 e" using e by (intro limit_framed [OF 2(11) hl(2) M1 2(12)]) simp
      have "alloc_post k (a + 32 + s div 2) (half s) r (M1, h1)
          (genericAllocMemoryRec sz (of_nat (a + 32 + s div 2)) (M1, h1))"
        using hl(1) gh fits lim1 2(3,4,10-12) ok M1 by (intro 2(2) [OF None]) (auto simp: halves_at_def)
      then obtain q M2 h2 where rec2: "genericAllocMemoryRec sz (of_nat (a + 32 + s div 2)) (M1, h1) = Some (q, M2, h2)"
        and M2: "b_root M2 = b_root M1" and fr2: "framed (a + 32 + s div 2) (half s) h1 h2"
        and un2: "untouched (bt_blocks (a + 32 + s div 2) (half s) r) h1 h2"
        and res2: "case bt_alloc k (a + 32 + s div 2) (half s) r of
          None \<Rightarrow> q = NULL \<and> tree_at h2 (a + 32 + s div 2) (half s) r
        | Some (u, t') \<Rightarrow> q = of_nat u \<and> q \<noteq> NULL \<and> tree_at h2 (a + 32 + s div 2) (half s) t'"
        by (auto simp: alloc_post_def)
      define r' where "r' = (case bt_alloc k (a + 32 + s div 2) (half s) r of None \<Rightarrow> r | Some (u, t') \<Rightarrow> t')"
      have t2: "tree_at h2 (a + 32 + s div 2) (half s) r'"
        using res2 by (auto simp: r'_def split: option.splits)
      have okr: "bt_ok (half s) r'"
        using bt_alloc_ok [of k "half s" r "a + 32 + s div 2"] ok(3) page_power_le [OF 2(3)]
        by (auto simp: r'_def grants_def split: option.split)
      from halves_right [OF hl(1) fr2 t2 ok(1,2) e] un2
      have hr: "halves_at h2 a s l r'" "framed a s h1 h2" "untouched (bt_blocks a s (Split l r)) h1 h2" by blast+
      from close_split [OF hr(1) ok(2) okr ok(1) e, of M2] obtain M3 h3
        where ec: "endRecursiveCall (of_nat a) (M2, h2) = (M3, h3)" "b_root M3 = b_root M2"
          "tree_at h3 a s (Split l r')" "framed a s h2 h3" "\<forall>t. bt_ok s t \<longrightarrow> untouched (bt_blocks a s t) h2 h3" by auto
      have "bn_right (h1 (of_nat a)) = of_nat (a + 32 + s div 2)" using hl(1) by (simp add: halves_at_def)
      then have "genericAllocMemoryRec sz (of_nat a) (M, h) = Some (q, M3, h3)"
        using run rec p(1) rec2 ec(1) by (simp del: of_nat_add)
      moreover have "framed a s h h3" using hl(2) hr(2) ec(4) framed_trans by blast
      moreover have "untouched (bt_blocks a s (Split l r)) h h3"
        using hl(3) hr(3) ec(5) 2(6) untouched_trans by blast
      moreover have "bt_alloc k a s (Split l r) =
          map_option (\<lambda>(p, r'). (p, Split l r')) (bt_alloc k (a + 32 + s div 2) (half s) r)"
        using None by simp
      ultimately show ?thesis using res2 ec(2,3) M1 M2 unfolding alloc_post_def
        by (auto simp: r'_def split: option.splits)
    qed
  qed
qed

text \<open>Collapsing a node whose halves are both free gives a free leaf again.\<close>

lemma collapse_ok:
  assumes "halves_at h a s (Leaf False) (Leaf False)" "bn_status (h (of_nat a)) = EMPTY"
    and "64 \<le> s" "a + 32 + s < 2 ^ 64"
  shows "tree_at (set_left (of_nat a) NULL (set_right (of_nat a) NULL h)) a s (Leaf False)"
proof -
  let ?h = "set_left (of_nat a) NULL (set_right (of_nat a) NULL h)"
  have fr: "fresh h (a + 32) (half s)" "fresh h (a + 32 + s div 2) (half s)"
    using assms(1) by (auto simp: halves_at_def)
  have other: "no_children ?h x" if "a < x" "x < a + 32 + s" "no_children h x" for x
  proof -
    have "(of_nat x :: ptr) \<noteq> of_nat a" using that(1,2) assms(4) by (subst of_nat_u64_inj) auto
    then show ?thesis using that(3) by (simp add: no_children_def set_left_def set_right_def)
  qed
  have "fresh ?h a s"
  proof (rule freshI)
    show "no_children ?h a" by (simp add: no_children_def set_left_def set_right_def)
    show "fresh ?h (a + 32) (half s)"
      using fr(1) by (rule fresh_mono) (use other assms(3) in \<open>auto simp: half_def\<close>)
    show "fresh ?h (a + 32 + s div 2) (half s)"
      using fr(2) by (rule fresh_mono) (use other assms(3) in \<open>auto simp: half_def\<close>)
  qed
  then show ?thesis using assms(1,2) by (simp add: halves_at_def set_left_def set_right_def)
qed

text \<open>
  A block may be released when the client has left no child pointers at the places where the
  headers of its halves would go.
\<close>

definition left_fresh :: "bheap \<Rightarrow> nat \<Rightarrow> block set \<Rightarrow> bool" where
  "left_fresh h p B \<longleftrightarrow> (\<forall>l. (p, l) \<in> B \<longrightarrow> fresh h (p - 32) l)"

definition free_post :: "nat \<Rightarrow> nat \<Rightarrow> nat \<Rightarrow> bt \<Rightarrow> bstate \<Rightarrow> bstate option \<Rightarrow> bool" where
  "free_post p a s t st out \<longleftrightarrow> (\<exists>M' h'. out = Some (M', h') \<and> b_root M' = b_root (fst st) \<and>
     framed a s (snd st) h' \<and> untouched (bt_blocks a s t) (snd st) h' \<and> tree_at h' a s (bt_free p a s t))"

text \<open>The end of a visit to a split node.\<close>

lemma close_free:
  assumes hv: "halves_at h a s l r" and ok: "bt_ok (half s) l" "bt_ok (half s) r" "64 \<le> s"
    and e: "a + 32 + s < 2 ^ 64"
  shows "\<exists>M2 h2. endRecursiveCall (of_nat a) (M, h) = (M2, h2) \<and>
    (\<exists>M' h'. (if bn_status (h2 (of_nat a)) = EMPTY
       then Some (refund (2 * sizeof_MemNode) M2, set_left (of_nat a) NULL (set_right (of_nat a) NULL h2))
       else Some (M2, h2)) = Some (M', h') \<and> b_root M' = b_root M \<and> framed a s h h' \<and>
       (\<forall>t. bt_ok s t \<longrightarrow> untouched (bt_blocks a s t) h h') \<and> tree_at h' a s (join l r))"
proof -
  obtain M2 h2 where ec: "endRecursiveCall (of_nat a) (M, h) = (M2, h2)" "b_root M2 = b_root M"
    "tree_at h2 a s (Split l r)" "framed a s h h2" "\<forall>t. bt_ok s t \<longrightarrow> untouched (bt_blocks a s t) h h2"
    using close_split [OF hv ok e, of M] by blast
  have st: "bn_status (h2 (of_nat a)) = status_of (Split l r)" using tree_at_head [OF ec(3)] by simp
  have em: "status_of (Split l r) = EMPTY \<longleftrightarrow> l = Leaf False \<and> r = Leaf False"
    using bt_ok_empty [OF ok(1)] bt_ok_empty [OF ok(2)] by auto
  show ?thesis
  proof (cases "l = Leaf False \<and> r = Leaf False")
    case True
    let ?h = "set_left (of_nat a) NULL (set_right (of_nat a) NULL h2)"
    have "halves_at h2 a s (Leaf False) (Leaf False)" using ec(3) True tree_at_Split by blast
    then have "tree_at ?h a s (Leaf False)" using collapse_ok st em True ok(3) e by auto
    moreover have "framed a s h ?h"
      unfolding set_left_def set_right_def using ec(4) e framed_size [OF ec(4)] by (intro framed_upd) auto
    moreover have "untouched (bt_blocks a s t) h ?h" if "bt_ok s t" for t
    proof -
      have "untouched (bt_blocks a s t) h (set_right (of_nat a) NULL h2)"
        unfolding set_right_def using untouched_trans [OF ec(5) [rule_format, OF that] untouched_upd [OF that]] e by simp
      then show ?thesis
        unfolding set_left_def using untouched_trans [OF _ untouched_upd [OF that]] e by simp
    qed
    moreover have "join l r = Leaf False" using True by (simp add: join_def)
    ultimately show ?thesis using ec(1,2) st em True by (simp add: refund_def del: tree_at.simps status_of.simps)
  next
    case False
    then have "join l r = Split l r" by (auto simp: join_def)
    then show ?thesis using ec st em False by (simp del: tree_at.simps status_of.simps)
  qed
qed

lemma genericFreeRec_refines:
  assumes "tree_at h a s t" "bt_ok s t" "0 < a" "a + 32 + s < 2 ^ 64" "left_fresh h (unat p) (bt_blocks a s t)"
  shows "free_post (unat p) a s t (M, h) (genericFreeRec p (of_nat a) (M, h))"
  using assms
proof (induction t arbitrary: a s M h)
  case (Leaf b)
  have n0: "(of_nat a :: ptr) \<noteq> NULL" using of_nat_u64_inj [of a 0] Leaf(3,4) by simp
  have lr: "bn_left (h (of_nat a)) = NULL" "bn_right (h (of_nat a)) = NULL"
    and st: "bn_status (h (of_nat a)) = (if b then FULL else EMPTY)"
    using Leaf(1) tree_at_leaf [OF Leaf(1)] by (auto simp: no_children_def)
  have p: "of_nat a + sizeof_MemNode = p \<longleftrightarrow> unat p = a + 32"
  proof -
    have "p = of_nat (unat p)" by simp
    then have "of_nat (a + 32) = p \<longleftrightarrow> a + 32 = unat p"
      using of_nat_u64_inj [of "a + 32" "unat p"] Leaf(4) unat_less_64 [of p] by (metis add_lessD1)
    then show ?thesis by (auto simp: sizeof_MemNode_def)
  qed
  have run: "genericFreeRec p (of_nat a) (M, h) =
     (if b \<and> unat p = a + 32 then Some (refund (bn_size (h (of_nat a))) M, set_status (of_nat a) EMPTY h)
      else Some (M, h))"
    using n0 lr st p by (subst genericFreeRec.simps) simp
  have "framed a s h (set_status (of_nat a) EMPTY h)"
    unfolding set_status_def using Leaf(4) by (intro framed_upd framed_refl) auto
  moreover have "untouched (bt_blocks a s (Leaf b)) h (set_status (of_nat a) EMPTY h)"
    unfolding set_status_def using Leaf(2,4) by (intro untouched_upd) auto
  moreover have "tree_at (set_status (of_nat a) EMPTY h) a s (Leaf False)" if "b" "unat p = a + 32"
  proof -
    have "fresh h a s" using Leaf(5) that by (simp add: left_fresh_def)
    then have "fresh (set_status (of_nat a) EMPTY h) a s"
      by (rule fresh_mono) (auto simp: no_children_def set_status_def)
    then show ?thesis using Leaf(1) by (auto simp: set_status_def)
  qed
  ultimately show ?case using run Leaf(1) by (auto simp: free_post_def refund_def)
next
  case (Split l r)
  have ok: "64 \<le> s" "bt_ok (half s) l" "bt_ok (half s) r" and e: "a + 32 + s < 2 ^ 64"
    using Split.prems by auto
  have n0: "(of_nat a :: ptr) \<noteq> NULL" using of_nat_u64_inj [of a 0] Split.prems by simp
  have hv: "halves_at h a s l r" using Split.prems(1) by (simp_all only: tree_at_Split)
  have nz: "(of_nat (a + 32) :: ptr) \<noteq> NULL" "(of_nat (a + 32 + s div 2) :: ptr) \<noteq> NULL"
    using of_nat_u64_inj [of "a + 32" 0] of_nat_u64_inj [of "a + 32 + s div 2" 0] e by auto
  have lr: "bn_left (h (of_nat a)) = of_nat (a + 32)" "bn_right (h (of_nat a)) = of_nat (a + 32 + s div 2)"
    using hv by (auto simp: halves_at_def)
  have cmp: "p < of_nat (a + 32 + s div 2) + sizeof_MemNode \<longleftrightarrow> unat p < a + 64 + s div 2"
  proof -
    have "of_nat (a + 32 + s div 2) + sizeof_MemNode = (of_nat (a + 64 + s div 2) :: ptr)"
      by (simp add: sizeof_MemNode_def)
    moreover have "unat (of_nat (a + 64 + s div 2) :: ptr) = a + 64 + s div 2"
      using e ok(1) by (intro unat_of_nat64) linarith
    ultimately show ?thesis unfolding word_less_nat_alt by (simp only:)
  qed
  have el: "a + 32 + 32 + half s < 2 ^ 64" and er: "a + 32 + s div 2 + 32 + half s < 2 ^ 64"
    using e ok(1) by (auto simp: half_def)
  define c where "c = (if unat p < a + 64 + s div 2 then a + 32 else a + 32 + s div 2)"
  have run: "genericFreeRec p (of_nat a) (M, h) = do {
       s1 \<leftarrow> genericFreeRec p (of_nat c) (M, h);
       let (M2, h2) = endRecursiveCall (of_nat a) s1;
       if bn_status (h2 (of_nat a)) = EMPTY
       then Some (refund (2 * sizeof_MemNode) M2, set_left (of_nat a) NULL (set_right (of_nat a) NULL h2))
       else Some (M2, h2) }"
    using n0 nz lr cmp by (subst genericFreeRec.simps) (simp add: c_def del: of_nat_add)
  obtain l' r' M1 h1 where rec: "genericFreeRec p (of_nat c) (M, h) = Some (M1, h1)"
    and M1: "b_root M1 = b_root M" and hv1: "halves_at h1 a s l' r'" and fr: "framed a s h h1"
    and un: "untouched (bt_blocks a s (Split l r)) h h1"
    and ok': "bt_ok (half s) l'" "bt_ok (half s) r'" and j: "bt_free (unat p) a s (Split l r) = join l' r'"
  proof (cases "unat p < a + 64 + s div 2")
    case True
    have "tree_at h (a + 32) (half s) l" using hv by (simp add: halves_at_def)
    from Split.IH(1) [OF this ok(2) _ el, of M] Split.prems(5) obtain M1 h1 where
      "genericFreeRec p (of_nat (a + 32)) (M, h) = Some (M1, h1)" "b_root M1 = b_root M"
      "framed (a + 32) (half s) h h1" "tree_at h1 (a + 32) (half s) (bt_free (unat p) (a + 32) (half s) l)"
      "untouched (bt_blocks (a + 32) (half s) l) h h1"
      using el unfolding free_post_def left_fresh_def by auto
    then show thesis
      using that [of M1 h1] halves_left [OF hv _ _ ok(1,3) e] ok True
        bt_free_ok [OF ok(2), of "unat p" "a + 32"] by (auto simp: c_def simp del: of_nat_add)
  next
    case False
    have "tree_at h (a + 32 + s div 2) (half s) r" using hv by (simp add: halves_at_def)
    from Split.IH(2) [OF this ok(3) _ er, of M] Split.prems(5) obtain M1 h1 where
      "genericFreeRec p (of_nat (a + 32 + s div 2)) (M, h) = Some (M1, h1)" "b_root M1 = b_root M"
      "framed (a + 32 + s div 2) (half s) h h1"
      "tree_at h1 (a + 32 + s div 2) (half s) (bt_free (unat p) (a + 32 + s div 2) (half s) r)"
      "untouched (bt_blocks (a + 32 + s div 2) (half s) r) h h1"
      using er unfolding free_post_def left_fresh_def by auto
    then show thesis
      using that [of M1 h1] halves_right [OF hv _ _ ok(1,2) e] ok False
        bt_free_ok [OF ok(3), of "unat p" "a + 32 + s div 2"] by (auto simp: c_def simp del: of_nat_add)
  qed
  obtain M2 h2 M' h' where ec: "endRecursiveCall (of_nat a) (M1, h1) = (M2, h2)"
    and fin: "(if bn_status (h2 (of_nat a)) = EMPTY
       then Some (refund (2 * sizeof_MemNode) M2, set_left (of_nat a) NULL (set_right (of_nat a) NULL h2))
       else Some (M2, h2)) = Some (M', h')" "b_root M' = b_root M1" "framed a s h1 h'"
      "\<forall>t. bt_ok s t \<longrightarrow> untouched (bt_blocks a s t) h1 h'" "tree_at h' a s (join l' r')"
    using close_free [OF hv1 ok' ok(1) e, of M1] by blast
  have out: "genericFreeRec p (of_nat a) (M, h) = Some (M', h')"
    using run rec ec fin(1) by simp
  show ?case unfolding free_post_def j out fst_conv snd_conv
    using fin(2,5) M1 framed_trans [OF fr fin(3)] untouched_trans [OF un fin(4) [rule_format, OF Split.prems(2)]]
    by (intro exI [of _ M'] exI [of _ h'] conjI) simp_all
qed

section \<open>The sizes asked of the recursion\<close>

lemma ex_top_bit: "0 < (n::nat) \<Longrightarrow> \<exists>i. 2 ^ i \<le> n \<and> n < 2 ^ Suc i"
  using ex_power_ivl1 [of 2 n] by auto

text \<open>A number that passes the test is its own top bit.\<close>

lemma IS_POWER_OF_2_top:
  assumes "IS_POWER_OF_2 x" "2 ^ i \<le> unat x" "unat x < 2 ^ Suc i"
  shows "unat x = 2 ^ i"
proof (rule ccontr)
  assume "unat x \<noteq> 2 ^ i"
  then have lt: "2 ^ i < unat x" using assms(2) by simp
  then have "unat (x - 1) = unat x - 1"
    by (intro unat_minus_one) auto
  then have "unat (x - 1) div 2 ^ i = 1" "unat x div 2 ^ i = 1"
    using lt assms(3) by (auto intro!: div_nat_eqI)
  then have "bit x i" "bit (x - 1) i" by (simp_all add: bit_iff_odd_unat)
  then have "bit (and x (x - 1)) i" by (simp add: bit_and_iff)
  then show False using assms(1) by (simp add: IS_POWER_OF_2_def)
qed

definition rounded :: "u64 \<Rightarrow> u64" where
  "rounded n = (let m = (if n < BLOCK then BLOCK else n) in if IS_POWER_OF_2 m then m else align m)"

lemma rounded_power:
  assumes "unat n < 2 ^ 31"
  shows "\<exists>k. page_power k \<and> unat n \<le> k \<and> (ucast (rounded n) :: u32) = of_nat k"
proof -
  define m where "m = (if n < BLOCK then BLOCK else n)"
  have m: "4096 \<le> unat m" "unat m < 2 ^ 31" "unat n \<le> unat m"
    using assms by (auto simp: m_def BLOCK_def word_less_nat_alt)
  then obtain i where i: "2 ^ i \<le> unat m" "unat m < 2 ^ Suc i" using ex_top_bit [of "unat m"] by auto
  have i12: "12 \<le> i"
  proof (rule ccontr)
    assume "\<not> 12 \<le> i"
    then have "(2::nat) ^ Suc i \<le> 2 ^ 12" by (intro power_increasing) auto
    then show False using i m by simp
  qed
  have i31: "i < 31"
  proof (rule ccontr)
    assume "\<not> i < 31"
    then have "(2::nat) ^ 31 \<le> 2 ^ i" by (intro power_increasing) auto
    then show False using i m by simp
  qed
  obtain j where j: "12 \<le> j" "j < 32" "rounded n = 2 ^ j" "unat n \<le> 2 ^ j"
  proof (cases "IS_POWER_OF_2 m")
    case True
    then have um: "unat m = 2 ^ i" using i by (intro IS_POWER_OF_2_top)
    have "m = of_nat (unat m)" by simp
    then have "m = 2 ^ i" unfolding um by simp
    then show thesis using that [of i] True um m i12 i31 by (simp add: rounded_def m_def [symmetric] Let_def)
  next
    case False
    then show thesis
      using that [of "Suc i"] align_next_power [OF i] i i12 i31 m
      by (simp add: rounded_def m_def [symmetric] Let_def)
  qed
  have "(2 ^ j :: u64) = of_nat (2 ^ j)" by simp
  then have "ucast (2 ^ j :: u64) = (of_nat (2 ^ j) :: u32)"
    using power_strict_increasing [of j 32 "2::nat"] j(2)
    by (simp add: unsigned_of_nat take_bit_nat_eq_self del: of_nat_power)
  then show ?thesis using j by (intro exI [of _ "2 ^ j"]) (auto simp: page_power_def)
qed

section \<open>The manager as a block allocator\<close>

definition bd_start :: "bstate \<Rightarrow> nat" where "bd_start s = unat (b_root (fst s))"
definition bd_len :: "bstate \<Rightarrow> nat" where "bd_len s = unat (bn_size (snd s (b_root (fst s))))"

definition bd_tree :: "bstate \<Rightarrow> bt \<Rightarrow> bool" where
  "bd_tree s t \<longleftrightarrow> tree_at (snd s) (bd_start s) (bd_len s) t \<and> bt_ok (bd_len s) t"

definition bd_inv :: "bstate \<Rightarrow> bool" where
  "bd_inv s \<longleftrightarrow> 0 < bd_start s \<and> bd_start s + 32 + bd_len s < 2 ^ 64 \<and> good_size (bd_len s) \<and>
     (\<exists>t. bd_tree s t)"

definition bd_live :: "bstate \<Rightarrow> block set" where
  "bd_live s = {b. \<exists>t. bd_tree s t \<and> b \<in> bt_blocks (bd_start s) (bd_len s) t}"

definition bd_fits :: "u64 \<Rightarrow> bool" where "bd_fits n \<longleftrightarrow> unat n < 2 ^ 31"

definition bd_release :: "ptr \<Rightarrow> bstate \<Rightarrow> bstate" where
  "bd_release p s = the (genericFreeRec p (b_root (fst s)) s)"

lemma tree_at_unique:
  "tree_at h a s t \<Longrightarrow> tree_at h a s t' \<Longrightarrow> bt_ok s t \<Longrightarrow> bt_ok s t' \<Longrightarrow> a + 32 + s < 2 ^ 64 \<Longrightarrow> t = t'"
proof (induction t arbitrary: t' a s)
  case (Leaf b)
  have "(of_nat (a + 32) :: ptr) \<noteq> of_nat 0" using Leaf.prems(5) by (subst of_nat_u64_inj) auto
  moreover have "bn_left (h (of_nat a)) = NULL" using tree_at_leaf [OF Leaf.prems(1)] by (simp add: no_children_def)
  ultimately show ?case using Leaf.prems(1,2) by (cases t') (auto split: if_splits)
next
  case (Split l r)
  have "(of_nat (a + 32) :: ptr) \<noteq> of_nat 0" using Split.prems(5) by (subst of_nat_u64_inj) auto
  moreover have "bn_left (h (of_nat a)) = of_nat (a + 32)" using Split.prems(1) by simp
  ultimately obtain l' r' where t': "t' = Split l' r'"
    using Split.prems(2) tree_at_leaf [of h a s] by (cases t') (force simp: no_children_def)+
  have "a + 32 + 32 + half s < 2 ^ 64" "a + 32 + s div 2 + 32 + half s < 2 ^ 64"
    using Split.prems(3,5) by (auto simp: half_def)
  then show ?case using Split.IH(1) [of "a + 32" "half s" l'] Split.IH(2) [of "a + 32 + s div 2" "half s" r']
      Split.prems t' by simp
qed

end
