(* ===== verification/BuddyRuns.thy ===== *)
theory BuddyRuns
  imports BuddyTree
begin

text \<open>
  The buddy manager satisfies the allocation contract of \<open>Allocator\<close>, for clients that write into
  their blocks, under the condition on blocks given back that the code needs; and its properties.
\<close>

lemma bd_live_eq:
  assumes "bd_tree s t" "bd_start s + 32 + bd_len s < 2 ^ 64"
  shows "bd_live s = bt_blocks (bd_start s) (bd_len s) t"
  using assms tree_at_unique unfolding bd_live_def bd_tree_def by blast

lemma bd_limit: "bd_start s + 32 + bd_len s < 2 ^ 64 \<Longrightarrow> limit_at (fst s) (snd s) (bd_start s + 32 + bd_len s)"
  by (simp add: limit_at_def bd_start_def bd_len_def)

text \<open>A state in which the arena is framed and the tree replaced.\<close>

lemma bd_step:
  assumes "bd_inv s" "b_root M' = b_root (fst s)" "framed (bd_start s) (bd_len s) (snd s) h'"
    and "tree_at h' (bd_start s) (bd_len s) t'" "bt_ok (bd_len s) t'"
  shows "bd_inv (M', h')" and "bd_live (M', h') = bt_blocks (bd_start s) (bd_len s) t'"
proof -
  have st: "bd_start (M', h') = bd_start s" using assms(2) by (simp add: bd_start_def)
  have "bn_size (h' (of_nat (bd_start s))) = bn_size (snd s (of_nat (bd_start s)))"
    using framed_size [OF assms(3)] .
  then have len: "bd_len (M', h') = bd_len s" using assms(2) by (simp add: bd_start_def bd_len_def)
  have "bd_tree (M', h') t'" using assms(4,5) st len by (simp add: bd_tree_def)
  then show "bd_inv (M', h')" "bd_live (M', h') = bt_blocks (bd_start s) (bd_len s) t'"
    using assms(1) st len bd_live_eq [of "(M', h')" t'] by (auto simp: bd_inv_def)
qed

lemma buddy_genericAllocMemory_eq:
  "buddy_genericAllocMemory n (M, h) =
    (if BLOCK \<le> n \<and> bn_size (h (b_root M)) < n then Some (NULL, M, h)
     else genericAllocMemoryRec (ucast (rounded n)) (b_root M) (M, h))"
  by (simp add: buddy_genericAllocMemory_def rounded_def Let_def)

lemma bd_alloc_cases:
  assumes "bd_inv s" "bd_fits n"
  obtains (refused) s' where "buddy_genericAllocMemory n s = Some (NULL, s')" "bd_inv s'" "bd_live s' = bd_live s"
    | (granted) p s' l where "buddy_genericAllocMemory n s = Some (p, s')" "p \<noteq> NULL" "bd_inv s'"
        "unat n \<le> l" "unat p \<notin> fst ` bd_live s" "bd_live s' = insert (unat p, l) (bd_live s)"
proof -
  obtain M h where s: "s = (M, h)" by fastforce
  let ?a = "bd_start s" and ?s = "bd_len s"
  obtain t where t: "bd_tree s t" and e: "0 < ?a" "?a + 32 + ?s < 2 ^ 64" and g: "good_size ?s"
    using assms(1) by (auto simp: bd_inv_def)
  have ta: "tree_at h ?a ?s t" "bt_ok ?s t" using t s by (auto simp: bd_tree_def)
  have live: "bd_live s = bt_blocks ?a ?s t" using bd_live_eq [OF t e(2)] .
  have root: "of_nat ?a = b_root M" "unat (b_root M) \<le> ?a" by (simp_all add: bd_start_def s)
  show thesis
  proof (cases "BLOCK \<le> n \<and> bn_size (h (b_root M)) < n")
    case True
    then have "buddy_genericAllocMemory n s = Some (NULL, s)" by (simp add: buddy_genericAllocMemory_def s)
    then show thesis using refused assms(1) by blast
  next
    case False
    obtain k where k: "page_power k" "unat n \<le> k" "(ucast (rounded n) :: u32) = of_nat k"
      using rounded_power assms(2) by (auto simp: bd_fits_def)
    have run: "buddy_genericAllocMemory n s = genericAllocMemoryRec (of_nat k) (b_root M) (M, h)"
      unfolding s buddy_genericAllocMemory_eq k(3) root using False by (simp only: if_False)
    have "alloc_post k ?a ?s t (M, h) (genericAllocMemoryRec (of_nat k) (of_nat ?a) (M, h))"
      using ta g e root bd_limit [OF e(2)] s
      by (intro genericAllocMemoryRec_refines [OF k(1) refl, where e = "?a + 32 + ?s"]) auto
    then obtain res M' h' where out: "buddy_genericAllocMemory n s = Some (res, M', h')"
      and M': "b_root M' = b_root (fst s)" and fr: "framed ?a ?s (snd s) h'"
      and res: "case bt_alloc k ?a ?s t of None \<Rightarrow> res = NULL \<and> tree_at h' ?a ?s t
        | Some (p, t') \<Rightarrow> res = of_nat p \<and> res \<noteq> NULL \<and> tree_at h' ?a ?s t'"
      using run root s by (auto simp: alloc_post_def)
    show thesis
    proof (cases "bt_alloc k ?a ?s t")
      case None
      then have "res = NULL" "tree_at h' ?a ?s t" using res by auto
      then show thesis using refused [OF out [unfolded \<open>res = NULL\<close>]] bd_step [OF assms(1) M' fr _ ta(2)] live by auto
    next
      case (Some x)
      obtain p t' where x: "x = (p, t')" by fastforce
      have r: "res = of_nat p" "res \<noteq> NULL" "tree_at h' ?a ?s t'" using res Some x by auto
      have gr: "grants k ?a ?s t p t'"
        using bt_alloc_ok [OF _ ta(2)] Some x page_power_le [OF k(1)] by auto
      then obtain l where l: "k \<le> l" "p \<notin> fst ` bt_blocks ?a ?s t" "bt_blocks ?a ?s t' = insert (p, l) (bt_blocks ?a ?s t)"
        and ok': "bt_ok ?s t'" and "p \<le> ?a + 32 + ?s" by (auto simp: grants_def)
      then have p: "unat (of_nat p :: ptr) = p" using e(2) by (intro unat_of_nat64) simp
      have le: "unat n \<le> l" using l(1) k(2) by simp
      show thesis
        using granted [OF out r(2) bd_step(1) [OF assms(1) M' fr r(3) ok'] le]
          bd_step(2) [OF assms(1) M' fr r(3) ok'] l live p r(1) by auto
    qed
  qed
qed

text \<open>
  What may be given back: any pointer, but when a block starts there the client must not have
  left child pointers at the places where headers may be put below it.
\<close>

definition bd_releasable :: "bstate \<Rightarrow> ptr \<Rightarrow> bool" where
  "bd_releasable s p \<longleftrightarrow> left_fresh (snd s) (unat p) (bd_live s)"

lemma bd_release_ok:
  assumes "bd_inv s" "bd_releasable s p"
  shows "bd_inv (bd_release p s)" and "bd_live (bd_release p s) = {b \<in> bd_live s. fst b \<noteq> unat p}"
    and "genericFreeRec p (b_root (fst s)) s = Some (bd_release p s)"
proof -
  obtain M h where s: "s = (M, h)" by fastforce
  let ?a = "bd_start s" and ?s = "bd_len s"
  obtain t where t: "bd_tree s t" and e: "0 < ?a" "?a + 32 + ?s < 2 ^ 64"
    using assms(1) by (auto simp: bd_inv_def)
  have ta: "tree_at h ?a ?s t" "bt_ok ?s t" using t s by (auto simp: bd_tree_def)
  have lf: "left_fresh h (unat p) (bt_blocks ?a ?s t)"
    using assms(2) bd_live_eq [OF t e(2)] s by (simp add: bd_releasable_def)
  have "free_post (unat p) ?a ?s t (M, h) (genericFreeRec p (of_nat ?a) (M, h))"
    using genericFreeRec_refines [OF ta e lf] .
  then obtain M' h' where out: "genericFreeRec p (b_root (fst s)) s = Some (M', h')"
    and M': "b_root M' = b_root (fst s)" and fr: "framed ?a ?s (snd s) h'"
    and t': "tree_at h' ?a ?s (bt_free (unat p) ?a ?s t)"
    using s by (auto simp: free_post_def bd_start_def)
  have ok': "bt_ok ?s (bt_free (unat p) ?a ?s t)" using bt_free_ok [OF ta(2)] by blast
  have rel: "bd_release p s = (M', h')" using out by (simp add: bd_release_def)
  show "bd_inv (bd_release p s)" "bd_live (bd_release p s) = {b \<in> bd_live s. fst b \<noteq> unat p}"
    unfolding rel using bd_step [OF assms(1) M' fr t' ok'] bt_free_ok [OF ta(2), of "unat p" ?a] bd_live_eq [OF t e(2)]
    by auto
  show "genericFreeRec p (b_root (fst s)) s = Some (bd_release p s)" using out rel by simp
qed

text \<open>
  Writing the first \<open>n\<close> bytes of a block changes whatever is read there as a header, in any way.
\<close>

definition bd_write :: "ptr \<Rightarrow> nat \<Rightarrow> bheap \<Rightarrow> bstate \<Rightarrow> bstate" where
  "bd_write p n w s = (fst s, \<lambda>x. if unat p \<le> unat x \<and> unat x < unat p + n then w x else snd s x)"

lemma tree_at_write:
  assumes "tree_at h a s t" "bt_ok s t" "a + 32 + s < 2 ^ 64"
    and "\<And>x. a \<le> x \<Longrightarrow> x < a + 32 + s \<Longrightarrow> h' (of_nat x) \<noteq> h (of_nat x) \<Longrightarrow> \<exists>b\<in>bt_blocks a s t. x \<in> span b"
  shows "tree_at h' a s t"
  using assms
proof (induction t arbitrary: a s)
  case (Leaf b)
  have hd: "h' (of_nat a) = h (of_nat a)"
  proof (rule ccontr)
    assume "h' (of_nat a) \<noteq> h (of_nat a)"
    from Leaf(4) [OF _ _ this] show False by (auto simp: span_def split: if_splits)
  qed
  show ?case
  proof (cases b)
    case True
    then show ?thesis using Leaf(1) hd by (simp add: no_children_def)
  next
    case False
    then have "h' (of_nat x) = h (of_nat x)" if "a \<le> x" "x < a + 32 + s" for x using Leaf(4) [OF that] by auto
    then have "fresh h' a s = fresh h a s" by (intro fresh_cong) simp
    then show ?thesis using Leaf(1) hd False by simp
  qed
next
  case (Split l r)
  let ?L = "bt_blocks (a + 32) (half s) l" and ?R = "bt_blocks (a + 32 + s div 2) (half s) r"
  have ok: "64 \<le> s" "bt_ok (half s) l" "bt_ok (half s) r" using Split.prems(2) by auto
  have L: "a + 64 \<le> x \<and> x < a + 32 + s div 2" if "b \<in> ?L" "x \<in> span b" for b x
    using bt_blocks_range [OF ok(2), of "fst b" "snd b" "a + 32"] that ok(1) by (auto simp: span_def half_def)
  have R: "a + 64 + s div 2 \<le> x \<and> x < a + 32 + s" if "b \<in> ?R" "x \<in> span b" for b x
    using bt_blocks_range [OF ok(3), of "fst b" "snd b" "a + 32 + s div 2"] that ok(1) by (auto simp: span_def half_def)
  have ch: "(\<exists>b\<in>?L. x \<in> span b) \<or> (\<exists>b\<in>?R. x \<in> span b)"
    if "a \<le> x" "x < a + 32 + s" "h' (of_nat x) \<noteq> h (of_nat x)" for x
    using Split.prems(4) [OF that] by auto
  have hd: "h' (of_nat a) = h (of_nat a)" using ch [of a] L R by fastforce
  have el: "a + 32 + 32 + half s = a + 32 + s div 2" "a + 32 + s div 2 + 32 + half s \<le> a + 32 + s"
    using ok(1) by (auto simp: half_def)
  have "tree_at h' (a + 32) (half s) l"
  proof (rule Split.IH(1) [OF _ ok(2)])
    show "tree_at h (a + 32) (half s) l" using Split.prems(1) by simp
    show "a + 32 + 32 + half s < 2 ^ 64" using el Split.prems(3) by linarith
    fix x assume x: "a + 32 \<le> x" "x < a + 32 + 32 + half s" "h' (of_nat x) \<noteq> h (of_nat x)"
    have "\<not> (\<exists>b\<in>?R. x \<in> span b)" using R [of _ x] x(2) el by fastforce
    then show "\<exists>b\<in>?L. x \<in> span b" using ch [of x] x el by linarith
  qed
  moreover have "tree_at h' (a + 32 + s div 2) (half s) r"
  proof (rule Split.IH(2) [OF _ ok(3)])
    show "tree_at h (a + 32 + s div 2) (half s) r" using Split.prems(1) by simp
    show "a + 32 + s div 2 + 32 + half s < 2 ^ 64" using el Split.prems(3) by linarith
    fix x assume x: "a + 32 + s div 2 \<le> x" "x < a + 32 + s div 2 + 32 + half s" "h' (of_nat x) \<noteq> h (of_nat x)"
    have "\<not> (\<exists>b\<in>?L. x \<in> span b)" using L x(1) by (meson leD)
    then show "\<exists>b\<in>?R. x \<in> span b" using ch [of x] x el by linarith
  qed
  ultimately show ?case using Split.prems(1) hd by simp
qed

lemma bd_write_ok:
  assumes "bd_inv s" "(unat p, l) \<in> bd_live s" "n \<le> l"
  shows "bd_inv (bd_write p n w s)" and "bd_live (bd_write p n w s) = bd_live s"
proof -
  obtain M h where s: "s = (M, h)" by fastforce
  let ?a = "bd_start s" and ?s = "bd_len s" and ?h = "snd (bd_write p n w s)"
  obtain t where t: "bd_tree s t" and e: "?a + 32 + ?s < 2 ^ 64" using assms(1) by (auto simp: bd_inv_def)
  have ta: "tree_at h ?a ?s t" "bt_ok ?s t" using t s by (auto simp: bd_tree_def)
  have live: "bd_live s = bt_blocks ?a ?s t" using bd_live_eq [OF t e] .
  have p: "(unat p, l) \<in> bt_blocks ?a ?s t" using assms(2) live by simp
  have lo: "?a + 32 \<le> unat p" using bt_blocks_range [OF ta(2) p] by simp
  have out: "?h x = h x" if "\<not> (unat p \<le> unat x \<and> unat x < unat p + n)" for x
    using that by (auto simp: bd_write_def s)
  have "tree_at ?h ?a ?s t"
  proof (rule tree_at_write [OF ta e])
    fix x assume x: "x < ?a + 32 + ?s" and ne: "?h (of_nat x) \<noteq> h (of_nat x)"
    have "unat (of_nat x :: ptr) = x" using x e by (intro unat_of_nat64) simp
    then have "unat p \<le> x \<and> x < unat p + n" using out [of "of_nat x"] ne by fastforce
    then have "x \<in> span (unat p, l)" using assms(3) by (auto simp: span_def)
    then show "\<exists>b\<in>bt_blocks ?a ?s t. x \<in> span b" using p by blast
  qed
  moreover have "framed ?a ?s h ?h"
    unfolding framed_def
  proof (intro conjI allI impI)
    fix x :: nat assume x: "x < 2 ^ 64" "x < ?a \<or> ?a + 32 + ?s \<le> x"
    then show "?h (of_nat x) = h (of_nat x)"
      using bt_blocks_range [OF ta(2) p] assms(3) by (intro out) (auto simp: unat_of_nat64)
  next
    show "bn_size (?h (of_nat ?a)) = bn_size (h (of_nat ?a))"
      using out [of "of_nat ?a"] lo e by (simp add: unat_of_nat64)
  qed
  moreover have "fst (bd_write p n w s) = M" by (simp add: bd_write_def s)
  ultimately have st: "bd_inv (M, ?h)" "bd_live (M, ?h) = bt_blocks ?a ?s t"
    using bd_step [OF assms(1), of M ?h t] ta(2) s by auto
  moreover have "bd_write p n w s = (M, ?h)" by (simp add: bd_write_def s)
  ultimately show "bd_inv (bd_write p n w s)" "bd_live (bd_write p n w s) = bd_live s" using live by simp_all
qed

interpretation bd: written_manager bd_inv bd_live bd_fits unat buddy_genericAllocMemory bd_releasable bd_release bd_write
proof unfold_locales
  fix s n assume h: "bd_inv s" "bd_fits n"
  then show "\<exists>p s'. buddy_genericAllocMemory n s = Some (p, s') \<and> bd_inv s'"
    by (cases rule: bd_alloc_cases) auto
  show "bd_live s' = bd_live s" if "buddy_genericAllocMemory n s = Some (NULL, s')" for s'
    using h that by (cases rule: bd_alloc_cases) auto
  show "\<exists>l\<ge>unat n. unat p \<notin> fst ` bd_live s \<and> bd_live s' = insert (unat p, l) (bd_live s)"
    if "buddy_genericAllocMemory n s = Some (p, s')" "p \<noteq> NULL" for p s'
    using h that by (cases rule: bd_alloc_cases) auto
next
  fix s b c assume "bd_inv s" "b \<in> bd_live s" "c \<in> bd_live s" "b \<noteq> c"
  then show "span b \<inter> span c = {}"
    using bd_live_eq bt_blocks_disjoint by (metis bd_inv_def bd_tree_def)
next
  fix s p assume "bd_inv s" "bd_releasable s p"
  then show "bd_inv (bd_release p s)" "bd_live (bd_release p s) = {b \<in> bd_live s. fst b \<noteq> unat p}"
    by (rule bd_release_ok)+
next
  fix s :: bstate and p :: ptr and l n :: nat and w :: bheap
  assume "bd_inv s" "(unat p, l) \<in> bd_live s" "n \<le> l"
  then show "bd_inv (bd_write p n w s) \<and> bd_live (bd_write p n w s) = bd_live s" using bd_write_ok by blast
qed

section \<open>Properties\<close>

lemma buddy_initMemory_inv:
  assumes "init \<noteq> NULL" "32 \<le> sz" "unat init + unat sz < 2 ^ 64" "good_size (unat sz - 32)"
    and "fresh h (unat init) (unat sz - 32)"
  shows "bd_inv (buddy_initMemory init sz (M, h))"
proof -
  let ?st = "buddy_initMemory init sz (M, h)"
  have a: "bd_start ?st = unat init" by (simp add: bd_start_def buddy_initMemory_def)
  have sz: "unat (sz - 32) = unat sz - 32" "32 \<le> unat sz"
    using assms(2) by (simp_all add: unat_minus_fits word_le_nat_alt)
  have l: "bd_len ?st = unat sz - 32" using sz by (simp add: bd_len_def buddy_initMemory_def sizeof_MemNode_def)
  have "fresh (snd ?st) (unat init) (unat sz - 32)"
    using assms(5) by (rule fresh_mono) (auto simp: buddy_initMemory_def no_children_def)
  then have "bd_tree ?st (Leaf False)"
    using assms(3) sz unfolding bd_tree_def a l
    by (auto simp: buddy_initMemory_def sizeof_MemNode_def of_nat_diff)
  moreover have "0 < unat init" using assms(1) by (simp add: unat_gt_0)
  ultimately show ?thesis using assms(3,4) sz(2) unfolding bd_inv_def a l by auto
qed

text \<open> (C2)
  A client makes any sequence of requests (below 2 GiB), of writes of anything into the bytes it
  was granted, and of releases of any pointers, on a manager set up over memory that holds no
  child pointers where headers may be put.  When it releases a block, it leaves no child
  pointers at those places of the block (none at all in a block shorter than 8 KiB, which is
  never split).  Then every call returns and the outstanding blocks never overlap.
\<close>

theorem buddy_runs_disjoint:
  assumes "init \<noteq> NULL" "32 \<le> sz" "unat init + unat sz < 2 ^ 64" "good_size (unat sz - 32)"
    and "fresh h (unat init) (unat sz - 32)"
    and "client_ok bd_fits bd_releasable unat buddy_genericAllocMemory bd_release bd_write cs []
           (buddy_initMemory init sz (M, h))"
  shows "\<exists>g s. run_client unat buddy_genericAllocMemory bd_release bd_write cs []
             (buddy_initMemory init sz (M, h)) = Some (g, s) \<and>
           bd_inv s \<and> grants_disjoint unat g"
  using bd.client_disjoint [OF buddy_initMemory_inv [OF assms(1-5)] assms(6)] .

text \<open>The arenas \<^verbatim>\<open>main\<close> sets up have sizes whose halves serve every page-sized power of two.\<close>

lemma good_size_step:
  assumes big: "\<not> s div 2 < 4096" and i: "2 ^ i \<le> half s" "s div 2 < 2 ^ Suc i" and g: "good_size (half s)"
  shows "good_size s"
proof -
  have "2 ^ k \<le> half s" if "2 ^ k \<le> s div 2" for k
  proof -
    have "(2::nat) ^ k < 2 ^ Suc i" using that i(2) by simp
    then have "k \<le> i" using power_less_imp_less_exp [of "2::nat" k "Suc i"] by simp
    then have "(2::nat) ^ k \<le> 2 ^ i" by (intro power_increasing) auto
    then show ?thesis using i(1) by (rule order_trans)
  qed
  then show "good_size s" using big g by (subst good_size.simps) (simp only: if_False, blast)
qed

fun good_chain :: "nat list \<Rightarrow> nat \<Rightarrow> bool" where
  "good_chain [] s = (s div 2 < 4096)"
| "good_chain (i # is) s =
     (\<not> s div 2 < 4096 \<and> 2 ^ i \<le> half s \<and> s div 2 < 2 ^ Suc i \<and> good_chain is (half s))"

lemma good_chain_good: "good_chain is s \<Longrightarrow> good_size s"
proof (induction "is" arbitrary: s)
  case Nil
  then show ?case by (subst good_size.simps) (simp only: if_True good_chain.simps)
next
  case (Cons i "is")
  then show ?case using good_size_step [of s i] by (simp del: power_Suc)
qed

lemma arenas_good: "good_size (0x3FFF8 - 32)" "good_size (0x140000 - 32)"
  by (rule good_chain_good [of "[16, 15, 14, 13, 12]"], simp add: half_def)
    (rule good_chain_good [of "[19, 18, 17, 16, 15, 14, 13, 12]"], simp add: half_def)

definition bheap_zero :: bheap where
  "bheap_zero = (\<lambda>_. \<lparr>bn_right = NULL, bn_left = NULL, bn_size = 0, bn_status = EMPTY\<rparr>)"

definition junk_node :: MemNode where
  "junk_node = \<lparr>bn_right = 0x700000, bn_left = 0x700000, bn_size = 1, bn_status = FULL\<rparr>"

lemmas buddy_eval = buddy_genericAllocMemory_eq rounded_def BLOCK_def IS_POWER_OF_2_def rec_leaf rec_split
  setDescendants_def Let_def set_left_def set_right_def set_status_def init_child_def sizeof_MemNode_def
  charge_def refund_def endRecursiveCall_def hasDescendants_def buddy_initMemory_def

text \<open>A client of a 16 KiB arena fills a block, gives it back and asks for another one.\<close>

definition small_start :: bstate where
  "small_start = buddy_initMemory 0x1000 0x4000 (\<lparr>b_root = 0, b_memAllocated = 0, b_totalSize = 0, b_freeMemory = 0\<rparr>, bheap_zero)"

lemma small_good: "good_size 16352"
  by (rule good_chain_good [of "[12]"]) (simp add: half_def)

lemma small_fresh: "fresh bheap_zero a s"
  by (rule fresh_all) (simp add: no_children_def bheap_zero_def)

lemma small_start_inv: "bd_inv small_start"
  unfolding small_start_def using small_good small_fresh by (intro buddy_initMemory_inv) auto

definition small_split :: bstate where
  "small_split = (\<lparr>b_root = 0x1000, b_memAllocated = 8240, b_totalSize = 0, b_freeMemory = - 8240\<rparr>,
     bheap_zero
       (0x3010 := \<lparr>bn_right = NULL, bn_left = NULL, bn_size = 8144, bn_status = EMPTY\<rparr>,
        0x1020 := \<lparr>bn_right = NULL, bn_left = NULL, bn_size = 8144, bn_status = FULL\<rparr>,
        0x1000 := \<lparr>bn_right = 0x3010, bn_left = 0x1020, bn_size = 16352, bn_status = PARTIAL\<rparr>))"

lemma small_split_run: "buddy_genericAllocMemory 100 small_start = Some (0x1040, small_split)"
  by (simp add: small_split_def small_start_def buddy_eval bheap_zero_def)

lemma small_split_live: "bd_live small_split = {(0x1040, 8144)}"
proof -
  have "fresh (snd small_split) 0x3010 8144"
    by (simp add: fresh_short no_children_def small_split_def bheap_zero_def)
  then have "tree_at (snd small_split) 0x1000 16352 (Split (Leaf True) (Leaf False))"
    by (simp add: small_split_def bheap_zero_def no_children_def half_def)
  then have "bd_tree small_split (Split (Leaf True) (Leaf False))"
    by (simp add: bd_tree_def bd_start_def bd_len_def small_split_def)
  then show ?thesis
    using bd_live_eq by (simp add: bd_start_def bd_len_def small_split_def half_def)
qed

lemma small_written_releasable: "bd_releasable (bd_write 0x1040 100 (\<lambda>_. junk_node) small_split) 0x1040"
proof -
  let ?s = "bd_write 0x1040 100 (\<lambda>_. junk_node) small_split"
  have "bd_inv small_split" using small_split_run bd.alloc_returns [of small_start 100] small_start_inv
    by (auto simp: bd_fits_def)
  then have "bd_live ?s = {(0x1040, 8144)}"
    using bd_write_ok(2) [of small_split "0x1040" 8144 100] small_split_live by simp
  moreover have "fresh (snd ?s) 0x1020 8144"
    by (simp add: fresh_short no_children_def bd_write_def small_split_def)
  ultimately show ?thesis by (simp add: bd_releasable_def left_fresh_def)
qed

lemma buddy_runs_disjoint_witness:
  "\<exists>g s. run_client unat buddy_genericAllocMemory bd_release bd_write
       [ManagerCall (Alloc 100), ClientWrite 0x1040 (\<lambda>_. junk_node), ManagerCall (Free 0x1040), ManagerCall (Alloc 5000)] [] small_start = Some (g, s) \<and>
     bd_inv s \<and> grants_disjoint unat g"
  unfolding small_start_def
  by (rule buddy_runs_disjoint)
    (use small_split_run small_written_releasable in
      \<open>auto simp: small_good small_fresh bd_fits_def write_in_def small_start_def split: option.split\<close>)

text \<open> (C10)
  The pointer code is a refinement of the abstract tree: on a heap that holds the tree \<open>t\<close>, the
  recursion returns, its result is that of \<open>bt_alloc\<close> on \<open>t\<close>, the heap it leaves holds the
  tree \<open>bt_alloc\<close> yields, and nothing changes outside the arena nor in a block that is in use.
\<close>

theorem genericAllocMemoryRec_implements_bt_alloc:
  assumes "page_power k" "sz = of_nat k" "tree_at h a s t" "bt_ok s t" "good_size s"
    and "0 < a" "a + 32 + s \<le> e" "e < 2 ^ 64" "limit_at M h e" "unat (b_root M) \<le> a"
  shows "\<exists>res M' h'. genericAllocMemoryRec sz (of_nat a) (M, h) = Some (res, M', h') \<and>
    b_root M' = b_root M \<and> (\<forall>x < 2 ^ 64. x < a \<or> a + 32 + s \<le> x \<longrightarrow> h' (of_nat x) = h (of_nat x)) \<and>
    untouched (bt_blocks a s t) h h' \<and>
    (case bt_alloc k a s t of None \<Rightarrow> res = NULL \<and> tree_at h' a s t
     | Some (p, t') \<Rightarrow> res = of_nat p \<and> res \<noteq> NULL \<and> tree_at h' a s t')"
  using genericAllocMemoryRec_refines [OF assms] unfolding alloc_post_def framed_def by auto

definition demo_mgr :: BuddyMemoryManager where
  "demo_mgr = \<lparr>b_root = 0x50000, b_memAllocated = 0, b_totalSize = 0, b_freeMemory = 0\<rparr>"

definition demo_heap :: bheap where
  "demo_heap = bheap_zero(0x50000 := \<lparr>bn_right = NULL, bn_left = NULL, bn_size = 0x13FFE0, bn_status = EMPTY\<rparr>)"

lemma demo_tree: "tree_at demo_heap 0x50000 0x13FFE0 (Leaf False)"
  by (auto simp: demo_heap_def bheap_zero_def no_children_def intro!: fresh_all)

lemma genericAllocMemoryRec_implements_bt_alloc_witness:
  "\<exists>res M' h'. genericAllocMemoryRec 4096 0x50000 (demo_mgr, demo_heap) = Some (res, M', h') \<and>
     b_root M' = 0x50000"
proof -
  have "page_power 4096" by (auto simp: page_power_def intro!: exI [of _ 12])
  moreover have "limit_at demo_mgr demo_heap 0x190000"
    by (simp add: limit_at_def demo_mgr_def demo_heap_def)
  ultimately show ?thesis
    using genericAllocMemoryRec_implements_bt_alloc [of 4096 4096 demo_heap "0x50000" "0x13FFE0" "Leaf False" "0x190000" demo_mgr]
      demo_tree arenas_good(2) by (auto simp: demo_mgr_def)
qed

text \<open> (C11)
  Freeing is the abstract operation too: it returns for every pointer, and the heap it leaves
  holds the tree in which the block that starts there (if there is one) is free, merged with
  its free halves.  The block given back must hold no child pointers where headers may be put
  below it; what clients keep in the blocks that stay in use is not touched.
\<close>

theorem genericFreeRec_implements_bt_free:
  assumes "tree_at h a s t" "bt_ok s t" "0 < a" "a + 32 + s < 2 ^ 64"
    and "left_fresh h (unat p) (bt_blocks a s t)"
  shows "\<exists>M' h'. genericFreeRec p (of_nat a) (M, h) = Some (M', h') \<and>
    tree_at h' a s (bt_free (unat p) a s t) \<and>
    bt_blocks a s (bt_free (unat p) a s t) = {b \<in> bt_blocks a s t. fst b \<noteq> unat p} \<and>
    untouched (bt_blocks a s t) h h' \<and>
    (\<forall>x < 2 ^ 64. x < a \<or> a + 32 + s \<le> x \<longrightarrow> h' (of_nat x) = h (of_nat x))"
  using genericFreeRec_refines [OF assms, of M] bt_free_ok [OF assms(2), of "unat p" a]
  unfolding free_post_def framed_def by auto

text \<open>A block of 8144 bytes in use, which its client has filled with something.\<close>

definition used_heap :: bheap where
  "used_heap = (\<lambda>_. \<lparr>bn_right = 7, bn_left = 7, bn_size = 7, bn_status = FULL\<rparr>)
     (0x50000 := \<lparr>bn_right = NULL, bn_left = NULL, bn_size = 8144, bn_status = FULL\<rparr>)"

lemma genericFreeRec_implements_bt_free_witness:
  "\<exists>M' h'. genericFreeRec 0x50020 0x50000 (demo_mgr, used_heap) = Some (M', h') \<and>
     tree_at h' 0x50000 8144 (Leaf False) \<and> bn_left (h' 0x50100) = 7"
proof -
  have nc: "no_children used_heap 0x50000" by (simp add: no_children_def used_heap_def)
  then have "fresh used_heap 0x50000 8144" by (simp add: fresh_short)
  then have "left_fresh used_heap (unat (0x50020 :: ptr)) (bt_blocks 0x50000 8144 (Leaf True))"
    by (simp add: left_fresh_def)
  moreover have "tree_at used_heap 0x50000 8144 (Leaf True)" using nc by (simp add: used_heap_def)
  ultimately obtain M' h' where "genericFreeRec 0x50020 0x50000 (demo_mgr, used_heap) = Some (M', h')"
    "tree_at h' 0x50000 8144 (Leaf False)" "untouched {(0x50020, 8144)} used_heap h'"
    using genericFreeRec_implements_bt_free [of used_heap "0x50000" 8144 "Leaf True" "0x50020" demo_mgr] by auto
  moreover have "(0x50100 :: nat) \<in> span (0x50020, 8144)" by (simp add: span_def)
  with \<open>untouched {(0x50020, 8144)} used_heap h'\<close> have "h' (of_nat 0x50100) = used_heap (of_nat 0x50100)"
    unfolding untouched_def by blast
  then have "bn_left (h' 0x50100) = 7" by (simp add: used_heap_def)
  ultimately show ?thesis by blast
qed

text \<open>
  \<^verbatim>\<open>align\<close> rounds a 32-bit size up to the next power of two: between two powers of two it gives
  the upper one.
\<close>

theorem align_rounds_up:
  assumes "2 ^ k \<le> unat n" "unat n < 2 ^ Suc k" "k < 32"
  shows "align n = 2 ^ Suc k"
  using assms by (rule align_next_power)

lemma align_rounds_up_witness: "align 5000 = 8192"
  using align_rounds_up [of 12 5000] by simp

text \<open>States of a closed run in a 64 KiB arena, over memory that was zeroed.\<close>

definition bnode :: "ptr \<Rightarrow> ptr \<Rightarrow> u64 \<Rightarrow> MemoryStatus \<Rightarrow> MemNode" where
  "bnode r l s st = \<lparr>bn_right = r, bn_left = l, bn_size = s, bn_status = st\<rparr>"

definition bd_state_of :: "u64 \<Rightarrow> (ptr \<times> MemNode) list \<Rightarrow> bstate" where
  "bd_state_of u t = (\<lparr>b_root = 0x1000, b_memAllocated = u, b_totalSize = 0, b_freeMemory = - u\<rparr>,
     tbl (bnode NULL NULL 0 EMPTY) t)"

lemma rec_null: "genericAllocMemoryRec sz NULL (M, h) = Some (NULL, M, h)"
  by (subst genericAllocMemoryRec.simps) simp

lemmas bd_run_eval = buddy_eval rec_null rec_full align_def bd_state_of_def bnode_def tbl_eval

definition left_behind :: bheap where
  "left_behind = tbl (bnode NULL NULL 0 EMPTY)
     [(0x1020, bnode NULL 0x8000 0 EMPTY), (0x8000, bnode NULL NULL 0x7000 EMPTY)]"

lemma written_run_1:
  "buddy_genericAllocMemory 32768 (bd_state_of 0 [(0x1000, bnode NULL NULL 65504 EMPTY)]) =
     Some (0x1020, bd_state_of 65536 [(0x1000, bnode NULL NULL 65504 FULL)])"
  by (simp add: bd_run_eval)

lemma written_run_2:
  "bd_release 0x1020 (bd_write 0x1020 32768 left_behind (bd_state_of 65536 [(0x1000, bnode NULL NULL 65504 FULL)])) =
     bd_state_of 32 [(0x1000, bnode NULL NULL 65504 EMPTY), (0x1020, bnode NULL 0x8000 0 EMPTY),
       (0x8000, bnode NULL NULL 0x7000 EMPTY)]"
proof -
  let ?w = "bd_write 0x1020 32768 left_behind (bd_state_of 65536 [(0x1000, bnode NULL NULL 65504 FULL)])"
  have w: "?w = bd_state_of 65536 [(0x1000, bnode NULL NULL 65504 FULL), (0x1020, bnode NULL 0x8000 0 EMPTY),
      (0x8000, bnode NULL NULL 0x7000 EMPTY)]"
    by (auto simp: bd_write_def bd_state_of_def left_behind_def fun_eq_iff tbl_eval)
  show ?thesis
    unfolding w bd_release_def by (subst genericFreeRec.simps) (simp add: bd_run_eval)
qed

lemma written_run_3:
  "buddy_genericAllocMemory 16000 (bd_state_of 32 [(0x1000, bnode NULL NULL 65504 EMPTY),
       (0x1020, bnode NULL 0x8000 0 EMPTY), (0x8000, bnode NULL NULL 0x7000 EMPTY)]) =
     Some (0x8020, bd_state_of (- 69424) [(0x1000, bnode 0x9010 0x1020 65504 EMPTY),
       (0x1020, bnode NULL 0x8000 32720 EMPTY), (0x8000, bnode NULL NULL 0x7000 FULL),
       (0x9010, bnode NULL NULL 32720 EMPTY)])"
  by (simp add: bd_run_eval)

lemma written_run_4:
  "buddy_genericAllocMemory 16000 (bd_state_of (- 69424) [(0x1000, bnode 0x9010 0x1020 65504 EMPTY),
       (0x1020, bnode NULL 0x8000 32720 EMPTY), (0x8000, bnode NULL NULL 0x7000 FULL),
       (0x9010, bnode NULL NULL 32720 EMPTY)]) =
     Some (0x9030, bd_state_of (- 69392) [(0x1000, bnode 0x9010 0x1020 65504 PARTIAL),
       (0x1020, bnode NULL 0x8000 32720 EMPTY), (0x8000, bnode NULL NULL 0x7000 FULL),
       (0x9010, bnode NULL NULL 32720 FULL)])"
  by (simp add: bd_run_eval)

text \<open>
  A new child keeps whatever child pointers the memory holds where its header is placed.  A
  client asks for 32768 bytes, leaves in them a word and what reads as a header, and gives them
  back; then two requests for 16000 bytes are granted with 11888 bytes in common.
\<close>

theorem written_block_overlaps:
  "\<exists>s. run_client unat buddy_genericAllocMemory bd_release bd_write
         [ManagerCall (Alloc 32768), ClientWrite 0x1020 left_behind, ManagerCall (Free 0x1020), ManagerCall (Alloc 16000), ManagerCall (Alloc 16000)] []
         (buddy_initMemory 0x1000 0x10000 (bd_state_of 0 [])) = Some ([(0x9030, 16000), (0x8020, 16000)], s) \<and>
     \<not> grants_disjoint unat [(0x9030, 16000), (0x8020, 16000 :: u64)]"
proof -
  have start: "buddy_initMemory 0x1000 0x10000 (bd_state_of 0 []) = bd_state_of 0 [(0x1000, bnode NULL NULL 65504 EMPTY)]"
    by (simp add: bd_run_eval)
  have "(0x9100 :: nat) \<in> span (unat (0x9030 :: ptr), unat (16000 :: u64)) \<inter> span (unat (0x8020 :: ptr), unat (16000 :: u64))"
    by (simp add: span_def)
  then have "\<not> grants_disjoint unat [(0x9030, 16000), (0x8020, 16000 :: u64)]"
    unfolding grants_disjoint_def by (auto simp: All_less_Suc simp del: unat_numeral)
  then show ?thesis
    by (simp add: start written_run_1 written_run_2 written_run_3 written_run_4 write_in_def)
qed

end
