(* ===== verification/FreeList.thy ===== *)
theory FreeList
  imports Allocator
begin

text \<open>
  The default memory manager, \<^verbatim>\<open>Kernel/memoryManagement/freeListMemoryManager.c\<close>: a list of
  block headers kept inside the managed memory, walked first-fit.  The headers live in a typed
  heap from addresses to \<open>MMNode\<close>; both managers (user and kernel memory) share it, as they
  share the machine's memory.
\<close>

section \<open>Data\<close>

text \<open>\<^verbatim>\<open>struct node\<close> and \<^verbatim>\<open>MemoryManager_t\<close>.  \<open>isFree\<close> is a \<^verbatim>\<open>char\<close> that only holds TRUE and FALSE.\<close>

record MMNode =
  mm_next :: ptr
  mm_prev :: ptr
  memSize :: u64
  isFree :: bool

type_synonym mmheap = "ptr \<Rightarrow> MMNode"

record MemoryManager_t =
  freeList_head :: ptr
  mm_freeMemory :: u64
  mm_usedMemory :: u64
  mm_totalMemory :: u64

definition sizeof_MMNode :: u64 where "sizeof_MMNode = 32"
definition BLOCK_SIZE :: u64 where "BLOCK_SIZE = 0x500"
definition KERNEL_MEMORY_LOCATION :: ptr where "KERNEL_MEMORY_LOCATION = 0x50000"
definition KERNEL_MEMORY_SIZE :: u64 where "KERNEL_MEMORY_SIZE = 0x140000"

section \<open>Operations on one manager\<close>

text \<open>
  \<^verbatim>\<open>initMemory\<close>: a root header of size 0 that is never free, then one free header for the rest.
\<close>

definition initMemory :: "mmheap \<Rightarrow> ptr \<Rightarrow> u64 \<Rightarrow> MemoryManager_t \<times> mmheap" where
  "initMemory h init sz =
    (let nx = init + sizeof_MMNode;
         h1 = h(init := \<lparr>mm_next = nx, mm_prev = NULL, memSize = 0, isFree = False\<rparr>);
         h2 = h1(nx := \<lparr>mm_next = NULL, mm_prev = init, memSize = sz - 2 * sizeof_MMNode, isFree = True\<rparr>)
     in (\<lparr>freeList_head = init, mm_freeMemory = sz, mm_usedMemory = 0, mm_totalMemory = sz\<rparr>, h2))"

text \<open>
  The size computation, with C's precedence: \<^verbatim>\<open>memoryToAllocate + sizeof(MMNode) % blockSize == 0\<close>
  compares the sum of \<open>memoryToAllocate\<close> and the remainder with zero.
\<close>

definition blocksToAllocate :: "u64 \<Rightarrow> u64 \<Rightarrow> u64" where
  "blocksToAllocate blockSize n =
    (if n + sizeof_MMNode mod blockSize = 0 then sizeof_MMNode + n
     else ((sizeof_MMNode + n) div blockSize) * blockSize + blockSize)"

text \<open>The loop: the first header that is free and large enough, NULL when there is none.\<close>

partial_function (option) first_fit :: "mmheap \<Rightarrow> u64 \<Rightarrow> ptr \<Rightarrow> ptr option" where
  "first_fit h blocks cur =
     (if cur = NULL then Some NULL
      else if isFree (h cur) \<and> blocks \<le> memSize (h cur) then Some cur
      else first_fit h blocks (mm_next (h cur)))"

text \<open>The body for the header found: split when the header is larger than needed.\<close>

definition splitNode :: "mmheap \<Rightarrow> ptr \<Rightarrow> u64 \<Rightarrow> mmheap" where
  "splitNode h cur blocks =
    (let newNode = cur + blocks;
         h1 = h(newNode := \<lparr>mm_next = mm_next (h cur), mm_prev = cur,
                            memSize = memSize (h cur) - blocks, isFree = True\<rparr>)
     in h1(cur := (h1 cur)\<lparr>mm_next := newNode, memSize := blocks - sizeof_MMNode\<rparr>))"

definition genericAllocMemory ::
    "MemoryManager_t \<Rightarrow> mmheap \<Rightarrow> u64 \<Rightarrow> u64 \<Rightarrow> (ptr \<times> MemoryManager_t \<times> mmheap) option" where
  "genericAllocMemory M h blockSize n = do {
     let blocks = blocksToAllocate blockSize n;
     cur \<leftarrow> first_fit h blocks (mm_next (h (freeList_head M)));
     if cur = NULL then Some (NULL, M, h)
     else do {
       let h1 = (if blocks < memSize (h cur) then splitNode h cur blocks else h);
       let h2 = h1(cur := (h1 cur)\<lparr>isFree := False\<rparr>);
       Some (cur + sizeof_MMNode,
             M\<lparr>mm_freeMemory := mm_freeMemory M - memSize (h2 cur),
               mm_usedMemory := mm_usedMemory M + memSize (h2 cur)\<rparr>,
             h2)
     }
   }"

text \<open>
  \<^verbatim>\<open>genericFreeMemory\<close>: mark the header free, merge it with its successor when that is free,
  then merge it into the header its \<open>prev\<close> field names when that is free.
\<close>

definition mergeNext :: "mmheap \<Rightarrow> ptr \<Rightarrow> mmheap" where
  "mergeNext h cur =
    (let nx = mm_next (h cur) in
     if nx \<noteq> NULL \<and> isFree (h nx)
     then h(cur := (h cur)\<lparr>memSize := memSize (h cur) + (memSize (h nx) + sizeof_MMNode),
                           mm_next := mm_next (h nx)\<rparr>)
     else h)"

definition mergePrev :: "mmheap \<Rightarrow> ptr \<Rightarrow> mmheap" where
  "mergePrev h cur =
    (let pv = mm_prev (h cur) in
     if pv \<noteq> NULL \<and> isFree (h pv)
     then h(pv := (h pv)\<lparr>memSize := memSize (h pv) + (memSize (h cur) + sizeof_MMNode),
                         mm_next := mm_next (h cur)\<rparr>)
     else h)"

definition genericFreeMemory ::
    "MemoryManager_t \<Rightarrow> mmheap \<Rightarrow> ptr \<Rightarrow> MemoryManager_t \<times> mmheap" where
  "genericFreeMemory M h memoryToFree =
    (let cur = memoryToFree - sizeof_MMNode;
         h1 = h(cur := (h cur)\<lparr>isFree := True\<rparr>);
         M1 = M\<lparr>mm_freeMemory := mm_freeMemory M + memSize (h1 cur),
                mm_usedMemory := mm_usedMemory M - memSize (h1 cur)\<rparr>
     in (M1, mergePrev (mergeNext h1 cur) cur))"

section \<open>The two managers\<close>

text \<open>The globals of the file; the sizes are those of the structures the kernel allocates.\<close>

record mm_globals =
  userMemoryManager :: MemoryManager_t
  kernelMemoryManager :: MemoryManager_t
  mm_heap :: mmheap
  PCBNodeSize :: u64
  semNodeSize :: u64
  IPCBufferSize :: u64
  timerSize :: u64

definition createMemoryManager ::
    "mm_globals \<Rightarrow> ptr \<Rightarrow> u64 \<Rightarrow> u64 \<times> u64 \<times> u64 \<times> u64 \<Rightarrow> mm_globals" where
  "createMemoryManager g init sz sizes =
    (let (um, h1) = initMemory (mm_heap g) init sz;
         (km, h2) = initMemory h1 KERNEL_MEMORY_LOCATION KERNEL_MEMORY_SIZE;
         (pcbs, sems, ipcs, timers) = sizes
     in g\<lparr>userMemoryManager := um, kernelMemoryManager := km, mm_heap := h2,
          PCBNodeSize := pcbs, semNodeSize := sems, IPCBufferSize := ipcs, timerSize := timers\<rparr>)"

definition userAlloc :: "u64 \<Rightarrow> u64 \<Rightarrow> mm_globals \<Rightarrow> (ptr \<times> mm_globals) option" where
  "userAlloc blockSize n g = do {
     (p, M, h) \<leftarrow> genericAllocMemory (userMemoryManager g) (mm_heap g) blockSize n;
     Some (p, g\<lparr>userMemoryManager := M, mm_heap := h\<rparr>)
   }"

definition kernelAlloc :: "u64 \<Rightarrow> u64 \<Rightarrow> mm_globals \<Rightarrow> (ptr \<times> mm_globals) option" where
  "kernelAlloc blockSize n g = do {
     (p, M, h) \<leftarrow> genericAllocMemory (kernelMemoryManager g) (mm_heap g) blockSize n;
     Some (p, g\<lparr>kernelMemoryManager := M, mm_heap := h\<rparr>)
   }"

definition kernelFree :: "ptr \<Rightarrow> mm_globals \<Rightarrow> mm_globals" where
  "kernelFree p g =
    (let (M, h) = genericFreeMemory (kernelMemoryManager g) (mm_heap g) p
     in g\<lparr>kernelMemoryManager := M, mm_heap := h\<rparr>)"

definition allocMemory :: "u64 \<Rightarrow> mm_globals \<Rightarrow> (ptr \<times> mm_globals) option" where
  "allocMemory n g = userAlloc BLOCK_SIZE n g"

definition allocPCB :: "mm_globals \<Rightarrow> (ptr \<times> mm_globals) option" where
  "allocPCB g = kernelAlloc (sizeof_MMNode + PCBNodeSize g) (PCBNodeSize g) g"

definition allocSemaphore :: "mm_globals \<Rightarrow> (ptr \<times> mm_globals) option" where
  "allocSemaphore g = kernelAlloc (sizeof_MMNode + semNodeSize g) (semNodeSize g) g"

definition allocBuffer :: "mm_globals \<Rightarrow> (ptr \<times> mm_globals) option" where
  "allocBuffer g = kernelAlloc (sizeof_MMNode + IPCBufferSize g) (IPCBufferSize g) g"

definition allocTimer :: "mm_globals \<Rightarrow> (ptr \<times> mm_globals) option" where
  "allocTimer g = kernelAlloc (sizeof_MMNode + timerSize g) (timerSize g) g"

definition freeMemory :: "ptr \<Rightarrow> mm_globals \<Rightarrow> mm_globals" where
  "freeMemory p g =
    (let (M, h) = genericFreeMemory (userMemoryManager g) (mm_heap g) p
     in g\<lparr>userMemoryManager := M, mm_heap := h\<rparr>)"

definition freePCB :: "ptr \<Rightarrow> mm_globals \<Rightarrow> mm_globals" where "freePCB p g = kernelFree p g"
definition freeSemaphore :: "ptr \<Rightarrow> mm_globals \<Rightarrow> mm_globals" where "freeSemaphore p g = kernelFree p g"
definition freeBuffer :: "ptr \<Rightarrow> mm_globals \<Rightarrow> mm_globals" where "freeBuffer p g = kernelFree p g"
definition freeTimer :: "ptr \<Rightarrow> mm_globals \<Rightarrow> mm_globals" where "freeTimer p g = kernelFree p g"

definition getFreeMemoryAmount :: "mm_globals \<Rightarrow> u64" where
  "getFreeMemoryAmount g = mm_freeMemory (userMemoryManager g)"

definition getUsedMemoryAmount :: "mm_globals \<Rightarrow> u64" where
  "getUsedMemoryAmount g = mm_usedMemory (userMemoryManager g)"

section \<open>Well-formed header lists\<close>

text \<open>
  The headers of a manager are linked through \<open>next\<close> and tile its memory: each header is
  followed by its payload of \<open>memSize\<close> bytes and then, immediately, by the next header.
  \<open>tiles h ns a b\<close> says that the blocks \<open>ns\<close> cover the addresses from \<open>a\<close> to \<open>b\<close>.
\<close>

fun tiles :: "mmheap \<Rightarrow> ptr list \<Rightarrow> nat \<Rightarrow> nat \<Rightarrow> bool" where
  "tiles h [] a b = (a = b)"
| "tiles h (n # ns) a b = (unat n = a \<and> tiles h ns (a + 32 + unat (memSize (h n))) b)"

definition blockEnd :: "mmheap \<Rightarrow> ptr \<Rightarrow> nat" where
  "blockEnd h n = unat n + 32 + unat (memSize (h n))"

definition payload :: "mmheap \<Rightarrow> ptr \<Rightarrow> nat set" where
  "payload h n = {unat n + 32 ..< blockEnd h n}"

definition liveSize :: "mmheap \<Rightarrow> ptr list \<Rightarrow> u64" where
  "liveSize h ns = sum_list (map (\<lambda>n. if isFree (h n) then 0 else memSize (h n)) ns)"

definition mm_linked :: "MemoryManager_t \<Rightarrow> mmheap \<Rightarrow> ptr list \<Rightarrow> nat \<Rightarrow> bool" where
  "mm_linked M h ns e \<longleftrightarrow>
     (\<exists>ms. ns = freeList_head M # ms) \<and> llist (\<lambda>a. mm_next (h a)) (freeList_head M) ns \<and>
     tiles h ns (unat (freeList_head M)) e \<and> e \<le> 2 ^ 64 \<and> \<not> isFree (h (freeList_head M))"

definition mm_counted :: "MemoryManager_t \<Rightarrow> mmheap \<Rightarrow> ptr list \<Rightarrow> bool" where
  "mm_counted M h ns \<longleftrightarrow>
     mm_usedMemory M = liveSize h ns \<and> mm_freeMemory M + mm_usedMemory M = mm_totalMemory M"

definition mm_ok :: "MemoryManager_t \<Rightarrow> mmheap \<Rightarrow> ptr list \<Rightarrow> nat \<Rightarrow> bool" where
  "mm_ok M h ns e \<longleftrightarrow> mm_linked M h ns e \<and> mm_counted M h ns"

lemma tiles_append [simp]: "tiles h (xs @ ys) a b = (\<exists>c. tiles h xs a c \<and> tiles h ys c b)"
  by (induction xs arbitrary: a) auto

lemma tiles_le: "tiles h ns a b \<Longrightarrow> a \<le> b"
  by (induction ns arbitrary: a) fastforce+

lemma tiles_mem: "tiles h ns a b \<Longrightarrow> n \<in> set ns \<Longrightarrow> a \<le> unat n \<and> blockEnd h n \<le> b"
proof (induction ns arbitrary: a)
  case Nil
  then show ?case by simp
next
  case (Cons m ns)
  then show ?case by (auto simp: blockEnd_def dest: tiles_le) fastforce+
qed

lemma tiles_cong: "(\<And>n. n \<in> set ns \<Longrightarrow> memSize (h n) = memSize (h' n)) \<Longrightarrow> tiles h ns a b = tiles h' ns a b"
  by (induction ns arbitrary: a) auto

lemma liveSize_cong:
  "(\<And>n. n \<in> set ns \<Longrightarrow> isFree (h n) = isFree (h' n) \<and> memSize (h n) = memSize (h' n)) \<Longrightarrow>
     liveSize h ns = liveSize h' ns"
  unfolding liveSize_def by (rule arg_cong [where f = sum_list]) (simp cong: map_cong)

lemma liveSize_simps [simp]:
  "liveSize h [] = 0"
  "liveSize h (n # ns) = (if isFree (h n) then 0 else memSize (h n)) + liveSize h ns"
  "liveSize h (xs @ ys) = liveSize h xs + liveSize h ys"
  by (simp_all add: liveSize_def)

lemma liveSize_upd [simp]: "n \<notin> set ns \<Longrightarrow> liveSize (h(n := v)) ns = liveSize h ns"
  by (rule liveSize_cong) auto

lemma tiles_upd [simp]: "n \<notin> set ns \<Longrightarrow> tiles (h(n := v)) ns a b = tiles h ns a b"
  by (rule tiles_cong) auto

text \<open>Around one block: everything before it ends before it, everything behind it starts behind it.\<close>

lemma tiles_around:
  assumes "tiles h (as @ n # bs) a e"
  shows "\<And>m. m \<in> set as \<Longrightarrow> blockEnd h m \<le> unat n"
    and "\<And>m. m \<in> set bs \<Longrightarrow> blockEnd h n \<le> unat m"
    and "blockEnd h n \<le> e" and "a \<le> unat n"
    and "n \<notin> set as" and "n \<notin> set bs" and "set as \<inter> set bs = {}"
proof -
  from assms have as: "tiles h as a (unat n)" and bs: "tiles h bs (blockEnd h n) e"
    by (auto simp: blockEnd_def)
  show 1: "\<And>m. m \<in> set as \<Longrightarrow> blockEnd h m \<le> unat n" using tiles_mem [OF as] by blast
  show 2: "\<And>m. m \<in> set bs \<Longrightarrow> blockEnd h n \<le> unat m" using tiles_mem [OF bs] by blast
  show "blockEnd h n \<le> e" using bs by (rule tiles_le)
  show "a \<le> unat n" using as by (rule tiles_le)
  show "n \<notin> set as" using 1 [of n] by (auto simp: blockEnd_def)
  show "n \<notin> set bs" using 2 [of n] by (auto simp: blockEnd_def)
  show "set as \<inter> set bs = {}"
    using 1 2 by (fastforce simp: blockEnd_def)
qed

lemma payload_disjoint:
  assumes "tiles h ns a e" "n \<in> set ns" "m \<in> set ns" "n \<noteq> m"
  shows "payload h n \<inter> payload h m = {}"
proof -
  obtain as bs where ns: "ns = as @ n # bs" using assms(2) by (meson split_list)
  with assms have "m \<in> set as \<or> m \<in> set bs" by auto
  then show ?thesis
    using tiles_around(1,2) [of h as n bs a e m] assms(1) ns
    by (auto simp: payload_def blockEnd_def) 
qed

lemma mm_linked_distinct: "mm_linked M h ns e \<Longrightarrow> distinct ns"
  by (auto simp: mm_linked_def dest: llist_distinct)

text \<open>Well-formedness only looks at the headers of the list.\<close>

lemma mm_ok_cong:
  assumes "\<And>n. n \<in> set ns \<Longrightarrow> h n = h' n"
  shows "mm_ok M h ns e \<longleftrightarrow> mm_ok M h' ns e"
proof -
  have "liveSize h ns = liveSize h' ns" "\<And>a. tiles h ns a e = tiles h' ns a e"
    "\<And>a. llist (\<lambda>a. mm_next (h a)) a ns = llist (\<lambda>a. mm_next (h' a)) a ns"
    using assms by (auto intro!: liveSize_cong tiles_cong lseg_cong)
  moreover have "isFree (h (freeList_head M)) = isFree (h' (freeList_head M))" if "ns = freeList_head M # ms" for ms
    using assms [of "freeList_head M"] that by simp
  ultimately show ?thesis by (auto simp: mm_ok_def mm_linked_def mm_counted_def)
qed

text \<open>The bytes of a header are never bytes of a payload.\<close>

lemma header_payload_apart:
  assumes ok: "mm_ok M h ns e" and ns: "n \<in> set ns" "k \<in> set ns" and i: "i < 32" and j: "j < unat (memSize (h k))"
  shows "n + of_nat i \<noteq> k + 32 + of_nat j"
proof
  assume eq: "n + of_nat i = k + 32 + of_nat j"
  have t: "tiles h ns (unat (freeList_head M)) e" and e: "e \<le> 2 ^ 64" using ok by (auto simp: mm_ok_def mm_linked_def)
  have be: "blockEnd h n \<le> 2 ^ 64" "blockEnd h k \<le> 2 ^ 64" using tiles_mem [OF t] ns e by force+
  have "unat (n + of_nat i) = unat n + i"
    using be(1) i by (subst unat_plus_fits64) (simp_all add: blockEnd_def unat_of_nat)
  moreover have v: "unat (of_nat (32 + j) :: u64) = 32 + j"
    unfolding unat_of_nat by (rule mod_less) (use be(2) j in \<open>simp add: blockEnd_def\<close>)
  moreover have "unat (k + of_nat (32 + j)) = unat k + (32 + j)"
    using be(2) j v by (subst unat_plus_fits64) (simp_all only: blockEnd_def)
  ultimately have u: "unat n + i = unat k + 32 + j" using eq by (simp add: add.assoc)
  obtain as bs where sp: "ns = as @ k # bs" using ns(2) by (meson split_list)
  note ar = tiles_around [OF t [unfolded sp]]
  consider "n = k" | "n \<in> set as" | "n \<in> set bs" using ns(1) sp by auto
  then show False
  proof cases
    case 2
    then show ?thesis using ar(1) [OF 2] u i by (simp add: blockEnd_def)
  next
    case 3
    then show ?thesis using ar(2) [OF 3] u j by (simp add: blockEnd_def)
  qed (use u i in simp)
qed

section \<open>Initialisation\<close>

lemma initMemory_ok:
  assumes "init \<noteq> NULL" and "64 \<le> sz" and "unat init + unat sz \<le> 2 ^ 64"
    and "initMemory h init sz = (M, h')"
  shows "mm_ok M h' [init, init + 32] (unat init + unat sz)"
proof -
  have sz: "64 \<le> unat sz" using assms(2) by (simp add: word_le_nat_alt)
  have n: "unat (init + 32) = unat init + 32"
    using assms(3) sz by (simp add: unat_plus_fits64)
  have s: "unat (sz - 64) = unat sz - 64"
    using assms(2) by (simp add: unat_minus_fits)
  have "init + 32 \<noteq> NULL" using n by (metis add_is_0 unat_eq_0 zero_neq_numeral)
  moreover have "init + 32 \<noteq> init" by simp
  ultimately show ?thesis
    using assms n s sz
    by (auto simp: initMemory_def Let_def sizeof_MMNode_def mm_ok_def mm_linked_def mm_counted_def)
qed

section \<open>Allocation\<close>

lemma first_fit_llist:
  assumes "llist (\<lambda>a. mm_next (h a)) p ns"
  shows "(first_fit h k p = Some NULL \<and> (\<forall>n\<in>set ns. isFree (h n) \<longrightarrow> memSize (h n) < k)) \<or>
         (\<exists>as cur bs. ns = as @ cur # bs \<and> cur \<noteq> NULL \<and> isFree (h cur) \<and> k \<le> memSize (h cur) \<and>
            (\<forall>n\<in>set as. isFree (h n) \<longrightarrow> memSize (h n) < k) \<and> first_fit h k p = Some cur)"
  using assms
proof (induction ns arbitrary: p)
  case Nil
  then show ?case by (simp add: first_fit.simps)
next
  case (Cons n ns)
  show ?case
  proof (cases "isFree (h n) \<and> k \<le> memSize (h n)")
    case True
    with Cons.prems have "first_fit h k p = Some n" by (subst first_fit.simps) auto
    with True Cons.prems show ?thesis by (intro disjI2 exI [of _ "[]"] exI [of _ n] exI [of _ ns]) auto
  next
    case False
    with Cons.prems have eq: "first_fit h k p = first_fit h k (mm_next (h n))"
      by (subst first_fit.simps) auto
    from Cons.prems have "llist (\<lambda>a. mm_next (h a)) (mm_next (h n)) ns" by simp
    from Cons.IH [OF this] show ?thesis
    proof
      assume "first_fit h k (mm_next (h n)) = Some NULL \<and> (\<forall>n\<in>set ns. isFree (h n) \<longrightarrow> memSize (h n) < k)"
      with eq False show ?thesis by auto
    next
      assume "\<exists>as cur bs. ns = as @ cur # bs \<and> cur \<noteq> NULL \<and> isFree (h cur) \<and> k \<le> memSize (h cur) \<and>
            (\<forall>n\<in>set as. isFree (h n) \<longrightarrow> memSize (h n) < k) \<and> first_fit h k (mm_next (h n)) = Some cur"
      then obtain as cur bs where "ns = as @ cur # bs" "cur \<noteq> NULL" "isFree (h cur)"
        "k \<le> memSize (h cur)" "\<forall>n\<in>set as. isFree (h n) \<longrightarrow> memSize (h n) < k"
        "first_fit h k (mm_next (h n)) = Some cur" by blast
      with eq False show ?thesis
        by (intro disjI2 exI [of _ "n # as"] exI [of _ cur] exI [of _ bs]) auto
    qed
  qed
qed

text \<open>For requests that do not wrap, the block size leaves room for the header and the request.\<close>

lemma blocksToAllocate_bounds:
  assumes "0 < bs" and "unat n + 32 + unat bs < 2 ^ 64"
  shows "unat n + 32 \<le> unat (blocksToAllocate bs n)"
    and "unat (blocksToAllocate bs n) \<le> unat n + 32 + unat bs"
proof -
  let ?t = "32 + n :: u64"
  define q where "q = unat ?t div unat bs * unat bs"
  have t: "unat ?t = 32 + unat n" using assms(2) by (simp add: unat_plus_fits64)
  have bs: "0 < unat bs" using assms(1) by (simp add: word_less_nat_alt)
  have le: "q \<le> unat ?t" by (simp add: q_def)
  have "q < 2 ^ 64" using le unat_less_64 [of ?t] by (rule le_less_trans)
  then have q: "unat (?t div bs * bs) = q"
    using unat_mult_lem [of "?t div bs" bs] by (simp add: unat_div q_def)
  have sum: "unat (?t div bs * bs + bs) = q + unat bs"
    using q le t assms(2) by (subst unat_plus_fits64) auto
  have "unat ?t = q + unat ?t mod unat bs" unfolding q_def by (rule div_mult_mod_eq [symmetric])
  then have "unat ?t < q + unat bs"
    using mod_less_divisor [OF bs, of "unat ?t"] by linarith
  then show "unat n + 32 \<le> unat (blocksToAllocate bs n)"
    and "unat (blocksToAllocate bs n) \<le> unat n + 32 + unat bs"
    using t le sum by (auto simp: blocksToAllocate_def sizeof_MMNode_def)
qed

text \<open>Splitting a free header \<open>cur\<close> keeps the list linked and tiled, with the rest as a new free header.\<close>

lemma splitNode_fields:
  assumes "new = cur + k" "new \<noteq> cur"
  shows "splitNode h cur k =
    h(new := \<lparr>mm_next = mm_next (h cur), mm_prev = cur, memSize = memSize (h cur) - k, isFree = True\<rparr>,
      cur := (h cur)\<lparr>mm_next := new, memSize := k - 32\<rparr>)"
  using assms by (simp add: splitNode_def Let_def sizeof_MMNode_def)

lemma splitNode_ok:
  assumes ok: "mm_linked M h (as @ cur # bs) e" and cur: "isFree (h cur)"
    and k: "32 \<le> unat k" "unat k < unat (memSize (h cur))"
    and new: "new = cur + k" and h': "h' = splitNode h cur k"
  shows "mm_linked M h' (as @ cur # new # bs) e" and "new \<noteq> cur" and "new \<notin> set as \<union> set bs"
    and "memSize (h' cur) = k - 32" and "isFree (h' new)" and "isFree (h' cur)"
    and "\<And>m. m \<noteq> cur \<Longrightarrow> m \<noteq> new \<Longrightarrow> h' m = h m"
proof -
  let ?a = "unat (freeList_head M)"
  from ok have t: "tiles h (as @ cur # bs) ?a e" and e: "e \<le> 2 ^ 64"
    and l: "llist (\<lambda>a. mm_next (h a)) (freeList_head M) (as @ cur # bs)"
    and hd: "\<not> isFree (h (freeList_head M))"
    by (auto simp: mm_linked_def)
  note ar = tiles_around [OF t]
  have fits: "unat cur + 32 + unat (memSize (h cur)) \<le> 2 ^ 64"
    using ar(3) e by (simp add: blockEnd_def)
  have un: "unat new = unat cur + unat k"
    using fits k new by (simp add: unat_plus_fits64)
  have "new \<notin> set as" using ar(1) un k by (fastforce simp: blockEnd_def)
  moreover have "new \<notin> set bs" using ar(2) un k by (fastforce simp: blockEnd_def)
  ultimately show nin: "new \<notin> set as \<union> set bs" by simp
  show nc: "new \<noteq> cur" using un k by auto
  have nn: "new \<noteq> NULL" using un k by auto
  have k32: "unat (k - 32) = unat k - 32"
    using k(1) by (simp add: unat_minus_fits word_le_nat_alt)
  have rest: "unat (memSize (h cur) - k) = unat (memSize (h cur)) - unat k"
    using k by (simp add: unat_minus_fits word_le_nat_alt less_imp_le)
  note h'_eq = h' [unfolded splitNode_fields [OF new nc]]
  show "memSize (h' cur) = k - 32" "isFree (h' new)" "isFree (h' cur)"
    using cur nc by (simp_all add: h'_eq)
  show same: "\<And>m. m \<noteq> cur \<Longrightarrow> m \<noteq> new \<Longrightarrow> h' m = h m" by (simp add: h'_eq)
  have cn: "cur \<noteq> NULL" using l by auto
  have "tiles h' (as @ cur # new # bs) ?a e"
  proof -
    have A: "tiles h' as ?a (unat cur)"
      using t ar(5) nin by (subst tiles_cong [of as h' h]) (auto simp: h'_eq)
    have "tiles h bs (blockEnd h cur) e" using t by (auto simp: blockEnd_def)
    then have B: "tiles h' bs (blockEnd h cur) e"
      using ar(6) nin by (subst tiles_cong [of bs h' h]) (auto simp: h'_eq)
    show ?thesis using A B nc un k k32 rest fits by (auto simp: h'_eq blockEnd_def add.assoc)
  qed
  moreover have "llist (\<lambda>a. mm_next (h' a)) (freeList_head M) (as @ cur # new # bs)"
  proof -
    from l have A: "lseg (\<lambda>a. mm_next (h a)) (freeList_head M) as cur"
      and B: "llist (\<lambda>a. mm_next (h a)) (mm_next (h cur)) bs" by auto
    have A': "lseg (\<lambda>a. mm_next (h' a)) (freeList_head M) as cur"
      using A ar(5) nin by (subst lseg_cong [of as _ "\<lambda>a. mm_next (h a)"]) (auto simp: h'_eq)
    have B': "llist (\<lambda>a. mm_next (h' a)) (mm_next (h cur)) bs"
      using B ar(6) nin by (subst lseg_cong [of bs _ "\<lambda>a. mm_next (h a)"]) (auto simp: h'_eq)
    show ?thesis using A' B' nn cn nc by (auto simp: h'_eq)
  qed
  moreover have "cur \<noteq> freeList_head M" using cur hd by auto
  moreover obtain ms where "as @ cur # bs = freeList_head M # ms"
    using ok unfolding mm_linked_def by blast
  moreover from calculation obtain as' where as: "as = freeList_head M # as'"
    by (cases as) simp_all
  moreover have "\<not> isFree (h' (freeList_head M))"
    using same [of "freeList_head M"] hd \<open>cur \<noteq> freeList_head M\<close> nin as by (metis Un_iff list.set_intros(1))
  ultimately show "mm_linked M h' (as @ cur # new # bs) e" using e unfolding mm_linked_def by simp
qed

text \<open>Marking a header allocated or free does not touch links and sizes.\<close>

lemma mm_linked_setFree:
  assumes "mm_linked M h ns e" "cur \<noteq> freeList_head M"
  shows "mm_linked M (h(cur := (h cur)\<lparr>isFree := b\<rparr>)) ns e"
proof -
  let ?h = "h(cur := (h cur)\<lparr>isFree := b\<rparr>)"
  have "(\<lambda>a. mm_next (?h a)) = (\<lambda>a. mm_next (h a))" by auto
  moreover have "tiles ?h ns a e = tiles h ns a e" for a by (rule tiles_cong) simp
  ultimately show ?thesis using assms by (auto simp: mm_linked_def)
qed

lemma mm_linked_manager [simp]:
  "mm_linked (M\<lparr>mm_freeMemory := x, mm_usedMemory := y\<rparr>) h ns e = mm_linked M h ns e"
  by (simp add: mm_linked_def)

text \<open>
  The outcome of an allocation request: refused when no free header is large enough, otherwise
  one free header becomes allocated, possibly after being split, and nothing else changes.
\<close>

lemma genericAllocMemory_cases:
  assumes ok: "mm_ok M h ns e" and bs: "0 < bs" and req: "unat n + 32 + unat bs < 2 ^ 64"
  obtains (refused) "genericAllocMemory M h bs n = Some (NULL, M, h)"
      "\<forall>m\<in>set ns. isFree (h m) \<longrightarrow> memSize (h m) < blocksToAllocate bs n"
    | (granted) cur M' h' ns' where
        "genericAllocMemory M h bs n = Some (cur + 32, M', h')" "cur + 32 \<noteq> NULL"
        "mm_ok M' h' ns' e" "cur \<in> set ns" "isFree (h cur)" "\<not> isFree (h' cur)"
        "unat n \<le> unat (memSize (h' cur))" "memSize (h' cur) \<le> memSize (h cur)"
        "\<And>m. m \<in> set ns \<Longrightarrow> m \<noteq> cur \<Longrightarrow> h' m = h m"
        "\<And>m. m \<in> set ns' \<Longrightarrow> m \<notin> set ns \<Longrightarrow> isFree (h' m)" "set ns \<subseteq> set ns'"
        "freeList_head M' = freeList_head M" "\<And>m. m \<notin> set ns' \<Longrightarrow> h' m = h m"
proof -
  let ?k = "blocksToAllocate bs n"
  from ok have lk: "mm_linked M h ns e" and ct: "mm_counted M h ns" by (auto simp: mm_ok_def)
  from lk obtain ms where ns: "ns = freeList_head M # ms" by (auto simp: mm_linked_def)
  have "llist (\<lambda>a. mm_next (h a)) (mm_next (h (freeList_head M))) ms"
    using lk ns by (auto simp: mm_linked_def)
  from first_fit_llist [OF this, of ?k] show thesis
  proof (elim disjE exE conjE)
    assume "first_fit h ?k (mm_next (h (freeList_head M))) = Some NULL"
      and "\<forall>n\<in>set ms. isFree (h n) \<longrightarrow> memSize (h n) < ?k"
    moreover from lk have "\<not> isFree (h (freeList_head M))" by (simp add: mm_linked_def)
    ultimately show thesis using ns by (intro refused) (auto simp: genericAllocMemory_def)
  next
    fix as cur cs
    assume ms: "ms = as @ cur # cs" and cur: "cur \<noteq> NULL" "isFree (h cur)" "?k \<le> memSize (h cur)"
      and ff: "first_fit h ?k (mm_next (h (freeList_head M))) = Some cur"
    define as' where "as' = freeList_head M # as"
    have ns': "ns = as' @ cur # cs" using ns ms by (simp add: as'_def)
    have k: "unat n + 32 \<le> unat ?k" using bs req by (rule blocksToAllocate_bounds)
    have k32: "unat (?k - 32) = unat ?k - 32" using k by (simp add: unat_minus_fits word_le_nat_alt)
    have hd: "cur \<noteq> freeList_head M" using cur lk by (auto simp: mm_linked_def)
    define h1 where "h1 = (if ?k < memSize (h cur) then splitNode h cur ?k else h)"
    define h2 where "h2 = h1(cur := (h1 cur)\<lparr>isFree := False\<rparr>)"
    define M' where "M' = M\<lparr>mm_freeMemory := mm_freeMemory M - memSize (h2 cur),
                            mm_usedMemory := mm_usedMemory M + memSize (h2 cur)\<rparr>"
    have run: "genericAllocMemory M h bs n = Some (cur + 32, M', h2)"
      using ff cur(1) by (simp add: genericAllocMemory_def h1_def h2_def M'_def Let_def sizeof_MMNode_def)
    have nn: "cur + 32 \<noteq> NULL"
    proof -
      have "blockEnd h cur \<le> 2 ^ 64"
        using lk tiles_mem [of h ns "unat (freeList_head M)" e cur] ns' by (fastforce simp: mm_linked_def)
      moreover have "unat ?k \<le> unat (memSize (h cur))" using cur(3) by (simp add: word_le_nat_alt)
      ultimately have "unat (cur + 32) = unat cur + 32"
        using k by (simp add: blockEnd_def unat_plus_fits64)
      then show ?thesis by auto
    qed
    have fin: "mm_counted M' h2 ms' \<Longrightarrow> mm_linked M' h2 ms' e \<Longrightarrow> mm_ok M' h2 ms' e" for ms'
      by (simp add: mm_ok_def)
    show thesis
    proof (cases "?k < memSize (h cur)")
      case True
      have sk: "32 \<le> unat ?k" "unat ?k < unat (memSize (h cur))"
        using True k by (simp_all add: word_less_nat_alt)
      define new where "new = cur + ?k"
      have h1: "h1 = splitNode h cur ?k" using True by (simp add: h1_def)
      note sp = splitNode_ok [OF lk [unfolded ns'] cur(2) sk new_def h1]
      have dist: "cur \<notin> set as'" "cur \<notin> set cs"
        using mm_linked_distinct [OF lk] ns' by auto
      have keep: "h2 m = h m" if "m \<in> set as' \<union> set cs" for m
        using that dist sp(3) sp(7) [of m] by (cases "m = cur"; cases "m = new") (auto simp: h2_def)
      have live: "liveSize h2 as' = liveSize h as'" "liveSize h2 cs = liveSize h cs"
        using keep by (auto intro!: liveSize_cong)
      have "mm_counted M' h2 (as' @ cur # new # cs)"
        using ct sp(2,4,5) live cur(2) by (auto simp: mm_counted_def M'_def ns' h2_def algebra_simps)
      moreover have "mm_linked M' h2 (as' @ cur # new # cs) e"
        using mm_linked_setFree [OF sp(1) hd] by (simp add: h2_def M'_def)
      ultimately have "mm_ok M' h2 (as' @ cur # new # cs) e" by (rule fin)
      then show thesis
        by (rule granted [OF run nn]) (use ns' cur sp k k32 True in \<open>auto simp: h2_def M'_def word_le_nat_alt\<close>)
    next
      case False
      then have eq: "memSize (h cur) = ?k" and h1: "h1 = h" using cur(3) by (auto simp: h1_def)
      have dist: "cur \<notin> set as'" "cur \<notin> set cs"
        using mm_linked_distinct [OF lk] ns' by auto
      have live: "liveSize h2 as' = liveSize h as'" "liveSize h2 cs = liveSize h cs"
        using dist by (simp_all add: h2_def h1)
      have "mm_counted M' h2 ns"
        using ct live cur(2) by (auto simp: mm_counted_def M'_def ns' h2_def h1 algebra_simps)
      moreover have "mm_linked M' h2 ns e"
        using mm_linked_setFree [OF lk hd] by (simp add: h2_def M'_def h1)
      ultimately have "mm_ok M' h2 ns e" by (rule fin)
      then show thesis
        by (rule granted [OF run nn]) (use ns' cur k eq in \<open>auto simp: h2_def h1 M'_def\<close>)
    qed
  qed
qed

section \<open>Freeing\<close>

text \<open>
  \<open>mergeNext\<close> and \<open>mergePrev\<close> absorb a header into its neighbour in the list.  \<open>absorb\<close> is what
  both do: header \<open>n\<close> takes over the bytes and the link of the header \<open>m\<close> that follows it.
\<close>

definition absorb :: "mmheap \<Rightarrow> ptr \<Rightarrow> ptr \<Rightarrow> mmheap" where
  "absorb h n m = h(n := (h n)\<lparr>memSize := memSize (h n) + (memSize (h m) + 32), mm_next := mm_next (h m)\<rparr>)"

lemma absorb_ok:
  assumes ok: "mm_ok M h (as @ n # m # bs) e" and free: "isFree (h n)" "isFree (h m)"
  shows "mm_ok M (absorb h n m) (as @ n # bs) e"
    and "blockEnd (absorb h n m) n = blockEnd h m"
proof -
  let ?a = "unat (freeList_head M)" and ?h = "absorb h n m"
  from ok have t: "tiles h (as @ n # m # bs) ?a e" and e: "e \<le> 2 ^ 64"
    and l: "llist (\<lambda>a. mm_next (h a)) (freeList_head M) (as @ n # m # bs)"
    and hd: "\<not> isFree (h (freeList_head M))" and ct: "mm_counted M h (as @ n # m # bs)"
    by (auto simp: mm_ok_def mm_linked_def)
  have dist: "n \<notin> set as" "n \<notin> set bs" "n \<noteq> m"
    using llist_distinct [OF l] by auto
  have bm: "unat m = blockEnd h n" using t by (auto simp: blockEnd_def)
  have "blockEnd h m \<le> e" using tiles_mem [OF t, of m] by simp
  then have sum: "unat (memSize (h n) + (memSize (h m) + 32)) =
      unat (memSize (h n)) + unat (memSize (h m)) + 32"
    using bm e by (simp add: blockEnd_def unat_plus_fits64)
  then show be: "blockEnd ?h n = blockEnd h m" using bm by (simp add: absorb_def blockEnd_def)
  have "tiles ?h as ?a (unat n)" using t dist by (subst tiles_cong [of as ?h h]) (auto simp: absorb_def)
  moreover have "tiles ?h bs (blockEnd ?h n) e" unfolding be
    using t dist by (subst tiles_cong [of bs ?h h]) (auto simp: absorb_def blockEnd_def)
  ultimately have "tiles ?h (as @ n # bs) ?a e" by (auto simp: blockEnd_def)
  moreover have "llist (\<lambda>a. mm_next (?h a)) (freeList_head M) (as @ n # bs)"
  proof -
    have "lseg (\<lambda>a. mm_next (?h a)) (freeList_head M) as n"
      using l dist by (subst lseg_cong [of as _ "\<lambda>a. mm_next (h a)"]) (auto simp: absorb_def)
    moreover have "llist (\<lambda>a. mm_next (?h a)) (mm_next (h m)) bs"
      using l dist by (subst lseg_cong [of bs _ "\<lambda>a. mm_next (h a)"]) (auto simp: absorb_def)
    ultimately show ?thesis using l by (auto simp: absorb_def)
  qed
  moreover obtain ms where "as @ n # m # bs = freeList_head M # ms"
    using ok unfolding mm_ok_def mm_linked_def by blast
  then have "\<exists>ms. as @ n # bs = freeList_head M # ms" using free hd by (cases as) auto
  moreover have "n \<noteq> freeList_head M" using free hd by auto
  moreover have "liveSize ?h as = liveSize h as" "liveSize ?h bs = liveSize h bs"
    using dist by (simp_all add: absorb_def)
  ultimately show "mm_ok M ?h (as @ n # bs) e"
    using e hd ct free by (auto simp: mm_ok_def mm_linked_def mm_counted_def absorb_def)
qed

lemma mergeNext_absorb:
  "mergeNext h cur = (if mm_next (h cur) \<noteq> NULL \<and> isFree (h (mm_next (h cur)))
                      then absorb h cur (mm_next (h cur)) else h)"
  by (simp add: mergeNext_def absorb_def Let_def sizeof_MMNode_def)

lemma mergePrev_absorb:
  "mergePrev h cur = (if mm_prev (h cur) \<noteq> NULL \<and> isFree (h (mm_prev (h cur)))
                      then absorb h (mm_prev (h cur)) cur else h)"
  by (simp add: mergePrev_def absorb_def Let_def sizeof_MMNode_def)

text \<open>
  The \<open>prev\<close> field of a header is trustworthy when it names a header that is not free, or
  the header that really precedes it.  The code does not maintain this: neither \<open>splitNode\<close>
  nor a merge updates the \<open>prev\<close> field of the header behind.
\<close>

definition prev_ok :: "mmheap \<Rightarrow> ptr list \<Rightarrow> ptr \<Rightarrow> bool" where
  "prev_ok h ns n \<longleftrightarrow>
     mm_prev (h n) \<noteq> n \<and>
     (mm_prev (h n) = NULL \<or> \<not> isFree (h (mm_prev (h n))) \<or>
      (mm_prev (h n) \<in> set ns \<and> mm_next (h (mm_prev (h n))) = n))"

lemma mm_linked_next:
  assumes "mm_linked M h (as @ n # bs) e"
  shows "mm_next (h n) = (case bs of [] \<Rightarrow> NULL | m # _ \<Rightarrow> m)"
  using assms by (cases bs) (auto simp: mm_linked_def)

text \<open>The header that links to \<open>n\<close> is the one in front of it.\<close>

lemma mm_linked_pred:
  assumes ok: "mm_linked M h (as @ n # bs) e" and p: "p \<in> set (as @ n # bs)" "mm_next (h p) = n"
  obtains as' where "as = as' @ [p]"
proof -
  obtain xs ys where sp: "as @ n # bs = xs @ p # ys" using p(1) by (meson split_list)
  have nn: "n \<noteq> NULL" using ok by (auto simp: mm_linked_def)
  have "mm_next (h p) = (case ys of [] \<Rightarrow> NULL | m # _ \<Rightarrow> m)"
    using mm_linked_next ok sp by metis
  then obtain zs where ys: "ys = n # zs" using p(2) nn by (cases ys) auto
  have d: "distinct (as @ n # bs)" using mm_linked_distinct [OF ok] .
  have "as @ n # bs = (xs @ [p]) @ n # zs" using sp ys by simp
  then have "as = xs @ [p]" using d
    by (metis append_Cons_eq_iff distinct_append not_distinct_conv_prefix disjoint_insert(1) distinct.simps(2) distinct_append)
  then show thesis using that by blast
qed

text \<open>A release writes to at most two headers.\<close>

lemma genericFreeMemory_elsewhere:
  "a \<noteq> p - 32 \<Longrightarrow> a \<noteq> mm_prev (h (p - 32)) \<Longrightarrow> snd (genericFreeMemory M h p) a = h a"
  by (auto simp: genericFreeMemory_def mergeNext_def mergePrev_def Let_def sizeof_MMNode_def)

text \<open>
  Freeing an allocated header whose \<open>prev\<close> field is trustworthy: the list stays well-formed,
  loses at most two headers, and no other allocated header is touched.
\<close>

lemma genericFreeMemory_ok:
  assumes ok: "mm_ok M h ns e" and n: "n \<in> set ns" "\<not> isFree (h n)" "n \<noteq> freeList_head M"
    and pv: "prev_ok h ns n"
    and run: "genericFreeMemory M h (n + 32) = (M', h')"
  obtains ns' where "mm_ok M' h' ns' e" "set ns' \<subseteq> set ns"
    "\<And>m. m \<in> set ns \<Longrightarrow> m \<noteq> n \<Longrightarrow> \<not> isFree (h m) \<Longrightarrow> m \<in> set ns' \<and> h' m = h m"
    "\<And>m. m \<in> set ns' \<Longrightarrow> \<not> isFree (h' m) \<Longrightarrow> m \<noteq> n \<and> \<not> isFree (h m)"
    "freeList_head M' = freeList_head M"
proof -
  define h1 where "h1 = h(n := (h n)\<lparr>isFree := True\<rparr>)"
  define h2 where "h2 = mergeNext h1 n"
  have M': "M' = M\<lparr>mm_freeMemory := mm_freeMemory M + memSize (h n),
                   mm_usedMemory := mm_usedMemory M - memSize (h n)\<rparr>"
    and h': "h' = mergePrev h2 n"
    using run by (auto simp: genericFreeMemory_def Let_def sizeof_MMNode_def h1_def h2_def)
  from ok have lk: "mm_linked M h ns e" and ct: "mm_counted M h ns" by (auto simp: mm_ok_def)
  obtain as bs where ns: "ns = as @ n # bs" using n(1) by (meson split_list)
  have dist: "distinct ns" using lk by (rule mm_linked_distinct)
  have keep1: "h1 m = h m" if "m \<noteq> n" for m using that by (simp add: h1_def)
  have "liveSize h1 as = liveSize h as" "liveSize h1 bs = liveSize h bs"
    using dist ns by (simp_all add: h1_def)
  then have "mm_counted M' h1 ns"
    using ct n(2) by (auto simp: mm_counted_def M' ns h1_def algebra_simps)
  moreover have "mm_linked M' h1 ns e"
    using mm_linked_setFree [OF lk n(3)] by (simp add: M' h1_def)
  ultimately have ok1: "mm_ok M' h1 ns e" by (simp add: mm_ok_def)
  have n1: "isFree (h1 n)" by (simp add: h1_def)
  have hd: "freeList_head M' = freeList_head M" by (simp add: M')

  obtain bs' where ok2: "mm_ok M' h2 (as @ n # bs') e" and sub2: "set bs' \<subseteq> set bs"
    and keep2: "\<And>m. m \<noteq> n \<Longrightarrow> h2 m = h m"
    and lost2: "\<And>m. m \<in> set bs \<Longrightarrow> m \<notin> set bs' \<Longrightarrow> isFree (h m)"
    and pv2: "mm_prev (h2 n) = mm_prev (h n)" and n2: "isFree (h2 n)"
  proof (cases bs)
    case Nil
    then have "mm_next (h1 n) = NULL" using ok1 ns by (auto simp: mm_ok_def mm_linked_def)
    then have "h2 = h1" by (simp add: h2_def mergeNext_absorb)
    then show thesis using that [of bs] ok1 ns keep1 n1 by (auto simp: h1_def)
  next
    case (Cons m cs)
    then have nx: "mm_next (h1 n) = m" "m \<noteq> NULL" using ok1 ns by (auto simp: mm_ok_def mm_linked_def)
    show thesis
    proof (cases "isFree (h1 m)")
      case True
      then have h2: "h2 = absorb h1 n m" using nx by (simp add: h2_def mergeNext_absorb)
      have "m \<noteq> n" using dist ns Cons by auto
      then show thesis
        using that [of cs] absorb_ok(1) [of M' h1 as n m cs e] ok1 ns Cons n1 True keep1
        by (auto simp: h2 absorb_def h1_def)
    next
      case False
      then have "h2 = h1" using nx by (simp add: h2_def mergeNext_absorb)
      then show thesis using that [of bs] ok1 ns keep1 n1 by (auto simp: h1_def)
    qed
  qed

  have live2: "m \<noteq> n \<and> \<not> isFree (h m)" if "\<not> isFree (h2 m)" for m
    using that keep2 n2 by (cases "m = n") auto
  show thesis
  proof (cases "mm_prev (h n) \<noteq> NULL \<and> isFree (h2 (mm_prev (h n)))")
    case False
    then have "h' = h2" using pv2 by (auto simp: h' mergePrev_absorb)
    with ok2 have okF: "mm_ok M' h' (as @ n # bs') e" by simp
    show thesis
      by (rule that [OF okF]) (use ns dist sub2 lost2 keep2 \<open>h' = h2\<close> hd in \<open>auto dest: live2\<close>)
  next
    case True
    let ?p = "mm_prev (h n)"
    have pn: "?p \<noteq> n" using pv by (simp add: prev_ok_def)
    then have "mm_next (h ?p) = n" "?p \<in> set ns" using True pv keep2 by (auto simp: prev_ok_def)
    then obtain as' where as: "as = as' @ [?p]"
      using mm_linked_pred [of M h as n bs e ?p] lk ns by blast
    have h'_eq: "h' = absorb h2 ?p n" using True pv2 by (simp add: h' mergePrev_absorb)
    have okF: "mm_ok M' h' (as' @ ?p # bs') e"
      unfolding h'_eq using absorb_ok(1) [of M' h2 as' ?p n bs' e] ok2 True n2 as by simp
    have keep: "h' m = h m" if "m \<noteq> n" "m \<noteq> ?p" for m using that keep2 by (simp add: h'_eq absorb_def)
    have p': "isFree (h ?p)" "isFree (h' ?p)" using True pn keep2 by (auto simp: h'_eq absorb_def)
    have dk: "n \<notin> set as'" "n \<notin> set bs'" using dist ns as sub2 by auto
    have liveF: "m \<noteq> n \<and> \<not> isFree (h m)" if "m \<in> set (as' @ ?p # bs')" "\<not> isFree (h' m)" for m
      using that dk p' keep [of m] pn by (cases "m = n"; cases "m = ?p") auto
    have stay: "m \<in> set (as' @ ?p # bs') \<and> h' m = h m" if "m \<in> set ns" "m \<noteq> n" "\<not> isFree (h m)" for m
      using that keep [of m] p' ns as lost2 by (cases "m = ?p") auto
    have "set (as' @ ?p # bs') \<subseteq> set ns" using ns as sub2 by auto
    then show thesis by (rule that [OF okF _ stay liveF hd])
  qed
qed

section \<open>The manager as a block allocator\<close>

text \<open>
  A manager with its heap satisfies the contract of \<open>block_allocator\<close>.  A request is a block size
  and a byte count; it must not wrap around when the header and the rounding are added.
\<close>

type_synonym fl_state = "MemoryManager_t \<times> mmheap"

definition fl_inv :: "fl_state \<Rightarrow> bool" where
  "fl_inv s \<longleftrightarrow> (\<exists>ns e. mm_ok (fst s) (snd s) ns e)"

definition fl_headers :: "fl_state \<Rightarrow> ptr set" where
  "fl_headers s = {n. \<exists>ns e. mm_ok (fst s) (snd s) ns e \<and> n \<in> set ns}"

definition fl_used :: "fl_state \<Rightarrow> ptr set" where
  "fl_used s = {n \<in> fl_headers s. \<not> isFree (snd s n) \<and> n \<noteq> freeList_head (fst s)}"

definition fl_live :: "fl_state \<Rightarrow> block set" where
  "fl_live s = (\<lambda>n. (unat (n + 32), unat (memSize (snd s n)))) ` fl_used s"

definition fl_fits :: "u64 \<times> u64 \<Rightarrow> bool" where
  "fl_fits r \<longleftrightarrow> 0 < fst r \<and> unat (snd r) + 32 + unat (fst r) < 2 ^ 64"

definition fl_alloc :: "u64 \<times> u64 \<Rightarrow> fl_state \<Rightarrow> (ptr \<times> fl_state) option" where
  "fl_alloc r s = genericAllocMemory (fst s) (snd s) (fst r) (snd r)"

definition fl_release :: "ptr \<Rightarrow> fl_state \<Rightarrow> fl_state" where
  "fl_release p s = genericFreeMemory (fst s) (snd s) p"

definition fl_releasable :: "fl_state \<Rightarrow> ptr \<Rightarrow> bool" where
  "fl_releasable s p \<longleftrightarrow> p - 32 \<in> fl_used s \<and>
     (\<exists>ns e. mm_ok (fst s) (snd s) ns e \<and> prev_ok (snd s) ns (p - 32))"

lemma mm_linked_unique:
  "mm_linked M h ns e \<Longrightarrow> mm_linked M h ns' e' \<Longrightarrow> ns = ns'"
  by (auto simp: mm_linked_def dest: llist_unique)

lemma fl_headers_eq: "mm_ok M h ns e \<Longrightarrow> fl_headers (M, h) = set ns"
  by (auto simp: fl_headers_def mm_ok_def dest: mm_linked_unique)

lemma fl_used_eq:
  "mm_ok M h ns e \<Longrightarrow> fl_used (M, h) = {n \<in> set ns. \<not> isFree (h n) \<and> n \<noteq> freeList_head M}"
  by (simp add: fl_used_def fl_headers_eq)

lemma fl_live_mem: "n \<in> fl_used s \<Longrightarrow> (unat (n + 32), unat (memSize (snd s n))) \<in> fl_live s"
  by (auto simp: fl_live_def)

lemma span_payload:
  assumes "mm_ok M h ns e" "n \<in> set ns"
  shows "span (unat (n + 32), unat (memSize (h n))) \<subseteq> payload h n"
proof (cases "memSize (h n) = 0")
  case True
  then show ?thesis by (simp add: span_def)
next
  case False
  then have "0 < unat (memSize (h n))" by (simp add: unat_gt_0)
  moreover have "blockEnd h n \<le> 2 ^ 64"
    using assms tiles_mem by (fastforce simp: mm_ok_def mm_linked_def)
  ultimately have "unat (n + 32) = unat n + 32" by (simp add: blockEnd_def unat_plus_fits64)
  then show ?thesis by (auto simp: span_def payload_def blockEnd_def)
qed

lemma fl_live_disjoint:
  assumes "fl_inv s" "b \<in> fl_live s" "c \<in> fl_live s" "b \<noteq> c"
  shows "span b \<inter> span c = {}"
proof -
  obtain M h where s: "s = (M, h)" by fastforce
  obtain ns e where ok: "mm_ok M h ns e" using assms(1) s by (auto simp: fl_inv_def)
  obtain n m where n: "n \<in> set ns" "b = (unat (n + 32), unat (memSize (h n)))"
    and m: "m \<in> set ns" "c = (unat (m + 32), unat (memSize (h m)))" "n \<noteq> m"
    using assms s fl_used_eq [OF ok] by (auto simp: fl_live_def)
  have "payload h n \<inter> payload h m = {}"
    using payload_disjoint ok n m by (fastforce simp: mm_ok_def mm_linked_def)
  then show ?thesis using span_payload [OF ok n(1)] span_payload [OF ok m(1)] n m by auto
qed

lemma fl_alloc_cases:
  assumes "fl_inv s" "fl_fits r"
  obtains (refused) "fl_alloc r s = Some (NULL, s)"
    | (granted) p s' l where "fl_alloc r s = Some (p, s')" "p \<noteq> NULL" "fl_inv s'"
        "unat (snd r) \<le> l" "unat p \<notin> fst ` fl_live s" "fl_live s' = insert (unat p, l) (fl_live s)"
proof -
  obtain M h bs n where s: "s = (M, h)" and r: "r = (bs, n)" by fastforce
  obtain ns e where ok: "mm_ok M h ns e" using assms(1) s by (auto simp: fl_inv_def)
  have fit: "0 < bs" "unat n + 32 + unat bs < 2 ^ 64" using assms(2) r by (auto simp: fl_fits_def)
  from ok fit show thesis
  proof (cases rule: genericAllocMemory_cases)
    case refused
    then show thesis using that(1) s r by (simp add: fl_alloc_def)
  next
    case (granted cur M' h' ns')
    let ?b = "(unat (cur + 32), unat (memSize (h' cur)))"
    have hd: "cur \<noteq> freeList_head M" using granted(5) ok by (auto simp: mm_ok_def mm_linked_def)
    have used: "fl_used (M', h') = insert cur (fl_used (M, h))"
      unfolding fl_used_eq [OF ok] fl_used_eq [OF granted(3)]
      using granted(4-6,9-12) hd by (auto; metis)
    have notin: "cur \<notin> fl_used (M, h)" using granted(5) by (simp add: fl_used_def)
    have same: "h' m = h m" if "m \<in> fl_used (M, h)" for m
      using that notin granted(9) fl_used_eq [OF ok] by (cases "m = cur") auto
    have "unat (cur + 32) \<notin> fst ` fl_live s" using notin s by (auto simp: fl_live_def)
    moreover have "fl_live (M', h') = insert ?b (fl_live s)"
      using used same s by (auto simp: fl_live_def image_iff)
    moreover have "fl_inv (M', h')" using granted(3) by (auto simp: fl_inv_def)
    ultimately show thesis
      using that(2) [of "cur + 32" "(M', h')" "unat (memSize (h' cur))"] granted(1,2,7) s r
      by (simp add: fl_alloc_def)
  qed
qed

interpretation fl: block_allocator fl_inv fl_live fl_fits "\<lambda>r. unat (snd r)" fl_alloc
proof unfold_locales
  fix s r assume h: "fl_inv s" "fl_fits r"
  then show "\<exists>p s'. fl_alloc r s = Some (p, s') \<and> fl_inv s'"
    by (cases rule: fl_alloc_cases) (use h in auto)
  show "fl_live s' = fl_live s" if "fl_alloc r s = Some (NULL, s')" for s'
    using h that by (cases rule: fl_alloc_cases) auto
  show "\<exists>l\<ge>unat (snd r). unat p \<notin> fst ` fl_live s \<and> fl_live s' = insert (unat p, l) (fl_live s)"
    if "fl_alloc r s = Some (p, s')" "p \<noteq> NULL" for p s'
    using h that by (cases rule: fl_alloc_cases) auto
qed (rule fl_live_disjoint)

lemma fl_release_ok:
  assumes "fl_inv s" "fl_releasable s p"
  shows "fl_inv (fl_release p s)" and "fl_used (fl_release p s) = fl_used s - {p - 32}"
    and "\<And>m. m \<in> fl_used s \<Longrightarrow> m \<noteq> p - 32 \<Longrightarrow> snd (fl_release p s) m = snd s m"
proof -
  obtain M h where s: "s = (M, h)" by fastforce
  obtain ns e where ok: "mm_ok M h ns e" and pv: "prev_ok h ns (p - 32)" and u: "p - 32 \<in> fl_used (M, h)"
    using assms s by (auto simp: fl_releasable_def)
  obtain M' h' where run: "genericFreeMemory M h (p - 32 + 32) = (M', h')" by fastforce
  then have rel: "fl_release p (M, h) = (M', h')" by (simp add: fl_release_def)
  have n: "p - 32 \<in> set ns" "\<not> isFree (h (p - 32))" "p - 32 \<noteq> freeList_head M"
    using u by (simp_all add: fl_used_eq [OF ok])
  from ok n pv run obtain ns' where ok': "mm_ok M' h' ns' e" and sub: "set ns' \<subseteq> set ns"
    and stay: "\<And>m. m \<in> set ns \<Longrightarrow> m \<noteq> p - 32 \<Longrightarrow> \<not> isFree (h m) \<Longrightarrow> m \<in> set ns' \<and> h' m = h m"
    and live: "\<And>m. m \<in> set ns' \<Longrightarrow> \<not> isFree (h' m) \<Longrightarrow> m \<noteq> p - 32 \<and> \<not> isFree (h m)"
    and hd: "freeList_head M' = freeList_head M"
    by (rule genericFreeMemory_ok) (rule that)
  show "fl_inv (fl_release p s)" using ok' rel s by (auto simp: fl_inv_def)
  show "fl_used (fl_release p s) = fl_used s - {p - 32}"
  proof (rule set_eqI)
    fix m show "m \<in> fl_used (fl_release p s) \<longleftrightarrow> m \<in> fl_used s - {p - 32}"
      unfolding s rel fl_used_eq [OF ok] fl_used_eq [OF ok'] using sub stay [of m] live [of m] hd by auto
  qed
  show "\<And>m. m \<in> fl_used s \<Longrightarrow> m \<noteq> p - 32 \<Longrightarrow> snd (fl_release p s) m = snd s m"
    unfolding s rel fl_used_eq [OF ok] using stay by auto
qed

interpretation flm: block_manager fl_inv fl_live fl_fits "\<lambda>r. unat (snd r)" fl_alloc
    fl_releasable fl_release
proof unfold_locales
  fix s p assume h: "fl_inv s" "fl_releasable s p"
  show "fl_inv (fl_release p s)" using h by (rule fl_release_ok)
  have "fl_live (fl_release p s) =
      (\<lambda>n. (unat (n + 32), unat (memSize (snd s n)))) ` (fl_used s - {p - 32})"
    unfolding fl_live_def fl_release_ok(2) [OF h] using fl_release_ok(3) [OF h] by (intro image_cong) auto
  also have "\<dots> = {b \<in> fl_live s. fst b \<noteq> unat p}"
    by (auto simp: fl_live_def)
  finally show "fl_live (fl_release p s) = {b \<in> fl_live s. fst b \<noteq> unat p}" .
qed

end
