(* ===== verification/FreeListRuns.thy ===== *)
theory FreeListRuns
  imports FreeList Lib
begin

text \<open>
  The two routines of \<^verbatim>\<open>freeListMemoryManager.c\<close> that touch the contents of blocks,
  \<^verbatim>\<open>reAllocMemory\<close> and \<^verbatim>\<open>copyBlocks\<close>, and the properties of the free list
  manager: what any run of calls keeps, first-fit, accounting, the boot state, and the run in
  which a stale \<open>prev\<close> field makes two outstanding blocks overlap.
\<close>

section \<open>Routines on block contents\<close>

unbundle bit_operations_syntax

text \<open>
  The headers and the blocks share the machine's memory.  \<open>reAllocMemory\<close> writes headers, then the
  bytes of a block, and reads headers again, so it takes the two views over into each other:
  \<open>node_byte\<close> is the byte at an offset of a \<^verbatim>\<open>struct node\<close> (8 bytes each for \<open>next\<close>, \<open>prev\<close>
  and \<open>memSize\<close>, then \<open>isFree\<close>, little endian), \<open>node_of\<close> reads the structure from its bytes.
\<close>

definition word_byte :: "u64 \<Rightarrow> nat \<Rightarrow> u8" where
  "word_byte w i = ucast (drop_bit (8 * i) w)"

definition word_of_bytes :: "(nat \<Rightarrow> u8) \<Rightarrow> u64" where
  "word_of_bytes f = fold (\<lambda>i w. w OR push_bit (8 * i) (ucast (f i))) [0..<8] 0"

definition node_byte :: "MMNode \<Rightarrow> nat \<Rightarrow> u8" where
  "node_byte n i =
    (if i < 8 then word_byte (mm_next n) i
     else if i < 16 then word_byte (mm_prev n) (i - 8)
     else if i < 24 then word_byte (memSize n) (i - 16)
     else if isFree n then 1 else 0)"

definition node_of :: "(nat \<Rightarrow> u8) \<Rightarrow> MMNode" where
  "node_of f =
    \<lparr>mm_next = word_of_bytes f, mm_prev = word_of_bytes (\<lambda>i. f (i + 8)),
     memSize = word_of_bytes (\<lambda>i. f (i + 16)), isFree = f 24 \<noteq> 0\<rparr>"

lemma bit_word_bytes:
  assumes "\<And>i. i < k \<Longrightarrow> f i = word_byte w i" "8 * k \<le> 64"
  shows "bit (fold (\<lambda>i v. v OR push_bit (8 * i) (ucast (f i))) [0..<k] 0 :: u64) n \<longleftrightarrow> n < 8 * k \<and> bit w n"
  using assms
proof (induction k)
  case 0
  then show ?case by simp
next
  case (Suc k)
  let ?b = "ucast (word_byte w k) :: u64"
  have b: "bit ?b j \<longleftrightarrow> j < 8 \<and> bit w (8 * k + j)" for j
    by (auto simp: word_byte_def bit_simps dest: bit_imp_le_length)
  have "bit (push_bit (8 * k) ?b) n \<longleftrightarrow> 8 * k \<le> n \<and> n < 8 * Suc k \<and> bit w n"
    using Suc.prems(2) b [of "n - 8 * k"] by (auto simp: bit_push_bit_iff)
  then show ?case using Suc by (auto simp: bit_or_iff)
qed

lemma word_of_bytes_byte: "(\<And>i. i < 8 \<Longrightarrow> f i = word_byte w i) \<Longrightarrow> word_of_bytes f = w"
  using bit_word_bytes [of 8 f w]
  by (intro bit_word_eqI) (auto simp: word_of_bytes_def)

lemma node_of_byte: "node_of (node_byte n) = n"
  by (simp add: node_of_def node_byte_def word_of_bytes_byte)

text \<open>
  \<open>store_headers\<close> puts the header bytes that changed into the memory;  \<open>load_headers\<close> reads again
  every header one of whose bytes lies among the \<open>len\<close> bytes written at \<open>q\<close>.
\<close>

definition store_headers :: "mmheap \<Rightarrow> mmheap \<Rightarrow> bytes \<Rightarrow> bytes" where
  "store_headers h h' m b =
    (case find (\<lambda>i. node_byte (h (b - of_nat i)) i \<noteq> node_byte (h' (b - of_nat i)) i) [0..<25] of
       None \<Rightarrow> m b
     | Some i \<Rightarrow> node_byte (h' (b - of_nat i)) i)"

definition load_headers :: "ptr \<Rightarrow> u64 \<Rightarrow> bytes \<Rightarrow> mmheap \<Rightarrow> mmheap" where
  "load_headers q len m h a =
    (if list_ex (\<lambda>i. a + of_nat i - q < len) [0..<25]
     then node_of (\<lambda>i. if a + of_nat i - q < len then m (a + of_nat i) else node_byte (h a) i)
     else h a)"

definition reAllocMemory ::
    "ptr \<Rightarrow> u64 \<Rightarrow> mm_globals \<times> bytes \<Rightarrow> (ptr \<times> mm_globals \<times> bytes) option" where
  "reAllocMemory memoryToRealloc newSize s =
    (let (g, m) = s; currentNode = memoryToRealloc - sizeof_MMNode in
     if newSize \<le> memSize (mm_heap g currentNode) then Some (memoryToRealloc, g, m)
     else do {
       (newAllocation, g1) \<leftarrow> allocMemory newSize g;
       let m1 = store_headers (mm_heap g) (mm_heap g1) m;
       if newAllocation = NULL
       then do {
         let g2 = freeMemory memoryToRealloc g1;
         Some (NULL, g2, store_headers (mm_heap g1) (mm_heap g2) m1)
       }
       else do {
         let newNode = newAllocation - sizeof_MMNode;
         let len = memSize (mm_heap g1 newNode);
         let m2 = memcpy m1 newAllocation memoryToRealloc len;
         let g2 = g1\<lparr>mm_heap := load_headers newAllocation len m2 (mm_heap g1)\<rparr>;
         let g3 = freeMemory memoryToRealloc g2;
         Some (newAllocation, g3, store_headers (mm_heap g2) (mm_heap g3) m2)
       }
     })"

text \<open>The loop counter of \<^verbatim>\<open>copyBlocks\<close> is an \<^verbatim>\<open>int\<close>: it overflows when the limit is beyond its range.\<close>

definition copyBlocks :: "ptr \<Rightarrow> ptr \<Rightarrow> mm_globals \<times> bytes \<Rightarrow> (mm_globals \<times> bytes) option" where
  "copyBlocks target source s =
    (let (g, m) = s;
         targetSize = memSize (mm_heap g (target - sizeof_MMNode));
         sourceSize = memSize (mm_heap g (source - sizeof_MMNode));
         limit = (if sourceSize < targetSize then sourceSize else targetSize)
     in if 0x80000000 \<le> limit then None
        else Some (g, copy_bytes m target source 0 (unat limit)))"

section \<open>Boot\<close>

text \<open>The memory part of \<^verbatim>\<open>main\<close> in \<^verbatim>\<open>Kernel/kernel.c\<close>.\<close>

definition USERLAND_STACK :: ptr where "USERLAND_STACK = 0x800000"
definition PageSize :: u64 where "PageSize = 0x1000"

definition getUserSpaceStackBase :: ptr where
  "getUserSpaceStackBase = USERLAND_STACK + PageSize * 64 - 8"

definition main_memory :: "u64 \<times> u64 \<times> u64 \<times> u64 \<Rightarrow> mm_globals \<Rightarrow> mm_globals" where
  "main_memory sizes g = createMemoryManager g USERLAND_STACK (getUserSpaceStackBase - USERLAND_STACK) sizes"

section \<open>Blocks keep their contents\<close>

lemma payload_offset:
  assumes "mm_ok M h ns e" "n \<in> set ns" "i < unat (memSize (h n))"
  shows "unat (n + 32 + of_nat i) \<in> payload h n"
proof -
  have "blockEnd h n \<le> 2 ^ 64"
    using assms tiles_mem by (fastforce simp: mm_ok_def mm_linked_def)
  then have "unat n + 32 + i < 2 ^ 64" using assms(3) by (simp add: blockEnd_def)
  then have "unat (n + of_nat (32 + i)) = unat n + 32 + i"
    by (subst unat_plus_fits64) (simp_all only: unat_of_nat64)
  then show ?thesis using assms(3) by (simp add: payload_def blockEnd_def add.assoc)
qed

lemma blocks_apart:
  assumes ok: "mm_ok M h ns e" and ns: "n \<in> set ns" "k \<in> set ns" "n \<noteq> k"
    and ij: "i < unat (memSize (h n))" "j < unat (memSize (h k))"
  shows "n + 32 + of_nat i \<noteq> k + 32 + of_nat j"
proof
  assume eq: "n + 32 + of_nat i = k + 32 + of_nat j"
  have "payload h n \<inter> payload h k = {}"
    using payload_disjoint ok ns by (fastforce simp: mm_ok_def mm_linked_def)
  then show False
    using payload_offset [OF ok ns(1) ij(1)] payload_offset [OF ok ns(2) ij(2)] eq by auto
qed

lemma copyBlocks_copies:
  assumes ok: "mm_ok (userMemoryManager g) (mm_heap g) ns e"
    and ns: "target - 32 \<in> set ns" "source - 32 \<in> set ns" "target \<noteq> source"
    and run: "copyBlocks target source (g, m) = Some (g', m')"
    and i: "i < unat (memSize (mm_heap g (source - 32)))" "i < unat (memSize (mm_heap g (target - 32)))"
  shows "m' (target + of_nat i) = m (source + of_nat i)"
proof -
  define n where "n = min (unat (memSize (mm_heap g (source - 32)))) (unat (memSize (mm_heap g (target - 32))))"
  have m': "m' = copy_bytes m target source 0 n"
    using run by (auto simp: copyBlocks_def Let_def sizeof_MMNode_def n_def min_def word_less_nat_alt
        split: if_splits)
  have "n \<le> 2 ^ 64" using unat_less_64 by (simp add: n_def min_def less_imp_le)
  moreover have "target + of_nat j \<noteq> source + of_nat i" if "j < n" for j
    using blocks_apart [OF ok ns(1,2), of j i] ns(3) that i by (simp add: n_def)
  ultimately show ?thesis
    unfolding m' using copy_bytes_inside [of n target source i 0 n m] i by (simp add: n_def)
qed

lemma allocMemory_cases:
  assumes ok: "mm_ok (userMemoryManager g) (mm_heap g) ns e" and n: "unat n < 2 ^ 63"
  obtains (refused) "allocMemory n g = Some (NULL, g)"
    | (granted) cur g' ns' where "allocMemory n g = Some (cur + 32, g')" "cur + 32 \<noteq> NULL"
        "mm_ok (userMemoryManager g') (mm_heap g') ns' e" "cur \<in> set ns'" "set ns \<subseteq> set ns'"
        "isFree (mm_heap g cur)" "unat n \<le> unat (memSize (mm_heap g' cur))"
        "\<And>k. k \<in> set ns \<Longrightarrow> k \<noteq> cur \<Longrightarrow> mm_heap g' k = mm_heap g k"
        "\<not> isFree (mm_heap g' cur)" "\<And>k. k \<notin> set ns' \<Longrightarrow> mm_heap g' k = mm_heap g k"
        "freeList_head (userMemoryManager g') = freeList_head (userMemoryManager g)"
proof -
  have "0 < BLOCK_SIZE" "unat n + 32 + unat BLOCK_SIZE < 2 ^ 64"
    using n by (simp_all add: BLOCK_SIZE_def)
  from ok this show thesis
  proof (cases rule: genericAllocMemory_cases)
    case refused
    then show thesis using that(1) by (simp add: allocMemory_def userAlloc_def)
  next
    case (granted cur M' h' ns')
    then show thesis
      using that(2) [of cur "g\<lparr>userMemoryManager := M', mm_heap := h'\<rparr>" ns']
      by (auto simp: allocMemory_def userAlloc_def)
  qed
qed

text \<open>Header writes stay out of the payloads, and the bytes of a payload out of the headers.\<close>

lemma store_headers_payload:
  assumes ok: "mm_ok M h0 ns e" and k: "k \<in> set ns" "j < unat (memSize (h0 k))"
    and ch: "\<And>a. a \<notin> set ns \<Longrightarrow> h' a = h a"
  shows "store_headers h h' m (k + 32 + of_nat j) = m (k + 32 + of_nat j)"
proof -
  have "h' (k + 32 + of_nat j - of_nat i) = h (k + 32 + of_nat j - of_nat i)" if "i < 25" for i
  proof (rule ch)
    show "k + 32 + of_nat j - of_nat i \<notin> set ns"
      using header_payload_apart [OF ok _ k(1) _ k(2), of "k + 32 + of_nat j - of_nat i" i] that by auto
  qed
  then have "find (\<lambda>i. node_byte (h (k + 32 + of_nat j - of_nat i)) i \<noteq>
      node_byte (h' (k + 32 + of_nat j - of_nat i)) i) [0..<25] = None"
    unfolding find_None_iff by auto
  then show ?thesis by (simp only: store_headers_def option.case)
qed

lemma load_headers_same:
  assumes ok: "mm_ok M h ns e" and ns: "a \<in> set ns" "k \<in> set ns"
  shows "load_headers (k + 32) (memSize (h k)) m h a = h a"
proof -
  have "\<not> a + of_nat i - (k + 32) < memSize (h k)" if "i < 25" for i
  proof
    let ?j = "unat (a + of_nat i - (k + 32))"
    assume "a + of_nat i - (k + 32) < memSize (h k)"
    then have "?j < unat (memSize (h k))" by (simp add: word_less_nat_alt)
    from header_payload_apart [OF ok ns _ this, of i] that show False by simp
  qed
  then have "\<not> list_ex (\<lambda>i. a + of_nat i - (k + 32) < memSize (h k)) [0..<25]"
    unfolding list_ex_iff by auto
  then show ?thesis by (simp only: load_headers_def if_False)
qed

text \<open>Releasing a block in use whose \<open>prev\<close> field is live: only headers of the list are written.\<close>

lemma freeMemory_ok:
  assumes ok: "mm_ok (userMemoryManager g) (mm_heap g) ns e"
    and p: "p - 32 \<in> set ns" "\<not> isFree (mm_heap g (p - 32))" "p - 32 \<noteq> freeList_head (userMemoryManager g)"
    and pv: "mm_prev (mm_heap g (p - 32)) \<in> set ns" "prev_ok (mm_heap g) ns (p - 32)"
  obtains ns' where "mm_ok (userMemoryManager (freeMemory p g)) (mm_heap (freeMemory p g)) ns' e"
    "\<And>k. k \<in> set ns \<Longrightarrow> k \<noteq> p - 32 \<Longrightarrow> \<not> isFree (mm_heap g k) \<Longrightarrow>
       k \<in> set ns' \<and> mm_heap (freeMemory p g) k = mm_heap g k"
    "\<And>k. k \<notin> set ns \<Longrightarrow> mm_heap (freeMemory p g) k = mm_heap g k"
proof -
  obtain M h where run: "genericFreeMemory (userMemoryManager g) (mm_heap g) p = (M, h)" by fastforce
  then have run': "genericFreeMemory (userMemoryManager g) (mm_heap g) (p - 32 + 32) = (M, h)" by simp
  have fr: "userMemoryManager (freeMemory p g) = M" "mm_heap (freeMemory p g) = h"
    using run by (simp_all add: freeMemory_def)
  have "h k = mm_heap g k" if "k \<notin> set ns" for k
    using genericFreeMemory_elsewhere [of k p "mm_heap g" "userMemoryManager g"] that p(1) pv(1) run by fastforce
  then show thesis
    using genericFreeMemory_ok [OF ok p pv(2) run'] that unfolding fr by metis
qed

text \<open>
  Growing a block returns; the list stays well formed, a granted result is a block in use of the
  size asked for that starts with the old contents, and the other blocks in use keep their
  headers and their bytes.
\<close>

lemma reAllocMemory_contents:
  assumes ok: "mm_ok (userMemoryManager g) (mm_heap g) ns e"
    and p: "p - 32 \<in> set ns" "\<not> isFree (mm_heap g (p - 32))"
    and pv: "mm_prev (mm_heap g (p - 32)) \<in> set ns" "prev_ok (mm_heap g) ns (p - 32)"
    and hd: "p - 32 \<noteq> freeList_head (userMemoryManager g)" and n: "unat n < 2 ^ 63"
  shows "\<exists>q g' m' ns'. reAllocMemory p n (g, m) = Some (q, g', m') \<and>
    mm_ok (userMemoryManager g') (mm_heap g') ns' e \<and>
    (q \<noteq> NULL \<longrightarrow> q - 32 \<in> set ns' \<and> \<not> isFree (mm_heap g' (q - 32)) \<and> n \<le> memSize (mm_heap g' (q - 32)) \<and>
       (\<forall>i<unat (memSize (mm_heap g (p - 32))). m' (q + of_nat i) = m (p + of_nat i))) \<and>
    (\<forall>k\<in>set ns - {p - 32}. \<not> isFree (mm_heap g k) \<longrightarrow> k \<in> set ns' \<and> mm_heap g' k = mm_heap g k \<and>
       (\<forall>i<unat (memSize (mm_heap g k)). m' (k + 32 + of_nat i) = m (k + 32 + of_nat i)))"
proof (cases "n \<le> memSize (mm_heap g (p - 32))")
  case True
  then show ?thesis using ok p
    by (intro exI [of _ p] exI [of _ g] exI [of _ m] exI [of _ ns]) (simp add: reAllocMemory_def sizeof_MMNode_def)
next
  case False
  from ok n show ?thesis
  proof (cases rule: allocMemory_cases)
    case refused
    obtain ns' where f: "mm_ok (userMemoryManager (freeMemory p g)) (mm_heap (freeMemory p g)) ns' e"
      "\<And>k. k \<in> set ns \<Longrightarrow> k \<noteq> p - 32 \<Longrightarrow> \<not> isFree (mm_heap g k) \<Longrightarrow>
         k \<in> set ns' \<and> mm_heap (freeMemory p g) k = mm_heap g k"
      "\<And>k. k \<notin> set ns \<Longrightarrow> mm_heap (freeMemory p g) k = mm_heap g k"
      using freeMemory_ok [OF ok p hd pv] by blast
    have st: "store_headers (mm_heap g) (mm_heap g) m = m" for m
    proof -
      have "find (\<lambda>i::nat. False) [0..<25] = None" by (simp add: find_None_iff)
      then show ?thesis by (simp add: store_headers_def fun_eq_iff)
    qed
    have run: "reAllocMemory p n (g, m) = Some (NULL, freeMemory p g,
        store_headers (mm_heap g) (mm_heap (freeMemory p g)) m)"
      using False refused by (simp add: reAllocMemory_def sizeof_MMNode_def st Let_def)
    have b: "store_headers (mm_heap g) (mm_heap (freeMemory p g)) m (k + 32 + of_nat i) = m (k + 32 + of_nat i)"
      if "k \<in> set ns" "i < unat (memSize (mm_heap g k))" for k i
      using store_headers_payload [OF ok that] f(3) by simp
    show ?thesis unfolding run
      by (intro exI conjI) (rule refl, rule f(1), simp, use f(2) b in blast)
  next
    case (granted cur g1 ns1)
    let ?q = "cur + 32" and ?len = "memSize (mm_heap g1 cur)" and ?o = "p - 32"
    define m1 where "m1 = store_headers (mm_heap g) (mm_heap g1) m"
    define m2 where "m2 = memcpy m1 ?q p ?len"
    define g2 where "g2 = g1\<lparr>mm_heap := load_headers ?q ?len m2 (mm_heap g1)\<rparr>"
    define g3 where "g3 = freeMemory p g2"
    have ne: "cur \<noteq> ?o" using granted(6) p(2) by auto
    have run: "reAllocMemory p n (g, m) = Some (?q, g3, store_headers (mm_heap g2) (mm_heap g3) m2)"
      using False granted(1,2) by (simp add: reAllocMemory_def sizeof_MMNode_def Let_def m1_def m2_def g2_def g3_def)
    have h2: "mm_heap g2 a = mm_heap g1 a" if "a \<in> set ns1" for a
      using load_headers_same [OF granted(3) that granted(4)] by (simp add: g2_def)
    have ok2: "mm_ok (userMemoryManager g2) (mm_heap g2) ns1 e"
      using granted(3) mm_ok_cong [of ns1 "mm_heap g2" "mm_heap g1"] h2 by (simp add: g2_def)
    have same: "mm_heap g2 k = mm_heap g k" if "k \<in> set ns" "k \<noteq> cur" for k
      using that granted(5,8) h2 [of k] by auto
    have o: "?o \<in> set ns1" "mm_heap g2 ?o = mm_heap g ?o" using p(1) ne same granted(5) by auto
    have cur2: "\<not> isFree (mm_heap g2 cur)" "memSize (mm_heap g2 cur) = ?len" using h2 granted(4,9) by auto
    have pv2: "prev_ok (mm_heap g2) ns1 ?o"
      using pv granted(5) same [of "mm_prev (mm_heap g ?o)"] cur2(1) o(2)
      by (cases "mm_prev (mm_heap g ?o) = cur") (auto simp: prev_ok_def)
    have p2: "\<not> isFree (mm_heap g2 ?o)" "?o \<noteq> freeList_head (userMemoryManager g2)" "mm_prev (mm_heap g2 ?o) \<in> set ns1"
      using p hd pv(1) o granted(5,11) by (auto simp: g2_def)
    obtain ns3 where f: "mm_ok (userMemoryManager g3) (mm_heap g3) ns3 e"
      "\<And>k. k \<in> set ns1 \<Longrightarrow> k \<noteq> ?o \<Longrightarrow> \<not> isFree (mm_heap g2 k) \<Longrightarrow> k \<in> set ns3 \<and> mm_heap g3 k = mm_heap g2 k"
      "\<And>k. k \<notin> set ns1 \<Longrightarrow> mm_heap g3 k = mm_heap g2 k"
      unfolding g3_def using freeMemory_ok [OF ok2 o(1) p2(1,2,3) pv2] by blast
    have m3: "store_headers (mm_heap g2) (mm_heap g3) m2 (k + 32 + of_nat j) = m2 (k + 32 + of_nat j)"
      if "k \<in> set ns1" "j < unat (memSize (mm_heap g2 k))" for k j
      using store_headers_payload [OF ok2 that f(3)] .
    have m1: "m1 (k + 32 + of_nat j) = m (k + 32 + of_nat j)"
      if "k \<in> set ns" "k \<noteq> cur" "j < unat (memSize (mm_heap g k))" for k j
      unfolding m1_def using store_headers_payload [OF granted(3) _ _ granted(10), of k j] that granted(5,8) by auto
    have l64: "unat ?len \<le> 2 ^ 64" using unat_less_64 [of ?len] by simp
    have kept: "store_headers (mm_heap g2) (mm_heap g3) m2 (?q + of_nat i) = m (p + of_nat i)"
      if i: "i < unat (memSize (mm_heap g ?o))" for i
    proof -
      have lt: "i < unat ?len" using i False granted(7) by (simp add: word_le_nat_alt)
      have "?q + of_nat j \<noteq> p + of_nat i" if "j < unat ?len" for j
        using blocks_apart [OF granted(3,4), of ?o j i] granted(8) p(1) o(1) ne i that by auto
      then have "m2 (?q + of_nat i) = m1 (p + of_nat i)"
        using copy_bytes_inside [of "unat ?len" ?q p i 0 "unat ?len" m1] lt l64
        by (simp add: m2_def memcpy_bytewise)
      then show ?thesis using m3 [OF granted(4), of i] m1 [OF p(1), of i] ne i lt cur2(2) by simp
    qed
    have others: "k \<in> set ns3 \<and> mm_heap g3 k = mm_heap g k \<and>
        (\<forall>i<unat (memSize (mm_heap g k)).
           store_headers (mm_heap g2) (mm_heap g3) m2 (k + 32 + of_nat i) = m (k + 32 + of_nat i))"
      if k: "k \<in> set ns" "k \<noteq> ?o" "\<not> isFree (mm_heap g k)" for k
    proof -
      have kc: "k \<noteq> cur" "k \<in> set ns1" using k granted(5,6) by auto
      have "m2 (k + 32 + of_nat i) = m1 (k + 32 + of_nat i)" if i: "i < unat (memSize (mm_heap g k))" for i
        unfolding m2_def memcpy_bytewise
        using blocks_apart [OF granted(3) kc(2) granted(4) kc(1), of i] i granted(8) [OF k(1) kc(1)]
        by (intro copy_bytes_outside) auto
      then show ?thesis using f(2) [OF kc(2) k(2)] same [OF k(1) kc(1)] k(3) m3 [OF kc(2)] m1 [OF k(1) kc(1)] by auto
    qed
    have q: "cur \<in> set ns3" "\<not> isFree (mm_heap g3 cur)" "n \<le> memSize (mm_heap g3 cur)"
      using f(2) [OF granted(4) ne] cur2 granted(7) by (auto simp: word_le_nat_alt)
    show ?thesis unfolding run
      by (intro exI conjI) (rule refl, rule f(1), use q kept in simp, use others in blast)
  qed
qed

section \<open>Evaluating closed runs\<close>

text \<open>A zeroed machine memory, and the states of a run that starts in it.\<close>

definition hdr :: "ptr \<Rightarrow> ptr \<Rightarrow> u64 \<Rightarrow> bool \<Rightarrow> MMNode" where
  "hdr n p s f = \<lparr>mm_next = n, mm_prev = p, memSize = s, isFree = f\<rparr>"

definition mm_zero :: mmheap where "mm_zero = tbl (hdr 0 0 0 False) []"

definition fl_state_of :: "u64 \<Rightarrow> u64 \<Rightarrow> (ptr \<times> MMNode) list \<Rightarrow> fl_state" where
  "fl_state_of f u t = (\<lparr>freeList_head = 0x1000, mm_freeMemory = f, mm_usedMemory = u,
                         mm_totalMemory = 0x10000\<rparr>, tbl (hdr 0 0 0 False) t)"

lemma first_fit_eval:
  "first_fit h k NULL = Some NULL"
  "cur \<noteq> NULL \<Longrightarrow> isFree (h cur) \<and> k \<le> memSize (h cur) \<Longrightarrow> first_fit h k cur = Some cur"
  "cur \<noteq> NULL \<Longrightarrow> \<not> (isFree (h cur) \<and> k \<le> memSize (h cur)) \<Longrightarrow>
     first_fit h k cur = first_fit h k (mm_next (h cur))"
    apply (subst first_fit.simps, simp)
   apply (subst first_fit.simps, simp)
  apply (subst first_fit.simps, simp only: if_False)
  done

lemmas fl_eval = tbl_eval mm_zero_def initMemory_def fl_alloc_def fl_release_def
  genericAllocMemory_def first_fit_eval splitNode_def Let_def BLOCK_SIZE_def sizeof_MMNode_def
  blocksToAllocate_def genericFreeMemory_def mergeNext_def mergePrev_def fl_state_of_def hdr_def

abbreviation boot_64k :: fl_state where "boot_64k \<equiv> initMemory mm_zero 0x1000 0x10000"

text \<open>
  A run after which two grants overlap, in three stretches.  The third leaves the header at 4128
  with a size that reaches over the allocated header at 5408.
\<close>

abbreviation req :: "u64 \<Rightarrow> (u64 \<times> u64) mm_call" where "req n \<equiv> Alloc (BLOCK_SIZE, n)"

lemma stale_run_1:
  "run_calls fl_alloc fl_release [req 3000, req 100, Free 0x1040] [] boot_64k =
     Some ([(0x1F40, BLOCK_SIZE, 100)],
       fl_state_of 64288 1248 [(4096, hdr 4128 0 0 False), (4128, hdr 7968 4096 3808 True),
         (7968, hdr 9248 4128 1248 False), (9248, hdr 0 7968 60352 True)])"
  by (simp add: fl_eval cong: bind_weak_cong let_weak_cong)

lemma stale_run_2:
  "run_calls fl_alloc fl_release [req 100, req 100] [(0x1F40, BLOCK_SIZE, 100)]
       (fl_state_of 64288 1248 [(4096, hdr 4128 0 0 False), (4128, hdr 7968 4096 3808 True),
         (7968, hdr 9248 4128 1248 False), (9248, hdr 0 7968 60352 True)]) =
     Some ([(0x1540, BLOCK_SIZE, 100), (0x1040, BLOCK_SIZE, 100), (0x1F40, BLOCK_SIZE, 100)],
       fl_state_of 61792 3744 [(4096, hdr 4128 0 0 False), (4128, hdr 5408 4096 1248 False),
         (7968, hdr 9248 4128 1248 False), (9248, hdr 0 7968 60352 True),
         (5408, hdr 6688 4128 1248 False), (6688, hdr 7968 5408 1248 True)])"
  by (simp add: fl_eval cong: bind_weak_cong let_weak_cong)

lemma stale_run_3:
  "run_calls fl_alloc fl_release [Free 0x1040, Free 0x1F40, req 3000]
       [(0x1540, BLOCK_SIZE, 100), (0x1040, BLOCK_SIZE, 100), (0x1F40, BLOCK_SIZE, 100)]
       (fl_state_of 61792 3744 [(4096, hdr 4128 0 0 False), (4128, hdr 5408 4096 1248 False),
         (7968, hdr 9248 4128 1248 False), (9248, hdr 0 7968 60352 True),
         (5408, hdr 6688 4128 1248 False), (6688, hdr 7968 5408 1248 True)]) =
     Some ([(0x1040, BLOCK_SIZE, 3000), (0x1540, BLOCK_SIZE, 100)],
       fl_state_of 60480 5056 [(4096, hdr 4128 0 0 False), (4128, hdr 7968 4096 3808 False),
         (7968, hdr 0 4128 59072 True), (9248, hdr 0 7968 60352 True),
         (5408, hdr 6688 4128 1248 False), (6688, hdr 7968 5408 1248 True)])"
  by (simp add: fl_eval cong: bind_weak_cong let_weak_cong)

lemma run_calls_step:
  "run_calls al fr cs g s = Some (g1, s1) \<Longrightarrow>
     run_calls al fr (cs @ ds) g s = run_calls al fr ds g1 s1"
  by (simp add: run_calls_append)

section \<open>Properties\<close>

lemma first_fit_filter:
  "llist (\<lambda>a. mm_next (h a)) p ns \<Longrightarrow>
     first_fit h k p = Some (case filter (\<lambda>n. isFree (h n) \<and> k \<le> memSize (h n)) ns of
                               [] \<Rightarrow> NULL | c # cs \<Rightarrow> c)"
proof (induction ns arbitrary: p)
  case Nil
  then show ?case by (simp add: first_fit_eval)
next
  case (Cons n ns)
  then show ?case by (cases "isFree (h n) \<and> k \<le> memSize (h n)") (auto simp: first_fit_eval)
qed

text \<open> (C1)
  Any run of allocations and releases on a freshly initialised manager, where every request
  fits in the machine word and every pointer given back is releasable (it names an allocated
  block whose \<open>prev\<close> field is not stale), returns, keeps the header list well formed, and its
  outstanding blocks never overlap.
\<close>

theorem freelist_runs_disjoint:
  assumes "init \<noteq> NULL" and "64 \<le> sz" and "unat init + unat sz \<le> 2 ^ 64"
    and "admissible fl_fits fl_releasable fl_alloc fl_release cs (initMemory h init sz)"
  shows "\<exists>g s. run_calls fl_alloc fl_release cs [] (initMemory h init sz) = Some (g, s) \<and>
           fl_inv s \<and> grants_disjoint (\<lambda>r. unat (snd r)) g"
proof -
  obtain M h' where i: "initMemory h init sz = (M, h')" by fastforce
  have "mm_ok M h' [init, init + 32] (unat init + unat sz)"
    using assms(1-3) i by (rule initMemory_ok)
  then have "fl_inv (initMemory h init sz)" using i by (auto simp: fl_inv_def)
  then show ?thesis using flm.run_disjoint assms(4) by blast
qed

text \<open> (C18)
  First fit: on a well-formed list a request returns, it is refused exactly when no free header
  is large enough for the rounded size, and otherwise the block of the first such header is
  granted; it has at least the size asked for, the list stays well formed with its accounting,
  and every other header is unchanged.
\<close>

theorem genericAllocMemory_first_fit:
  assumes ok: "mm_ok M h ns e" and bs: "0 < bs" and req: "unat n + 32 + unat bs < 2 ^ 64"
  shows "\<exists>p M' h' ns'. genericAllocMemory M h bs n = Some (p, M', h') \<and> mm_ok M' h' ns' e \<and>
    (let fit = filter (\<lambda>a. isFree (h a) \<and> blocksToAllocate bs n \<le> memSize (h a)) ns
     in if fit = [] then p = NULL \<and> M' = M \<and> h' = h
        else p = hd fit + 32 \<and> p \<noteq> NULL \<and> \<not> isFree (h' (hd fit)) \<and>
             unat n \<le> unat (memSize (h' (hd fit))) \<and> set ns \<subseteq> set ns' \<and>
             (\<forall>m\<in>set ns - {hd fit}. h' m = h m))"
proof -
  let ?P = "\<lambda>a. isFree (h a) \<and> blocksToAllocate bs n \<le> memSize (h a)"
  obtain ms where ns: "ns = freeList_head M # ms"
    and l: "llist (\<lambda>a. mm_next (h a)) (mm_next (h (freeList_head M))) ms"
    and hd: "\<not> isFree (h (freeList_head M))"
    using ok by (auto simp: mm_ok_def mm_linked_def)
  have fit: "filter ?P ns = filter ?P ms" using ns hd by simp
  note ff = first_fit_filter [OF l, of "blocksToAllocate bs n"]
  from ok bs req show ?thesis
  proof (cases rule: genericAllocMemory_cases)
    case refused
    then have "filter ?P ns = []" by (auto simp: filter_empty_conv not_le)
    then show ?thesis using refused ok by (auto simp: Let_def)
  next
    case (granted cur M' h' ns')
    obtain c cs where c: "filter ?P ms = c # cs"
      using granted(1,2) ff by (cases "filter ?P ms") (auto simp: genericAllocMemory_def)
    then have "c \<in> set (filter ?P ms)" by simp
    then have "c \<noteq> NULL" using l llist_not_null_mem by fastforce
    then have "cur = c" using granted(1) ff c by (auto simp: genericAllocMemory_def Let_def sizeof_MMNode_def)
    then show ?thesis using granted c fit by (fastforce simp: Let_def)
  qed
qed

lemma boot_64k_ok: "mm_ok (fst boot_64k) (snd boot_64k) [0x1000, 0x1020] 0x11000"
  using initMemory_ok [of "0x1000" "0x10000" mm_zero "fst boot_64k" "snd boot_64k"] by simp

lemma genericAllocMemory_first_fit_witness:
  "\<exists>p M' h' ns'. genericAllocMemory (fst boot_64k) (snd boot_64k) 1280 3000 = Some (p, M', h') \<and>
     mm_ok M' h' ns' 0x11000 \<and> p = 4160"
proof -
  from genericAllocMemory_first_fit [OF boot_64k_ok, of 1280 3000] show ?thesis
    by (auto simp: initMemory_def Let_def sizeof_MMNode_def blocksToAllocate_def)
qed

lemma mm_okI:
  assumes "freeList_head M = a" "lseg (\<lambda>x. mm_next (h x)) a (a # ms) NULL" "tiles h (a # ms) (unat a) e"
    "e \<le> 2 ^ 64" "\<not> isFree (h a)" "mm_counted M h (a # ms)"
  shows "mm_ok M h (a # ms) e"
  using assms by (simp add: mm_ok_def mm_linked_def)

text \<open>The state after one request on the 64K arena.\<close>

abbreviation one_block :: fl_state where
  "one_block \<equiv> fl_state_of 61728 3808 [(4096, hdr 4128 0 0 False), (4128, hdr 7968 4096 3808 False),
         (7968, hdr 0 4128 61632 True)]"

lemma one_block_run: "fl_alloc (BLOCK_SIZE, 3000) boot_64k = Some (0x1040, one_block)"
  by (simp add: fl_eval cong: bind_weak_cong let_weak_cong)

lemma one_block_ok: "mm_ok (fst one_block) (snd one_block) [4096, 4128, 7968] 0x11000"
proof (rule mm_okI)
  show "lseg (\<lambda>a. mm_next (snd one_block a)) 4096 [4096, 4128, 7968] NULL"
    by (simp add: fl_state_of_def hdr_def tbl_eval split del: if_split)
  show "tiles (snd one_block) [4096, 4128, 7968] (unat (4096::ptr)) 0x11000"
    by (simp add: fl_state_of_def hdr_def tbl_eval split del: if_split)
  show "mm_counted (fst one_block) (snd one_block) [4096, 4128, 7968]"
    by (simp add: mm_counted_def fl_state_of_def hdr_def tbl_eval split del: if_split)
  show "freeList_head (fst one_block) = 4096" by (simp add: fl_state_of_def)
  show "\<not> isFree (snd one_block 4096)" by (simp add: fl_state_of_def hdr_def tbl_eval)
qed simp

lemma one_block_used: "\<not> isFree (snd one_block 4128)" "freeList_head (fst one_block) \<noteq> 4128"
  by (simp_all add: fl_state_of_def hdr_def tbl_eval)

lemma one_block_prev: "prev_ok (snd one_block) [4096, 4128, 7968] 4128"
  by (simp add: prev_ok_def fl_state_of_def hdr_def tbl_eval)

lemma freelist_runs_disjoint_witness:
  "\<exists>g s. run_calls fl_alloc fl_release [req 3000, Free 0x1040, req 5000] [] boot_64k = Some (g, s) \<and>
           fl_inv s \<and> grants_disjoint (\<lambda>r. unat (snd r)) g"
proof (rule freelist_runs_disjoint)
  have "0x1040 - 32 \<in> fl_used one_block"
    using fl_used_eq [OF one_block_ok] one_block_used by simp
  moreover have "prev_ok (snd one_block) [4096, 4128, 7968] (0x1040 - 32)"
    using one_block_prev by simp
  ultimately have "fl_releasable one_block 0x1040" unfolding fl_releasable_def using one_block_ok by blast
  then show "admissible fl_fits fl_releasable fl_alloc fl_release [req 3000, Free 0x1040, req 5000] boot_64k"
    using one_block_run by (auto simp: fl_fits_def BLOCK_SIZE_def split: option.split)
qed simp_all

abbreviation stale_grants :: "(u64 \<times> u64) grants" where
  "stale_grants \<equiv> [(0x1040, BLOCK_SIZE, 3000), (0x1540, BLOCK_SIZE, 100)]"

text \<open> (C39)
  A \<open>prev\<close> field goes stale when the header it names is split, and a release then merges a
  block into a header that is not its neighbour: after these eight calls, in which only
  outstanding pointers are given back, the grant of 3000 bytes at 0x1040 overlaps the grant of
  100 bytes at 0x1540, which is still outstanding.
\<close>

theorem stale_prev_overlap:
  "\<exists>s. run_calls fl_alloc fl_release
         [req 3000, req 100, Free 0x1040, req 100, req 100, Free 0x1040, Free 0x1F40, req 3000]
         [] boot_64k = Some (stale_grants, s) \<and>
     \<not> grants_disjoint (\<lambda>r. unat (snd r)) stale_grants"
proof -
  have "\<not> grants_disjoint (\<lambda>r. unat (snd r)) stale_grants"
    by (simp add: grants_disjoint_def span_def All_less_Suc)
  then show ?thesis
    using run_calls_step [OF stale_run_1, of "[req 100, req 100, Free 0x1040, Free 0x1F40, req 3000]"]
      run_calls_step [OF stale_run_2, of "[Free 0x1040, Free 0x1F40, req 3000]"] stale_run_3
    by simp
qed

text \<open> (C33)
  Growing a block that is in use and whose \<open>prev\<close> field is live (it names a header of the list,
  and the one in front of the block if that is free) returns, with the header list well formed.
  When the request is granted, the result is a block in use of at least the size asked for, and
  it starts with all the bytes the old block had.  Every other block in use keeps its header and
  its bytes: neither the copy nor the header writes of the release touch them.
\<close>

theorem reAllocMemory_keeps_contents:
  assumes "mm_ok (userMemoryManager g) (mm_heap g) ns e"
    and "p - 32 \<in> set ns" "\<not> isFree (mm_heap g (p - 32))"
    and "mm_prev (mm_heap g (p - 32)) \<in> set ns" "prev_ok (mm_heap g) ns (p - 32)"
    and "p - 32 \<noteq> freeList_head (userMemoryManager g)" and "unat n < 2 ^ 63"
  shows "\<exists>q g' m' ns'. reAllocMemory p n (g, m) = Some (q, g', m') \<and>
    mm_ok (userMemoryManager g') (mm_heap g') ns' e \<and>
    (q \<noteq> NULL \<longrightarrow> q - 32 \<in> set ns' \<and> \<not> isFree (mm_heap g' (q - 32)) \<and> n \<le> memSize (mm_heap g' (q - 32)) \<and>
       (\<forall>i<unat (memSize (mm_heap g (p - 32))). m' (q + of_nat i) = m (p + of_nat i))) \<and>
    (\<forall>k\<in>set ns - {p - 32}. \<not> isFree (mm_heap g k) \<longrightarrow> k \<in> set ns' \<and> mm_heap g' k = mm_heap g k \<and>
       (\<forall>i<unat (memSize (mm_heap g k)). m' (k + 32 + of_nat i) = m (k + 32 + of_nat i)))"
  using assms by (rule reAllocMemory_contents)

text \<open>
  Booting establishes both managers in the one memory: each has a well-formed header list with
  its books balanced, and their arenas do not overlap.
\<close>

theorem main_memory_ok:
  "\<exists>us ks. mm_ok (userMemoryManager (main_memory sizes g)) (mm_heap (main_memory sizes g)) us 0x83FFF8 \<and>
     mm_ok (kernelMemoryManager (main_memory sizes g)) (mm_heap (main_memory sizes g)) ks 0x190000 \<and>
     set us \<subseteq> {u. 0x800000 \<le> unat u} \<and> set ks \<subseteq> {k. blockEnd (mm_heap (main_memory sizes g)) k \<le> 0x190000}"
proof -
  obtain um h1 where u: "initMemory (mm_heap g) 0x800000 0x3FFF8 = (um, h1)" by fastforce
  obtain km h2 where k: "initMemory h1 0x50000 0x140000 = (km, h2)" by fastforce
  obtain a b c d where sz: "sizes = (a, b, c, d)" by (cases sizes) auto
  have g': "userMemoryManager (main_memory sizes g) = um" "kernelMemoryManager (main_memory sizes g) = km"
    "mm_heap (main_memory sizes g) = h2"
    using u k by (simp_all add: main_memory_def createMemoryManager_def getUserSpaceStackBase_def
        USERLAND_STACK_def PageSize_def KERNEL_MEMORY_LOCATION_def KERNEL_MEMORY_SIZE_def sz)
  have uo: "mm_ok um h1 [0x800000, 0x800020] 0x83FFF8" using initMemory_ok [OF _ _ _ u] by simp
  have ko: "mm_ok km h2 [0x50000, 0x50020] 0x190000" using initMemory_ok [OF _ _ _ k] by simp
  have "h2 0x800000 = h1 0x800000" "h2 0x800020 = h1 0x800020" "freeList_head um = 0x800000"
    using k u by (auto simp: initMemory_def Let_def sizeof_MMNode_def)
  then have "mm_ok um h2 [0x800000, 0x800020] 0x83FFF8"
    using uo by (auto simp: mm_ok_def mm_linked_def mm_counted_def)
  moreover have "\<forall>k\<in>set [0x50000, 0x50020]. blockEnd h2 k \<le> 0x190000"
    using ko tiles_mem unfolding mm_ok_def mm_linked_def by blast
  ultimately show ?thesis unfolding g' using ko by (intro exI conjI) (assumption, assumption, auto)
qed

text \<open>Globals whose user manager is in the state \<open>one_block\<close>.\<close>

definition one_block_globals :: mm_globals where
  "one_block_globals = \<lparr>userMemoryManager = fst one_block, kernelMemoryManager = fst one_block,
     mm_heap = snd one_block, PCBNodeSize = 200, semNodeSize = 40, IPCBufferSize = 1100, timerSize = 32\<rparr>"

lemma reAllocMemory_keeps_contents_witness:
  "\<exists>q g' m'. reAllocMemory 0x1040 5000 (one_block_globals, \<lambda>_. 7) = Some (q, g', m') \<and>
    (q \<noteq> NULL \<longrightarrow> (\<forall>i<3808. m' (q + of_nat i) = 7))"
proof -
  have "unat (memSize (snd one_block 4128)) = 3808" "mm_prev (snd one_block 4128) = 4096"
    "freeList_head (fst one_block) = 4096"
    by (simp_all add: fl_state_of_def hdr_def tbl_eval)
  then show ?thesis
    using reAllocMemory_keeps_contents [of one_block_globals "[4096, 4128, 7968]" "0x11000" "0x1040" 5000 "\<lambda>_. 7"]
      one_block_ok one_block_used one_block_prev by (simp add: one_block_globals_def) blast
qed

text \<open> (C34)
  Allocating and giving back at once restores the manager's counters and every header, provided
  the neighbours of the chosen header are in use, so that there is nothing else to merge.
\<close>

theorem alloc_free_roundtrip:
  assumes ok: "mm_ok M h ns e" and fits: "0 < bs" "unat n + 32 + unat bs < 2 ^ 64"
    and al: "genericAllocMemory M h bs n = Some (p, M1, h1)" "p \<noteq> NULL"
    and nx: "mm_next (h (p - 32)) = NULL \<or> \<not> isFree (h (mm_next (h (p - 32))))"
    and pv: "mm_prev (h (p - 32)) \<in> set ns - {p - 32}" "\<not> isFree (h (mm_prev (h (p - 32))))"
  shows "fst (genericFreeMemory M1 h1 p) = M \<and> (\<forall>m\<in>set ns. snd (genericFreeMemory M1 h1 p) m = h m)"
proof -
  obtain ms where ns: "ns = freeList_head M # ms"
    and l: "llist (\<lambda>a. mm_next (h a)) (mm_next (h (freeList_head M))) ms"
    using ok by (auto simp: mm_ok_def mm_linked_def)
  define c k where "c = p - 32" and "k = blocksToAllocate bs n"
  have p: "p = c + 32" by (simp add: c_def)
  have lk: "mm_linked M h ns e" using ok by (simp add: mm_ok_def)
  have ff: "first_fit h k (mm_next (h (freeList_head M))) = Some c" and c0: "c \<noteq> NULL"
    using al by (auto simp: genericAllocMemory_def k_def c_def sizeof_MMNode_def Let_def
        split: Option.bind_splits if_splits)
  from first_fit_llist [OF l, of k] ff c0 obtain as bs' where ms: "ms = as @ c # bs'" "isFree (h c)" "k \<le> memSize (h c)"
    by auto
  have k32: "32 \<le> unat k" using blocksToAllocate_bounds(1) [OF fits] by (simp add: k_def)
  define h2 where "h2 = (if k < memSize (h c) then splitNode h c k else h)"
  have run: "h1 = h2(c := (h2 c)\<lparr>isFree := False\<rparr>)"
    "M1 = M\<lparr>mm_freeMemory := mm_freeMemory M - memSize (h2 c), mm_usedMemory := mm_usedMemory M + memSize (h2 c)\<rparr>"
    using al(1) ff c0 by (auto simp: genericAllocMemory_def k_def [symmetric] Let_def h2_def)
  have nc: "mm_next (h c) = NULL \<or> \<not> isFree (h (mm_next (h c)))" and pc: "mm_prev (h c) \<noteq> c" "\<not> isFree (h (mm_prev (h c)))" "mm_prev (h c) \<in> set ns"
    using pv nx by (simp_all add: c_def)
  show ?thesis
  proof (cases "k < memSize (h c)")
    case False
    then have "h2 = h" by (simp add: h2_def)
    then have "mergeNext (h1(c := (h1 c)\<lparr>isFree := True\<rparr>)) c = h" using nc ms(2) by (auto simp: run mergeNext_def Let_def)
    moreover have "mergePrev h c = h" using pc by (simp add: mergePrev_def Let_def)
    ultimately show ?thesis by (simp add: p genericFreeMemory_def Let_def sizeof_MMNode_def run)
  next
    case True
    let ?new = "c + k"
    have lk': "mm_linked M h ((freeList_head M # as) @ c # bs') e" using lk ns ms by simp
    have "unat k < unat (memSize (h c))" using True by (simp add: word_less_nat_alt)
    note sp = splitNode_ok [OF lk' ms(2) k32 this refl refl]
    have "?new \<noteq> NULL" using sp(1) llist_not_null_mem by (fastforce simp: mm_linked_def)
    then have nn: "?new \<noteq> c" "?new \<noteq> NULL" "?new \<notin> set ns"
      using sp(2,3) ns ms lk sp(1) mm_linked_distinct [OF sp(1)] by auto
    have h2: "h2 = h(?new := \<lparr>mm_next = mm_next (h c), mm_prev = c, memSize = memSize (h c) - k, isFree = True\<rparr>,
      c := (h c)\<lparr>mm_next := ?new, memSize := k - 32\<rparr>)"
      using splitNode_fields [OF refl nn(1)] True by (simp add: h2_def)
    show ?thesis using pc nn ms(2)
      by (auto simp: run h2 p genericFreeMemory_def Let_def sizeof_MMNode_def mergeNext_def mergePrev_def)
  qed
qed

lemma alloc_free_roundtrip_witness:
  "fst (genericFreeMemory (fst one_block) (snd one_block) 4160) = fst boot_64k \<and>
     map (snd (genericFreeMemory (fst one_block) (snd one_block) 4160)) [4096, 4128] = map (snd boot_64k) [4096, 4128]"
proof -
  have "genericAllocMemory (fst boot_64k) (snd boot_64k) BLOCK_SIZE 3000 =
      Some (4160, fst one_block, snd one_block)"
    using one_block_run by (simp add: fl_alloc_def)
  moreover have "mm_next (snd boot_64k 4128) = NULL" "mm_prev (snd boot_64k 4128) = 4096"
    "\<not> isFree (snd boot_64k 4096)"
    by (simp_all add: initMemory_def Let_def sizeof_MMNode_def)
  ultimately show ?thesis
    using alloc_free_roundtrip [OF boot_64k_ok, of BLOCK_SIZE 3000 4160 "fst one_block" "snd one_block"]
    by (simp add: BLOCK_SIZE_def)
qed

end
