(* ===== verification/IPCBuffer.thy ===== *)
theory IPCBuffer
  imports Lib
begin

text \<open>
  The IPC buffers of \<^verbatim>\<open>Kernel/ipcRelated/bufferManagement.c\<close>: a 1 KiB array with a fill count
  and a read cursor, used for standard input, output and error and for both ends of a pipe.
  The operations here work on one buffer and on the caller's memory; those that reach into the
  scheduler are in \<open>Kernel\<close>.  An access outside the array has no result: it is \<^term>\<open>None\<close>.
\<close>

section \<open>Data\<close>

datatype BufferState = READ | WRITE | READ_WRITE | CLOSED
datatype BufferId = STDIN | STDOUT | STDERR | PIPE

definition PD_SIZE :: nat where "PD_SIZE = 32"
definition BUFF_SIZE :: nat where "BUFF_SIZE = 1024"

record IPCBufferCDT =
  ib_buffer :: "u8 list"
  bufferDim :: u16
  cursor :: u16
  buffId :: BufferId
  bufState :: BufferState
  oppositeEnd :: ptr
  ib_references :: "ptr list"

section \<open>Operations\<close>

text \<open>
  The loop shared by \<^verbatim>\<open>writeBuffer\<close> and \<^verbatim>\<open>copyToBuffer\<close>; \<open>k\<close> bytes are written, \<open>n\<close> remain.  The
  index is \<^verbatim>\<open>cursor + bufferDim % BUFF_SIZE\<close>, where the remainder binds to \<^verbatim>\<open>bufferDim\<close> alone.
\<close>

fun fill_loop :: "bytes \<Rightarrow> ptr \<Rightarrow> nat \<Rightarrow> nat \<Rightarrow> IPCBufferCDT \<Rightarrow> (nat \<times> IPCBufferCDT) option" where
  "fill_loop m src k 0 b = Some (k, b)"
| "fill_loop m src k (Suc n) b =
     (if unat (bufferDim b) < BUFF_SIZE then
        let i = unat (cursor b) + unat (bufferDim b) mod BUFF_SIZE in
        if i < BUFF_SIZE
        then fill_loop m src (Suc k) n
               (b\<lparr>ib_buffer := (ib_buffer b)[i := m (src + of_nat k)], bufferDim := bufferDim b + 1\<rparr>)
        else None
      else Some (k, b))"

text \<open>A buffer argument is a pointer that may be null: \<^term>\<open>None\<close> stands for the null pointer.\<close>

definition writeBuffer ::
    "bytes \<Rightarrow> IPCBufferCDT option \<Rightarrow> ptr \<Rightarrow> u64 \<Rightarrow> (u64 \<times> IPCBufferCDT option) option" where
  "writeBuffer m buffer dataToWrite count =
    (case buffer of
       None \<Rightarrow> Some (0, None)
     | Some b \<Rightarrow>
         if dataToWrite \<noteq> NULL \<and> 0 < count \<and> unat (bufferDim b) < BUFF_SIZE - 1 \<and>
            (bufState b = WRITE \<or> bufState b = READ_WRITE)
         then do { (k, b1) \<leftarrow> fill_loop m dataToWrite 0 (unat count) b; Some (of_nat k, Some b1) }
         else Some (0, Some b))"

definition copyToBuffer ::
    "bytes \<Rightarrow> IPCBufferCDT option \<Rightarrow> ptr \<Rightarrow> u64 \<Rightarrow> (u64 \<times> IPCBufferCDT option) option" where
  "copyToBuffer m buffer toCopy count =
    (case buffer of
       None \<Rightarrow> Some (0, None)
     | Some b \<Rightarrow>
         if toCopy \<noteq> NULL \<and> 0 < count \<and> unat (bufferDim b) < BUFF_SIZE - 1
         then do { (k, b1) \<leftarrow> fill_loop m toCopy 0 (unat count) b; Some (of_nat k, Some b1) }
         else Some (0, Some b))"

text \<open>One byte leaves the buffer.\<close>

definition advance :: "IPCBufferCDT \<Rightarrow> IPCBufferCDT" where
  "advance b = b\<lparr>cursor := cursor b + 1, bufferDim := bufferDim b - 1\<rparr>"

definition head_byte :: "IPCBufferCDT \<Rightarrow> u8" where
  "head_byte b = ib_buffer b ! (unat (cursor b) mod BUFF_SIZE)"

text \<open>\<^verbatim>\<open>readBuffer\<close> stops at a zero byte, and drops it when it was alone in the buffer (\<open>dim0\<close>).\<close>

fun read_loop :: "u16 \<Rightarrow> ptr \<Rightarrow> nat \<Rightarrow> nat \<Rightarrow> bytes \<Rightarrow> IPCBufferCDT \<Rightarrow> nat \<times> bytes \<times> IPCBufferCDT" where
  "read_loop dim0 dst k 0 m b = (k, m, b)"
| "read_loop dim0 dst k (Suc n) m b =
     (if bufferDim b = 0 then (k, m, b)
      else if head_byte b = 0 then (k, m, if dim0 = 1 then advance b else b)
      else read_loop dim0 dst (Suc k) n (m(dst + of_nat k := head_byte b)) (advance b))"

definition readBuffer ::
    "IPCBufferCDT option \<Rightarrow> ptr \<Rightarrow> u64 \<Rightarrow> bytes \<Rightarrow> u64 \<times> bytes \<times> IPCBufferCDT option" where
  "readBuffer rEnd buffToFill count m =
    (case rEnd of
       None \<Rightarrow> (0, m, None)
     | Some b \<Rightarrow>
         if buffToFill \<noteq> NULL \<and> 0 < count \<and> 0 < bufferDim b \<and> (bufState b = READ \<or> bufState b = READ_WRITE)
         then let (k, m1, b1) = read_loop (bufferDim b) buffToFill 0 (unat count) m b
              in (of_nat k, m1, Some b1)
         else (0, m, Some b))"

fun drain_loop :: "ptr \<Rightarrow> nat \<Rightarrow> nat \<Rightarrow> bytes \<Rightarrow> IPCBufferCDT \<Rightarrow> nat \<times> bytes \<times> IPCBufferCDT" where
  "drain_loop dst k 0 m b = (k, m, b)"
| "drain_loop dst k (Suc n) m b =
     (if bufferDim b = 0 then (k, m, b)
      else drain_loop dst (Suc k) n (m(dst + of_nat k := head_byte b)) (advance b))"

definition copyFromBuffer ::
    "ptr \<Rightarrow> IPCBufferCDT option \<Rightarrow> u64 \<Rightarrow> bytes \<Rightarrow> u64 \<times> bytes \<times> IPCBufferCDT option" where
  "copyFromBuffer toWrite buffer count m =
    (case buffer of
       None \<Rightarrow> (0, m, None)
     | Some b \<Rightarrow>
         if toWrite \<noteq> NULL \<and> 0 < count \<and> 0 < bufferDim b
         then let (k, m1, b1) = drain_loop toWrite 0 (unat count) m b in (of_nat k, m1, Some b1)
         else (0, m, Some b))"

definition getReferenceByIndex :: "IPCBufferCDT \<Rightarrow> u32 \<Rightarrow> ptr" where
  "getReferenceByIndex b index =
    (if unat index < PD_SIZE then ib_references b ! unat index else NULL)"

definition checkReferences :: "IPCBufferCDT \<Rightarrow> bool" where
  "checkReferences b \<longleftrightarrow> buffId b = PIPE \<and> (\<forall>r\<in>set (ib_references b). r = NULL)"

definition setReferenceByIndex :: "IPCBufferCDT \<Rightarrow> ptr \<Rightarrow> u32 \<Rightarrow> bool \<times> IPCBufferCDT" where
  "setReferenceByIndex b toSet index =
    (let b1 = (if unat index < PD_SIZE
               then b\<lparr>ib_references := (ib_references b)[unat index := toSet]\<rparr> else b)
     in (checkReferences b1, b1))"

definition setBufferState :: "IPCBufferCDT \<Rightarrow> BufferState \<Rightarrow> IPCBufferCDT" where
  "setBufferState b status = b\<lparr>bufState := status\<rparr>"

definition setBufferId :: "IPCBufferCDT \<Rightarrow> BufferId \<Rightarrow> IPCBufferCDT" where
  "setBufferId b i = b\<lparr>buffId := i\<rparr>"

definition setBufferOppositeEnd :: "IPCBufferCDT \<Rightarrow> ptr \<Rightarrow> IPCBufferCDT" where
  "setBufferOppositeEnd b e = b\<lparr>oppositeEnd := e\<rparr>"

definition getBufferId :: "IPCBufferCDT \<Rightarrow> BufferId" where "getBufferId b = buffId b"
definition getBufferOppositeEnd :: "IPCBufferCDT \<Rightarrow> ptr" where "getBufferOppositeEnd b = oppositeEnd b"
definition getBufferDim :: "IPCBufferCDT \<Rightarrow> u16" where "getBufferDim b = bufferDim b"
definition getBufferState :: "IPCBufferCDT \<Rightarrow> BufferState" where "getBufferState b = bufState b"

definition clearBuffer :: "IPCBufferCDT \<Rightarrow> IPCBufferCDT" where
  "clearBuffer b = b\<lparr>ib_buffer := replicate BUFF_SIZE 0, bufferDim := 0, cursor := 0\<rparr>"

definition init_standard :: "BufferId \<Rightarrow> BufferState \<Rightarrow> IPCBufferCDT \<Rightarrow> IPCBufferCDT" where
  "init_standard i st b =
    (clearBuffer b)\<lparr>buffId := i, bufState := st, ib_references := replicate PD_SIZE NULL\<rparr>"

text \<open>\<^verbatim>\<open>initStandardBuffers\<close> on the three standard buffers.\<close>

definition initStandardBuffers ::
    "IPCBufferCDT \<times> IPCBufferCDT \<times> IPCBufferCDT \<Rightarrow> IPCBufferCDT \<times> IPCBufferCDT \<times> IPCBufferCDT" where
  "initStandardBuffers bs =
    (let (i, out, err) = bs
     in (init_standard STDIN READ i, init_standard STDOUT WRITE out, init_standard STDERR WRITE err))"

text \<open>The buffer part of \<^verbatim>\<open>createEmptyBuffer\<close>: what it makes of the memory it is given.\<close>

definition empty_buffer :: "IPCBufferCDT \<Rightarrow> IPCBufferCDT" where
  "empty_buffer b = (clearBuffer b)\<lparr>ib_references := replicate PD_SIZE NULL, oppositeEnd := NULL\<rparr>"

section \<open>Contents\<close>

definition contents :: "IPCBufferCDT \<Rightarrow> u8 list" where
  "contents b = map (\<lambda>i. ib_buffer b ! ((unat (cursor b) + i) mod BUFF_SIZE)) [0..<unat (bufferDim b)]"

definition buf_ok :: "IPCBufferCDT \<Rightarrow> bool" where
  "buf_ok b \<longleftrightarrow> length (ib_buffer b) = BUFF_SIZE \<and> length (ib_references b) = PD_SIZE \<and>
     unat (bufferDim b) \<le> BUFF_SIZE"

text \<open>How many bytes can still be put before the write index leaves the array.\<close>

definition headroom :: "IPCBufferCDT \<Rightarrow> nat" where
  "headroom b = BUFF_SIZE - 1 - (unat (cursor b) + unat (bufferDim b))"

definition unwrapped :: "IPCBufferCDT \<Rightarrow> bool" where
  "unwrapped b \<longleftrightarrow> buf_ok b \<and> unat (cursor b) + unat (bufferDim b) \<le> BUFF_SIZE - 1"

lemma contents_length [simp]: "length (contents b) = unat (bufferDim b)"
  by (simp add: contents_def)

lemma unat16_plus1: "unat (x::u16) < 65535 \<Longrightarrow> unat (x + 1) = unat x + 1"
  by (simp add: unat_plus_fits)

lemma unat16_minus1: "(x::u16) \<noteq> 0 \<Longrightarrow> unat (x - 1) = unat x - 1"
  by (rule unat_minus_one)

text \<open>Taking a byte out: the cursor may wrap around, which the reduction by the size absorbs.\<close>

lemma advance_contents:
  assumes "bufferDim b \<noteq> 0"
  shows "contents b = head_byte b # contents (advance b)"
proof -
  have d: "unat (bufferDim b) = Suc (unat (bufferDim b - 1))"
    using unat16_minus1 [OF assms] assms by (simp add: unat_gt_0 unat_eq_0)
  have "(unat (cursor b + 1) + i) mod BUFF_SIZE = (unat (cursor b) + Suc i) mod BUFF_SIZE" for i
  proof -
    have "unat (cursor b + 1) mod 1024 = (unat (cursor b) + 1) mod 1024"
      by (simp add: unat_word_ariths mod_mod_cancel)
    then show ?thesis by (metis BUFF_SIZE_def add.assoc mod_add_left_eq plus_1_eq_Suc)
  qed
  then show ?thesis
    unfolding contents_def d upt_conv_Cons [OF zero_less_Suc]
    by (simp add: head_byte_def advance_def map_Suc_upt [symmetric] del: upt_Suc)
qed

lemma advance_ok: "buf_ok b \<Longrightarrow> bufferDim b \<noteq> 0 \<Longrightarrow> buf_ok (advance b)"
  using unat16_minus1 [of "bufferDim b"] by (auto simp: buf_ok_def advance_def)

lemma advance_unwrapped:
  assumes "unwrapped b" "bufferDim b \<noteq> 0"
  shows "unwrapped (advance b)" and "headroom (advance b) = headroom b"
proof -
  have "unat (bufferDim b - 1) = unat (bufferDim b) - 1" "0 < unat (bufferDim b)"
    using unat16_minus1 [OF assms(2)] assms(2) by (simp_all add: unat_gt_0)
  moreover have "unat (cursor b + 1) = unat (cursor b) + 1"
    using assms(1) by (intro unat16_plus1) (simp add: unwrapped_def BUFF_SIZE_def)
  ultimately show "unwrapped (advance b)" "headroom (advance b) = headroom b"
    using assms advance_ok by (auto simp: unwrapped_def headroom_def advance_def)
qed

text \<open>Putting a byte in, at the index the code computes, while that index is inside the array.\<close>

definition put_byte :: "u8 \<Rightarrow> IPCBufferCDT \<Rightarrow> IPCBufferCDT" where
  "put_byte c b = b\<lparr>ib_buffer := (ib_buffer b)[unat (cursor b) + unat (bufferDim b) mod BUFF_SIZE := c],
                    bufferDim := bufferDim b + 1\<rparr>"

lemma put_byte_ok:
  assumes "unwrapped b" "0 < headroom b"
  shows "unwrapped (put_byte c b)" and "headroom (put_byte c b) = headroom b - 1"
    and "contents (put_byte c b) = contents b @ [c]"
    and "unat (bufferDim b) < BUFF_SIZE" and "unat (cursor b) + unat (bufferDim b) mod BUFF_SIZE < BUFF_SIZE"
proof -
  have lt: "unat (cursor b) + unat (bufferDim b) < 1023" and len: "length (ib_buffer b) = 1024"
    using assms by (auto simp: headroom_def unwrapped_def buf_ok_def BUFF_SIZE_def)
  have m: "unat (bufferDim b) mod BUFF_SIZE = unat (bufferDim b)" using lt by (simp add: BUFF_SIZE_def)
  have d1: "unat (bufferDim b + 1) = Suc (unat (bufferDim b))"
    using lt by (simp add: unat16_plus1)
  show "unwrapped (put_byte c b)" "headroom (put_byte c b) = headroom b - 1"
    using assms lt d1 m by (auto simp: unwrapped_def buf_ok_def headroom_def put_byte_def BUFF_SIZE_def)
  show "contents (put_byte c b) = contents b @ [c]"
    unfolding contents_def put_byte_def using lt len d1 m
    by (auto simp: BUFF_SIZE_def intro!: nth_equalityI)
  show "unat (bufferDim b) < BUFF_SIZE" "unat (cursor b) + unat (bufferDim b) mod BUFF_SIZE < BUFF_SIZE"
    using lt m by (auto simp: BUFF_SIZE_def)
qed

lemma bytes_at_Suc: "bytes_at m p (Suc n) = m p # bytes_at m (p + 1) n"
  by (simp add: bytes_at_def upt_conv_Cons map_Suc_upt [symmetric] add.assoc del: upt_Suc)

text \<open>Everything but the contents, cursor and fill count of a buffer.\<close>

definition same_ends :: "IPCBufferCDT \<Rightarrow> IPCBufferCDT \<Rightarrow> bool" where
  "same_ends b b' \<longleftrightarrow> buffId b' = buffId b \<and> bufState b' = bufState b \<and>
     oppositeEnd b' = oppositeEnd b \<and> ib_references b' = ib_references b"

lemma same_ends_refl [simp]: "same_ends b b"
  by (simp add: same_ends_def)

lemma fill_loop_ok:
  assumes "unwrapped b" "n \<le> headroom b"
  shows "\<exists>b'. fill_loop m src k n b = Some (k + n, b') \<and> unwrapped b' \<and> headroom b' = headroom b - n \<and>
    contents b' = contents b @ bytes_at m (src + of_nat k) n \<and> cursor b' = cursor b \<and> same_ends b b'"
  using assms
proof (induction n arbitrary: k b)
  case 0
  then show ?case by (simp add: bytes_at_def)
next
  case (Suc n)
  let ?b = "put_byte (m (src + of_nat k)) b"
  have h: "0 < headroom b" using Suc.prems(2) by simp
  note pb = put_byte_ok(1-3) [OF Suc.prems(1) h, of "m (src + of_nat k)"] put_byte_ok(4,5) [OF Suc.prems(1) h]
  have run: "fill_loop m src k (Suc n) b = fill_loop m src (Suc k) n ?b"
    using pb(4,5) by (simp add: put_byte_def)
  have "n \<le> headroom ?b" using pb(2) Suc.prems(2) by simp
  then obtain b' where "fill_loop m src (Suc k) n ?b = Some (Suc k + n, b')" "unwrapped b'"
    "headroom b' = headroom ?b - n" "contents b' = contents ?b @ bytes_at m (src + of_nat (Suc k)) n"
    "cursor b' = cursor ?b" "same_ends ?b b'"
    using Suc.IH [OF pb(1)] by blast
  then show ?case
    using run pb(2,3) by (simp add: bytes_at_Suc put_byte_def same_ends_def algebra_simps)
qed

text \<open>The drain takes the oldest bytes, in order, as many as there are and are asked for.\<close>

lemma drain_loop_ok:
  assumes "unwrapped b" "drain_loop dst k n m b = (k', m', b')" "k + n \<le> 2 ^ 64"
  shows "unwrapped b' \<and> headroom b' = headroom b \<and> same_ends b b' \<and>
    k' = k + min n (length (contents b)) \<and>
    contents b = map (\<lambda>i. m' (dst + of_nat i)) [k..<k'] @ contents b' \<and>
    (\<forall>i<k. m' (dst + of_nat i) = m (dst + of_nat i))"
  using assms
proof (induction n arbitrary: k m b)
  case 0
  then show ?case by simp
next
  case (Suc n)
  show ?case
  proof (cases "bufferDim b = 0")
    case True
    then have "contents b = []" by (simp add: contents_def)
    then show ?thesis using True Suc.prems by simp
  next
    case False
    let ?m = "m(dst + of_nat k := head_byte b)"
    have run: "drain_loop dst (Suc k) n ?m (advance b) = (k', m', b')" using Suc.prems(2) False by simp
    note av = advance_unwrapped [OF Suc.prems(1) False]
    have "Suc k + n \<le> 2 ^ 64" using Suc.prems(3) by simp
    from Suc.IH [OF av(1) run this, unfolded av(2)] have ih: "unwrapped b'" "headroom b' = headroom b" "same_ends (advance b) b'"
      "k' = Suc k + min n (length (contents (advance b)))"
      "contents (advance b) = map (\<lambda>i. m' (dst + of_nat i)) [Suc k..<k'] @ contents b'"
      "\<forall>i<Suc k. m' (dst + of_nat i) = ?m (dst + of_nat i)"
      by blast+
    have c: "contents b = head_byte b # contents (advance b)" using False by (rule advance_contents)
    have "m' (dst + of_nat k) = head_byte b" using ih(6) by simp
    moreover have "m' (dst + of_nat i) = m (dst + of_nat i)" if "i < k" for i
    proof -
      have "(of_nat i :: u64) \<noteq> of_nat k" using that Suc.prems(3) by (subst of_nat_u64_inj) auto
      then show ?thesis using ih(6) that by (simp add: less_SucI)
    qed
    moreover have "[k..<k'] = k # [Suc k..<k']" by (rule upt_conv_Cons) (simp add: ih(4))
    moreover have "length (contents b) = Suc (length (contents (advance b)))" using c by (simp only: list.size)
    ultimately show ?thesis using ih c by (auto simp: same_ends_def advance_def simp del: contents_length)
  qed
qed

text \<open>\<^verbatim>\<open>readBuffer\<close> takes the bytes in front of the first zero byte.\<close>

definition text_of :: "nat \<Rightarrow> IPCBufferCDT \<Rightarrow> u8 list" where
  "text_of n b = take n (takeWhile (\<lambda>c. c \<noteq> 0) (contents b))"

lemma read_loop_ok:
  assumes "read_loop dim0 dst k n m b = (k', m', b')" "k + n \<le> 2 ^ 64" "buf_ok b"
  shows "buf_ok b' \<and> same_ends b b' \<and> k' = k + length (text_of n b) \<and>
    text_of n b = map (\<lambda>i. m' (dst + of_nat i)) [k..<k'] \<and>
    (\<forall>i<k. m' (dst + of_nat i) = m (dst + of_nat i)) \<and>
    (let rest = drop (length (text_of n b)) (contents b)
     in contents b' = (if length (text_of n b) < n \<and> rest \<noteq> [] \<and> dim0 = 1 then tl rest else rest))"
  using assms
proof (induction n arbitrary: k m b)
  case 0
  then show ?case by (simp add: text_of_def)
next
  case (Suc n)
  show ?case
  proof (cases "bufferDim b = 0")
    case True
    then have "contents b = []" by (simp add: contents_def)
    then show ?thesis using True Suc.prems by (simp add: text_of_def)
  next
    case False
    have c: "contents b = head_byte b # contents (advance b)" using False by (rule advance_contents)
    have ok: "buf_ok (advance b)" using Suc.prems(3) False by (rule advance_ok)
    show ?thesis
    proof (cases "head_byte b = 0")
      case True
      then have "text_of (Suc n) b = []" using c by (simp add: text_of_def)
      then show ?thesis using True False Suc.prems c ok by (auto simp: same_ends_def advance_def)
    next
      case hb: False
      let ?m = "m(dst + of_nat k := head_byte b)"
      have run: "read_loop dim0 dst (Suc k) n ?m (advance b) = (k', m', b')" using Suc.prems(1) False hb by simp
      have t: "text_of (Suc n) b = head_byte b # text_of n (advance b)" using c hb by (simp add: text_of_def)
      have "Suc k + n \<le> 2 ^ 64" using Suc.prems(2) by simp
      from Suc.IH [OF run this ok] have ih: "buf_ok b'" "same_ends (advance b) b'"
        "k' = Suc k + length (text_of n (advance b))"
        "text_of n (advance b) = map (\<lambda>i. m' (dst + of_nat i)) [Suc k..<k']"
        "\<forall>i<Suc k. m' (dst + of_nat i) = ?m (dst + of_nat i)"
        "let rest = drop (length (text_of n (advance b))) (contents (advance b))
         in contents b' = (if length (text_of n (advance b)) < n \<and> rest \<noteq> [] \<and> dim0 = 1 then tl rest else rest)"
        by blast+
      have hk: "m' (dst + of_nat k) = head_byte b" using ih(5) by simp
      have kp: "m' (dst + of_nat i) = m (dst + of_nat i)" if "i < k" for i
      proof -
        have "(of_nat i :: u64) \<noteq> of_nat k" using that Suc.prems(2) by (subst of_nat_u64_inj) auto
        then show ?thesis using ih(5) that by (simp add: less_SucI)
      qed
      have up: "[k..<k'] = k # [Suc k..<k']" by (rule upt_conv_Cons) (simp add: ih(3))
      have dr: "drop (length (text_of (Suc n) b)) (contents b) =
          drop (length (text_of n (advance b))) (contents (advance b))" unfolding t c by simp
      have ln: "length (text_of (Suc n) b) < Suc n \<longleftrightarrow> length (text_of n (advance b)) < n" unfolding t by simp
      have se: "same_ends b b'" using ih(2) by (simp add: same_ends_def advance_def)
      have kl: "k' = k + length (text_of (Suc n) b)" using ih(3) unfolding t by simp
      have tx: "text_of (Suc n) b = map (\<lambda>i. m' (dst + of_nat i)) [k..<k']"
        unfolding t up using ih(4) hk by simp
      show ?thesis using ih(1,6) se kl tx kp unfolding dr ln by blast
    qed
  qed
qed

section \<open>The buffer as a byte queue\<close>

text \<open>
  What a user of a byte queue relies on: bytes put are appended while there is room, and bytes
  taken come from the front.
\<close>

locale byte_queue =
  fixes inv :: "'s \<Rightarrow> bool"
    and queued :: "'s \<Rightarrow> u8 list"
    and room :: "'s \<Rightarrow> nat"
    and payload :: "'w \<Rightarrow> u8 list"
    and put :: "'w \<Rightarrow> 's \<Rightarrow> 's option"
    and get :: "'r \<Rightarrow> 's \<Rightarrow> u8 list \<times> 's"
  assumes put_ok: "inv s \<Longrightarrow> length (payload w) \<le> room s \<Longrightarrow>
      \<exists>s'. put w s = Some s' \<and> inv s' \<and> queued s' = queued s @ payload w \<and> room s' = room s - length (payload w)"
    and get_ok: "inv s \<Longrightarrow> get r s = (ys, s') \<Longrightarrow> inv s' \<and> queued s = ys @ queued s' \<and> room s' = room s"
begin

text \<open>Histories of puts and gets; the bytes got so far are collected.\<close>

fun history :: "('w + 'r) list \<Rightarrow> u8 list \<Rightarrow> 's \<Rightarrow> (u8 list \<times> 's) option" where
  "history [] got s = Some (got, s)"
| "history (Inl w # ops) got s = do { s1 \<leftarrow> put w s; history ops got s1 }"
| "history (Inr r # ops) got s = (let (ys, s1) = get r s in history ops (got @ ys) s1)"

definition sent :: "('w + 'r) list \<Rightarrow> u8 list" where
  "sent ops = concat (map (\<lambda>x. case x of Inl w \<Rightarrow> payload w | Inr r \<Rightarrow> []) ops)"

lemma sent_simps [simp]:
  "sent [] = []" "sent (Inl w # ops) = payload w @ sent ops" "sent (Inr r # ops) = sent ops"
  by (simp_all add: sent_def)

lemma history_fifo:
  "inv s \<Longrightarrow> length (sent ops) \<le> room s \<Longrightarrow>
     \<exists>ys s'. history ops got s = Some (got @ ys, s') \<and> inv s' \<and> queued s @ sent ops = ys @ queued s' \<and>
       room s' = room s - length (sent ops)"
proof (induction ops arbitrary: got s)
  case Nil
  then show ?case by simp
next
  case (Cons x ops)
  show ?case
  proof (cases x)
    case (Inl w)
    then obtain s1 where p: "put w s = Some s1" "inv s1" "queued s1 = queued s @ payload w"
      "room s1 = room s - length (payload w)"
      using put_ok [OF Cons.prems(1), of w] Cons.prems(2) by auto
    have "length (sent ops) \<le> room s1" using p(4) Cons.prems(2) Inl by simp
    from Cons.IH [OF p(2) this, of got] p Inl show ?thesis by auto
  next
    case (Inr r)
    obtain ys s1 where g: "get r s = (ys, s1)" by fastforce
    note gk = get_ok [OF Cons.prems(1) g]
    have "length (sent ops) \<le> room s1" using gk Cons.prems(2) Inr by simp
    then obtain zs s' where "history ops (got @ ys) s1 = Some ((got @ ys) @ zs, s')" "inv s'"
      "queued s1 @ sent ops = zs @ queued s'" "room s' = room s1 - length (sent ops)"
      using Cons.IH gk by blast
    then show ?thesis using g gk Inr by (intro exI [of _ "ys @ zs"] exI [of _ s']) simp
  qed
qed

end

text \<open>The operations on a buffer that is there, in the shape of the interface.\<close>

definition to_request :: "bytes \<times> ptr \<times> u64 \<Rightarrow> u8 list" where
  "to_request w = (case w of (m, p, n) \<Rightarrow> if p = NULL then [] else bytes_at m p (unat n))"

definition buffer_put :: "bytes \<times> ptr \<times> u64 \<Rightarrow> IPCBufferCDT \<Rightarrow> IPCBufferCDT option" where
  "buffer_put w b = (case w of (m, p, n) \<Rightarrow> do { (k, b1) \<leftarrow> copyToBuffer m (Some b) p n; b1 })"

definition buffer_get :: "bytes \<times> ptr \<times> u64 \<Rightarrow> IPCBufferCDT \<Rightarrow> u8 list \<times> IPCBufferCDT" where
  "buffer_get r b = (case r of (m, p, n) \<Rightarrow>
     (case copyFromBuffer p (Some b) n m of (k, m1, b1) \<Rightarrow> (bytes_at m1 p (unat k), the b1)))"

lemma copyToBuffer_ok:
  assumes "unwrapped b" "unat n \<le> headroom b" "p \<noteq> NULL"
  shows "\<exists>b'. copyToBuffer m (Some b) p n = Some (n, Some b') \<and> unwrapped b' \<and>
    contents b' = contents b @ bytes_at m p (unat n) \<and> headroom b' = headroom b - unat n \<and> same_ends b b'"
proof (cases "n = 0")
  case True
  then show ?thesis using assms by (simp add: copyToBuffer_def bytes_at_def)
next
  case False
  then have "0 < headroom b" using assms(2) by (metis gr0I le_zero_eq unat_eq_0)
  then have "unat (bufferDim b) < BUFF_SIZE - 1" by (simp add: headroom_def)
  then show ?thesis
    using fill_loop_ok [OF assms(1,2), of m p 0] assms(3) False
    by (auto simp: copyToBuffer_def word_neq_0_conv)
qed

lemma copyFromBuffer_ok:
  assumes "unwrapped b" "p \<noteq> NULL"
  shows "\<exists>k m' b'. copyFromBuffer p (Some b) n m = (k, m', Some b') \<and> unwrapped b' \<and> same_ends b b' \<and>
    headroom b' = headroom b \<and> unat k = min (unat n) (length (contents b)) \<and>
    contents b = bytes_at m' p (unat k) @ contents b'"
proof (cases "n = 0 \<or> bufferDim b = 0")
  case True
  then show ?thesis using assms by (auto simp: copyFromBuffer_def bytes_at_def)
next
  case False
  obtain k m' b' where run: "drain_loop p 0 (unat n) m b = (k, m', b')" by (cases "drain_loop p 0 (unat n) m b") auto
  have "0 + unat n \<le> 2 ^ 64" using unat_less_64 [of n] by simp
  note d = drain_loop_ok [OF assms(1) run this]
  have "k \<le> unat n" using d by simp
  then have u: "unat (of_nat k :: u64) = k" using unat_less_64 [of n] by (intro unat_of_nat64) simp
  have k0: "k = 0 + min (unat n) (length (contents b))" using d by blast
  show ?thesis
  proof (intro exI conjI)
    show "copyFromBuffer p (Some b) n m = (of_nat k, m', Some b')"
      using run False assms(2) by (simp add: copyFromBuffer_def word_neq_0_conv)
    show "unwrapped b'" "same_ends b b'" "headroom b' = headroom b" using d by blast+
    show "unat (of_nat k :: u64) = min (unat n) (length (contents b))" unfolding u using k0 by (simp only: add_0)
    show "contents b = bytes_at m' p (unat (of_nat k :: u64)) @ contents b'"
      unfolding u bytes_at_def using d by blast
  qed
qed

interpretation ipc: byte_queue unwrapped contents headroom to_request buffer_put buffer_get
proof unfold_locales
  fix b :: IPCBufferCDT and w :: "bytes \<times> ptr \<times> u64"
  assume b: "unwrapped b" and l: "length (to_request w) \<le> headroom b"
  obtain m p n where w: "w = (m, p, n)" by (cases w)
  show "\<exists>s'. buffer_put w b = Some s' \<and> unwrapped s' \<and> contents s' = contents b @ to_request w \<and>
      headroom s' = headroom b - length (to_request w)"
  proof (cases "p = NULL")
    case True
    then show ?thesis using b w by (simp add: buffer_put_def to_request_def copyToBuffer_def)
  next
    case False
    then show ?thesis using copyToBuffer_ok [OF b _ False, of n m] l w
      by (auto simp: buffer_put_def to_request_def)
  qed
next
  fix b :: IPCBufferCDT and r :: "bytes \<times> ptr \<times> u64" and ys b'
  assume b: "unwrapped b" and g: "buffer_get r b = (ys, b')"
  obtain m p n where r: "r = (m, p, n)" by (cases r)
  show "unwrapped b' \<and> contents b = ys @ contents b' \<and> headroom b' = headroom b"
  proof (cases "p = NULL")
    case True
    then show ?thesis using b g r by (auto simp: buffer_get_def copyFromBuffer_def bytes_at_def)
  next
    case False
    then show ?thesis using copyFromBuffer_ok [OF b False, of n m] g r by (auto simp: buffer_get_def)
  qed
qed

section \<open>Properties\<close>

lemma clearBuffer_fresh [simp]:
  "length (ib_references b) = PD_SIZE \<Longrightarrow> unwrapped (clearBuffer b)"
  "contents (clearBuffer b) = []" "headroom (clearBuffer b) = 1023"
  by (simp_all add: unwrapped_def buf_ok_def clearBuffer_def contents_def headroom_def BUFF_SIZE_def)

text \<open> (C7)
  First in, first out: on a cleared buffer, any history of \<^verbatim>\<open>copyToBuffer\<close> and
  \<^verbatim>\<open>copyFromBuffer\<close> calls that sends at most 1023 bytes in all runs without leaving the
  array, and the bytes received followed by the bytes still queued are exactly the bytes sent.
\<close>

theorem ipc_fifo:
  assumes "length (ib_references b) = PD_SIZE" and "length (ipc.sent ops) \<le> 1023"
  shows "\<exists>got b'. ipc.history ops [] (clearBuffer b) = Some (got, b') \<and>
    ipc.sent ops = got @ contents b' \<and> unwrapped b'"
  using ipc.history_fifo [of "clearBuffer b" ops "[]"] assms by auto

definition demo_buffer :: IPCBufferCDT where
  "demo_buffer = \<lparr>ib_buffer = replicate BUFF_SIZE 0, bufferDim = 0, cursor = 0, buffId = PIPE,
     bufState = READ_WRITE, oppositeEnd = NULL, ib_references = replicate PD_SIZE NULL\<rparr>"

lemma ipc_fifo_witness:
  "\<exists>got b'. ipc.history [Inl (\<lambda>a. ucast a, 7, 3), Inr (\<lambda>_. 0, 0x900, 2), Inl (\<lambda>a. ucast a, 1, 1)] []
      (clearBuffer demo_buffer) = Some (got, b') \<and> [7, 8, 9, 1] = got @ contents b' \<and> unwrapped b'"
proof -
  have s: "ipc.sent [Inl (\<lambda>a. ucast a, 7, 3), Inr (\<lambda>_. 0, 0x900, 2), Inl (\<lambda>a. ucast a, 1, 1)] = [7, 8, 9, 1]"
    by (simp add: to_request_def bytes_at_def upt_rec)
  show ?thesis
    using ipc_fifo [of demo_buffer "[Inl (\<lambda>a. ucast a, 7, 3), Inr (\<lambda>_. 0, 0x900, 2), Inl (\<lambda>a. ucast a, 1, 1)]"]
    unfolding s by (simp add: demo_buffer_def)
qed

lemma writeBuffer_ok:
  assumes "unwrapped b" "unat n \<le> headroom b" "p \<noteq> NULL" "bufState b = WRITE \<or> bufState b = READ_WRITE"
  shows "\<exists>b'. writeBuffer m (Some b) p n = Some (n, Some b') \<and> unwrapped b' \<and>
    contents b' = contents b @ bytes_at m p (unat n) \<and> headroom b' = headroom b - unat n \<and> same_ends b b'"
proof -
  have "writeBuffer m (Some b) p n = copyToBuffer m (Some b) p n"
    using assms(4) by (simp add: writeBuffer_def copyToBuffer_def)
  then show ?thesis using copyToBuffer_ok [OF assms(1-3)] by simp
qed

lemma readBuffer_ok:
  assumes "buf_ok b" "bufState b = READ \<or> bufState b = READ_WRITE" "p \<noteq> NULL" "0 < n" "0 < bufferDim b"
  shows "\<exists>m' b'. readBuffer (Some b) p n m = (of_nat (length (text_of (unat n) b)), m', Some b') \<and>
    bytes_at m' p (length (text_of (unat n) b)) = text_of (unat n) b \<and> buf_ok b' \<and> same_ends b b' \<and>
    (let rest = drop (length (text_of (unat n) b)) (contents b)
     in contents b' = (if length (text_of (unat n) b) < unat n \<and> rest \<noteq> [] \<and> bufferDim b = 1 then tl rest else rest))"
proof -
  obtain k m' b' where run: "read_loop (bufferDim b) p 0 (unat n) m b = (k, m', b')"
    by (cases "read_loop (bufferDim b) p 0 (unat n) m b") auto
  have "0 + unat n \<le> 2 ^ 64" using unat_less_64 [of n] by simp
  note r = read_loop_ok [OF run this assms(1)]
  have "k = 0 + length (text_of (unat n) b)" using r by blast
  then have k: "k = length (text_of (unat n) b)" by (simp only: add_0)
  show ?thesis
  proof (intro exI conjI)
    show "readBuffer (Some b) p n m = (of_nat (length (text_of (unat n) b)), m', Some b')"
      using assms run by (simp add: readBuffer_def k)
    show "bytes_at m' p (length (text_of (unat n) b)) = text_of (unat n) b"
      unfolding bytes_at_def k [symmetric] using r by metis
  qed (use r in blast)+
qed

text \<open> (C32)
  Reading an open buffer delivers the bytes in front of the first zero byte, at most as many as
  asked for, to the caller's memory in order; the rest stays queued, except that a zero byte
  (end of file) that is alone in the buffer is dropped.
\<close>

theorem readBuffer_takes_text:
  assumes "buf_ok b" "bufState b = READ \<or> bufState b = READ_WRITE" "p \<noteq> NULL" "0 < n" "0 < bufferDim b"
  shows "\<exists>m' b'. readBuffer (Some b) p n m = (of_nat (length (text_of (unat n) b)), m', Some b') \<and>
    bytes_at m' p (length (text_of (unat n) b)) = text_of (unat n) b \<and> buf_ok b' \<and> same_ends b b' \<and>
    (let rest = drop (length (text_of (unat n) b)) (contents b)
     in contents b' = (if length (text_of (unat n) b) < unat n \<and> rest \<noteq> [] \<and> bufferDim b = 1 then tl rest else rest))"
  using assms by (rule readBuffer_ok)

lemma readBuffer_takes_text_witness:
  "\<exists>m' b'. readBuffer (Some (demo_buffer\<lparr>bufferDim := 1\<rparr>)) 0x900 5 (\<lambda>_. 0) = (0, m', Some b') \<and> contents b' = []"
proof -
  have c: "contents (demo_buffer\<lparr>bufferDim := 1\<rparr>) = [0]"
    by (simp add: contents_def demo_buffer_def BUFF_SIZE_def)
  then have "text_of 5 (demo_buffer\<lparr>bufferDim := 1\<rparr>) = []" by (simp add: text_of_def)
  then show ?thesis
    using readBuffer_takes_text [of "demo_buffer\<lparr>bufferDim := 1\<rparr>" "0x900" 5 "\<lambda>_. 0"] c
    by (auto simp: demo_buffer_def buf_ok_def BUFF_SIZE_def PD_SIZE_def)
qed

text \<open>
  An end-of-file byte in front of other bytes is never passed: reading returns 0 and leaves the
  buffer and the caller's memory as they are, so every later read does the same.
\<close>

theorem readBuffer_stuck_at_eof:
  assumes "contents b = 0 # x # xs"
  shows "readBuffer (Some b) p n m = (0, m, Some b)"
proof -
  have nz: "bufferDim b \<noteq> 0" using assms by (auto simp: contents_def)
  have "length (contents b) = Suc (Suc (length xs))" unfolding assms by simp
  then have d1: "bufferDim b \<noteq> 1" by (auto simp: unat_eq_0)
  have "head_byte b = 0" using advance_contents [OF nz] assms by simp
  then have "read_loop (bufferDim b) p 0 k m b = (0, m, b)" for k
    using nz d1 by (cases k) simp_all
  then show ?thesis by (simp add: readBuffer_def)
qed

lemma readBuffer_stuck_at_eof_witness:
  "readBuffer (Some (demo_buffer\<lparr>bufferDim := 2\<rparr>)) 0x900 5 (\<lambda>_. 0) = (0, \<lambda>_. 0, Some (demo_buffer\<lparr>bufferDim := 2\<rparr>))"
proof -
  have "contents (demo_buffer\<lparr>bufferDim := 2\<rparr>) = [0, 0]"
    by (simp add: contents_def demo_buffer_def BUFF_SIZE_def upt_rec)
  then show ?thesis by (rule readBuffer_stuck_at_eof)
qed

text \<open>
  The write index does not wrap around: once the cursor and the fill count add up to the size
  of the array, writing one more byte is an access outside it, although there is room.
\<close>

theorem writeBuffer_overruns:
  assumes "bufState b = WRITE \<or> bufState b = READ_WRITE" "p \<noteq> NULL" "0 < n"
    and "unat (bufferDim b) < BUFF_SIZE - 1" "BUFF_SIZE \<le> unat (cursor b) + unat (bufferDim b)"
  shows "writeBuffer m (Some b) p n = None"
proof -
  obtain k where "unat n = Suc k" using assms(3) by (metis gr0_implies_Suc unat_gt_0 word_neq_0_conv)
  moreover have "unat (bufferDim b) mod BUFF_SIZE = unat (bufferDim b)"
    using assms(4) by (simp add: BUFF_SIZE_def)
  ultimately show ?thesis using assms by (simp add: writeBuffer_def)
qed

lemma writeBuffer_overruns_witness:
  "writeBuffer (\<lambda>_. 65) (Some (demo_buffer\<lparr>cursor := 1000, bufferDim := 24\<rparr>)) 0x900 1 = None"
  by (rule writeBuffer_overruns) (simp_all add: demo_buffer_def BUFF_SIZE_def)

end
