(* ===== verification/KState.thy ===== *)
theory KState
  imports FreeListRuns IPCBuffer
begin

text \<open>
  The state the kernel's modules share, and the small operations of \<^verbatim>\<open>scheduler.c\<close> that the IPC
  code calls back.  Structures live in typed heaps, one for each type; a process control block
  and the queue node around it have one address here.  Address 0 is mapped memory on this
  machine (the boot loader identity-maps low memory), so reading through a null pointer yields
  what the null cell holds and is not an error by itself.  A loop that does not return, a
  division by zero and an index outside an array have no result.
\<close>

section \<open>Data\<close>

datatype ProcessState = READY | RUNNING | BLOCKED | YIELDED | EXITED

text \<open>\<^verbatim>\<open>PCBNodeCDT\<close> with the fields of its \<^verbatim>\<open>ProcessControlBlockCDT\<close>.\<close>

record PCBNodeCDT =
  p_next :: ptr
  p_id :: u32
  p_foreground :: bool
  p_state :: ProcessState
  p_manualBlocked :: bool
  p_priority :: u8
  p_quantums :: int
  p_agingInterval :: u64
  p_counterInit :: u64
  p_parentId :: u32
  p_childsIds :: "u32 list"
  p_stack :: ptr
  p_baseStack :: ptr
  p_stackSize :: u64
  p_memoryFromMM :: ptr
  p_firstAlloc :: ptr
  p_pdTable :: "ptr list"

record ProcessAllocations =
  pa_allocation :: ptr
  pa_next :: ptr

record Timer =
  t_next :: ptr
  t_endInterval :: u64
  t_sleepingProcess :: ptr
  t_pid :: u32

text \<open>
  The globals.  \<open>qhead i\<close> is \<^verbatim>\<open>multipleQueues[i]->head\<close>: the ready levels 0 to 5 and, at 6, the
  blocked list.  The time stamp counter is an input: \<open>tsc k\<close> is the value of its \<open>k\<close>-th
  reading, \<open>tscReads\<close> how many were made.
\<close>

record kernel =
  nodes :: "ptr \<Rightarrow> PCBNodeCDT"
  allocs :: "ptr \<Rightarrow> ProcessAllocations"
  bufs :: "ptr \<Rightarrow> IPCBufferCDT"
  timers :: "ptr \<Rightarrow> Timer"
  qhead :: "nat \<Rightarrow> ptr"
  k_current :: ptr
  k_idle :: ptr
  k_foreground :: ptr
  timerList :: ptr
  stdinAt :: ptr
  stdoutAt :: ptr
  stderrAt :: ptr
  TSCFrequency :: u64
  tsc :: "nat \<Rightarrow> u64"
  tscReads :: nat
  mm :: mm_globals
  mem :: bytes

definition IDLE_ID :: u32 where "IDLE_ID = 2"
definition INIT_ID :: u32 where "INIT_ID = 1"

section \<open>Access\<close>

definition nxt :: "kernel \<Rightarrow> ptr \<Rightarrow> ptr" where "nxt s a = p_next (nodes s a)"

definition upd_node :: "ptr \<Rightarrow> (PCBNodeCDT \<Rightarrow> PCBNodeCDT) \<Rightarrow> kernel \<Rightarrow> kernel" where
  "upd_node a f s = s\<lparr>nodes := (nodes s)(a := f (nodes s a))\<rparr>"

definition upd_buf :: "ptr \<Rightarrow> (IPCBufferCDT \<Rightarrow> IPCBufferCDT) \<Rightarrow> kernel \<Rightarrow> kernel" where
  "upd_buf a f s = s\<lparr>bufs := (bufs s)(a := f (bufs s a))\<rparr>"

definition upd_timer :: "ptr \<Rightarrow> (Timer \<Rightarrow> Timer) \<Rightarrow> kernel \<Rightarrow> kernel" where
  "upd_timer a f s = s\<lparr>timers := (timers s)(a := f (timers s a))\<rparr>"

definition upd_alloc :: "ptr \<Rightarrow> (ProcessAllocations \<Rightarrow> ProcessAllocations) \<Rightarrow> kernel \<Rightarrow> kernel" where
  "upd_alloc a f s = s\<lparr>allocs := (allocs s)(a := f (allocs s a))\<rparr>"

definition set_qhead :: "nat \<Rightarrow> ptr \<Rightarrow> kernel \<Rightarrow> kernel" where
  "set_qhead i p s = s\<lparr>qhead := (qhead s)(i := p)\<rparr>"

definition set_next :: "ptr \<Rightarrow> ptr \<Rightarrow> kernel \<Rightarrow> kernel" where
  "set_next a p = upd_node a (\<lambda>n. n\<lparr>p_next := p\<rparr>)"

definition set_state :: "ptr \<Rightarrow> ProcessState \<Rightarrow> kernel \<Rightarrow> kernel" where
  "set_state a st = upd_node a (\<lambda>n. n\<lparr>p_state := st\<rparr>)"

text \<open>The buffer behind a pointer that may be null, and writing back what became of it.\<close>

definition buf_arg :: "kernel \<Rightarrow> ptr \<Rightarrow> IPCBufferCDT option" where
  "buf_arg s a = (if a = NULL then None else Some (bufs s a))"

definition buf_result :: "ptr \<Rightarrow> IPCBufferCDT option \<Rightarrow> kernel \<Rightarrow> kernel" where
  "buf_result a b s = (case b of None \<Rightarrow> s | Some b1 \<Rightarrow> upd_buf a (\<lambda>_. b1) s)"

definition readTimeStampCounter :: "kernel \<Rightarrow> u64 \<times> kernel" where
  "readTimeStampCounter s = (tsc s (tscReads s), s\<lparr>tscReads := tscReads s + 1\<rparr>)"

text \<open>A reading divided by the frequency, which is zero when the processor does not report it.\<close>

definition over_frequency :: "kernel \<Rightarrow> u64 \<Rightarrow> u64 option" where
  "over_frequency s x = (if TSCFrequency s = 0 then None else Some (x div TSCFrequency s))"

section \<open>Looking processes up\<close>

text \<open>\<^verbatim>\<open>for(i = 0; i < 7; i++)\<close> over the queues, each walked to its end or to the first hit.\<close>

fun find_in :: "nat list \<Rightarrow> (ptr \<Rightarrow> bool) \<Rightarrow> kernel \<Rightarrow> ptr option" where
  "find_in [] P s = Some NULL"
| "find_in (i # is) P s = do {
     (prev, x) \<leftarrow> walk_find (nxt s) P NULL (qhead s i);
     if x \<noteq> NULL then Some x else find_in is P s
   }"

definition exists :: "u32 \<Rightarrow> kernel \<Rightarrow> bool option" where
  "exists pid s =
    (if p_id (nodes s (k_current s)) = pid \<or> p_id (nodes s (k_idle s)) = pid then Some True
     else do { x \<leftarrow> find_in [0..<7] (\<lambda>a. p_id (nodes s a) = pid) s; Some (x \<noteq> NULL) })"

definition getEntry :: "u32 \<Rightarrow> kernel \<Rightarrow> ptr option" where
  "getEntry pid s = do {
     e \<leftarrow> exists pid s;
     if \<not> e then Some NULL
     else if p_id (nodes s (k_current s)) = pid then Some (k_current s)
     else find_in [0..<7] (\<lambda>a. p_id (nodes s a) = pid) s
   }"

section \<open>Small operations on processes\<close>

definition getCurrentProcess :: "kernel \<Rightarrow> ptr" where "getCurrentProcess s = k_current s"
definition getCurrentProcessEntry :: "kernel \<Rightarrow> ptr" where "getCurrentProcessEntry s = k_current s"
definition getCurrentProcessPid :: "kernel \<Rightarrow> u32" where "getCurrentProcessPid s = p_id (nodes s (k_current s))"

text \<open>The standard buffers, by address.\<close>

definition getSTDIN :: "kernel \<Rightarrow> ptr" where "getSTDIN s = stdinAt s"
definition getSTDOUT :: "kernel \<Rightarrow> ptr" where "getSTDOUT s = stdoutAt s"
definition getSTDERR :: "kernel \<Rightarrow> ptr" where "getSTDERR s = stderrAt s"

text \<open>An index beyond the table reads outside the array.\<close>

definition getPDEntry :: "ptr \<Rightarrow> nat \<Rightarrow> kernel \<Rightarrow> ptr option" where
  "getPDEntry entry pd s = (if pd < PD_SIZE then Some (p_pdTable (nodes s entry) ! pd) else None)"

definition setProcessState :: "ptr \<Rightarrow> ProcessState \<Rightarrow> kernel \<Rightarrow> (bool \<times> kernel) option" where
  "setProcessState process st s = do {
     e \<leftarrow> exists (p_id (nodes s process)) s;
     if \<not> e \<or> (p_id (nodes s process) \<le> IDLE_ID \<and> st = EXITED) then Some (False, s)
     else Some (True, upd_node process (\<lambda>n. n\<lparr>p_state := st, p_manualBlocked := False\<rparr>) s)
   }"

definition setForegroundProcess :: "ptr \<Rightarrow> kernel \<Rightarrow> kernel" where
  "setForegroundProcess process s =
    (if p_foreground (nodes s process) then s\<lparr>k_foreground := process\<rparr> else s)"

definition setProcessToForeground :: "ptr \<Rightarrow> kernel \<Rightarrow> kernel" where
  "setProcessToForeground process s =
    (let s1 = upd_node process (\<lambda>n. n\<lparr>p_foreground := True\<rparr>) s
     in if k_foreground s1 = NULL then s1\<lparr>k_foreground := process\<rparr> else s1)"

definition setProcessToBackground :: "ptr \<Rightarrow> kernel \<Rightarrow> kernel" where
  "setProcessToBackground process s =
    (let s1 = upd_node process (\<lambda>n. n\<lparr>p_foreground := False\<rparr>) s
     in if k_foreground s1 \<noteq> NULL \<and> p_id (nodes s1 (k_foreground s1)) = p_id (nodes s1 process)
        then s1\<lparr>k_foreground := NULL\<rparr> else s1)"

definition getForegroundProcess :: "kernel \<Rightarrow> ptr" where "getForegroundProcess s = k_foreground s"

definition removeFromPDs :: "ptr \<Rightarrow> ptr \<Rightarrow> kernel \<Rightarrow> kernel" where
  "removeFromPDs process buffToRemove =
     upd_node process (\<lambda>n. n\<lparr>p_pdTable := map (\<lambda>b. if b = buffToRemove then NULL else b) (p_pdTable n)\<rparr>)"

definition sysBlock :: "ptr \<Rightarrow> kernel \<Rightarrow> kernel option" where
  "sysBlock process s = do {
     e \<leftarrow> exists (p_id (nodes s process)) s;
     if \<not> e \<or> p_id (nodes s process) \<le> IDLE_ID then Some s
     else Some (upd_node process (\<lambda>n. n\<lparr>p_state := BLOCKED, p_manualBlocked := True\<rparr>) s)
   }"

definition sysUnBlock :: "ptr \<Rightarrow> kernel \<Rightarrow> kernel option" where
  "sysUnBlock process s = do {
     e \<leftarrow> exists (p_id (nodes s process)) s;
     if \<not> e \<or> p_id (nodes s process) \<le> IDLE_ID then Some s
     else Some (upd_node process (\<lambda>n. n\<lparr>p_state := READY, p_manualBlocked := False\<rparr>) s)
   }"

definition getProcessId :: "ptr \<Rightarrow> kernel \<Rightarrow> u32" where "getProcessId p s = p_id (nodes s p)"
definition isInForeground :: "ptr \<Rightarrow> kernel \<Rightarrow> bool" where "isInForeground p s = p_foreground (nodes s p)"
definition isBlocked :: "ptr \<Rightarrow> kernel \<Rightarrow> bool" where "isBlocked p s \<longleftrightarrow> p_state (nodes s p) = BLOCKED"
definition isReady :: "ptr \<Rightarrow> kernel \<Rightarrow> bool" where "isReady p s \<longleftrightarrow> p_state (nodes s p) = READY"
definition isManualBlocked :: "ptr \<Rightarrow> kernel \<Rightarrow> bool" where "isManualBlocked p s = p_manualBlocked (nodes s p)"
definition getProcessState :: "ptr \<Rightarrow> kernel \<Rightarrow> ProcessState" where "getProcessState p s = p_state (nodes s p)"
definition getTSCFrequency :: "kernel \<Rightarrow> u64" where "getTSCFrequency s = TSCFrequency s"

definition dupPd :: "ptr \<Rightarrow> u64 \<Rightarrow> u64 \<Rightarrow> kernel \<Rightarrow> int \<times> kernel" where
  "dupPd process oldPd newPd s =
    (let od = unat oldPd; nd = unat newPd; t = p_pdTable (nodes s process) in
     if PD_SIZE \<le> od \<or> PD_SIZE \<le> nd \<or> t ! od \<noteq> NULL then (-1, s)
     else (0, upd_node process (\<lambda>n. n\<lparr>p_pdTable := (t[od := t ! nd])[nd := NULL]\<rparr>) s))"

definition setProcessPd :: "ptr \<Rightarrow> ptr \<Rightarrow> u64 \<Rightarrow> kernel \<Rightarrow> kernel" where
  "setProcessPd process buffer index s =
    (if process = NULL \<or> PD_SIZE \<le> unat index then s
     else upd_node process (\<lambda>n. n\<lparr>p_pdTable := (p_pdTable n)[unat index := buffer]\<rparr>) s)"

end
