(* ===== verification/Timers.thy ===== *)
theory Timers
  imports KState
begin

text \<open>
  Sleeping processes, \<^verbatim>\<open>Kernel/ipcRelated/timer.c\<close>: a linked list of timers, scanned on every
  scheduler tick.
\<close>

section \<open>Operations\<close>

definition tnxt :: "kernel \<Rightarrow> ptr \<Rightarrow> ptr" where "tnxt s a = t_next (timers s a)"

definition insertInList :: "ptr \<Rightarrow> kernel \<Rightarrow> kernel option" where
  "insertInList timer s =
    (if timerList s = NULL then Some (s\<lparr>timerList := timer\<rparr>)
     else do {
       prev \<leftarrow> walk_last (tnxt s) NULL (timerList s);
       Some (upd_timer prev (\<lambda>t. t\<lparr>t_next := timer\<rparr>) s)
     })"

text \<open>The timer unlinked is the first one with the same process id.\<close>

definition removeFromList :: "ptr \<Rightarrow> kernel \<Rightarrow> kernel option" where
  "removeFromList timer s =
    (if timer = NULL then Some s
     else do {
       (prev, cur) \<leftarrow> walk_find (tnxt s) (\<lambda>a. t_pid (timers s a) = t_pid (timers s timer)) NULL (timerList s);
       if cur = NULL then Some s
       else if prev \<noteq> NULL then Some (upd_timer prev (\<lambda>t. t\<lparr>t_next := tnxt s cur\<rparr>) s)
       else Some (s\<lparr>timerList := tnxt s cur\<rparr>)
     })"

definition k_freeTimer :: "ptr \<Rightarrow> kernel \<Rightarrow> kernel" where
  "k_freeTimer p s = s\<lparr>mm := freeTimer p (mm s)\<rparr>"

text \<open>One timer that is not removed: wake the process when the time has come.\<close>

definition wake :: "u64 \<Rightarrow> ptr \<Rightarrow> kernel \<Rightarrow> kernel option" where
  "wake currentMillis cur s =
    (let p = t_sleepingProcess (timers s cur) in
     if t_endInterval (timers s cur) \<le> currentMillis \<and> \<not> isManualBlocked p s
     then do { (_, s1) \<leftarrow> setProcessState p READY s; Some s1 }
     else Some s)"

partial_function (option) updateTimers_loop :: "u64 \<Rightarrow> ptr \<Rightarrow> kernel \<Rightarrow> kernel option" where
  "updateTimers_loop currentMillis cur s =
    (if cur = NULL then Some s
     else if getProcessState (t_sleepingProcess (timers s cur)) s = EXITED then do {
       s1 \<leftarrow> removeFromList cur s;
       updateTimers_loop currentMillis (tnxt s cur) (k_freeTimer cur s1)
     }
     else do {
       s1 \<leftarrow> wake currentMillis cur s;
       updateTimers_loop currentMillis (tnxt s1 cur) s1
     })"

definition updateTimers :: "u64 \<Rightarrow> kernel \<Rightarrow> kernel option" where
  "updateTimers currentMillis s = updateTimers_loop currentMillis (timerList s) s"

text \<open>
  \<^verbatim>\<open>sleep\<close> up to the software interrupt that gives up the processor, and what it does when the
  process runs again.
\<close>

definition sleep_begin :: "u64 \<Rightarrow> kernel \<Rightarrow> (ptr \<times> kernel) option" where
  "sleep_begin millis s = do {
     (timer, g) \<leftarrow> allocTimer (mm s);
     let s1 = s\<lparr>mm := g\<rparr>;
     let (now, s2) = readTimeStampCounter s1;
     ms \<leftarrow> over_frequency s2 now;
     let p = getCurrentProcessEntry s2;
     let s3 = upd_timer timer (\<lambda>_. \<lparr>t_next = NULL, t_endInterval = ms + millis, t_sleepingProcess = p,
                                    t_pid = getProcessId p s2\<rparr>) s2;
     s4 \<leftarrow> insertInList timer s3;
     (_, s5) \<leftarrow> setProcessState p BLOCKED s4;
     Some (timer, s5)
   }"

definition sleep_end :: "ptr \<Rightarrow> kernel \<Rightarrow> kernel option" where
  "sleep_end timer s = do {
     s1 \<leftarrow> removeFromList timer s;
     Some (k_freeTimer timer s1)
   }"

end
