(* ===== verification/Pipes.thy ===== *)
theory Pipes
  imports KState
begin

text \<open>
  The part of \<^verbatim>\<open>bufferManagement.c\<close> that reaches into the scheduler, and
  \<^verbatim>\<open>Kernel/ipcRelated/pipe.c\<close>: a pipe is a pair of IPC buffers, each the opposite end of the
  other; what is written to one end is moved at once to the other.
\<close>

section \<open>Buffers of the kernel\<close>

fun ready_refs :: "bool \<Rightarrow> ptr list \<Rightarrow> kernel \<Rightarrow> kernel option" where
  "ready_refs fgOnly [] s = Some s"
| "ready_refs fgOnly (r # rs) s =
     (if r \<noteq> NULL \<and> (\<not> fgOnly \<or> isInForeground r s)
      then do { (_, s1) \<leftarrow> setProcessState r READY s; ready_refs fgOnly rs s1 }
      else ready_refs fgOnly rs s)"

definition setBufferReferencesReady :: "ptr \<Rightarrow> kernel \<Rightarrow> kernel option" where
  "setBufferReferencesReady b s = ready_refs (buffId (bufs s b) \<noteq> PIPE) (ib_references (bufs s b)) s"

definition createEmptyBuffer :: "kernel \<Rightarrow> (ptr \<times> kernel) option" where
  "createEmptyBuffer s = do {
     (p, g) \<leftarrow> allocBuffer (mm s);
     Some (p, upd_buf p empty_buffer (s\<lparr>mm := g\<rparr>))
   }"

definition destroyBuffer :: "ptr \<Rightarrow> kernel \<Rightarrow> kernel" where
  "destroyBuffer b s =
    (let refs = ib_references (bufs s b);
         s1 = (if checkReferences (bufs s b) then s
               else fold (\<lambda>r. removeFromPDs r b) (filter (\<lambda>r. r \<noteq> NULL) refs) s)
     in s1\<lparr>mm := freeBuffer b (mm s1)\<rparr>)"

section \<open>Pipes\<close>

text \<open>The local array of \<^verbatim>\<open>updateOppositeEnd\<close>: zeroed memory of its own, at some address.\<close>

definition auxBuff :: ptr where "auxBuff = 1"

definition updateOppositeEnd :: "ptr \<Rightarrow> kernel \<Rightarrow> kernel option" where
  "updateOppositeEnd wEnd s =
    (if wEnd = NULL then Some s
     else let (bytesWritten, aux, w) = copyFromBuffer auxBuff (Some (bufs s wEnd)) (of_nat BUFF_SIZE) (\<lambda>_. 0);
              s1 = buf_result wEnd w s
          in if bytesWritten = 0 then Some s1
             else do {
               let rEnd = oppositeEnd (bufs s1 wEnd);
               (_, r) \<leftarrow> copyToBuffer aux (buf_arg s1 rEnd) auxBuff bytesWritten;
               setBufferReferencesReady rEnd (buf_result rEnd r s1)
             })"

definition readPipe :: "ptr \<Rightarrow> ptr \<Rightarrow> u64 \<Rightarrow> kernel \<Rightarrow> (u64 \<times> kernel) option" where
  "readPipe rEnd buffToFill count s =
    (let st = bufState (bufs s rEnd) in
     if rEnd \<noteq> NULL \<and> buffToFill \<noteq> NULL \<and> 0 < count \<and> (st = READ \<or> st = READ_WRITE) \<and>
        0 < bufferDim (bufs s rEnd)
     then do {
       let (k, m1, r) = readBuffer (Some (bufs s rEnd)) buffToFill count (mem s);
       let s1 = (buf_result rEnd r s)\<lparr>mem := m1\<rparr>;
       s2 \<leftarrow> updateOppositeEnd (oppositeEnd (bufs s1 rEnd)) s1;
       Some (k, s2)
     }
     else Some (0, s))"

definition writePipe :: "ptr \<Rightarrow> ptr \<Rightarrow> u64 \<Rightarrow> kernel \<Rightarrow> (u64 \<times> kernel) option" where
  "writePipe wEnd dataToRead count s =
    (let st = bufState (bufs s wEnd) in
     if wEnd \<noteq> NULL \<and> dataToRead \<noteq> NULL \<and> 0 < count \<and> unat (bufferDim (bufs s wEnd)) < BUFF_SIZE - 1 \<and>
        (st = WRITE \<or> st = READ_WRITE)
     then do {
       (k, w) \<leftarrow> writeBuffer (mem s) (Some (bufs s wEnd)) dataToRead count;
       s2 \<leftarrow> updateOppositeEnd wEnd (buf_result wEnd w s);
       Some (k, s2)
     }
     else Some (0, s))"

definition closePipe :: "ptr \<Rightarrow> kernel \<Rightarrow> kernel option" where
  "closePipe bufferEnd s = do {
     let s1 = upd_buf bufferEnd (\<lambda>b. b\<lparr>ib_references := replicate PD_SIZE NULL\<rparr>) s;
     let otherEnd = oppositeEnd (bufs s1 bufferEnd);
     s2 \<leftarrow> (if bufState (bufs s1 bufferEnd) = WRITE \<or> bufState (bufs s1 bufferEnd) = READ_WRITE
           then do {
             (_, b) \<leftarrow> copyToBuffer (\<lambda>_. 0) (buf_arg s1 otherEnd) auxBuff 1;
             Some (buf_result otherEnd b s1)
           }
           else Some s1);
     let s3 = upd_buf bufferEnd (\<lambda>b. setBufferState b CLOSED) s2;
     s4 \<leftarrow> setBufferReferencesReady otherEnd s3;
     if bufState (bufs s4 otherEnd) = CLOSED
     then Some (destroyBuffer otherEnd (destroyBuffer bufferEnd s4))
     else Some s4
   }"

text \<open>
  The first loop of \<^verbatim>\<open>openPipe\<close>: \<open>pipe[dim]\<close> is set to the entry looked at, and to a new buffer
  when that entry is free.  The result carries \<open>pipe\<close>, \<open>pipeFds\<close> and \<open>dim\<close>.
\<close>

fun open_scan :: "ptr \<Rightarrow> nat list \<Rightarrow> nat \<Rightarrow> ptr list \<Rightarrow> u32 list \<Rightarrow> kernel \<Rightarrow>
    (nat \<times> ptr list \<times> u32 list \<times> kernel) option" where
  "open_scan process [] dim pipe fds s = Some (dim, pipe, fds, s)"
| "open_scan process (i # is) dim pipe fds s =
     (if 2 \<le> dim then Some (dim, pipe, fds, s)
      else do {
        e \<leftarrow> getPDEntry process i s;
        if e \<noteq> NULL then open_scan process is dim (pipe[dim := e]) fds s
        else do {
          (b, s1) \<leftarrow> createEmptyBuffer s;
          let s2 = upd_buf b (\<lambda>x. setBufferState (setBufferId x PIPE) (if dim = 0 then READ else WRITE)) s1;
          open_scan process is (dim + 1) (pipe[dim := b]) (fds[dim := of_nat i]) (setProcessPd process b (of_nat i) s2)
        }
      })"

text \<open>The second loop: \<open>pipe[dim]\<close> gets its reference at the first free index met, \<open>i\<close> going on.\<close>

fun open_refs :: "ptr \<Rightarrow> nat list \<Rightarrow> nat \<Rightarrow> ptr list \<Rightarrow> kernel \<Rightarrow> nat \<times> kernel" where
  "open_refs process [] dim pipe s = (dim, s)"
| "open_refs process (i # is) dim pipe s =
     (if 2 \<le> dim then (dim, s)
      else if ib_references (bufs s (pipe ! dim)) ! i = NULL
      then open_refs process is (dim + 1) pipe
             (upd_buf (pipe ! dim) (\<lambda>b. snd (setReferenceByIndex b process (of_nat i))) s)
      else open_refs process is dim pipe s)"

definition openPipe :: "ptr \<Rightarrow> u32 list \<Rightarrow> kernel \<Rightarrow> (int \<times> u32 list \<times> kernel) option" where
  "openPipe process pipeFds s = do {
     (dim, pipe, fds, s1) \<leftarrow> open_scan process [0..<PD_SIZE] 0 [NULL, NULL] pipeFds s;
     if dim < 2 then do {
       let s2 = (if pipe ! 0 \<noteq> NULL then destroyBuffer (pipe ! 0) s1 else s1);
       let s3 = (if pipe ! 1 \<noteq> NULL then destroyBuffer (pipe ! 1) s2 else s2);
       Some (-1, fds, s3)
     }
     else do {
       let s2 = upd_buf (pipe ! 0) (\<lambda>b. setBufferOppositeEnd b (pipe ! 1)) s1;
       let s3 = upd_buf (pipe ! 1) (\<lambda>b. setBufferOppositeEnd b (pipe ! 0)) s2;
       let (dim2, s4) = open_refs process [0..<PD_SIZE] 0 pipe s3;
       if dim2 < 2 then Some (-1, fds, destroyBuffer (pipe ! 1) (destroyBuffer (pipe ! 0) s4))
       else Some (0, fds, s4)
     }
   }"

end
