(* ===== verification/Stacks.thy ===== *)
theory Stacks
  imports Lib
begin

text \<open>
  The stack frames of \<^verbatim>\<open>Kernel/asm/process.asm\<close>, as reads and writes of 64-bit words in the
  machine's memory.
\<close>

section \<open>Words in memory\<close>

definition store64 :: "ptr \<Rightarrow> u64 \<Rightarrow> bytes \<Rightarrow> bytes" where
  "store64 a v m = fold (\<lambda>i m. m(a + of_nat i := ucast (drop_bit (8 * i) v))) [0..<8] m"

definition load64 :: "bytes \<Rightarrow> ptr \<Rightarrow> u64" where
  "load64 m a = fold (\<lambda>i v. or v (push_bit (8 * i) (ucast (m (a + of_nat i))))) [0..<8] 0"

section \<open>Frames\<close>

definition userSpace :: u64 where "userSpace = 0x400000"

text \<open>The loop of \<^verbatim>\<open>_setNewStack\<close> moves fourteen words down by one place, from the lowest up.\<close>

definition shift_words :: "ptr \<Rightarrow> bytes \<Rightarrow> bytes" where
  "shift_words p m = fold (\<lambda>i m. store64 (p + 8 * of_nat i) (load64 m (p + 8 * of_nat i + 8)) m) [0..<14] m"

definition setNewStack :: "ptr \<Rightarrow> bytes \<Rightarrow> bytes" where
  "setNewStack p m =
    (let rbp = p + 21 * 8;
         m1 = store64 (p + 18 * 8) rbp m;
         m2 = store64 (p + 4 * 8) rbp m1;
         m3 = shift_words p m2
     in store64 (p + 14 * 8) 0 m3)"

definition setProcess :: "u64 \<Rightarrow> u64 \<Rightarrow> ptr \<Rightarrow> ptr \<Rightarrow> bytes \<Rightarrow> bytes" where
  "setProcess process argc argv rsp m =
    store64 (rsp + 14 * 8) userSpace
      (store64 (rsp + 11 * 8) argv (store64 (rsp + 8 * 8) argc (store64 (rsp + 9 * 8) process m)))"

definition create_frame :: "ptr \<Rightarrow> u64 \<Rightarrow> bytes \<Rightarrow> bytes" where
  "create_frame p who m =
    store64 (p + 19 * 8) 0 (store64 (p + 18 * 8) p (store64 (p + 17 * 8) 0x202 (store64 (p + 16 * 8) 8
      (store64 (p + 15 * 8) userSpace (store64 (p + 9 * 8) who (store64 (p + 10 * 8) (p + 19 * 8) m))))))"

definition createInitStack :: "ptr \<Rightarrow> bytes \<Rightarrow> ptr \<times> bytes" where
  "createInitStack initStack m = (let p = initStack - 19 * 8 in (p, create_frame p 0 m))"

definition createIdleStack :: "ptr \<Rightarrow> bytes \<Rightarrow> ptr \<times> bytes" where
  "createIdleStack idleStack m = (let p = idleStack - 20 * 8 in (p, create_frame p 1 m))"

section \<open>Reading back what was written\<close>

lemma store_bytes_in:
  "k \<le> 2 ^ 64 \<Longrightarrow> i < k \<Longrightarrow> fold (\<lambda>i m. m(a + of_nat i := g i)) [0..<k] m (a + of_nat i :: ptr) = g i"
proof (induction k)
  case 0
  then show ?case by simp
next
  case (Suc k)
  then show ?case using of_nat_u64_inj [of i k] by (auto simp: less_Suc_eq)
qed

lemma store_bytes_out:
  "(\<And>i. i < k \<Longrightarrow> x \<noteq> a + of_nat i) \<Longrightarrow> fold (\<lambda>i m. m(a + of_nat i := g i)) [0..<k] m (x :: ptr) = m x"
  by (induction k) auto

lemma store64_in: "i < 8 \<Longrightarrow> store64 a v m (a + of_nat i) = ucast (drop_bit (8 * i) v)"
  unfolding store64_def by (rule store_bytes_in) auto

lemma store64_other: "(\<And>i. i < 8 \<Longrightarrow> x \<noteq> a + of_nat i) \<Longrightarrow> store64 a v m x = m x"
  unfolding store64_def by (rule store_bytes_out)

lemma load_bits:
  "bit (fold (\<lambda>i v. or v (push_bit (8 * i) (ucast (m (a + of_nat i))))) [0..<k] (0::u64)) n \<longleftrightarrow>
     n < 64 \<and> n < 8 * k \<and> bit (m (a + of_nat (n div 8)) :: u8) (n mod 8)"
proof (induction k)
  case 0
  then show ?case by simp
next
  case (Suc k)
  have b: "bit (push_bit (8 * k) (ucast (m (a + of_nat k)) :: u64)) n \<longleftrightarrow>
      8 * k \<le> n \<and> n < 64 \<and> n < 8 * k + 8 \<and> bit (m (a + of_nat k)) (n - 8 * k)"
    by (auto simp: bit_push_bit_iff bit_ucast_iff possible_bit_def dest: bit_imp_le_length)
  have "n div 8 = k \<and> n - 8 * k = n mod 8" if "8 * k \<le> n" "n < 8 * k + 8"
    using that by presburger
  then show ?case using Suc b by (auto simp: bit_or_iff)
qed

lemma load64_bit: "bit (load64 m a) n \<longleftrightarrow> n < 64 \<and> bit (m (a + of_nat (n div 8))) (n mod 8)"
  unfolding load64_def load_bits by auto

lemma load64_store64 [simp]: "load64 (store64 a v m) a = v"
proof (rule bit_word_eqI)
  fix n assume "n < LENGTH(64)"
  then show "bit (load64 (store64 a v m) a) n = bit v n"
    by (simp add: load64_bit store64_in bit_ucast_iff bit_drop_bit_eq)
qed

text \<open>A word does not overlap another one when every byte offset between them is at least eight.\<close>

definition apart8 :: "ptr \<Rightarrow> ptr \<Rightarrow> bool" where
  "apart8 a b \<longleftrightarrow> 8 \<le> unat (a - b) \<and> 8 \<le> unat (b - a)"

lemma apart8_bytes:
  assumes "apart8 a b" "i < 8" "j < 8"
  shows "b + of_nat i \<noteq> a + of_nat j"
proof
  assume eq: "b + of_nat i = a + of_nat j"
  show False
  proof (cases "i \<le> j")
    case True
    then have "b - a = of_nat (j - i)" using eq by (simp add: of_nat_diff algebra_simps)
    then have "unat (b - a) = j - i" using assms(3) by (simp add: unat_of_nat64)
    then show False using assms by (simp only: apart8_def) linarith
  next
    case False
    then have "a - b = of_nat (i - j)" using eq by (simp add: of_nat_diff algebra_simps)
    then have "unat (a - b) = i - j" using assms(2) by (simp add: unat_of_nat64)
    then show False using assms by (simp only: apart8_def) linarith
  qed
qed

lemma load64_other: "apart8 a b \<Longrightarrow> load64 (store64 a v m) b = load64 m b"
proof (rule bit_word_eqI)
  fix n assume ap: "apart8 a b" and n: "n < LENGTH(64)"
  have "store64 a v m (b + of_nat (n div 8)) = m (b + of_nat (n div 8))"
    using apart8_bytes [OF ap, of "n div 8"] n by (intro store64_other) auto
  then show "bit (load64 (store64 a v m) b) n = bit (load64 m b) n" by (simp add: load64_bit)
qed

section \<open>The child's frame\<close>

lemma apart8_words:
  assumes "i \<noteq> j" "i < 2 ^ 60" "j < 2 ^ 60"
  shows "apart8 (p + 8 * of_nat i) (p + 8 * of_nat j)"
proof -
  have *: "8 \<le> unat ((8 * of_nat x :: u64) - 8 * of_nat y) " if "x \<noteq> y" "x < 2 ^ 60" "y < 2 ^ 60" for x y :: nat
  proof (cases "y \<le> x")
    case True
    then have "(8 * of_nat x :: u64) - 8 * of_nat y = of_nat (8 * (x - y))" by (simp add: of_nat_diff algebra_simps)
    moreover have "8 * (x - y) < 2 ^ 64" using that by simp
    ultimately show ?thesis using that True by (simp only: unat_of_nat64)
  next
    case False
    then have "(8 * of_nat x :: u64) - 8 * of_nat y = - of_nat (8 * (y - x))" by (simp add: of_nat_diff algebra_simps)
    also have "\<dots> = of_nat (2 ^ 64 - 8 * (y - x))" using that by (simp add: of_nat_diff)
    finally have eq: "(8 * of_nat x :: u64) - 8 * of_nat y = of_nat (2 ^ 64 - 8 * (y - x))" .
    have "2 ^ 64 - 8 * (y - x) < 2 ^ 64" "8 \<le> 2 ^ 64 - 8 * (y - x)" using that False by auto
    then show ?thesis unfolding eq by (simp only: unat_of_nat64)
  qed
  show ?thesis using * [of i j] * [of j i] assms by (simp add: apart8_def algebra_simps)
qed

definition word_at :: "bytes \<Rightarrow> ptr \<Rightarrow> nat \<Rightarrow> u64" where
  "word_at m p i = load64 m (p + 8 * of_nat i)"

lemma word_at_store:
  "i < 2 ^ 60 \<Longrightarrow> j < 2 ^ 60 \<Longrightarrow>
     word_at (store64 (p + 8 * of_nat i) v m) p j = (if i = j then v else word_at m p j)"
  using load64_other [OF apart8_words [of i j p]] by (simp add: word_at_def)

lemma shift_loop:
  "k < 2 ^ 59 \<Longrightarrow> j < 2 ^ 59 \<Longrightarrow>
     word_at (fold (\<lambda>i m. store64 (p + 8 * of_nat i) (load64 m (p + 8 * of_nat i + 8)) m) [0..<k] m) p j =
       (if j < k then word_at m p (j + 1) else word_at m p j)"
proof (induction k arbitrary: j)
  case 0
  then show ?case by simp
next
  case (Suc k)
  let ?m = "fold (\<lambda>i m. store64 (p + 8 * of_nat i) (load64 m (p + 8 * of_nat i + 8)) m) [0..<k] m"
  have "load64 ?m (p + 8 * of_nat k + 8) = word_at ?m p (k + 1)"
    by (simp add: word_at_def algebra_simps)
  also have "\<dots> = word_at m p (k + 1)" using Suc.IH [of "k + 1"] Suc.prems by simp
  finally have l: "load64 ?m (p + 8 * of_nat k + 8) = word_at m p (k + 1)" .
  have "word_at (store64 (p + 8 * of_nat k) (load64 ?m (p + 8 * of_nat k + 8)) ?m) p j =
      (if k = j then word_at m p (k + 1) else word_at ?m p j)"
    unfolding l using Suc.prems by (intro word_at_store) simp_all
  then show ?case using Suc.IH [of j] Suc.prems by (auto simp: less_Suc_eq)
qed

lemma setNewStack_words:
  assumes "j < 2 ^ 59"
  shows "word_at (setNewStack p m) p j =
    (if j = 14 then 0 else if j = 3 \<or> j = 18 then p + 168
     else if j < 14 then word_at m p (j + 1) else word_at m p j)"
proof -
  let ?m1 = "store64 (p + 8 * of_nat 18) (p + 168) m"
  let ?m2 = "store64 (p + 8 * of_nat 4) (p + 168) ?m1"
  have eq: "setNewStack p m = store64 (p + 8 * of_nat 14) 0 (shift_words p ?m2)"
    by (simp add: setNewStack_def Let_def)
  have m2: "word_at ?m2 p i = (if i = 4 \<or> i = 18 then p + 168 else word_at m p i)" if "i < 2 ^ 60" for i
    using that word_at_store [of 4 i p "p + 168" ?m1] word_at_store [of 18 i p "p + 168" m] by auto
  have "word_at (shift_words p ?m2) p j = (if j < 14 then word_at ?m2 p (j + 1) else word_at ?m2 p j)"
    unfolding shift_words_def using assms by (intro shift_loop) simp_all
  then show ?thesis
    unfolding eq using assms word_at_store [of 14 j p 0 "shift_words p ?m2"] m2 [of j] m2 [of "j + 1"]
    by auto
qed

end
