(* ===== verification/Scheduler.thy ===== *)
theory Scheduler
  imports Timers Pipes Stacks
begin

text \<open>
  The process scheduler and the process operations of
  \<^verbatim>\<open>Kernel/interruptRelated/scheduler.c\<close>: six ready queues served in order, a list of blocked
  processes, and the life cycle of a process from fork to deletion.
\<close>

section \<open>Constants\<close>

definition DEFAULT_PROCESS_STACK_SIZE :: u64 where "DEFAULT_PROCESS_STACK_SIZE = 0x4000"
definition QUANTUM_SIZE :: u64 where "QUANTUM_SIZE = 55"
definition MEMORY_ALIGN :: u64 where "MEMORY_ALIGN = 8"

text \<open>\<^verbatim>\<open>defaultQuantums\<close> of \<^verbatim>\<open>multipleQueues[i]\<close>.\<close>

definition defaultQuantums :: "nat \<Rightarrow> int" where
  "defaultQuantums i = (if i = 6 then 0 else int i + 1)"

section \<open>Queues\<close>

definition aging_level :: "u64 \<Rightarrow> nat" where
  "aging_level agingTime =
    (if agingTime \<le> QUANTUM_SIZE then 0
     else if agingTime \<le> QUANTUM_SIZE * 2 then 1
     else if agingTime \<le> QUANTUM_SIZE * 3 then 2
     else if agingTime \<le> QUANTUM_SIZE * 4 then 3
     else if agingTime \<le> QUANTUM_SIZE * 5 then 4
     else 5)"

text \<open>The walk to the last node, and the link to the new one; its own \<open>next\<close> is left to the caller.\<close>

definition link_last :: "nat \<Rightarrow> ptr \<Rightarrow> kernel \<Rightarrow> kernel option" where
  "link_last i node s = do {
     previous \<leftarrow> walk_last (nxt s) NULL (qhead s i);
     Some (if previous = NULL then set_qhead i node s else set_next previous node s)
   }"

definition insertInQueue :: "ptr \<Rightarrow> kernel \<Rightarrow> kernel option" where
  "insertInQueue node s = do {
     let i = aging_level (p_agingInterval (nodes s node));
     s1 \<leftarrow> link_last i node s;
     Some (upd_node node (\<lambda>n. n\<lparr>p_next := NULL, p_quantums := defaultQuantums i, p_priority := of_nat i\<rparr>) s1)
   }"

definition insertLast :: "ptr \<Rightarrow> kernel \<Rightarrow> kernel option" where
  "insertLast process s = do {
     s1 \<leftarrow> link_last 5 process s;
     Some (set_next process NULL s1)
   }"

definition insertInBlockedQueue :: "ptr \<Rightarrow> kernel \<Rightarrow> kernel option" where
  "insertInBlockedQueue node s = link_last 6 node (set_next node NULL s)"

fun remove_in :: "nat list \<Rightarrow> u32 \<Rightarrow> kernel \<Rightarrow> (ptr \<times> kernel) option" where
  "remove_in [] pid s = Some (NULL, s)"
| "remove_in (i # is) pid s = do {
     (previous, x) \<leftarrow> walk_find (nxt s) (\<lambda>a. p_id (nodes s a) = pid) NULL (qhead s i);
     if x = NULL then remove_in is pid s
     else Some (x, set_next x NULL
                     (if previous = NULL then set_qhead i (nxt s x) s else set_next previous (nxt s x) s))
   }"

definition removeFromQueue :: "u32 \<Rightarrow> kernel \<Rightarrow> (ptr \<times> kernel) option" where
  "removeFromQueue pid s = remove_in [0..<7] pid s"

text \<open>The loop of \<^verbatim>\<open>checkBlocked\<close>, with its local \<open>previous\<close> and \<open>current\<close>.\<close>

partial_function (option) checkBlocked_loop :: "ptr \<Rightarrow> ptr \<Rightarrow> kernel \<Rightarrow> kernel option" where
  "checkBlocked_loop previous cur s =
    (if cur = NULL then Some s
     else if p_state (nodes s cur) \<noteq> BLOCKED then do {
       let nx = nxt s cur;
       s1 \<leftarrow> insertInQueue cur (if previous = NULL then set_qhead 6 nx s else set_next previous nx s);
       checkBlocked_loop previous nx s1
     }
     else checkBlocked_loop cur (nxt s cur) s)"

definition checkBlocked :: "kernel \<Rightarrow> kernel option" where
  "checkBlocked s = checkBlocked_loop NULL (qhead s 6) s"

section \<open>Choosing the next process\<close>

text \<open>The first non-empty ready queue gives its first node; without one the result is null.\<close>

fun take_first :: "nat list \<Rightarrow> kernel \<Rightarrow> ptr \<times> kernel" where
  "take_first [] s = (NULL, s)"
| "take_first (i # is) s =
     (if qhead s i \<noteq> NULL then (qhead s i, set_qhead i (nxt s (qhead s i)) s) else take_first is s)"

definition put_back :: "ptr \<Rightarrow> kernel \<Rightarrow> kernel option" where
  "put_back c s =
    (case p_state (nodes s c) of
       BLOCKED \<Rightarrow> insertInBlockedQueue c s
     | RUNNING \<Rightarrow> insertInQueue c (set_next c NULL (set_state c READY s))
     | YIELDED \<Rightarrow> insertLast c (set_state c READY s)
     | READY \<Rightarrow> Some s
     | EXITED \<Rightarrow> Some s)"

definition run_idle :: "kernel \<Rightarrow> kernel" where
  "run_idle s = upd_node (k_idle s) (\<lambda>n. n\<lparr>p_agingInterval := 0, p_quantums := 1, p_state := RUNNING\<rparr>)
                  (s\<lparr>k_current := k_idle s\<rparr>)"

definition run_next :: "ptr \<Rightarrow> kernel \<Rightarrow> kernel" where
  "run_next next s = set_state next RUNNING (set_next next NULL (setForegroundProcess next (s\<lparr>k_current := next\<rparr>)))"

definition nextProcess :: "kernel \<Rightarrow> kernel option" where
  "nextProcess s = do {
     let s1 = (if p_id (nodes s (k_current s)) = p_id (nodes s (k_idle s))
               then (set_state (k_current s) READY s)\<lparr>k_current := NULL\<rparr> else s);
     s2 \<leftarrow> put_back (k_current s1) s1;
     let (next, s3) = take_first [0..<6] s2;
     Some (if next = NULL then run_idle (s3\<lparr>k_current := next\<rparr>) else run_next next s3)
   }"

section \<open>The end of a process\<close>

definition k_freeMemory :: "ptr \<Rightarrow> kernel \<Rightarrow> kernel" where
  "k_freeMemory p s = s\<lparr>mm := freeMemory p (mm s)\<rparr>"

partial_function (option) freeAllocations_loop :: "ptr \<Rightarrow> kernel \<Rightarrow> kernel option" where
  "freeAllocations_loop cur s =
    (if cur = NULL then Some s
     else freeAllocations_loop (pa_next (allocs s cur)) (k_freeMemory cur s))"

definition freeAllocations :: "ptr \<Rightarrow> kernel \<Rightarrow> kernel option" where
  "freeAllocations process s = freeAllocations_loop (p_firstAlloc (nodes s process)) s"

fun remove_refs :: "ptr \<Rightarrow> u32 \<Rightarrow> nat list \<Rightarrow> kernel \<Rightarrow> kernel option" where
  "remove_refs b pid [] s = Some s"
| "remove_refs b pid (i # is) s =
     (let r = getReferenceByIndex (bufs s b) (of_nat i) in
      if r \<noteq> NULL \<and> p_id (nodes s r) = pid
      then do {
        let (last_one, b1) = setReferenceByIndex (bufs s b) NULL (of_nat i);
        let s1 = upd_buf b (\<lambda>_. b1) s;
        s2 \<leftarrow> (if last_one \<and> buffId (bufs s1 b) = PIPE then closePipe b s1 else Some s1);
        remove_refs b pid is s2
      }
      else remove_refs b pid is s)"

definition removeReferences :: "ptr \<Rightarrow> u32 \<Rightarrow> kernel \<Rightarrow> kernel option" where
  "removeReferences pdBuffer pid s = remove_refs pdBuffer pid [0..<PD_SIZE] s"

fun close_pds :: "ptr \<Rightarrow> nat list \<Rightarrow> kernel \<Rightarrow> kernel option" where
  "close_pds process [] s = Some s"
| "close_pds process (i # is) s =
     (let aux = p_pdTable (nodes s process) ! i in
      if aux \<noteq> NULL
      then do {
        s1 \<leftarrow> removeReferences aux (p_id (nodes s process))
               (upd_node process (\<lambda>n. n\<lparr>p_pdTable := (p_pdTable n)[i := NULL]\<rparr>) s);
        close_pds process is s1
      }
      else close_pds process is s)"

definition closePDs :: "ptr \<Rightarrow> kernel \<Rightarrow> kernel option" where
  "closePDs process s = close_pds process [0..<PD_SIZE] s"

text \<open>The parent's id is read again for every child, through the parent found first.\<close>

fun check_childs :: "ptr \<Rightarrow> ptr \<Rightarrow> nat list \<Rightarrow> kernel \<Rightarrow> kernel option" where
  "check_childs parent pcbEntry [] s = Some s"
| "check_childs parent pcbEntry (i # is) s =
     (let c = p_childsIds (nodes s pcbEntry) ! i in
      if c \<noteq> 0
      then do {
        child \<leftarrow> getEntry c s;
        check_childs parent pcbEntry is
          (upd_node child (\<lambda>n. n\<lparr>p_parentId := p_id (nodes s parent)\<rparr>) s)
      }
      else check_childs parent pcbEntry is s)"

definition checkChilds :: "ptr \<Rightarrow> kernel \<Rightarrow> kernel option" where
  "checkChilds pcbEntry s = do {
     parent \<leftarrow> getEntry (p_parentId (nodes s pcbEntry)) s;
     check_childs parent pcbEntry [0..<PD_SIZE] s
   }"

definition setParentReady :: "ptr \<Rightarrow> kernel \<Rightarrow> kernel option" where
  "setParentReady pcbEntry s = do {
     parent \<leftarrow> getEntry (p_parentId (nodes s pcbEntry)) s;
     let pid = p_id (nodes s pcbEntry);
     let s1 = upd_node parent (\<lambda>n. n\<lparr>p_childsIds := map (\<lambda>c. if c = pid then 0 else c) (p_childsIds n)\<rparr>) s;
     (_, s2) \<leftarrow> setProcessState parent READY s1;
     Some s2
   }"

definition deleteProcess :: "ptr \<Rightarrow> kernel \<Rightarrow> (u32 \<times> kernel) option" where
  "deleteProcess toDelete s = do {
     let s1 = (if k_foreground s = toDelete then s\<lparr>k_foreground := NULL\<rparr> else s);
     let (now, s2) = readTimeStampCounter s1;
     ms \<leftarrow> over_frequency s2 now;
     s3 \<leftarrow> updateTimers ms s2;
     s4 \<leftarrow> freeAllocations toDelete s3;
     s5 \<leftarrow> closePDs toDelete s4;
     s6 \<leftarrow> checkChilds toDelete s5;
     s7 \<leftarrow> setParentReady toDelete s6;
     let s8 = k_freeMemory (p_memoryFromMM (nodes s7 toDelete)) s7;
     let s9 = s8\<lparr>mm := freePCB toDelete (mm s8)\<rparr>;
     Some (p_id (nodes s9 toDelete), s9)
   }"

partial_function (option) checkExited_loop :: "nat \<Rightarrow> ptr \<Rightarrow> ptr \<Rightarrow> kernel \<Rightarrow> kernel option" where
  "checkExited_loop i previous cur s =
    (if cur = NULL then Some s
     else if p_state (nodes s cur) = EXITED then do {
       let nx = nxt s cur;
       (_, s1) \<leftarrow> deleteProcess cur (if previous = NULL then set_qhead i nx s else set_next previous nx s);
       checkExited_loop i previous nx s1
     }
     else checkExited_loop i cur (nxt s cur) s)"

fun check_queues :: "nat list \<Rightarrow> kernel \<Rightarrow> kernel option" where
  "check_queues [] s = Some s"
| "check_queues (i # is) s = do {
     s1 \<leftarrow> checkExited_loop i NULL (qhead s i) s;
     check_queues is s1
   }"

definition checkExited :: "kernel \<Rightarrow> kernel option" where
  "checkExited s = do {
     s1 \<leftarrow> check_queues [0..<7] s;
     if p_state (nodes s1 (k_current s1)) = EXITED
     then do {
       (_, s2) \<leftarrow> deleteProcess (k_current s1) s1;
       s3 \<leftarrow> checkBlocked s2;
       nextProcess s3
     }
     else Some s1
   }"

section \<open>The timer tick\<close>

definition scheduler :: "ptr \<Rightarrow> kernel \<Rightarrow> (ptr \<times> kernel) option" where
  "scheduler rsp s =
    (if k_current s = NULL then
       let s1 = set_qhead 0 NULL (s\<lparr>k_current := qhead s 0\<rparr>)
       in Some (p_stack (nodes s1 (k_current s1)), s1)
     else do {
       let c = k_current s;
       let s1 = upd_node c (\<lambda>n. n\<lparr>p_stack := rsp\<rparr>) s;
       let (counterFinish, s2) = readTimeStampCounter s1;
       newInterval \<leftarrow> over_frequency s2 (counterFinish - p_counterInit (nodes s2 c));
       let s3 = upd_node c (\<lambda>n. n\<lparr>p_agingInterval := p_agingInterval n div 2 + newInterval\<rparr>) s2;
       ms \<leftarrow> over_frequency s3 counterFinish;
       s4 \<leftarrow> updateTimers ms s3;
       s5 \<leftarrow> checkBlocked s4;
       s6 \<leftarrow> checkExited s5;
       let c6 = k_current s6;
       let s7 = upd_node c6 (\<lambda>n. n\<lparr>p_quantums := p_quantums n - 1\<rparr>) s6;
       s8 \<leftarrow> (if p_quantums (nodes s7 c6) < 1 \<or> p_state (nodes s7 c6) = BLOCKED \<or> p_state (nodes s7 c6) = YIELDED
             then nextProcess s7 else Some s7);
       let (now, s9) = readTimeStampCounter s8;
       let s10 = upd_node (k_current s9) (\<lambda>n. n\<lparr>p_counterInit := now\<rparr>) s9;
       Some (p_stack (nodes s10 (k_current s10)), s10)
     })"

end
