(* ===== verification/Processes.thy ===== *)
theory Processes
  imports Scheduler
begin

text \<open>
  The process operations of \<^verbatim>\<open>scheduler.c\<close> that the system calls reach: boot, fork, exec, the
  process list, priorities, the heap of a process and its descriptors.
\<close>

section \<open>Process ids\<close>

partial_function (option) max_id :: "kernel \<Rightarrow> u32 \<Rightarrow> ptr \<Rightarrow> u32 option" where
  "max_id s mx a =
    (if a = NULL then Some mx else max_id s (if mx < p_id (nodes s a) then p_id (nodes s a) else mx) (nxt s a))"

fun max_id_in :: "nat list \<Rightarrow> u32 \<Rightarrow> kernel \<Rightarrow> u32 option" where
  "max_id_in [] mx s = Some mx"
| "max_id_in (i # is) mx s = do { m1 \<leftarrow> max_id s mx (qhead s i); max_id_in is m1 s }"

text \<open>Without a current process the search starts from an uninitialised variable.\<close>

definition unusedID :: "kernel \<Rightarrow> u32 option" where
  "unusedID s =
    (if k_current s = NULL then None
     else do {
       mx \<leftarrow> max_id_in [0..<7] (p_id (nodes s (k_current s))) s;
       Some (if mx + 1 = 2 then 3 else mx + 1)
     })"

section \<open>Boot\<close>

definition align_down :: "ptr \<Rightarrow> ptr" where "align_down p = p - p mod MEMORY_ALIGN"

text \<open>The three standard buffers, set up and given to the first process.\<close>

definition standard_buffers :: "ptr \<Rightarrow> kernel \<Rightarrow> kernel" where
  "standard_buffers init s =
    (let (i, out, err) = initStandardBuffers (bufs s (stdinAt s), bufs s (stdoutAt s), bufs s (stderrAt s));
         s1 = upd_buf (stderrAt s) (\<lambda>_. err) (upd_buf (stdoutAt s) (\<lambda>_. out) (upd_buf (stdinAt s) (\<lambda>_. i) s));
         s2 = upd_buf (stdinAt s) (\<lambda>b. snd (setReferenceByIndex b init 0)) s1;
         s3 = upd_buf (stdoutAt s) (\<lambda>b. snd (setReferenceByIndex b init 1)) s2
     in upd_buf (stderrAt s) (\<lambda>b. snd (setReferenceByIndex b init 2)) s3)"

text \<open>\<open>cpu\<close> is what \<^verbatim>\<open>cpuid\<close> reports: the crystal speed, the numerator and the denominator.\<close>

definition createInit :: "u64 \<times> u64 \<times> u64 \<Rightarrow> kernel \<Rightarrow> kernel option" where
  "createInit cpu s = do {
     (memoryForInit, g1) \<leftarrow> allocMemory DEFAULT_PROCESS_STACK_SIZE (mm s);
     let initStack = align_down (memoryForInit + DEFAULT_PROCESS_STACK_SIZE);
     (initNode, g2) \<leftarrow> allocPCB g1;
     (memoryForIdle, g3) \<leftarrow> allocMemory DEFAULT_PROCESS_STACK_SIZE g2;
     let idleStack = align_down (memoryForIdle + DEFAULT_PROCESS_STACK_SIZE);
     (idleNode, g4) \<leftarrow> allocPCB g3;
     let s1 = s\<lparr>mm := g4\<rparr>;
     let s2 = upd_node idleNode (\<lambda>n. n\<lparr>p_firstAlloc := NULL, p_next := NULL\<rparr>)
               (upd_node initNode (\<lambda>n. n\<lparr>p_firstAlloc := NULL, p_next := NULL\<rparr>) s1);
     let s3 = standard_buffers initNode s2;
     let (istk, m1) = createInitStack initStack (mem s3);
     let s4 = upd_node initNode (\<lambda>n. n\<lparr>
         p_pdTable := [stdinAt s, stdoutAt s, stderrAt s] @ replicate (PD_SIZE - 3) NULL,
         p_childsIds := replicate PD_SIZE 0, p_parentId := 0,
         p_stackSize := initStack - memoryForInit, p_baseStack := initStack, p_stack := istk,
         p_memoryFromMM := memoryForInit, p_id := INIT_ID, p_foreground := True, p_state := READY,
         p_counterInit := 0, p_agingInterval := 0, p_quantums := 1, p_priority := 0\<rparr>) (s3\<lparr>mem := m1\<rparr>);
     let s5 = (set_qhead 0 initNode s4)\<lparr>k_foreground := initNode\<rparr>;
     let (dstk, m2) = createIdleStack idleStack (mem s5);
     let s6 = upd_node idleNode (\<lambda>n. n\<lparr>
         p_stackSize := idleStack - memoryForIdle, p_baseStack := idleStack, p_stack := dstk,
         p_memoryFromMM := memoryForIdle, p_id := IDLE_ID, p_foreground := True, p_state := READY,
         p_counterInit := 0, p_agingInterval := 0, p_quantums := 1\<rparr>) (s5\<lparr>mem := m2\<rparr>);
     let (crystal, num, den) = cpu;
     if den = 0 then None
     else Some (s6\<lparr>k_idle := idleNode, k_current := NULL, TSCFrequency := crystal * num div den\<rparr>)
   }"

section \<open>Fork and exec\<close>

text \<open>The child becomes a reference of every buffer in the table, at the first free place.\<close>

fun first_free :: "nat list \<Rightarrow> ptr list \<Rightarrow> nat option" where
  "first_free [] refs = None"
| "first_free (j # js) refs = (if refs ! j = NULL then Some j else first_free js refs)"

definition share_buffer :: "ptr \<Rightarrow> ptr \<Rightarrow> kernel \<Rightarrow> kernel" where
  "share_buffer child b s =
    (if b = NULL then s
     else case first_free [0..<PD_SIZE] (ib_references (bufs s b)) of
            None \<Rightarrow> s
          | Some j \<Rightarrow> upd_buf b (\<lambda>x. snd (setReferenceByIndex x child (of_nat j))) s)"

text \<open>
  \<^verbatim>\<open>while(childsIds[i++] != 0);\<close> looks for a free place and does not stop at the end of the
  array.
\<close>

fun first_zero :: "u32 list \<Rightarrow> nat \<Rightarrow> nat option" where
  "first_zero [] i = None"
| "first_zero (c # cs) i = (if c = 0 then Some i else first_zero cs (Suc i))"

definition k_allocPCB :: "kernel \<Rightarrow> (ptr \<times> kernel) option" where
  "k_allocPCB s = do { (p, g) \<leftarrow> allocPCB (mm s); Some (p, s\<lparr>mm := g\<rparr>) }"

definition k_allocMemory :: "u64 \<Rightarrow> kernel \<Rightarrow> (ptr \<times> kernel) option" where
  "k_allocMemory n s = do { (p, g) \<leftarrow> allocMemory n (mm s); Some (p, s\<lparr>mm := g\<rparr>) }"

definition k_copyBlocks :: "ptr \<Rightarrow> ptr \<Rightarrow> kernel \<Rightarrow> kernel option" where
  "k_copyBlocks target source s = do {
     (g, m) \<leftarrow> copyBlocks target source (mm s, mem s);
     Some (s\<lparr>mm := g, mem := m\<rparr>)
   }"

text \<open>What the child's control block takes over; its child table keeps what the memory held.\<close>

definition child_of :: "PCBNodeCDT \<Rightarrow> ptr \<Rightarrow> ptr \<Rightarrow> PCBNodeCDT \<Rightarrow> PCBNodeCDT" where
  "child_of parent memoryForFork newStack n = n\<lparr>
     p_stack := newStack,
     p_baseStack := memoryForFork + (p_baseStack parent - p_memoryFromMM parent),
     p_stackSize := p_stackSize parent, p_memoryFromMM := memoryForFork,
     p_foreground := p_foreground parent, p_state := p_state parent,
     p_manualBlocked := p_manualBlocked parent, p_priority := p_priority parent,
     p_quantums := p_quantums parent, p_agingInterval := p_agingInterval parent,
     p_counterInit := p_counterInit parent, p_firstAlloc := p_firstAlloc parent,
     p_pdTable := p_pdTable parent\<rparr>"

definition sysFork :: "ptr \<Rightarrow> kernel \<Rightarrow> (int \<times> kernel) option" where
  "sysFork currentProcessStack s = do {
     (newNode, s1) \<leftarrow> k_allocPCB s;
     if newNode = NULL then Some (-1, s1)
     else do {
       let c = k_current s1;
       (memoryForFork, s2) \<leftarrow> k_allocMemory (p_stackSize (nodes s1 c)) s1;
       if memoryForFork = NULL then Some (-1, s2\<lparr>mm := freePCB newNode (mm s2)\<rparr>)
       else do {
         let newStack = memoryForFork + (currentProcessStack - p_memoryFromMM (nodes s2 c) - 8);
         s3 \<leftarrow> k_copyBlocks memoryForFork (p_memoryFromMM (nodes s2 c)) s2;
         let s4 = s3\<lparr>mem := setNewStack newStack (mem s3)\<rparr>;
         let s5 = upd_node newNode (child_of (nodes s4 c) memoryForFork newStack) s4;
         let s6 = fold (share_buffer newNode) (p_pdTable (nodes s5 c)) s5;
         pid \<leftarrow> unusedID s6;
         let s7 = upd_node newNode (\<lambda>n. n\<lparr>p_id := pid, p_parentId := p_id (nodes s6 c)\<rparr>) s6;
         i \<leftarrow> first_zero (p_childsIds (nodes s7 c)) 0;
         let s8 = upd_node c (\<lambda>n. n\<lparr>p_childsIds := (p_childsIds n)[i := pid]\<rparr>) s7;
         s9 \<leftarrow> insertInQueue newNode s8;
         Some (sint pid, s9)
       }
     }
   }"

definition sysExecve :: "u64 \<Rightarrow> u64 \<Rightarrow> ptr \<Rightarrow> ptr \<Rightarrow> kernel \<Rightarrow> int \<times> kernel" where
  "sysExecve process argc argv rsp s =
    (1, upd_node (k_current s)
          (\<lambda>n. n\<lparr>p_counterInit := 0, p_agingInterval := 0, p_priority := 0, p_quantums := 1\<rparr>)
          (s\<lparr>mem := setProcess process argc argv rsp (mem s)\<rparr>))"

section \<open>The process list\<close>

record ProcessData =
  pd_id :: u32
  pd_stack :: ptr
  pd_baseStack :: ptr
  pd_foreground :: bool
  pd_priority :: u8

definition process_data :: "PCBNodeCDT \<Rightarrow> ProcessData" where
  "process_data n = \<lparr>pd_id = p_id n, pd_stack = p_stack n, pd_baseStack = p_baseStack n,
                     pd_foreground = p_foreground n, pd_priority = p_priority n\<rparr>"

partial_function (option) list_queue :: "kernel \<Rightarrow> ptr \<Rightarrow> ProcessData list option" where
  "list_queue s a =
    (if a = NULL then Some []
     else do { ds \<leftarrow> list_queue s (nxt s a); Some (process_data (nodes s a) # ds) })"

fun list_queues :: "nat list \<Rightarrow> kernel \<Rightarrow> ProcessData list option" where
  "list_queues [] s = Some []"
| "list_queues (i # is) s = do { ds \<leftarrow> list_queue s (qhead s i); es \<leftarrow> list_queues is s; Some (ds @ es) }"

definition sysPs :: "kernel \<Rightarrow> ProcessData list option" where
  "sysPs s = do { ds \<leftarrow> list_queues [0..<7] s; Some (process_data (nodes s (k_current s)) # ds) }"

section \<open>Priorities and children\<close>

definition priority_aging :: "u32 \<Rightarrow> u64 option" where
  "priority_aging p =
    (if p = 0 then Some (QUANTUM_SIZE * 1) else if p = 1 then Some (QUANTUM_SIZE * 2)
     else if p = 2 then Some (QUANTUM_SIZE * 4) else if p = 3 then Some (QUANTUM_SIZE * 8)
     else if p = 4 then Some (QUANTUM_SIZE * 16) else if p = 5 then Some (QUANTUM_SIZE * 32) else None)"

definition changePriority :: "u32 \<Rightarrow> u32 \<Rightarrow> kernel \<Rightarrow> (int \<times> kernel) option" where
  "changePriority pid newPriority s = do {
     e \<leftarrow> exists pid s;
     if \<not> e \<or> 6 \<le> newPriority then Some (-1, s)
     else do {
       (toChange, s1) \<leftarrow> (if p_id (nodes s (k_current s)) = pid then Some (k_current s, s)
                         else removeFromQueue pid s);
       let s2 = (case priority_aging newPriority of
                   None \<Rightarrow> s1 | Some a \<Rightarrow> upd_node toChange (\<lambda>n. n\<lparr>p_agingInterval := a\<rparr>) s1);
       let s3 = upd_node toChange (\<lambda>n. n\<lparr>p_priority := ucast newPriority,
                                         p_quantums := defaultQuantums (unat newPriority)\<rparr>) s2;
       s4 \<leftarrow> (if p_state (nodes s3 toChange) = BLOCKED then insertInBlockedQueue toChange s3
             else insertInQueue toChange s3);
       Some (1, s4)
     }
   }"

fun open_childs :: "u32 list \<Rightarrow> kernel \<Rightarrow> bool option" where
  "open_childs [] s = Some False"
| "open_childs (c # cs) s =
     (if c = 0 then open_childs cs s
      else do {
        child \<leftarrow> getEntry c s;
        if p_state (nodes s child) \<noteq> EXITED \<and> p_foreground (nodes s child) then Some True
        else open_childs cs s
      })"

definition hasOpenChilds :: "ptr \<Rightarrow> kernel \<Rightarrow> bool option" where
  "hasOpenChilds entry s = open_childs (p_childsIds (nodes s entry)) s"

definition sysClosePd :: "ptr \<Rightarrow> ptr \<Rightarrow> u32 \<Rightarrow> kernel \<Rightarrow> kernel option" where
  "sysClosePd process toClose pd s =
    (if unat pd < PD_SIZE \<and> process \<noteq> NULL
     then let s1 = upd_node process (\<lambda>n. n\<lparr>p_pdTable := (p_pdTable n)[unat pd := NULL]\<rparr>) s
          in if buffId (bufs s1 toClose) = PIPE then removeReferences toClose (p_id (nodes s1 process)) s1
             else Some s1
     else Some s)"

section \<open>The heap of a process\<close>

definition sizeof_ProcessAllocations :: u64 where "sizeof_ProcessAllocations = 16"

definition anxt :: "kernel \<Rightarrow> ptr \<Rightarrow> ptr" where "anxt s a = pa_next (allocs s a)"

definition sysMalloc :: "ptr \<Rightarrow> u64 \<Rightarrow> kernel \<Rightarrow> (ptr \<times> kernel) option" where
  "sysMalloc process n s = do {
     (a, s1) \<leftarrow> k_allocMemory (n + sizeof_ProcessAllocations) s;
     if a = NULL then Some (NULL, s1)
     else do {
       let r = a + sizeof_ProcessAllocations;
       let s2 = upd_alloc a (\<lambda>x. x\<lparr>pa_allocation := r, pa_next := NULL\<rparr>) s1;
       let first = p_firstAlloc (nodes s2 process);
       if first \<noteq> NULL
       then do {
         l \<leftarrow> walk_last (anxt s2) NULL first;
         Some (r, upd_alloc l (\<lambda>x. x\<lparr>pa_next := a\<rparr>) s2)
       }
       else Some (r, upd_node process (\<lambda>x. x\<lparr>p_firstAlloc := a\<rparr>) s2)
     }
   }"

definition sysRealloc :: "ptr \<Rightarrow> ptr \<Rightarrow> u64 \<Rightarrow> kernel \<Rightarrow> (ptr \<times> kernel) option" where
  "sysRealloc process toRealloc n s = do {
     (previous, cur) \<leftarrow> walk_find (anxt s) (\<lambda>a. pa_allocation (allocs s a) = toRealloc) NULL
                          (p_firstAlloc (nodes s process));
     if cur = NULL then Some (NULL, s)
     else do {
       let next = anxt s cur;
       (a, g, m) \<leftarrow> reAllocMemory cur (n + sizeof_ProcessAllocations) (mm s, mem s);
       let s1 = s\<lparr>mm := g, mem := m\<rparr>;
       if a = NULL then Some (NULL, upd_alloc previous (\<lambda>x. x\<lparr>pa_next := next\<rparr>) s1)
       else do {
         let s2 = upd_alloc a (\<lambda>x. x\<lparr>pa_next := next\<rparr>) s1;
         let s3 = (if previous \<noteq> NULL then upd_alloc previous (\<lambda>x. x\<lparr>pa_next := a\<rparr>) s2 else s2);
         let r = a + sizeof_ProcessAllocations;
         Some (r, upd_alloc a (\<lambda>x. x\<lparr>pa_allocation := r\<rparr>) s3)
       }
     }
   }"

definition sysFree :: "ptr \<Rightarrow> ptr \<Rightarrow> kernel \<Rightarrow> kernel option" where
  "sysFree process toFree s = do {
     (previous, cur) \<leftarrow> walk_find (anxt s) (\<lambda>a. pa_allocation (allocs s a) = toFree) NULL
                          (p_firstAlloc (nodes s process));
     if cur = NULL then Some s
     else do {
       let s1 = (if previous \<noteq> NULL then upd_alloc previous (\<lambda>x. x\<lparr>pa_next := anxt s cur\<rparr>) s else s);
       Some (k_freeMemory cur s1)
     }
   }"

end
