(* ===== verification/Boot.thy ===== *)
theory Boot
  imports Processes
begin

text \<open>
  From the packed image to the running system: the host tool that appends the programs to the
  kernel (\<^verbatim>\<open>Toolchain/ModulePacker/main.c\<close>), the loader that puts them in place
  (\<^verbatim>\<open>Kernel/moduleLoader.c\<close>, \<^verbatim>\<open>Kernel/kernel.c\<close>), the interrupt table (\<^verbatim>\<open>idtLoader.c\<close>) and two small
  drivers (\<^verbatim>\<open>registers.c\<close>, \<^verbatim>\<open>speaker.c\<close>).
\<close>

section \<open>The packer\<close>

text \<open>A file is its contents, or \<open>None\<close> when it cannot be read.\<close>

type_synonym host_file = "u8 list option"

definition BUFFER_SIZE :: nat where "BUFFER_SIZE = 128"

definition le32 :: "u32 \<Rightarrow> u8 list" where
  "le32 v = map (\<lambda>i. ucast (drop_bit (8 * i) v)) [0..<4]"

definition checkFiles :: "host_file list \<Rightarrow> bool" where
  "checkFiles files \<longleftrightarrow> list_all (\<lambda>f. f \<noteq> None) files"

text \<open>\<^verbatim>\<open>st_size\<close> is cut to 32 bits.\<close>

definition write_size :: "u8 list \<Rightarrow> u8 list \<Rightarrow> u8 list" where
  "write_size target source = target @ le32 (of_nat (length source))"

text \<open>Pieces of \<^verbatim>\<open>BUFFER_SIZE\<close> bytes are copied until a read comes up short.\<close>

function write_file :: "u8 list \<Rightarrow> u8 list \<Rightarrow> u8 list" where
  "write_file target source =
    (let piece = take BUFFER_SIZE source; target1 = target @ piece in
     if length piece < BUFFER_SIZE then target1 else write_file target1 (drop BUFFER_SIZE source))"
  by auto
termination
  by (relation "measure (\<lambda>(_, source). length source)") (auto simp: BUFFER_SIZE_def)

declare write_file.simps [simp del]

fun write_modules :: "u8 list \<Rightarrow> u8 list list \<Rightarrow> u8 list" where
  "write_modules target [] = target"
| "write_modules target (f # fs) = write_modules (write_file (write_size target f) f) fs"

definition buildImage :: "u8 list list \<Rightarrow> u8 list" where
  "buildImage files =
    (let target = write_file [] (hd files) @ le32 (of_nat (length files - 1))
     in write_modules target (tl files))"

text \<open>The result of the tool: its exit code and the image, when the output file could be opened.\<close>

definition packer_main :: "host_file list \<Rightarrow> bool \<Rightarrow> int \<times> u8 list option" where
  "packer_main files opened =
    (if \<not> checkFiles files \<or> \<not> opened then (1, None) else (0, Some (buildImage (map the files))))"

section \<open>The loader\<close>

definition load32 :: "bytes \<Rightarrow> ptr \<Rightarrow> u32" where
  "load32 m a = fold (\<lambda>i v. or v (push_bit (8 * i) (ucast (m (a + of_nat i))))) [0..<4] 0"

definition readUint32 :: "bytes \<Rightarrow> ptr \<Rightarrow> u32 \<times> ptr" where
  "readUint32 m address = (load32 m address, address + 4)"

definition loadModule :: "ptr \<Rightarrow> ptr \<Rightarrow> bytes \<Rightarrow> ptr \<times> bytes" where
  "loadModule module targetModuleAddress m =
    (let (moduleSize, p) = readUint32 m module
     in (p + ucast moduleSize, memcpy m targetModuleAddress p (ucast moduleSize)))"

text \<open>More modules than target addresses read outside the array of addresses.\<close>

fun load_loop :: "nat \<Rightarrow> ptr list \<Rightarrow> ptr \<Rightarrow> bytes \<Rightarrow> bytes option" where
  "load_loop 0 targets p m = Some m"
| "load_loop (Suc n) [] p m = None"
| "load_loop (Suc n) (t # targets) p m = (let (p1, m1) = loadModule p t m in load_loop n targets p1 m1)"

definition loadModules :: "ptr \<Rightarrow> ptr list \<Rightarrow> bytes \<Rightarrow> bytes option" where
  "loadModules payloadStart targetModuleAddress m =
    (let (moduleCount, p) = readUint32 m payloadStart
     in load_loop (unat moduleCount) targetModuleAddress p m)"

definition sampleCodeModuleAddress :: ptr where "sampleCodeModuleAddress = 0x400000"
definition sampleDataModuleAddress :: ptr where "sampleDataModuleAddress = 0x500000"

definition clearBSS :: "ptr \<Rightarrow> u64 \<Rightarrow> bytes \<Rightarrow> bytes" where
  "clearBSS bssAddress bssSize m = memset m bssAddress 0 bssSize"

definition getStackBase :: "ptr \<Rightarrow> ptr" where
  "getStackBase endOfKernel = endOfKernel + PageSize * 8 - 8"

text \<open>The arguments are the addresses the linker script defines.\<close>

definition initializeKernelBinary :: "ptr \<Rightarrow> ptr \<Rightarrow> ptr \<Rightarrow> bytes \<Rightarrow> (ptr \<times> bytes) option" where
  "initializeKernelBinary endOfKernelBinary bss endOfKernel m = do {
     m1 \<leftarrow> loadModules endOfKernelBinary [sampleCodeModuleAddress, sampleDataModuleAddress] m;
     Some (getStackBase endOfKernel, clearBSS bss (endOfKernel - bss) m1)
   }"

section \<open>The interrupt table\<close>

record DESCR_INT =
  offset_l :: u16
  selector :: u16
  cero :: u8
  acc_bits :: u8
  offset_m :: u16
  offset_h :: u32
  other_cero :: u32

definition ACS_INT :: u8 where "ACS_INT = or 0x80 0x0E"

definition setupIDTEntry :: "nat \<Rightarrow> u64 \<Rightarrow> (nat \<Rightarrow> DESCR_INT) \<Rightarrow> nat \<Rightarrow> DESCR_INT" where
  "setupIDTEntry index off idt = idt(index := \<lparr>
     offset_l = ucast (and off 0xFFFF), selector = 0x08, cero = 0, acc_bits = ACS_INT,
     offset_m = ucast (and (drop_bit 16 off) 0xFFFF),
     offset_h = ucast (and (drop_bit 32 off) 0xFFFFFFFF), other_cero = 0\<rparr>)"

text \<open>The handlers' addresses are the linker's; the page fault handler goes to vector 13.\<close>

record handlers =
  exception0Handler :: ptr
  exception5Handler :: ptr
  exception6Handler :: ptr
  exception14Handler :: ptr
  irq00Handler :: ptr
  irq01Handler :: ptr
  syscallsHandler :: ptr

text \<open>The result carries the table and the masks of the two interrupt controllers.\<close>

definition loadIDT :: "handlers \<Rightarrow> (nat \<Rightarrow> DESCR_INT) \<Rightarrow> (nat \<Rightarrow> DESCR_INT) \<times> u16 \<times> u16" where
  "loadIDT h idt =
    (setupIDTEntry 0x80 (syscallsHandler h) (setupIDTEntry 0x21 (irq01Handler h)
      (setupIDTEntry 0x20 (irq00Handler h) (setupIDTEntry 0x0D (exception14Handler h)
        (setupIDTEntry 0x06 (exception6Handler h) (setupIDTEntry 0x05 (exception5Handler h)
          (setupIDTEntry 0x00 (exception0Handler h) idt)))))), 0xFC, 0xFF)"

text \<open>\<^verbatim>\<open>main\<close> up to the jump into the first process.\<close>

definition kernel_main ::
    "u64 \<times> u64 \<times> u64 \<times> u64 \<Rightarrow> u64 \<times> u64 \<times> u64 \<Rightarrow> handlers \<Rightarrow> kernel \<Rightarrow> (nat \<Rightarrow> DESCR_INT) \<Rightarrow>
     (kernel \<times> (nat \<Rightarrow> DESCR_INT) \<times> u16 \<times> u16) option" where
  "kernel_main sizes cpu h s idt = do {
     s1 \<leftarrow> createInit cpu (s\<lparr>mm := main_memory sizes (mm s)\<rparr>);
     Some (s1, loadIDT h idt)
   }"

section \<open>Registers and speaker\<close>

definition REGISTERS_COUNT :: nat where "REGISTERS_COUNT = 17"

definition getRegistersInfo :: "bool \<Rightarrow> u64 list \<Rightarrow> ptr \<Rightarrow> bytes \<Rightarrow> int \<times> bytes" where
  "getRegistersInfo hasRegDump inforeg buffer m =
    (if \<not> hasRegDump then (0, m)
     else (1, fold (\<lambda>i. store64 (buffer + 8 * of_nat i) (inforeg ! i)) [0..<REGISTERS_COUNT] m))"

definition printMemory :: "ptr \<Rightarrow> ptr \<Rightarrow> bytes \<Rightarrow> bytes" where
  "printMemory direction buffer m = fold (\<lambda>i m. m(buffer + of_nat i := m (direction + of_nat i))) [0..<32] m"

text \<open>
  What is sent to the ports; \<open>get\<close> gives the values read from the speaker's port, one for each
  reading.
\<close>

datatype port_op = SetPIT | SetFrequency u8 | PlaySound u8

definition playSound :: "u8 \<Rightarrow> u64 \<Rightarrow> port_op list option" where
  "playSound get frequency =
    (if frequency = 0 then None
     else let d = 1193180 div frequency in
          Some ([SetPIT, SetFrequency (ucast d), SetFrequency (ucast (drop_bit 8 d))]
                @ (if get \<noteq> or get 3 then [PlaySound get] else [])))"

definition noSound :: "u8 \<Rightarrow> port_op list" where "noSound get = [PlaySound (and get 0xFC)]"

definition speaker :: "u8 \<times> u8 \<Rightarrow> u64 \<Rightarrow> u64 \<Rightarrow> port_op list option" where
  "speaker get millis frequency = do {
     on \<leftarrow> playSound (fst get) frequency;
     Some (on @ noSound (snd get))
   }"

end
