(* ===== verification/Keyboard.thy ===== *)
theory Keyboard
  imports Pipes
begin

text \<open>
  The keyboard driver, \<^verbatim>\<open>Kernel/drivers/keyboard.c\<close>: scan codes become characters of the standard
  input buffer, with the modifier keys as the driver's own state.
\<close>

section \<open>Tables\<close>

definition CODES :: nat where "CODES = 56"
definition R_SHIFT :: u8 where "R_SHIFT = 0x36"
definition L_SHIFT :: u8 where "L_SHIFT = 0x2A"
definition L_CNTRL :: u8 where "L_CNTRL = 0x1D"
definition C_CODE :: u8 where "C_CODE = 0x2E"
definition D_CODE :: u8 where "D_CODE = 0x20"
definition BUFFER_DIM :: nat where "BUFFER_DIM = 512"

text \<open>Rows are pairs: without and with caps lock.  Characters are given by their codes.\<close>

definition letters :: "nat list" where "letters = [0..<26]"

definition KEYS :: "(u8 \<times> u8) list" where
  "KEYS = map (\<lambda>i. (of_nat (97 + i), of_nat (65 + i))) letters
     @ map (\<lambda>c. (c, c)) [49, 50, 51, 52, 53, 54, 55, 56, 57, 48,
         45, 61, 91, 93, 59, 39, 96, 92, 44, 46, 47, 32, 10, 8, 99, 9, 117, 108, 114, 100]"

definition SHIFTED :: "(u8 \<times> u8) list" where
  "SHIFTED = map (\<lambda>i. (of_nat (65 + i), of_nat (97 + i))) letters
     @ map (\<lambda>c. (c, c)) [33, 64, 35, 36, 37, 94, 38, 42, 40, 41,
         95, 43, 123, 125, 58, 34, 126, 124, 60, 62, 63, 32, 10, 8, 99, 9, 117, 108, 114, 100]"

definition SCAN_CODES :: "u8 list" where
  "SCAN_CODES = [0x1E, 0x30, 0x2E, 0x20, 0x12, 0x21, 0x22, 0x23, 0x17, 0x24, 0x25, 0x26, 0x32, 0x31, 0x18,
     0x19, 0x10, 0x13, 0x1F, 0x14, 0x16, 0x2F, 0x11, 0x2D, 0x15, 0x2C,
     0x02, 0x03, 0x04, 0x05, 0x06, 0x07, 0x08, 0x09, 0x0A, 0x0B,
     0x0C, 0x0D, 0x1A, 0x1B, 0x27, 0x28, 0x29, 0x2B, 0x33, 0x34, 0x35,
     0x39, 0x1C, 0x0E, 0x3A, 0x0F, 0x48, 0x4B, 0x4D, 0x50]"

section \<open>State\<close>

record keyboard =
  kb_lock :: nat
  shiftKey :: bool
  leftCntrl :: bool
  kBuff :: "u8 list"
  sBuff :: "u8 list"
  writePosition :: u64
  readPosition :: u64
  keyCount :: u64

definition keyboard0 :: keyboard where
  "keyboard0 = \<lparr>kb_lock = 0, shiftKey = False, leftCntrl = False, kBuff = replicate BUFFER_DIM 0,
     sBuff = replicate BUFFER_DIM 0, writePosition = 0, readPosition = 0, keyCount = 0\<rparr>"

section \<open>Operations\<close>

fun index_of :: "u8 \<Rightarrow> u8 list \<Rightarrow> nat \<Rightarrow> nat option" where
  "index_of k [] i = None"
| "index_of k (c # cs) i = (if c = k then Some i else index_of k cs (Suc i))"

definition isMapped :: "u8 \<Rightarrow> nat option" where "isMapped key = index_of key SCAN_CODES 0"

definition cntrl :: "keyboard \<Rightarrow> keyboard" where "cntrl k = k\<lparr>leftCntrl := \<not> leftCntrl k\<rparr>"
definition shift :: "keyboard \<Rightarrow> keyboard" where "shift k = k\<lparr>shiftKey := \<not> shiftKey k\<rparr>"
definition capsLock :: "keyboard \<Rightarrow> keyboard" where "capsLock k = k\<lparr>kb_lock := (if kb_lock k = 0 then 1 else 0)\<rparr>"
definition isArrow :: "nat \<Rightarrow> bool" where "isArrow index \<longleftrightarrow> 51 < index"
definition isCapslock :: "nat \<Rightarrow> bool" where "isCapslock index \<longleftrightarrow> index = 50"

definition toBuff :: "u8 \<Rightarrow> kernel \<Rightarrow> kernel option" where
  "toBuff c s = do {
     let stdin = stdinAt s;
     let dim = bufferDim (bufs s stdin);
     (_, b) \<leftarrow> copyToBuffer (\<lambda>_. c) (Some (bufs s stdin)) auxBuff 1;
     let s1 = buf_result stdin b s;
     if dim = 0 then setBufferReferencesReady stdin s1 else Some s1
   }"

definition column :: "nat \<Rightarrow> u8 \<times> u8 \<Rightarrow> u8" where "column lock row = (if lock = 0 then fst row else snd row)"

text \<open>The part for a mapped key.  The flag tells whether the driver gives up the processor (\<^verbatim>\<open>_int20h\<close>).\<close>

definition typed :: "nat \<Rightarrow> keyboard \<Rightarrow> u8" where
  "typed idx k =
    (if isArrow idx then 0xFF else column (kb_lock k) ((if shiftKey k then SHIFTED else KEYS) ! idx))"

definition press :: "u8 \<Rightarrow> nat \<Rightarrow> keyboard \<Rightarrow> kernel \<Rightarrow> (bool \<times> keyboard \<times> kernel) option" where
  "press key idx k s =
    (if leftCntrl k \<and> key = C_CODE then
       (if getForegroundProcess s \<noteq> NULL
        then do { (_, s1) \<leftarrow> setProcessState (getForegroundProcess s) EXITED s; Some (True, k, s1) }
        else Some (False, k, s))
     else if leftCntrl k \<and> key = D_CODE then do { s1 \<leftarrow> toBuff 0 s; Some (False, k, s1) }
     else if isCapslock idx then Some (False, capsLock k, s)
     else
       let item = column (kb_lock k) ((if shiftKey k then SHIFTED else KEYS) ! idx) in
       if item = 9 \<and> shiftKey k then Some (False, k, s)
       else do { s1 \<leftarrow> toBuff (typed idx k) s; Some (False, k, s1) })"

definition addKey :: "u8 \<Rightarrow> keyboard \<Rightarrow> kernel \<Rightarrow> (bool \<times> keyboard \<times> kernel) option" where
  "addKey key k s =
    (if 0x80 < key then
       (if key = R_SHIFT + 0x80 \<or> key = L_SHIFT + 0x80 then Some (False, shift k, s)
        else if key = L_CNTRL + 0x80 then Some (False, cntrl k, s)
        else Some (False, k, s))
     else if key = R_SHIFT \<or> key = L_SHIFT then Some (False, shift k, s)
     else if key = L_CNTRL then Some (False, cntrl k, s)
     else case isMapped key of
            None \<Rightarrow> Some (False, k, s)
          | Some idx \<Rightarrow> press key idx k s)"

text \<open>The driver's own ring of keys, which nothing fills; \<^verbatim>\<open>-1\<close> as a character is 0xFF.\<close>

definition isBuffEmpty :: "keyboard \<Rightarrow> bool" where "isBuffEmpty k \<longleftrightarrow> keyCount k < 1"

definition read_ring :: "(keyboard \<Rightarrow> u8 list) \<Rightarrow> keyboard \<Rightarrow> u8 \<times> keyboard" where
  "read_ring ring k =
    (if isBuffEmpty k then (0xFF, k)
     else (ring k ! (unat (readPosition k) mod BUFFER_DIM),
           k\<lparr>keyCount := keyCount k - 1, readPosition := readPosition k + 1\<rparr>))"

definition readKeyboardBuffer :: "keyboard \<Rightarrow> u8 \<times> keyboard" where "readKeyboardBuffer = read_ring kBuff"
definition gameRead :: "keyboard \<Rightarrow> u8 \<times> keyboard" where "gameRead = read_ring sBuff"

definition resetBuffer :: "keyboard \<Rightarrow> keyboard" where
  "resetBuffer k = k\<lparr>kBuff := replicate BUFFER_DIM 0, sBuff := replicate BUFFER_DIM 0, readPosition := 0,
                    writePosition := 0, keyCount := 0\<rparr>"

fun find_char :: "u8 \<Rightarrow> nat list \<Rightarrow> u8" where
  "find_char c [] = 0xFF"
| "find_char c (i # is) =
     (if fst (KEYS ! i) = c \<or> snd (KEYS ! i) = c \<or> fst (SHIFTED ! i) = c \<or> snd (SHIFTED ! i) = c
      then SCAN_CODES ! i else find_char c is)"

definition getScanCode :: "u8 \<Rightarrow> u8" where "getScanCode c = find_char c [0..<CODES]"

end
