(* ===== verification/CString.thy ===== *)
theory CString
  imports Lib "HOL-Library.List_Lexorder"
begin

text \<open>
  The string routines of \<^verbatim>\<open>Kernel/string.c\<close> on byte memory.  A \<open>char\<close> is a byte here; the range
  tests of the code give the same answer for bytes read as signed characters.  A loop over a
  string without a terminator does not return and has no result.  String indices and lengths
  are taken to stay below the range of \<open>int\<close>.
\<close>

section \<open>Comparison, case and length\<close>

partial_function (option) stringCompare :: "bytes \<Rightarrow> ptr \<Rightarrow> ptr \<Rightarrow> int option" where
  "stringCompare m str1 str2 =
    (if m str1 \<noteq> m str2 then Some (if m str1 < m str2 then - 1 else 1)
     else if m str1 = 0 then Some 0
     else stringCompare m (str1 + 1) (str2 + 1))"

fun ncompare_loop :: "bytes \<Rightarrow> ptr \<Rightarrow> ptr \<Rightarrow> nat \<Rightarrow> int" where
  "ncompare_loop m str1 str2 0 = 0"
| "ncompare_loop m str1 str2 (Suc n) =
    (if m str1 \<noteq> m str2 then (if m str1 < m str2 then - 1 else 1)
     else if m str1 = 0 then 0
     else ncompare_loop m (str1 + 1) (str2 + 1) n)"

definition stringnCompare :: "bytes \<Rightarrow> ptr \<Rightarrow> ptr \<Rightarrow> u64 \<Rightarrow> int" where
  "stringnCompare m str1 str2 count = ncompare_loop m str1 str2 (unat count)"

partial_function (option) map_str :: "(u8 \<Rightarrow> u8) \<Rightarrow> bytes \<Rightarrow> ptr \<Rightarrow> bytes option" where
  "map_str f m str = (if m str = 0 then Some m else map_str f (m(str := f (m str))) (str + 1))"

definition upper_char :: "u8 \<Rightarrow> u8" where "upper_char c = (if 97 \<le> c \<and> c \<le> 122 then c - 32 else c)"
definition lower_char :: "u8 \<Rightarrow> u8" where "lower_char c = (if 65 \<le> c \<and> c \<le> 90 then c + 32 else c)"

definition toUpper :: "bytes \<Rightarrow> ptr \<Rightarrow> bytes option" where "toUpper m str = map_str upper_char m str"
definition toLower :: "bytes \<Rightarrow> ptr \<Rightarrow> bytes option" where "toLower m str = map_str lower_char m str"

partial_function (option) length_loop :: "bytes \<Rightarrow> ptr \<Rightarrow> nat \<Rightarrow> nat option" where
  "length_loop m str n = (if m (str + of_nat n) = 0 then Some n else length_loop m str (Suc n))"

definition stringLength :: "bytes \<Rightarrow> ptr \<Rightarrow> u64 option" where
  "stringLength m str = map_option of_nat (length_loop m str 0)"

text \<open>The kernel's version returns the start of the string, not the place of the character.\<close>

partial_function (option) occurs :: "bytes \<Rightarrow> ptr \<Rightarrow> u8 \<Rightarrow> nat \<Rightarrow> bool option" where
  "occurs m str c i =
    (if m (str + of_nat i) = 0 then Some False else if m (str + of_nat i) = c then Some True
     else occurs m str c (Suc i))"

definition firstOcurrence :: "bytes \<Rightarrow> ptr \<Rightarrow> u8 \<Rightarrow> ptr option" where
  "firstOcurrence m str c = map_option (\<lambda>b. if b then str else NULL) (occurs m str c 0)"

section \<open>Copying\<close>

text \<open>
  \<^verbatim>\<open>while((*temp++ = *source++) != '\0' || destSize-- != 0);\<close> only counts \<open>destSize\<close> down at a
  terminator, and goes on behind it until the count is used up.
\<close>

partial_function (option) copy_loop :: "bytes \<Rightarrow> ptr \<Rightarrow> int \<Rightarrow> ptr \<Rightarrow> bytes option" where
  "copy_loop m temp destSize source =
    (let m1 = m(temp := m source) in
     if m source \<noteq> 0 then copy_loop m1 (temp + 1) destSize (source + 1)
     else if destSize \<noteq> 0 then copy_loop m1 (temp + 1) (destSize - 1) (source + 1)
     else Some (m1(temp + 1 := 0)))"

definition stringCopy :: "bytes \<Rightarrow> ptr \<Rightarrow> int \<Rightarrow> ptr \<Rightarrow> (ptr \<times> bytes) option" where
  "stringCopy m dest destSize source = map_option (Pair dest) (copy_loop m dest destSize source)"

text \<open>The loop of \<^verbatim>\<open>stringnCopy\<close> runs until one of the two counts is zero; negative counts overflow.\<close>

fun ncopy_loop :: "nat \<Rightarrow> bytes \<Rightarrow> ptr \<Rightarrow> ptr \<Rightarrow> bytes" where
  "ncopy_loop 0 m temp src = m(temp := 0)"
| "ncopy_loop (Suc n) m temp src =
     ncopy_loop n (m(temp := m src)) (temp + 1) (if m src \<noteq> 0 then src + 1 else src)"

definition stringnCopy :: "bytes \<Rightarrow> ptr \<Rightarrow> int \<Rightarrow> ptr \<Rightarrow> int \<Rightarrow> (ptr \<times> bytes) option" where
  "stringnCopy m dest destSize src count =
    (if destSize < 0 \<and> count < 0 then None
     else let n = (if destSize < 0 then count else if count < 0 then destSize else min destSize count)
          in Some (dest, ncopy_loop (nat n) m dest src))"

section \<open>Numbers\<close>

definition isCharNum :: "u8 \<Rightarrow> bool" where "isCharNum c \<longleftrightarrow> 48 \<le> c \<and> c \<le> 57"

definition charToNum :: "u8 \<Rightarrow> int" where "charToNum c = (if isCharNum c then uint c - 48 else 0)"

text \<open>
  The number is computed in a \<open>double\<close>, which is exact up to 2 to the 53rd; a longer number has no
  result here.
\<close>

definition exact :: "int \<Rightarrow> int option" where "exact x = (if x \<le> 2 ^ 53 then Some x else None)"

partial_function (option) to_num_loop :: "bytes \<Rightarrow> ptr \<Rightarrow> int \<Rightarrow> int option" where
  "to_num_loop m str num =
    (if m str = 0 then Some num
     else if \<not> isCharNum (m str) then Some 0
     else do { n1 \<leftarrow> exact (num * 10 + charToNum (m str)); to_num_loop m (str + 1) n1 })"

definition stringToNum :: "bytes \<Rightarrow> ptr \<Rightarrow> int option" where
  "stringToNum m str =
    (if m str = 45 then map_option uminus (to_num_loop m (str + 1) 0) else to_num_loop m str 0)"

text \<open>\<^verbatim>\<open>while(aux > 0){ aux /= base; digitcount++; }\<close>\<close>

function digit_count :: "nat \<Rightarrow> nat \<Rightarrow> nat" where
  "digit_count base n = (if n = 0 \<or> base < 2 then 0 else Suc (digit_count base (n div base)))"
  by auto
termination by (relation "measure snd") auto

declare digit_count.simps [simp del]

fun put_digits :: "ptr \<Rightarrow> nat \<Rightarrow> nat \<Rightarrow> nat \<Rightarrow> bytes \<Rightarrow> bytes" where
  "put_digits buffer pos 0 num m = m"
| "put_digits buffer pos (Suc k) num m =
     put_digits buffer (pos - 1) k (num div 10) (m(buffer + of_nat pos := of_nat (num mod 10 + 48)))"

text \<open>Negating the least \<open>int\<close> overflows.\<close>

definition numToString :: "int \<Rightarrow> ptr \<Rightarrow> int \<Rightarrow> bytes \<Rightarrow> (int \<times> bytes) option" where
  "numToString num buffer bufferSize m =
    (if bufferSize < 2 then Some (0, m)
     else if num = 0 then Some (1, m(buffer := 48, buffer + 1 := 0))
     else if num = - (2 ^ 31) then None
     else let m1 = (if num < 0 then m(buffer := 45) else m);
              isNeg = (if num < 0 then 1 else 0);
              n = nat \<bar>num\<bar>;
              digitcount = digit_count 10 n;
              startPos = digitcount + isNeg - 1
          in if bufferSize < int startPos + 1 then Some (0, m1)
             else Some (int startPos + 1,
                        put_digits buffer startPos digitcount n (m1(buffer + of_nat (startPos + 1) := 0))))"

definition hex_char :: "nat \<Rightarrow> u8" where
  "hex_char r = (if r < 10 then of_nat (48 + r) else of_nat (65 + r))"

text \<open>The digits go to the front of the buffer, the lowest one first, over a sign if there is one.\<close>

fun put_hex :: "ptr \<Rightarrow> nat \<Rightarrow> nat \<Rightarrow> nat \<Rightarrow> bytes \<Rightarrow> bytes" where
  "put_hex buffer i 0 num m = m"
| "put_hex buffer i (Suc k) num m =
     put_hex buffer (Suc i) k (num div 16) (m(buffer + of_nat i := hex_char (num mod 16)))"

definition decToHex :: "int \<Rightarrow> ptr \<Rightarrow> int \<Rightarrow> bytes \<Rightarrow> (int \<times> bytes) option" where
  "decToHex num buffer bufferSize m =
    (if bufferSize < 2 then Some (0, m)
     else if num = 0 then Some (1, m(buffer := 48, buffer + 1 := 0))
     else if num = - (2 ^ 31) then None
     else let m1 = (if num < 0 then m(buffer := 45) else m);
              isNeg = (if num < 0 then 1 else 0);
              n = nat \<bar>num\<bar>;
              digitCount = digit_count 16 n;
              startPos = digitCount + isNeg - 1
          in if bufferSize < int startPos + 1 then Some (0, m1)
             else Some (int startPos + 1,
                        put_hex buffer 0 digitCount n (m1(buffer + of_nat (startPos + 1) := 0))))"

text \<open>
  Without a semicolon after \<^verbatim>\<open>while(str[len++] != '\0')\<close> the swapping loop is its body: the first
  \<open>len\<close> characters are reversed for every \<open>len\<close> from 1 up.
\<close>

definition swap_at :: "bytes \<Rightarrow> ptr \<Rightarrow> nat \<Rightarrow> nat \<Rightarrow> bytes" where
  "swap_at m str i j = m(str + of_nat i := m (str + of_nat j), str + of_nat j := m (str + of_nat i))"

definition swap_prefix :: "ptr \<Rightarrow> nat \<Rightarrow> bytes \<Rightarrow> bytes" where
  "swap_prefix str len m = fold (\<lambda>i m. swap_at m str i (len - i - 1)) [0..<len div 2] m"

partial_function (option) reverse_loop :: "ptr \<Rightarrow> nat \<Rightarrow> bytes \<Rightarrow> bytes option" where
  "reverse_loop str len m =
    (if m (str + of_nat len) = 0 then Some m
     else reverse_loop str (Suc len) (swap_prefix str (Suc len) m))"

definition stringReverse :: "ptr \<Rightarrow> bytes \<Rightarrow> (ptr \<times> bytes) option" where
  "stringReverse str m = (if str = NULL then Some (NULL, m) else map_option (Pair str) (reverse_loop str 0 m))"

end
