(* ===== verification/CStringProps.thy ===== *)
theory CStringProps
  imports CString
begin

text \<open>What the string routines of the kernel do, on strings as lists of bytes.\<close>

section \<open>Strings in memory\<close>

fun cstr :: "bytes \<Rightarrow> ptr \<Rightarrow> u8 list \<Rightarrow> bool" where
  "cstr m p [] = (m p = 0)"
| "cstr m p (c # cs) = (m p = c \<and> c \<noteq> 0 \<and> cstr m (p + 1) cs)"

lemma cstr_iff:
  "cstr m p xs \<longleftrightarrow> (\<forall>i<length xs. m (p + of_nat i) = xs ! i) \<and> 0 \<notin> set xs \<and> m (p + of_nat (length xs)) = 0"
proof (induction xs arbitrary: p)
  case Nil
  then show ?case by simp
next
  case (Cons x xs)
  have "(\<forall>i<length (x # xs). m (p + of_nat i) = (x # xs) ! i) \<longleftrightarrow>
      m p = x \<and> (\<forall>i<length xs. m (p + 1 + of_nat i) = xs ! i)"
    unfolding All_less_Suc2 length_Cons by (simp add: algebra_simps)
  moreover have "p + of_nat (length (x # xs)) = p + 1 + of_nat (length xs)" by (simp add: algebra_simps)
  moreover have "cstr m p (x # xs) \<longleftrightarrow> m p = x \<and> x \<noteq> 0 \<and> cstr m (p + 1) xs" by simp
  ultimately show ?case unfolding Cons [of "p + 1"] list.set insert_iff by metis
qed

lemma cstr_cong: "(\<And>i. i \<le> length xs \<Longrightarrow> m' (p + of_nat i) = m (p + of_nat i)) \<Longrightarrow> cstr m' p xs = cstr m p xs"
  unfolding cstr_iff by auto

lemma cstr_unique: "cstr m p xs \<Longrightarrow> cstr m p ys \<Longrightarrow> xs = ys"
proof (induction xs arbitrary: p ys)
  case Nil
  then show ?case by (cases ys) auto
next
  case (Cons x xs)
  then show ?case by (cases ys) auto
qed

section \<open>Comparing\<close>

lemma stringCompare_ok:
  assumes "cstr m p xs" "cstr m q ys"
  shows "stringCompare m p q = Some (if xs = ys then 0 else if xs < ys then - 1 else 1)"
  using assms
proof (induction xs arbitrary: p q ys)
  case Nil
  then show ?case by (cases ys) (auto simp: stringCompare.simps [of m p q] word_gt_0)
next
  case (Cons x xs)
  show ?case
  proof (cases ys)
    case Nil
    then show ?thesis using Cons.prems by (auto simp: stringCompare.simps [of m p q] word_gt_0 not_less)
  next
    case (Cons y zs)
    then show ?thesis using Cons.IH [of "p + 1" "q + 1" zs] Cons.prems
      by (auto simp: stringCompare.simps [of m p q])
  qed
qed

text \<open> (C30)
  \<^verbatim>\<open>stringCompare\<close> returns on strings and is the lexicographic order of the bytes: 0 exactly
  for equal strings, -1 when the first is smaller, 1 when it is larger.
\<close>

theorem stringCompare_is_order:
  assumes "cstr m p xs" "cstr m q ys"
  shows "stringCompare m p q = Some (if xs = ys then 0 else if xs < ys then - 1 else 1)"
  using assms by (rule stringCompare_ok)

lemma stringCompare_is_order_witness:
  "stringCompare (tbl 0 [(1, 65), (2, 66), (9, 65), (10, 67)]) 1 9 = Some (- 1)"
  using stringCompare_is_order [of "tbl 0 [(1, 65), (2, 66), (9, 65), (10, 67)]" 1 "[65, 66]" 9 "[65, 67]"]
  by (simp add: tbl_eval)

lemma stringCompare_0: "cstr m p xs \<Longrightarrow> cstr m q ys \<Longrightarrow> stringCompare m p q = Some 0 \<longleftrightarrow> xs = ys"
  by (simp add: stringCompare_ok)

section \<open>Numbers and digits\<close>

text \<open>The decimal notation of a number, and of an integer.\<close>

fun decimal :: "nat \<Rightarrow> u8 list" where
  "decimal n = (if n < 10 then [of_nat (48 + n)] else decimal (n div 10) @ [of_nat (48 + n mod 10)])"

declare decimal.simps [simp del]

definition decimal_int :: "int \<Rightarrow> u8 list" where
  "decimal_int n = (if n < 0 then 45 # decimal (nat (- n)) else decimal (nat n))"

lemma digit_char: "d < 10 \<Longrightarrow> unat (of_nat (48 + d) :: u8) = 48 + d"
  by (simp add: unat_of_nat del: of_nat_add)

lemma decimal_chars: "c \<in> set (decimal n) \<Longrightarrow> isCharNum c \<and> c \<noteq> 0 \<and> c \<noteq> 45"
proof (induction n rule: decimal.induct)
  case (1 n)
  have d: "isCharNum (of_nat (48 + d)) \<and> (of_nat (48 + d) :: u8) \<noteq> 0 \<and> (of_nat (48 + d) :: u8) \<noteq> 45" if "d < 10" for d
    using digit_char [OF that] that by (auto simp: isCharNum_def word_le_nat_alt word_unat_eq_iff simp del: unat_inj of_nat_add)
  show ?case
  proof (cases "n < 10")
    case True
    then show ?thesis using 1 d [of n] by (simp add: decimal.simps [of n] del: of_nat_add)
  next
    case False
    then have "c \<in> set (decimal (n div 10)) \<or> c = of_nat (48 + n mod 10)"
      using "1.prems" by (auto simp: decimal.simps [of n] simp del: of_nat_add)
    then show ?thesis using "1.IH" [OF False] d [of "n mod 10"] by (auto simp del: of_nat_add)
  qed
qed

fun digits :: "nat \<Rightarrow> nat \<Rightarrow> u8 list" where
  "digits 0 n = []"
| "digits (Suc k) n = digits k (n div 10) @ [of_nat (n mod 10 + 48)]"

lemma length_digits [simp]: "length (digits k n) = k"
  by (induction k arbitrary: n) auto

lemma digits_decimal: "0 < n \<Longrightarrow> digits (digit_count 10 n) n = decimal n"
proof (induction n rule: decimal.induct)
  case (1 n)
  show ?case
  proof (cases "n < 10")
    case True
    then have "digit_count 10 n = Suc 0" using 1 by (simp add: digit_count.simps [of 10 n] digit_count.simps [of 10 0])
    then show ?thesis using True by (simp add: decimal.simps add.commute)
  next
    case False
    then have "digit_count 10 n = Suc (digit_count 10 (n div 10))" by (subst digit_count.simps) simp
    then show ?thesis using "1.IH" False decimal.simps [of n] by (simp add: add.commute)
  qed
qed

lemma decimal_length: "n < 10 ^ Suc k \<Longrightarrow> length (decimal n) \<le> Suc k"
proof (induction k arbitrary: n)
  case 0
  then show ?case by (simp add: decimal.simps)
next
  case (Suc k)
  have "n div 10 < 10 ^ Suc k" using Suc.prems by (simp add: less_mult_imp_div_less mult.commute)
  then show ?case using Suc.IH [of "n div 10"] by (simp add: decimal.simps [of n])
qed

lemma decimal_nonempty: "0 < length (decimal n)"
  by (simp add: decimal.simps)

text \<open>The digits as they are put into the buffer.\<close>

lemma put_digits_out:
  "(\<And>i. i \<le> pos \<Longrightarrow> a \<noteq> buffer + of_nat i) \<Longrightarrow> put_digits buffer pos k n m a = m a"
  by (induction k arbitrary: pos n m) auto

lemma put_digits_bytes:
  "s + k \<le> 2 ^ 64 \<Longrightarrow>
     (\<forall>i<k. put_digits buffer (s + k - 1) k n m (buffer + of_nat (s + i)) = digits k n ! i) \<and>
     (\<forall>j<2 ^ 64. j < s \<or> s + k \<le> j \<longrightarrow> put_digits buffer (s + k - 1) k n m (buffer + of_nat j) = m (buffer + of_nat j))"
proof (induction k arbitrary: n m)
  case 0
  then show ?case by simp
next
  case (Suc k)
  define v :: u8 where "v = of_nat (n mod 10 + 48)"
  let ?m = "m(buffer + of_nat (s + k) := v)"
  have p: "s + k \<le> 2 ^ 64" using Suc.prems by simp
  have dg: "digits (Suc k) n = digits k (n div 10) @ [v]" by (simp add: v_def)
  have e: "put_digits buffer (s + Suc k - 1) (Suc k) n m = put_digits buffer (s + k - 1) k (n div 10) ?m"
    by (simp add: v_def del: of_nat_add)
  have IH: "\<And>i. i < k \<Longrightarrow> put_digits buffer (s + k - 1) k (n div 10) ?m (buffer + of_nat (s + i)) = digits k (n div 10) ! i"
    "\<And>j. j < 2 ^ 64 \<Longrightarrow> j < s \<or> s + k \<le> j \<Longrightarrow>
       put_digits buffer (s + k - 1) k (n div 10) ?m (buffer + of_nat j) = ?m (buffer + of_nat j)"
    using Suc.IH [OF p, of "n div 10" ?m] by blast+
  show ?case unfolding e
  proof (intro conjI allI impI)
    fix i assume "i < Suc k"
    show "put_digits buffer (s + k - 1) k (n div 10) ?m (buffer + of_nat (s + i)) = digits (Suc k) n ! i"
      unfolding dg using IH(1) [of i] IH(2) [of "s + k"] Suc.prems \<open>i < Suc k\<close>
      by (cases "i = k") (simp_all add: nth_append del: of_nat_add)
  next
    fix j assume j: "j < 2 ^ 64" "j < s \<or> s + Suc k \<le> j"
    have "buffer + of_nat j \<noteq> buffer + of_nat (s + k)"
      using of_nat_u64_inj [of j "s + k"] j Suc.prems by (auto simp del: of_nat_add)
    then show "put_digits buffer (s + k - 1) k (n div 10) ?m (buffer + of_nat j) = m (buffer + of_nat j)"
      using IH(2) [OF j(1)] j(2) by (metis Suc_leD add_Suc_right fun_upd_other)
  qed
qed

section \<open>Printing and reading numbers\<close>

lemma numToString_ok:
  assumes n: "- (2 ^ 31) < num" "num < 2 ^ 31" and sz: "2 \<le> bufferSize" "int (length (decimal_int num)) \<le> bufferSize"
  shows "\<exists>m'. numToString num buffer bufferSize m = Some (int (length (decimal_int num)), m') \<and>
    cstr m' buffer (decimal_int num)"
proof (cases "num = 0")
  case True
  have "decimal_int num = [48]" by (simp add: True decimal_int_def decimal.simps)
  then show ?thesis using True sz by (simp add: numToString_def)
next
  case False
  define d where "d = digit_count 10 (nat \<bar>num\<bar>)"
  define s :: nat where "s = (if num < 0 then 1 else 0)"
  define N where "N = nat \<bar>num\<bar>"
  define m1 where "m1 = (if num < 0 then m(buffer := 45) else m)"
  define m2 where "m2 = m1(buffer + of_nat (s + d) := 0)"
  have N: "0 < N" "N < 10 ^ Suc 9" using False n by (auto simp: N_def)
  have dig: "digits d N = decimal N" using digits_decimal [OF N(1)] by (simp add: d_def N_def)
  then have d: "d = length (decimal N)" by (metis length_digits)
  have d10: "0 < d" "d \<le> 10" using decimal_length [OF N(2)] decimal_nonempty [of N] by (simp_all add: d)
  have di: "decimal_int num = (if num < 0 then [45] else []) @ decimal N"
    by (auto simp: decimal_int_def N_def)
  then have len: "length (decimal_int num) = s + d" by (simp add: s_def d)
  have pos: "d + s - 1 + 1 = s + d" using d10 by simp
  let ?m' = "put_digits buffer (s + d - 1) d N m2"
  have run: "numToString num buffer bufferSize m = Some (int (s + d), ?m')"
  proof -
    have "\<not> bufferSize < int (d + s - 1) + 1" "\<not> bufferSize < 2" using sz len d10 by (auto simp: of_nat_diff)
    moreover have "int (d + s - 1) + 1 = int (s + d)" using d10 by (simp add: of_nat_diff)
    ultimately show ?thesis
      unfolding numToString_def Let_def d_def [symmetric] s_def [symmetric] N_def [symmetric] m1_def [symmetric] pos
      using False n by (simp add: m2_def N_def d_def add.commute)
  qed
  have p: "s + d \<le> 2 ^ 64" using d10 by (simp add: s_def)
  have b: "\<And>i. i < d \<Longrightarrow> ?m' (buffer + of_nat (s + i)) = decimal N ! i"
    "\<And>j. j < 2 ^ 64 \<Longrightarrow> j < s \<or> s + d \<le> j \<Longrightarrow> ?m' (buffer + of_nat j) = m2 (buffer + of_nat j)"
    using put_digits_bytes [OF p, of buffer N m2, unfolded dig] by blast+
  have "cstr ?m' buffer (decimal_int num)" unfolding cstr_iff len
  proof (intro conjI allI impI)
    fix i assume i: "i < s + d"
    show "?m' (buffer + of_nat i) = decimal_int num ! i"
    proof (cases "i < s")
      case True
      then have i0: "i = 0" "num < 0" by (auto simp: s_def split: if_splits)
      have "buffer \<noteq> buffer + of_nat (s + d)" using of_nat_u64_inj [of 0 "s + d"] d10 i0
        by (simp add: s_def del: of_nat_add)
      then have "m2 buffer = 45" using i0 by (simp add: m2_def m1_def del: of_nat_add)
      then show ?thesis using b(2) [of 0] i0 by (simp add: s_def di)
    next
      case False
      then show ?thesis using b(1) [of "i - s"] i by (simp add: di s_def nth_append split: if_splits)
    qed
  next
    show "0 \<notin> set (decimal_int num)" using decimal_chars by (auto simp: di)
  next
    show "?m' (buffer + of_nat (s + d)) = 0" using b(2) [of "s + d"] d10 by (simp add: m2_def s_def del: of_nat_add)
  qed
  then show ?thesis using run len by auto
qed

lemma charToNum_digit: "d < 10 \<Longrightarrow> charToNum (of_nat (48 + d)) = int d"
proof -
  assume d: "d < 10"
  have "isCharNum (of_nat (48 + d))"
    using digit_char [OF d] d by (simp add: isCharNum_def word_le_nat_alt del: of_nat_add)
  moreover have "uint (of_nat (48 + d) :: u8) = int (48 + d)"
    using digit_char [OF d] by (metis uint_nat)
  ultimately show ?thesis by (simp add: charToNum_def del: of_nat_add)
qed

lemma value_decimal: "foldl (\<lambda>v c. v * 10 + charToNum c) 0 (decimal n) = int n"
proof (induction n rule: decimal.induct)
  case (1 n)
  show ?case
  proof (cases "n < 10")
    case True
    then show ?thesis using charToNum_digit [OF True] by (simp add: decimal.simps [of n] del: of_nat_add)
  next
    case False
    have "n mod 10 < 10" by simp
    then have "foldl (\<lambda>v c. v * 10 + charToNum c) 0 (decimal n) = int (n div 10) * 10 + int (n mod 10)"
      using "1.IH" [OF False] False charToNum_digit [of "n mod 10"] by (simp add: decimal.simps [of n] del: of_nat_add)
    also have "\<dots> = int n" by (metis div_mult_mod_eq of_nat_add of_nat_mult of_nat_numeral)
    finally show ?thesis .
  qed
qed

lemma charToNum_ge: "0 \<le> charToNum c"
  by (auto simp: charToNum_def isCharNum_def word_le_def)

lemma foldl_value_ge: "0 \<le> v \<Longrightarrow> v \<le> foldl (\<lambda>v c. v * 10 + charToNum c) v cs"
proof (induction cs arbitrary: v)
  case Nil
  then show ?case by simp
next
  case (Cons c cs)
  have "v \<le> v * 10 + charToNum c" using Cons.prems charToNum_ge [of c] by linarith
  then show ?case using Cons.IH [of "v * 10 + charToNum c"] Cons.prems by simp
qed

lemma to_num_loop_ok:
  "cstr m p cs \<Longrightarrow> \<forall>c\<in>set cs. isCharNum c \<Longrightarrow> 0 \<le> v \<Longrightarrow>
     foldl (\<lambda>v c. v * 10 + charToNum c) v cs \<le> 2 ^ 53 \<Longrightarrow>
     to_num_loop m p v = Some (foldl (\<lambda>v c. v * 10 + charToNum c) v cs)"
proof (induction cs arbitrary: p v)
  case Nil
  then show ?case by (simp add: to_num_loop.simps)
next
  case (Cons c cs)
  have ge: "0 \<le> v * 10 + charToNum c" using Cons.prems(3) charToNum_ge [of c] by simp
  then have "v * 10 + charToNum c \<le> 2 ^ 53" using foldl_value_ge [OF ge, of cs] Cons.prems(4) by simp
  then show ?case using Cons.IH [of "p + 1" "v * 10 + charToNum c"] Cons.prems ge
    by (subst to_num_loop.simps) (simp add: exact_def)
qed

text \<open> (C29)
  Printing a number and reading it back gives the number: for every 32-bit integer but the least
  one, when its notation and the terminator fit in the buffer, \<^verbatim>\<open>numToString\<close> leaves the decimal
  notation as a string in the buffer and \<^verbatim>\<open>stringToNum\<close> reads the number from it.
\<close>

theorem number_roundtrip:
  assumes "- (2 ^ 31) < num" "num < 2 ^ 31" "int (length (decimal_int num)) < bufferSize"
  shows "\<exists>m'. numToString num buffer bufferSize m = Some (int (length (decimal_int num)), m') \<and>
    cstr m' buffer (decimal_int num) \<and> stringToNum m' buffer = Some num"
proof -
  have "0 < length (decimal_int num)" using decimal_nonempty by (simp add: decimal_int_def)
  then have two: "2 \<le> bufferSize" using assms(3) by linarith
  obtain m' where m': "numToString num buffer bufferSize m = Some (int (length (decimal_int num)), m')"
    "cstr m' buffer (decimal_int num)"
    using numToString_ok [OF assms(1,2) two, of buffer m] assms(3) by auto
  have dec: "\<forall>c\<in>set (decimal n). isCharNum c" for n using decimal_chars by blast
  have rd: "to_num_loop m' q 0 = Some (int n)" if "cstr m' q (decimal n)" "int n \<le> 2 ^ 53" for q n
    using to_num_loop_ok [OF that(1) dec, of 0] that(2) by (simp add: value_decimal)
  have "stringToNum m' buffer = Some num"
  proof (cases "num < 0")
    case True
    then have "m' buffer = 45" "cstr m' (buffer + 1) (decimal (nat (- num)))"
      using m'(2) by (simp_all add: decimal_int_def)
    then show ?thesis using rd [of "buffer + 1" "nat (- num)"] True assms(1) by (simp add: stringToNum_def)
  next
    case False
    then have c: "cstr m' buffer (decimal (nat num))" using m'(2) by (simp add: decimal_int_def)
    moreover have "m' buffer \<noteq> 45" using c decimal_chars [of "m' buffer" "nat num"] decimal_nonempty [of "nat num"]
      by (cases "decimal (nat num)") auto
    ultimately show ?thesis using rd [of buffer "nat num"] False assms(2) by (simp add: stringToNum_def)
  qed
  then show ?thesis using m' by blast
qed

lemma number_roundtrip_witness:
  "\<exists>m'. numToString (- 407) 0x100 10 (\<lambda>_. 0) = Some (4, m') \<and> cstr m' 0x100 [45, 52, 48, 55] \<and>
    stringToNum m' 0x100 = Some (- 407)"
proof -
  have "decimal_int (- 407) = [45, 52, 48, 55]" by (simp add: decimal_int_def decimal.simps)
  then show ?thesis using number_roundtrip [of "- 407" 10 "0x100" "\<lambda>_. 0"] by simp
qed

text \<open>
  The size check of \<^verbatim>\<open>numToString\<close> forgets the terminator: when the notation fills the buffer,
  the byte behind the buffer is overwritten with zero.
\<close>

theorem numToString_overruns:
  assumes "- (2 ^ 31) < num" "num < 2 ^ 31" "2 \<le> bufferSize" "int (length (decimal_int num)) = bufferSize"
  shows "\<exists>m'. numToString num buffer bufferSize m = Some (bufferSize, m') \<and> m' (buffer + of_int bufferSize) = 0"
proof -
  obtain m' where m': "numToString num buffer bufferSize m = Some (int (length (decimal_int num)), m')"
    "cstr m' buffer (decimal_int num)"
    using numToString_ok [OF assms(1,2,3)] assms(4) by auto
  moreover have "of_nat (length (decimal_int num)) = (of_int bufferSize :: ptr)" using assms(4) by (metis of_int_of_nat_eq)
  ultimately show ?thesis using assms(4) unfolding cstr_iff by auto
qed

lemma numToString_overruns_witness:
  "\<exists>m'. numToString 42 0x100 2 (\<lambda>_. 7) = Some (2, m') \<and> m' 0x102 = 0"
proof -
  have "decimal_int 42 = [52, 50]" by (simp add: decimal_int_def decimal.simps)
  then show ?thesis using numToString_overruns [of 42 2 "0x100" "\<lambda>_. 7"] by simp
qed

section \<open>\<^verbatim>\<open>stringReverse\<close>\<close>

text \<open>What repeatedly reversing ever longer prefixes gives.\<close>

fun zigzag :: "u8 list \<Rightarrow> u8 list \<Rightarrow> u8 list" where
  "zigzag acc [] = acc"
| "zigzag acc (c # cs) = zigzag (c # rev acc) cs"

lemma set_zigzag: "set (zigzag acc cs) = set acc \<union> set cs"
  by (induction acc cs rule: zigzag.induct) auto

lemma length_zigzag: "length (zigzag acc cs) = length acc + length cs"
  by (induction acc cs rule: zigzag.induct) auto

text \<open>The memory as seen from the start of the string.\<close>

lemma swap_at_view:
  assumes "i < 2 ^ 64" "j < 2 ^ 64" "n < 2 ^ 64"
  shows "swap_at m str i j (str + of_nat n) =
    (if n = j then m (str + of_nat i) else if n = i then m (str + of_nat j) else m (str + of_nat n))"
  using of_nat_u64_inj [of n i] of_nat_u64_inj [of n j] assms by (simp add: swap_at_def)

lemma swap_fold_view:
  assumes "2 * j \<le> len" "len < 2 ^ 64" "n < 2 ^ 64"
  shows "fold (\<lambda>i m. swap_at m str i (len - i - 1)) [0..<j] m (str + of_nat n) =
    (if n < j \<or> len - j \<le> n \<and> n < len then m (str + of_nat (len - 1 - n)) else m (str + of_nat n))"
  using assms
proof (induction j arbitrary: n)
  case 0
  then show ?case by auto
next
  case (Suc j)
  let ?m = "fold (\<lambda>i m. swap_at m str i (len - i - 1)) [0..<j] m"
  have IH: "?m (str + of_nat k) = (if k < j \<or> len - j \<le> k \<and> k < len then m (str + of_nat (len - 1 - k)) else m (str + of_nat k))"
    if "k < 2 ^ 64" for k using Suc.IH [of k] Suc.prems that by simp
  have jl: "j < 2 ^ 64" "len - j - 1 < 2 ^ 64" using Suc.prems by auto
  have "fold (\<lambda>i m. swap_at m str i (len - i - 1)) [0..<Suc j] m (str + of_nat n) =
      (if n = len - j - 1 then ?m (str + of_nat j) else if n = j then ?m (str + of_nat (len - j - 1)) else ?m (str + of_nat n))"
    using swap_at_view [OF jl Suc.prems(3), of ?m str] by simp
  also have "\<dots> = (if n < Suc j \<or> len - Suc j \<le> n \<and> n < len then m (str + of_nat (len - 1 - n)) else m (str + of_nat n))"
  proof (cases "n = len - j - 1 \<or> n = j")
    case True
    then show ?thesis using IH [OF jl(1)] IH [OF jl(2)] Suc.prems by auto
  next
    case False
    then have "n < Suc j \<or> len - Suc j \<le> n \<and> n < len \<longleftrightarrow> n < j \<or> len - j \<le> n \<and> n < len"
      using Suc.prems by auto
    then show ?thesis using False IH [OF Suc.prems(3)] by simp
  qed
  finally show ?case .
qed

lemma swap_prefix_view:
  assumes "len < 2 ^ 64" "n < 2 ^ 64"
  shows "swap_prefix str len m (str + of_nat n) =
    (if n < len then m (str + of_nat (len - 1 - n)) else m (str + of_nat n))"
proof -
  have "swap_prefix str len m (str + of_nat n) =
    (if n < len div 2 \<or> len - len div 2 \<le> n \<and> n < len then m (str + of_nat (len - 1 - n)) else m (str + of_nat n))"
    unfolding swap_prefix_def by (rule swap_fold_view) (use assms in auto)
  moreover have "len - 1 - n = n \<and> n < len" if "\<not> n < len div 2" "\<not> len - len div 2 \<le> n" using that by presburger
  moreover have "n < len" if "n < len div 2" using that by simp
  ultimately show ?thesis by metis
qed

lemma reverse_loop_ok:
  assumes "length acc + length cs < 2 ^ 64 - 1"
    and "\<And>i. i < length acc \<Longrightarrow> m (str + of_nat i) = acc ! i" and "cstr m (str + of_nat (length acc)) cs" and "0 \<notin> set acc"
  shows "\<exists>m'. reverse_loop str (length acc) m = Some m' \<and> cstr m' str (zigzag acc cs)"
  using assms
proof (induction cs arbitrary: acc m)
  case Nil
  then have "m (str + of_nat (length acc)) = 0" by simp
  moreover have "cstr m str acc" using Nil unfolding cstr_iff by simp
  ultimately show ?case by (subst reverse_loop.simps) simp
next
  case (Cons c cs)
  let ?k = "length acc"
  let ?m = "swap_prefix str (Suc ?k) m"
  have k: "Suc ?k < 2 ^ 64" using Cons.prems(1) by simp
  have c: "m (str + of_nat ?k) = c" "c \<noteq> 0" using Cons.prems(3) by simp_all
  have len: "length (c # rev acc) = Suc ?k" by simp
  have "?m (str + of_nat i) = (c # rev acc) ! i" if "i < Suc ?k" for i
    using swap_prefix_view [OF k, of i str m] Cons.prems(2) [of "?k - i"] c(1) that k
    by (cases i) (auto simp: rev_nth)
  moreover have "cstr ?m (str + of_nat (Suc ?k)) cs"
  proof -
    have "?m (str + of_nat (Suc ?k) + of_nat i) = m (str + of_nat (Suc ?k) + of_nat i)" if "i \<le> length cs" for i
      using swap_prefix_view [OF k, of "Suc ?k + i" str m] that Cons.prems(1) by (simp add: algebra_simps)
    moreover have "cstr m (str + of_nat (Suc ?k)) cs" using Cons.prems(3) by (simp add: algebra_simps)
    ultimately show ?thesis using cstr_cong [of cs ?m] by blast
  qed
  ultimately have "\<exists>m'. reverse_loop str (Suc ?k) ?m = Some m' \<and> cstr m' str (zigzag (c # rev acc) cs)"
    using Cons.IH [of "c # rev acc" ?m, unfolded len] Cons.prems(1,4) c(2) by auto
  then show ?case using c by (subst reverse_loop.simps) simp
qed

text \<open>
  \<^verbatim>\<open>stringReverse\<close> does not reverse: it returns, and leaves the string that results from
  reversing the first one, two, three and so on characters in turn (\<open>abc\<close> becomes \<open>cab\<close>).
\<close>

theorem stringReverse_zigzags:
  assumes "cstr m str xs" "str \<noteq> NULL" "length xs < 2 ^ 31"
  shows "\<exists>m'. stringReverse str m = Some (str, m') \<and> cstr m' str (zigzag [] xs)"
  using reverse_loop_ok [of "[]" xs m str] assms by (auto simp: stringReverse_def)

lemma stringReverse_zigzags_witness:
  "\<exists>m'. stringReverse 1 (tbl 0 [(1, 97), (2, 98), (3, 99)]) = Some (1, m') \<and> cstr m' 1 [99, 97, 98]"
  using stringReverse_zigzags [of "tbl 0 [(1, 97), (2, 98), (3, 99)]" 1 "[97, 98, 99]"] by (simp add: tbl_eval)

end
