(* ===== verification/Sync.thy ===== *)
theory Sync
  imports CStringProps FreeListRuns
begin

text \<open>
  The named semaphores of \<^verbatim>\<open>Kernel/ipcRelated/sync.c\<close> with the lock routines of
  \<^verbatim>\<open>Kernel/asm/semaphore.asm\<close>: a linked list of semaphores found by name.
\<close>

section \<open>Data\<close>

record semaphore_t =
  sem_name :: ptr
  currentValue :: u64
  mutex :: u64

record semNode =
  semaphore :: semaphore_t
  nextNode :: ptr

text \<open>
  \<^verbatim>\<open>semaphoreQueue\<close>, the global \<^verbatim>\<open>sem\<close>, and the memory of nodes.  The C code passes the address of
  the semaphore's mutex as second argument, in register \<open>rsi\<close>; the assembly takes its lock word
  from the address in \<open>rdx\<close>, which is whatever the caller left there.  \<open>rdx_word\<close> is the word at that
  address when the routine runs.
\<close>

record sync =
  q_head :: ptr
  q_tail :: ptr
  sem_global :: "ptr \<times> u64"
  semNodes :: "ptr \<Rightarrow> semNode"
  rdx_word :: u64
  sync_mm :: mm_globals
  names :: bytes

definition snext :: "sync \<Rightarrow> ptr \<Rightarrow> ptr" where "snext s a = nextNode (semNodes s a)"
definition sname :: "sync \<Rightarrow> ptr \<Rightarrow> ptr" where "sname s a = sem_name (semaphore (semNodes s a))"

definition upd_sem :: "ptr \<Rightarrow> (semNode \<Rightarrow> semNode) \<Rightarrow> sync \<Rightarrow> sync" where
  "upd_sem a f s = s\<lparr>semNodes := (semNodes s)(a := f (semNodes s a))\<rparr>"

section \<open>The lock routines\<close>

text \<open>
  One attempt: the exchange takes the word, and a word already taken makes the process give up
  the processor and try again later.
\<close>

datatype attempt = Retry | Return

definition semLock :: "u64 \<Rightarrow> u64 \<Rightarrow> attempt \<times> u64 \<times> u64" where
  "semLock value word =
    (if word \<noteq> 0 then (Retry, value, 1)
     else if value = 0 then (Return, value, 0)
     else (Return, value - 1, 0))"

definition semUnlock :: "u64 \<Rightarrow> u64 \<Rightarrow> attempt \<times> u64 \<times> u64" where
  "semUnlock value word = (if word \<noteq> 0 then (Retry, value, 1) else (Return, value + 1, 0))"

section \<open>Finding, opening and closing\<close>

text \<open>The first node is compared for equality, the others for inequality.\<close>

partial_function (option) get_loop :: "ptr \<Rightarrow> sync \<Rightarrow> ptr \<Rightarrow> ptr option" where
  "get_loop semId s aux =
    (if snext s aux = NULL then Some NULL
     else do {
       c \<leftarrow> stringCompare (names s) (sname s (snext s aux)) semId;
       if c \<noteq> 0 then Some (snext s aux) else get_loop semId s (snext s aux)
     })"

definition getSemById :: "ptr \<Rightarrow> sync \<Rightarrow> ptr option" where
  "getSemById semId s = do {
     first \<leftarrow> (if q_head s = NULL then Some 1 else stringCompare (names s) (sname s (q_head s)) semId);
     if q_head s \<noteq> NULL \<and> first = 0 then Some (q_head s) else get_loop semId s (q_head s)
   }"

text \<open>The search of \<^verbatim>\<open>semOpen\<close> leaves out the last node.\<close>

partial_function (option) open_loop :: "ptr \<Rightarrow> sync \<Rightarrow> ptr \<Rightarrow> bool option" where
  "open_loop semId s aux =
    (if snext s aux = NULL then Some False
     else do {
       c \<leftarrow> stringCompare (names s) (sname s aux) semId;
       if c = 0 then Some True else open_loop semId s (snext s aux)
     })"

definition new_sem :: "ptr \<Rightarrow> u64 \<Rightarrow> semNode" where
  "new_sem semId value = \<lparr>semaphore = \<lparr>sem_name = semId, currentValue = value, mutex = 0\<rparr>, nextNode = NULL\<rparr>"

definition semOpen :: "ptr \<Rightarrow> u64 \<Rightarrow> sync \<Rightarrow> (u64 \<times> sync) option" where
  "semOpen semId value s = do {
     let s1 = s\<lparr>sem_global := (semId, value)\<rparr>;
     if q_head s1 = NULL then do {
       (n, g) \<leftarrow> allocSemaphore (sync_mm s1);
       Some (0, upd_sem n (\<lambda>_. new_sem semId value) (s1\<lparr>sync_mm := g, q_head := n, q_tail := n\<rparr>))
     }
     else do {
       found \<leftarrow> open_loop semId s1 (q_head s1);
       if found then Some (0, s1)
       else do {
         (n, g) \<leftarrow> allocSemaphore (sync_mm s1);
         let s2 = upd_sem (q_tail s1) (\<lambda>x. x\<lparr>nextNode := n\<rparr>) (s1\<lparr>sync_mm := g\<rparr>);
         Some (0, upd_sem n (\<lambda>_. new_sem semId value) s2)
       }
     }
   }"

partial_function (option) close_loop :: "ptr \<Rightarrow> sync \<Rightarrow> ptr \<Rightarrow> ptr option" where
  "close_loop semId s aux =
    (if snext s aux = NULL then Some aux
     else do {
       c \<leftarrow> stringCompare (names s) (sname s (snext s aux)) semId;
       if c \<noteq> 0 then close_loop semId s (snext s aux) else Some aux
     })"

text \<open>The node that is freed is the one after the node taken out.\<close>

definition semClose :: "ptr \<Rightarrow> sync \<Rightarrow> (u64 \<times> sync) option" where
  "semClose semId s = do {
     aux \<leftarrow> close_loop semId s (q_head s);
     if snext s aux = NULL then Some (- 1, s)
     else do {
       let s1 = upd_sem aux (\<lambda>x. x\<lparr>nextNode := snext s (snext s aux)\<rparr>) s;
       Some (1, s1\<lparr>sync_mm := freeSemaphore (snext s1 aux) (sync_mm s1)\<rparr>)
     }
   }"

section \<open>Waiting and posting\<close>

text \<open>
  One pass of a lock routine over the semaphore at \<open>p\<close>, and one attempt of a call: the value to
  return, or \<open>None\<close> when the routine has to be repeated.
\<close>

definition lock_pass :: "(u64 \<Rightarrow> u64 \<Rightarrow> attempt \<times> u64 \<times> u64) \<Rightarrow> ptr \<Rightarrow> sync \<Rightarrow> u64 option \<times> sync" where
  "lock_pass lock p s =
    (let (r, v, w) = lock (currentValue (semaphore (semNodes s p))) (rdx_word s);
         s1 = upd_sem p (\<lambda>x. x\<lparr>semaphore := (semaphore x)\<lparr>currentValue := v\<rparr>\<rparr>) (s\<lparr>rdx_word := w\<rparr>)
     in (if r = Return then Some 0 else None, s1))"

definition sem_attempt :: "(u64 \<Rightarrow> u64 \<Rightarrow> attempt \<times> u64 \<times> u64) \<Rightarrow> ptr \<Rightarrow> sync \<Rightarrow> (u64 option \<times> sync) option" where
  "sem_attempt lock semId s = do {
     p \<leftarrow> getSemById semId s;
     if p = NULL then Some (Some (- 1), s) else Some (lock_pass lock p s)
   }"

definition semWait :: "ptr \<Rightarrow> sync \<Rightarrow> (u64 option \<times> sync) option" where
  "semWait = sem_attempt semLock"

definition semPost :: "ptr \<Rightarrow> sync \<Rightarrow> (u64 option \<times> sync) option" where
  "semPost = sem_attempt semUnlock"

section \<open>Lemmas\<close>

definition sname_is :: "sync \<Rightarrow> ptr \<Rightarrow> u8 list \<Rightarrow> bool" where
  "sname_is s a xs \<longleftrightarrow> cstr (names s) (sname s a) xs"

lemma compare_name:
  "sname_is s a xs \<Longrightarrow> cstr (names s) semId ys \<Longrightarrow>
     \<exists>c. stringCompare (names s) (sname s a) semId = Some c \<and> (c = 0 \<longleftrightarrow> xs = ys)"
  by (auto simp: sname_is_def stringCompare_ok)

text \<open>The value of the semaphore at \<open>p\<close>, and the state with other values.\<close>

definition value_of :: "ptr \<Rightarrow> sync \<Rightarrow> u64" where "value_of p s = currentValue (semaphore (semNodes s p))"

definition with_value :: "ptr \<Rightarrow> u64 \<Rightarrow> u64 \<Rightarrow> sync \<Rightarrow> sync" where
  "with_value p v w s = upd_sem p (\<lambda>x. x\<lparr>semaphore := (semaphore x)\<lparr>currentValue := v\<rparr>\<rparr>) (s\<lparr>rdx_word := w\<rparr>)"

lemma with_value_simps [simp]:
  "value_of p (with_value p v w s) = v" "q_head (with_value p v w s) = q_head s"
  "names (with_value p v w s) = names s" "snext (with_value p v w s) = snext s" "sname (with_value p v w s) = sname s"
  "a \<noteq> p \<Longrightarrow> semNodes (with_value p v w s) a = semNodes s a"
  by (auto simp: with_value_def value_of_def upd_sem_def snext_def sname_def fun_eq_iff)

text \<open>A lookup reads the links and the names only.\<close>

lemma get_loop_cong:
  assumes "snext s' = snext s" "sname s' = sname s" "names s' = names s" "get_loop semId s aux = Some p"
  shows "get_loop semId s' aux = Some p"
proof -
  have "snext s' = snext s \<and> sname s' = sname s \<and> names s' = names s \<longrightarrow> get_loop semId s' aux = Some p"
  proof (rule get_loop.raw_induct [OF _ assms(4)])
    fix loop semId s aux p
    assume "\<And>semId s aux p. loop semId s aux = Some p \<Longrightarrow>
        snext s' = snext s \<and> sname s' = sname s \<and> names s' = names s \<longrightarrow> get_loop semId s' aux = Some p"
      and "(if snext s aux = NULL then Some NULL
        else Option.bind (stringCompare (names s) (sname s (snext s aux)) semId)
          (\<lambda>c. if c \<noteq> 0 then Some (snext s aux) else loop semId s (snext s aux))) = Some p"
    then show "snext s' = snext s \<and> sname s' = sname s \<and> names s' = names s \<longrightarrow> get_loop semId s' aux = Some p"
      by (subst get_loop.simps) (auto split: if_splits bind_splits)
  qed
  then show ?thesis using assms(1-3) by blast
qed

lemma getSemById_cong:
  assumes "snext s' = snext s" "sname s' = sname s" "names s' = names s" "q_head s' = q_head s"
    and "getSemById semId s = Some p"
  shows "getSemById semId s' = Some p"
  using assms get_loop_cong [OF assms(1-3)] by (auto simp: getSemById_def split: if_splits bind_splits)

section \<open>Counting\<close>

text \<open>
  An attempt of a call comes with the word the lock routine finds where \<open>rdx\<close> points at that time:
  nothing in the C code sets that register, so it may be any word.
\<close>

datatype sem_op = Wait | Post

fun sem_run :: "(sem_op \<times> u64) list \<Rightarrow> ptr \<Rightarrow> sync \<Rightarrow> (u64 option list \<times> sync) option" where
  "sem_run [] semId s = Some ([], s)"
| "sem_run ((op, w) # ops) semId s = do {
     let s0 = s\<lparr>rdx_word := w\<rparr>;
     (r, s1) \<leftarrow> (case op of Wait \<Rightarrow> semWait semId s0 | Post \<Rightarrow> semPost semId s0);
     (rs, s2) \<leftarrow> sem_run ops semId s1;
     Some (r # rs, s2)
   }"

text \<open>The counter a semaphore stands for; a wait at zero leaves it alone.\<close>

fun counted :: "sem_op list \<Rightarrow> nat \<Rightarrow> nat" where
  "counted [] v = v"
| "counted (Wait # ops) v = counted ops (v - 1)"
| "counted (Post # ops) v = counted ops (v + 1)"

text \<open>The attempts that find the lock word free.\<close>

definition got_lock :: "(sem_op \<times> u64) list \<Rightarrow> sem_op list" where
  "got_lock ops = map fst (filter (\<lambda>(op, w). w = 0) ops)"

lemma attempt_eq:
  assumes "getSemById semId s = Some p" "p \<noteq> NULL" "s0 = s\<lparr>rdx_word := w\<rparr>"
  shows "semWait semId s0 = Some (if w = 0 then Some 0 else None,
      with_value p (if w = 0 \<and> value_of p s \<noteq> 0 then value_of p s - 1 else value_of p s) (if w = 0 then 0 else 1) s)"
    and "semPost semId s0 = Some (if w = 0 then Some 0 else None,
      with_value p (if w = 0 then value_of p s + 1 else value_of p s) (if w = 0 then 0 else 1) s)"
proof -
  have "getSemById semId s0 = Some p"
    by (rule getSemById_cong [OF _ _ _ _ assms(1)]) (simp_all add: assms(3) snext_def sname_def fun_eq_iff)
  then show "semWait semId s0 = Some (if w = 0 then Some 0 else None,
      with_value p (if w = 0 \<and> value_of p s \<noteq> 0 then value_of p s - 1 else value_of p s) (if w = 0 then 0 else 1) s)"
    "semPost semId s0 = Some (if w = 0 then Some 0 else None,
      with_value p (if w = 0 then value_of p s + 1 else value_of p s) (if w = 0 then 0 else 1) s)"
    using assms(2,3)
    by (auto simp: semWait_def semPost_def sem_attempt_def lock_pass_def semLock_def semUnlock_def with_value_def
        value_of_def upd_sem_def)
qed

lemma found_with_value: "getSemById semId s = Some p \<Longrightarrow> getSemById semId (with_value p v w s) = Some p"
  by (rule getSemById_cong [of _ s]) simp_all

text \<open>What a run leaves behind: the results \<open>rs\<close>, the value \<open>v\<close>, and everything else as it was.\<close>

definition sem_post :: "u64 option list \<Rightarrow> nat \<Rightarrow> ptr \<Rightarrow> ptr \<Rightarrow> sync \<Rightarrow> (u64 option list \<times> sync) option \<Rightarrow> bool" where
  "sem_post rs v semId p s out \<longleftrightarrow> (\<exists>s'. out = Some (rs, s') \<and> unat (value_of p s') = v \<and>
     getSemById semId s' = Some p \<and> (\<forall>a. a \<noteq> p \<longrightarrow> semNodes s' a = semNodes s a))"

lemma sem_run_counts:
  assumes "getSemById semId s = Some p" "p \<noteq> NULL" "unat (value_of p s) + length ops < 2 ^ 64"
  shows "sem_post (map (\<lambda>(op, w). if w = 0 then Some 0 else None) ops) (counted (got_lock ops) (unat (value_of p s)))
    semId p s (sem_run ops semId s)"
  using assms
proof (induction ops arbitrary: s)
  case Nil
  then show ?case by (simp add: sem_post_def got_lock_def)
next
  case (Cons x ops)
  obtain op w where x: "x = (op, w)" by fastforce
  define v where "v = (case op of Wait \<Rightarrow> if w = 0 \<and> value_of p s \<noteq> 0 then value_of p s - 1 else value_of p s
    | Post \<Rightarrow> if w = 0 then value_of p s + 1 else value_of p s)"
  let ?s = "with_value p v (if w = 0 then 0 else 1) s"
  have step: "(case op of Wait \<Rightarrow> semWait semId (s\<lparr>rdx_word := w\<rparr>) | Post \<Rightarrow> semPost semId (s\<lparr>rdx_word := w\<rparr>)) =
      Some (if w = 0 then Some 0 else None, ?s)"
    using attempt_eq [OF Cons.prems(1,2) refl] by (cases op) (simp_all add: v_def)
  have up: "unat (value_of p s + 1) = unat (value_of p s) + 1"
    using Cons.prems(3) unat_plus_fits64 [of "value_of p s" 1] by simp
  have u: "counted (got_lock (x # ops)) (unat (value_of p s)) = counted (got_lock ops) (unat v)"
    using up by (cases op) (auto simp: x v_def got_lock_def unat_minus_one unat_eq_zero)
  have "unat v \<le> unat (value_of p s) + 1"
    using up by (cases op) (auto simp: v_def unat_minus_one)
  then have "sem_post (map (\<lambda>(op, w). if w = 0 then Some 0 else None) ops) (counted (got_lock ops) (unat v))
      semId p ?s (sem_run ops semId ?s)"
    using Cons.IH [OF found_with_value [OF Cons.prems(1)] Cons.prems(2)] Cons.prems(3) by simp
  then obtain s' where "sem_run ops semId ?s = Some (map (\<lambda>(op, w). if w = 0 then Some 0 else None) ops, s')"
    "unat (value_of p s') = counted (got_lock ops) (unat v)" "getSemById semId s' = Some p"
    "\<And>a. a \<noteq> p \<Longrightarrow> semNodes s' a = semNodes s a"
    unfolding sem_post_def by auto
  then show ?case unfolding u using step by (simp add: sem_post_def x Let_def)
qed


definition demo_sync :: sync where
  "demo_sync = \<lparr>q_head = 0x100, q_tail = 0x100, sem_global = (0, 0),
     semNodes = tbl (new_sem NULL 0)
       [(0x100, (new_sem 0x10 1)\<lparr>nextNode := 0x200\<rparr>), (0x200, (new_sem 0x20 1)\<lparr>nextNode := 0x300\<rparr>),
        (0x300, new_sem 0x30 1)],
     rdx_word = 0, sync_mm = one_block_globals,
     names = tbl 0 [(0x10, 97), (0x20, 98), (0x30, 99), (0x40, 100)]\<rparr>"

lemma demo_sync_eval:
  "q_head demo_sync = 0x100" "q_tail demo_sync = 0x100" "rdx_word demo_sync = 0" "sync_mm demo_sync = one_block_globals"
  "semNodes demo_sync 0x100 = (new_sem 0x10 1)\<lparr>nextNode := 0x200\<rparr>"
  "semNodes demo_sync 0x200 = (new_sem 0x20 1)\<lparr>nextNode := 0x300\<rparr>" "semNodes demo_sync 0x300 = new_sem 0x30 1"
  "cstr (names demo_sync) 0x10 [97]" "cstr (names demo_sync) 0x20 [98]" "cstr (names demo_sync) 0x30 [99]"
  "cstr (names demo_sync) 0x40 [100]"
  by (simp_all add: demo_sync_def tbl_eval)

lemma demo_sync_found: "getSemById 0x10 demo_sync = Some 0x100"
  using compare_name [of demo_sync "0x100" "[97]" "0x10" "[97]"] demo_sync_eval(8)
  by (auto simp: getSemById_def demo_sync_eval(1-7) sname_is_def sname_def new_sem_def simp del: cstr.simps)


section \<open>The list of semaphores\<close>

text \<open>
  Looking a semaphore up behind the first one finds the wrong one: with two semaphores, when the
  first has another name than the one asked for, the second is returned if its name is wrong and
  null is returned if its name is right.
\<close>

theorem getSemById_inverted:
  assumes "q_head s \<noteq> NULL" "snext s (q_head s) \<noteq> NULL" "snext s (snext s (q_head s)) = NULL"
    and "cstr (names s) semId zs" and "sname_is s (q_head s) xs" "xs \<noteq> zs" and "sname_is s (snext s (q_head s)) ys"
  shows "getSemById semId s = Some (if ys = zs then NULL else snext s (q_head s))"
proof -
  obtain c where c: "stringCompare (names s) (sname s (q_head s)) semId = Some c" "c \<noteq> 0"
    using compare_name [OF assms(5,4)] assms(6) by auto
  obtain d where d: "stringCompare (names s) (sname s (snext s (q_head s))) semId = Some d" "d = 0 \<longleftrightarrow> ys = zs"
    using compare_name [OF assms(7,4)] by auto
  have g: "getSemById semId s = get_loop semId s (q_head s)" using c assms(1) by (simp add: getSemById_def)
  have "get_loop semId s (snext s (q_head s)) = Some NULL" using assms(3) by (simp add: get_loop.simps)
  then show ?thesis unfolding g get_loop.simps [of semId s "q_head s"] using d assms(2) by simp
qed

text \<open>The first two semaphores of the demonstration state alone.\<close>

definition two_sync :: sync where
  "two_sync = demo_sync\<lparr>semNodes := (semNodes demo_sync)(0x200 := new_sem 0x20 1)\<rparr>"

lemma getSemById_inverted_witness:
  "getSemById 0x40 two_sync = Some 0x200 \<and> getSemById 0x20 two_sync = Some NULL"
proof -
  have n: "q_head two_sync = 0x100" "snext two_sync 0x100 = 0x200" "snext two_sync 0x200 = NULL"
    "sname two_sync 0x100 = 0x10" "sname two_sync 0x200 = 0x20" "names two_sync = names demo_sync"
    by (simp_all add: two_sync_def snext_def sname_def demo_sync_eval(1-7) new_sem_def)
  show ?thesis
    using getSemById_inverted [of two_sync "0x40" "[100]" "[97]" "[98]"]
      getSemById_inverted [of two_sync "0x20" "[98]" "[97]" "[98]"] demo_sync_eval(8-)
    by (simp add: n sname_is_def del: cstr.simps)
qed

lemma open_loop_misses:
  "llist (snext s) p (xs @ [x]) \<Longrightarrow> cstr (names s) semId zs \<Longrightarrow>
     \<forall>a\<in>set xs. \<exists>ys. sname_is s a ys \<and> ys \<noteq> zs \<Longrightarrow> open_loop semId s p = Some False"
proof (induction xs arbitrary: p)
  case Nil
  then show ?case by (auto simp: open_loop.simps)
next
  case (Cons a xs)
  then obtain ys where ys: "sname_is s a ys" "ys \<noteq> zs" by auto
  obtain c where "stringCompare (names s) (sname s a) semId = Some c" "c \<noteq> 0"
    using compare_name [OF ys(1) Cons.prems(2)] ys(2) by auto
  moreover have "p = a" "llist (snext s) (snext s a) (xs @ [x])" using Cons.prems(1) by auto
  moreover have "snext s a \<noteq> NULL" using calculation(4) by (cases xs) auto
  ultimately show ?case using Cons by (subst open_loop.simps) simp
qed

text \<open>
  The tail of the list is never moved, so opening a third semaphore cuts off the ones behind the
  first: with the tail still at the first node, the list is the first node and the new one
  afterwards, whatever followed the first.
\<close>

theorem semOpen_drops_semaphores:
  assumes l: "llist (snext s) (q_head s) (a # rest)" and tail: "q_tail s = a"
    and name: "cstr (names s) semId zs" "\<forall>x\<in>set (butlast (a # rest)). \<exists>ys. sname_is s x ys \<and> ys \<noteq> zs"
    and al: "allocSemaphore (sync_mm s) = Some (n, g)" "n \<noteq> NULL" "n \<notin> set (a # rest)"
  shows "\<exists>s'. semOpen semId v s = Some (0, s') \<and> llist (snext s') (q_head s') [a, n] \<and> q_tail s' = a"
proof -
  let ?s1 = "s\<lparr>sem_global := (semId, v)\<rparr>"
  have h: "q_head s = a" "a \<noteq> NULL" using l by auto
  have f: "snext ?s1 = snext s" "sname ?s1 = sname s" by (auto simp: snext_def sname_def fun_eq_iff)
  have "llist (snext ?s1) (q_head s) (butlast (a # rest) @ [last (a # rest)])"
    using l unfolding f append_butlast_last_id [OF list.distinct(2)] .
  then have o: "open_loop semId ?s1 (q_head s) = Some False"
    by (rule open_loop_misses [where zs = zs]) (use name f in \<open>auto simp: sname_is_def\<close>)
  let ?s2 = "upd_sem n (\<lambda>_. new_sem semId v) (upd_sem a (\<lambda>x. x\<lparr>nextNode := n\<rparr>) (?s1\<lparr>sync_mm := g\<rparr>))"
  have "semOpen semId v s = Some (0, ?s2)"
    using o h al(1) tail by (simp add: semOpen_def)
  moreover have "snext ?s2 a = n" "snext ?s2 n = NULL" "q_head ?s2 = a" "q_tail ?s2 = a"
    using al(3) h tail by (auto simp: snext_def upd_sem_def new_sem_def)
  ultimately show ?thesis using h(2) al(2) by (intro exI [of _ ?s2]) simp
qed

lemma one_block_semaphore: "\<exists>g. allocSemaphore one_block_globals = Some (8000, g)"
  by (simp add: allocSemaphore_def kernelAlloc_def one_block_globals_def fl_eval cong: bind_weak_cong let_weak_cong)

lemma semOpen_drops_semaphores_witness:
  "\<exists>s'. semOpen 0x40 1 demo_sync = Some (0, s') \<and> llist (snext s') (q_head s') [0x100, 8000] \<and> q_tail s' = 0x100"
proof -
  have n: "sname demo_sync 0x100 = 0x10" "sname demo_sync 0x200 = 0x20" "snext demo_sync 0x100 = 0x200"
    "snext demo_sync 0x200 = 0x300" "snext demo_sync 0x300 = NULL"
    by (simp_all add: sname_def snext_def demo_sync_eval(1-7) new_sem_def)
  have "sname_is demo_sync 0x100 [97]" "sname_is demo_sync 0x200 [98]"
    using demo_sync_eval(8-) by (simp_all add: sname_is_def n del: cstr.simps)
  then have "\<forall>x\<in>set (butlast [0x100, 0x200, 0x300]). \<exists>ys. sname_is demo_sync x ys \<and> ys \<noteq> [100]" by auto
  moreover have "llist (snext demo_sync) (q_head demo_sync) [0x100, 0x200, 0x300]"
    by (simp add: n demo_sync_eval(1-7))
  moreover obtain g where "allocSemaphore (sync_mm demo_sync) = Some (8000, g)"
    using one_block_semaphore by (auto simp: demo_sync_eval(1-7))
  ultimately show ?thesis
    using semOpen_drops_semaphores [of demo_sync "0x100" "[0x200, 0x300]" "0x40" "[100]" 8000 g 1] demo_sync_eval(2) demo_sync_eval(11)
    by (simp del: cstr.simps)
qed

text \<open>
  Closing a semaphore that is neither first nor last takes it out of the list but gives back the
  memory of its successor, which stays in the list.
\<close>

theorem semClose_frees_successor:
  assumes l: "llist (snext s) (q_head s) [a, b, c]" and "cstr (names s) semId zs" "sname_is s b zs"
  shows "\<exists>s'. semClose semId s = Some (1, s') \<and> llist (snext s') (q_head s') [a, c] \<and>
    sync_mm s' = freeSemaphore c (sync_mm s)"
proof -
  have n: "q_head s = a" "snext s a = b" "snext s b = c" "snext s c = NULL" "a \<noteq> NULL" "b \<noteq> NULL" "c \<noteq> NULL"
    using l by auto
  have d: "distinct [a, b, c]" using l by (rule llist_distinct)
  have "stringCompare (names s) (sname s b) semId = Some 0"
    using compare_name [OF assms(3,2)] by auto
  then have "close_loop semId s a = Some a" using n by (subst close_loop.simps) simp
  then have "semClose semId s = Some (1, (upd_sem a (\<lambda>x. x\<lparr>nextNode := c\<rparr>) s)\<lparr>sync_mm := freeSemaphore c (sync_mm s)\<rparr>)"
    using n by (simp add: semClose_def Let_def snext_def upd_sem_def)
  moreover have "snext ((upd_sem a (\<lambda>x. x\<lparr>nextNode := c\<rparr>) s)\<lparr>sync_mm := g\<rparr>) = (snext s)(a := c)" for g
    by (auto simp: snext_def upd_sem_def)
  moreover have "q_head ((upd_sem a f s)\<lparr>sync_mm := g\<rparr>) = a" for f g using n by (simp add: upd_sem_def)
  ultimately show ?thesis using n d by auto
qed

lemma semClose_frees_successor_witness:
  "\<exists>s'. semClose 0x20 demo_sync = Some (1, s') \<and> llist (snext s') (q_head s') [0x100, 0x300] \<and>
    sync_mm s' = freeSemaphore 0x300 one_block_globals"
proof -
  have "llist (snext demo_sync) (q_head demo_sync) [0x100, 0x200, 0x300]" "sname demo_sync 0x200 = 0x20"
    by (simp_all add: sname_def snext_def demo_sync_eval(1-7) new_sem_def)
  then show ?thesis
    using semClose_frees_successor [of demo_sync "0x100" "0x200" "0x300" "0x20" "[98]"] demo_sync_eval(4,9)
    by (simp add: sname_is_def del: cstr.simps)
qed

end
