(* ===== verification/Font.thy ===== *)
theory Font
  imports Prelude
begin

text \<open>
  The bitmap font of \<^verbatim>\<open>Kernel/include/font.h\<close>: 32 bytes a character, 2 for each of its 16 rows of
  9 pixels, from the first printable character on.  The table is cut into parts named by the
  code of their first character.
\<close>

definition FIRST_CHAR :: u8 where "FIRST_CHAR = 33"
definition LAST_CHAR :: u8 where "LAST_CHAR = 126"

definition font_33 :: "u8 list" where
  "font_33 = [
     0, 0, 0, 0, 24, 0, 60, 0, 60, 0, 60, 0, 24, 0, 24, 0, 24, 0, 0, 0, 24, 0, 24, 0, 0, 0, 0, 0, 0, 0, 0, 0,
     0, 0, 102, 0, 102, 0, 102, 0, 36, 0, 0, 0, 0, 0, 0, 0, 0, 0, 0, 0, 0, 0, 0, 0, 0, 0, 0, 0, 0, 0, 0, 0,
     0, 0, 0, 0, 0, 0, 54, 0, 54, 0, 127, 0, 54, 0, 54, 0, 54, 0, 127, 0, 54, 0, 54, 0, 0, 0, 0, 0, 0, 0, 0, 0,
     24, 0, 24, 0, 62, 0, 99, 0, 67, 0, 3, 0, 62, 0, 96, 0, 96, 0, 97, 0, 99, 0, 62, 0, 24, 0, 24, 0, 0, 0, 0, 0]"

definition font_37 :: "u8 list" where
  "font_37 = [
     0, 0, 0, 0, 0, 0, 0, 0, 67, 0, 99, 0, 48, 0, 24, 0, 12, 0, 6, 0, 99, 0, 97, 0, 0, 0, 0, 0, 0, 0, 0, 0,
     0, 0, 0, 0, 28, 0, 54, 0, 54, 0, 28, 0, 110, 0, 59, 0, 51, 0, 51, 0, 51, 0, 110, 0, 0, 0, 0, 0, 0, 0, 0, 0,
     0, 0, 12, 0, 12, 0, 12, 0, 6, 0, 0, 0, 0, 0, 0, 0, 0, 0, 0, 0, 0, 0, 0, 0, 0, 0, 0, 0, 0, 0, 0, 0,
     0, 0, 0, 0, 48, 0, 24, 0, 12, 0, 12, 0, 12, 0, 12, 0, 12, 0, 12, 0, 24, 0, 48, 0, 0, 0, 0, 0, 0, 0, 0, 0]"

definition font_41 :: "u8 list" where
  "font_41 = [
     0, 0, 0, 0, 12, 0, 24, 0, 48, 0, 48, 0, 48, 0, 48, 0, 48, 0, 48, 0, 24, 0, 12, 0, 0, 0, 0, 0, 0, 0, 0, 0,
     0, 0, 0, 0, 0, 0, 0, 0, 0, 0, 102, 0, 60, 0, 255, 0, 60, 0, 102, 0, 0, 0, 0, 0, 0, 0, 0, 0, 0, 0, 0, 0,
     0, 0, 0, 0, 0, 0, 0, 0, 0, 0, 24, 0, 24, 0, 126, 0, 24, 0, 24, 0, 0, 0, 0, 0, 0, 0, 0, 0, 0, 0, 0, 0,
     0, 0, 0, 0, 0, 0, 0, 0, 0, 0, 0, 0, 0, 0, 0, 0, 0, 0, 24, 0, 24, 0, 24, 0, 12, 0, 0, 0, 0, 0, 0, 0]"

definition font_45 :: "u8 list" where
  "font_45 = [
     0, 0, 0, 0, 0, 0, 0, 0, 0, 0, 0, 0, 0, 0, 127, 0, 0, 0, 0, 0, 0, 0, 0, 0, 0, 0, 0, 0, 0, 0, 0, 0,
     0, 0, 0, 0, 0, 0, 0, 0, 0, 0, 0, 0, 0, 0, 0, 0, 0, 0, 0, 0, 24, 0, 24, 0, 0, 0, 0, 0, 0, 0, 0, 0,
     0, 0, 0, 0, 0, 0, 0, 0, 64, 0, 96, 0, 48, 0, 24, 0, 12, 0, 6, 0, 3, 0, 1, 0, 0, 0, 0, 0, 0, 0, 0, 0,
     0, 0, 0, 0, 60, 0, 102, 0, 195, 0, 195, 0, 219, 0, 219, 0, 195, 0, 195, 0, 102, 0, 60, 0, 0, 0, 0, 0, 0, 0, 0, 0]"

definition font_49 :: "u8 list" where
  "font_49 = [
     0, 0, 0, 0, 24, 0, 28, 0, 30, 0, 24, 0, 24, 0, 24, 0, 24, 0, 24, 0, 24, 0, 126, 0, 0, 0, 0, 0, 0, 0, 0, 0,
     0, 0, 0, 0, 62, 0, 99, 0, 96, 0, 48, 0, 24, 0, 12, 0, 6, 0, 3, 0, 99, 0, 127, 0, 0, 0, 0, 0, 0, 0, 0, 0,
     0, 0, 0, 0, 62, 0, 99, 0, 96, 0, 96, 0, 60, 0, 96, 0, 96, 0, 96, 0, 99, 0, 62, 0, 0, 0, 0, 0, 0, 0, 0, 0,
     0, 0, 0, 0, 48, 0, 56, 0, 60, 0, 54, 0, 51, 0, 127, 0, 48, 0, 48, 0, 48, 0, 120, 0, 0, 0, 0, 0, 0, 0, 0, 0]"

definition font_53 :: "u8 list" where
  "font_53 = [
     0, 0, 0, 0, 127, 0, 3, 0, 3, 0, 3, 0, 63, 0, 96, 0, 96, 0, 96, 0, 99, 0, 62, 0, 0, 0, 0, 0, 0, 0, 0, 0,
     0, 0, 0, 0, 28, 0, 6, 0, 3, 0, 3, 0, 63, 0, 99, 0, 99, 0, 99, 0, 99, 0, 62, 0, 0, 0, 0, 0, 0, 0, 0, 0,
     0, 0, 0, 0, 127, 0, 99, 0, 96, 0, 96, 0, 48, 0, 24, 0, 12, 0, 12, 0, 12, 0, 12, 0, 0, 0, 0, 0, 0, 0, 0, 0,
     0, 0, 0, 0, 62, 0, 99, 0, 99, 0, 99, 0, 62, 0, 99, 0, 99, 0, 99, 0, 99, 0, 62, 0, 0, 0, 0, 0, 0, 0, 0, 0]"

definition font_57 :: "u8 list" where
  "font_57 = [
     0, 0, 0, 0, 62, 0, 99, 0, 99, 0, 99, 0, 126, 0, 96, 0, 96, 0, 96, 0, 48, 0, 30, 0, 0, 0, 0, 0, 0, 0, 0, 0,
     0, 0, 0, 0, 0, 0, 0, 0, 24, 0, 24, 0, 0, 0, 0, 0, 0, 0, 24, 0, 24, 0, 0, 0, 0, 0, 0, 0, 0, 0, 0, 0,
     0, 0, 0, 0, 0, 0, 0, 0, 24, 0, 24, 0, 0, 0, 0, 0, 0, 0, 24, 0, 24, 0, 12, 0, 0, 0, 0, 0, 0, 0, 0, 0,
     0, 0, 0, 0, 0, 0, 96, 0, 48, 0, 24, 0, 12, 0, 6, 0, 12, 0, 24, 0, 48, 0, 96, 0, 0, 0, 0, 0, 0, 0, 0, 0]"

definition font_61 :: "u8 list" where
  "font_61 = [
     0, 0, 0, 0, 0, 0, 0, 0, 0, 0, 126, 0, 0, 0, 0, 0, 126, 0, 0, 0, 0, 0, 0, 0, 0, 0, 0, 0, 0, 0, 0, 0,
     0, 0, 0, 0, 0, 0, 6, 0, 12, 0, 24, 0, 48, 0, 96, 0, 48, 0, 24, 0, 12, 0, 6, 0, 0, 0, 0, 0, 0, 0, 0, 0,
     0, 0, 0, 0, 62, 0, 99, 0, 99, 0, 48, 0, 24, 0, 24, 0, 24, 0, 0, 0, 24, 0, 24, 0, 0, 0, 0, 0, 0, 0, 0, 0,
     0, 0, 0, 0, 0, 0, 62, 0, 99, 0, 99, 0, 123, 0, 123, 0, 123, 0, 59, 0, 3, 0, 62, 0, 0, 0, 0, 0, 0, 0, 0, 0]"

definition font_65 :: "u8 list" where
  "font_65 = [
     0, 0, 0, 0, 8, 0, 28, 0, 54, 0, 99, 0, 99, 0, 127, 0, 99, 0, 99, 0, 99, 0, 99, 0, 0, 0, 0, 0, 0, 0, 0, 0,
     0, 0, 0, 0, 63, 0, 102, 0, 102, 0, 102, 0, 62, 0, 102, 0, 102, 0, 102, 0, 102, 0, 63, 0, 0, 0, 0, 0, 0, 0, 0, 0,
     0, 0, 0, 0, 60, 0, 102, 0, 67, 0, 3, 0, 3, 0, 3, 0, 3, 0, 67, 0, 102, 0, 60, 0, 0, 0, 0, 0, 0, 0, 0, 0,
     0, 0, 0, 0, 31, 0, 54, 0, 102, 0, 102, 0, 102, 0, 102, 0, 102, 0, 102, 0, 54, 0, 31, 0, 0, 0, 0, 0, 0, 0, 0, 0]"

definition font_69 :: "u8 list" where
  "font_69 = [
     0, 0, 0, 0, 127, 0, 102, 0, 70, 0, 22, 0, 30, 0, 22, 0, 6, 0, 70, 0, 102, 0, 127, 0, 0, 0, 0, 0, 0, 0, 0, 0,
     0, 0, 0, 0, 127, 0, 102, 0, 70, 0, 22, 0, 30, 0, 22, 0, 6, 0, 6, 0, 6, 0, 15, 0, 0, 0, 0, 0, 0, 0, 0, 0,
     0, 0, 0, 0, 60, 0, 102, 0, 67, 0, 3, 0, 3, 0, 123, 0, 99, 0, 99, 0, 102, 0, 92, 0, 0, 0, 0, 0, 0, 0, 0, 0,
     0, 0, 0, 0, 99, 0, 99, 0, 99, 0, 99, 0, 127, 0, 99, 0, 99, 0, 99, 0, 99, 0, 99, 0, 0, 0, 0, 0, 0, 0, 0, 0]"

definition font_73 :: "u8 list" where
  "font_73 = [
     0, 0, 0, 0, 60, 0, 24, 0, 24, 0, 24, 0, 24, 0, 24, 0, 24, 0, 24, 0, 24, 0, 60, 0, 0, 0, 0, 0, 0, 0, 0, 0,
     0, 0, 0, 0, 120, 0, 48, 0, 48, 0, 48, 0, 48, 0, 48, 0, 51, 0, 51, 0, 51, 0, 30, 0, 0, 0, 0, 0, 0, 0, 0, 0,
     0, 0, 0, 0, 103, 0, 102, 0, 102, 0, 54, 0, 30, 0, 30, 0, 54, 0, 102, 0, 102, 0, 103, 0, 0, 0, 0, 0, 0, 0, 0, 0,
     0, 0, 0, 0, 15, 0, 6, 0, 6, 0, 6, 0, 6, 0, 6, 0, 6, 0, 70, 0, 102, 0, 127, 0, 0, 0, 0, 0, 0, 0, 0, 0]"

definition font_77 :: "u8 list" where
  "font_77 = [
     0, 0, 0, 0, 195, 0, 231, 0, 255, 0, 255, 0, 219, 0, 195, 0, 195, 0, 195, 0, 195, 0, 195, 0, 0, 0, 0, 0, 0, 0, 0, 0,
     0, 0, 0, 0, 99, 0, 103, 0, 111, 0, 127, 0, 123, 0, 115, 0, 99, 0, 99, 0, 99, 0, 99, 0, 0, 0, 0, 0, 0, 0, 0, 0,
     0, 0, 0, 0, 62, 0, 99, 0, 99, 0, 99, 0, 99, 0, 99, 0, 99, 0, 99, 0, 99, 0, 62, 0, 0, 0, 0, 0, 0, 0, 0, 0,
     0, 0, 0, 0, 63, 0, 102, 0, 102, 0, 102, 0, 62, 0, 6, 0, 6, 0, 6, 0, 6, 0, 15, 0, 0, 0, 0, 0, 0, 0, 0, 0]"

definition font_81 :: "u8 list" where
  "font_81 = [
     0, 0, 0, 0, 62, 0, 99, 0, 99, 0, 99, 0, 99, 0, 99, 0, 99, 0, 107, 0, 123, 0, 62, 0, 48, 0, 112, 0, 0, 0, 0, 0,
     0, 0, 0, 0, 63, 0, 102, 0, 102, 0, 102, 0, 62, 0, 54, 0, 102, 0, 102, 0, 102, 0, 103, 0, 0, 0, 0, 0, 0, 0, 0, 0,
     0, 0, 0, 0, 62, 0, 99, 0, 99, 0, 6, 0, 28, 0, 48, 0, 96, 0, 99, 0, 99, 0, 62, 0, 0, 0, 0, 0, 0, 0, 0, 0,
     0, 0, 0, 0, 255, 0, 219, 0, 153, 0, 24, 0, 24, 0, 24, 0, 24, 0, 24, 0, 24, 0, 60, 0, 0, 0, 0, 0, 0, 0, 0, 0]"

definition font_85 :: "u8 list" where
  "font_85 = [
     0, 0, 0, 0, 99, 0, 99, 0, 99, 0, 99, 0, 99, 0, 99, 0, 99, 0, 99, 0, 99, 0, 62, 0, 0, 0, 0, 0, 0, 0, 0, 0,
     0, 0, 0, 0, 195, 0, 195, 0, 195, 0, 195, 0, 195, 0, 195, 0, 195, 0, 102, 0, 60, 0, 24, 0, 0, 0, 0, 0, 0, 0, 0, 0,
     0, 0, 0, 0, 195, 0, 195, 0, 195, 0, 195, 0, 195, 0, 219, 0, 219, 0, 255, 0, 102, 0, 102, 0, 0, 0, 0, 0, 0, 0, 0, 0,
     0, 0, 0, 0, 195, 0, 195, 0, 102, 0, 60, 0, 24, 0, 24, 0, 60, 0, 102, 0, 195, 0, 195, 0, 0, 0, 0, 0, 0, 0, 0, 0]"

definition font_89 :: "u8 list" where
  "font_89 = [
     0, 0, 0, 0, 195, 0, 195, 0, 195, 0, 102, 0, 60, 0, 24, 0, 24, 0, 24, 0, 24, 0, 60, 0, 0, 0, 0, 0, 0, 0, 0, 0,
     0, 0, 0, 0, 255, 0, 195, 0, 97, 0, 48, 0, 24, 0, 12, 0, 6, 0, 131, 0, 195, 0, 255, 0, 0, 0, 0, 0, 0, 0, 0, 0,
     0, 0, 0, 0, 60, 0, 12, 0, 12, 0, 12, 0, 12, 0, 12, 0, 12, 0, 12, 0, 12, 0, 60, 0, 0, 0, 0, 0, 0, 0, 0, 0,
     0, 0, 0, 0, 0, 0, 1, 0, 3, 0, 7, 0, 14, 0, 28, 0, 56, 0, 112, 0, 96, 0, 64, 0, 0, 0, 0, 0, 0, 0, 0, 0]"

definition font_93 :: "u8 list" where
  "font_93 = [
     0, 0, 0, 0, 60, 0, 48, 0, 48, 0, 48, 0, 48, 0, 48, 0, 48, 0, 48, 0, 48, 0, 60, 0, 0, 0, 0, 0, 0, 0, 0, 0,
     8, 0, 28, 0, 54, 0, 99, 0, 0, 0, 0, 0, 0, 0, 0, 0, 0, 0, 0, 0, 0, 0, 0, 0, 0, 0, 0, 0, 0, 0, 0, 0,
     0, 0, 0, 0, 0, 0, 0, 0, 0, 0, 0, 0, 0, 0, 0, 0, 0, 0, 0, 0, 0, 0, 0, 0, 0, 0, 255, 0, 0, 0, 0, 0,
     12, 0, 12, 0, 24, 0, 0, 0, 0, 0, 0, 0, 0, 0, 0, 0, 0, 0, 0, 0, 0, 0, 0, 0, 0, 0, 0, 0, 0, 0, 0, 0]"

definition font_97 :: "u8 list" where
  "font_97 = [
     0, 0, 0, 0, 0, 0, 0, 0, 0, 0, 30, 0, 48, 0, 62, 0, 51, 0, 51, 0, 51, 0, 110, 0, 0, 0, 0, 0, 0, 0, 0, 0,
     0, 0, 0, 0, 7, 0, 6, 0, 6, 0, 30, 0, 54, 0, 102, 0, 102, 0, 102, 0, 102, 0, 62, 0, 0, 0, 0, 0, 0, 0, 0, 0,
     0, 0, 0, 0, 0, 0, 0, 0, 0, 0, 62, 0, 99, 0, 3, 0, 3, 0, 3, 0, 99, 0, 62, 0, 0, 0, 0, 0, 0, 0, 0, 0,
     0, 0, 0, 0, 56, 0, 48, 0, 48, 0, 60, 0, 54, 0, 51, 0, 51, 0, 51, 0, 51, 0, 110, 0, 0, 0, 0, 0, 0, 0, 0, 0]"

definition font_101 :: "u8 list" where
  "font_101 = [
     0, 0, 0, 0, 0, 0, 0, 0, 0, 0, 62, 0, 99, 0, 127, 0, 3, 0, 3, 0, 99, 0, 62, 0, 0, 0, 0, 0, 0, 0, 0, 0,
     0, 0, 0, 0, 28, 0, 54, 0, 38, 0, 6, 0, 15, 0, 6, 0, 6, 0, 6, 0, 6, 0, 15, 0, 0, 0, 0, 0, 0, 0, 0, 0,
     0, 0, 0, 0, 0, 0, 0, 0, 0, 0, 110, 0, 51, 0, 51, 0, 51, 0, 51, 0, 51, 0, 62, 0, 48, 0, 51, 0, 30, 0, 0, 0,
     0, 0, 0, 0, 7, 0, 6, 0, 6, 0, 54, 0, 110, 0, 102, 0, 102, 0, 102, 0, 102, 0, 103, 0, 0, 0, 0, 0, 0, 0, 0, 0]"

definition font_105 :: "u8 list" where
  "font_105 = [
     0, 0, 0, 0, 24, 0, 24, 0, 0, 0, 28, 0, 24, 0, 24, 0, 24, 0, 24, 0, 24, 0, 60, 0, 0, 0, 0, 0, 0, 0, 0, 0,
     0, 0, 0, 0, 96, 0, 96, 0, 0, 0, 112, 0, 96, 0, 96, 0, 96, 0, 96, 0, 96, 0, 96, 0, 102, 0, 102, 0, 60, 0, 0, 0,
     0, 0, 0, 0, 7, 0, 6, 0, 6, 0, 102, 0, 54, 0, 30, 0, 30, 0, 54, 0, 102, 0, 103, 0, 0, 0, 0, 0, 0, 0, 0, 0,
     0, 0, 0, 0, 28, 0, 24, 0, 24, 0, 24, 0, 24, 0, 24, 0, 24, 0, 24, 0, 24, 0, 60, 0, 0, 0, 0, 0, 0, 0, 0, 0]"

definition font_109 :: "u8 list" where
  "font_109 = [
     0, 0, 0, 0, 0, 0, 0, 0, 0, 0, 103, 0, 255, 0, 219, 0, 219, 0, 219, 0, 219, 0, 219, 0, 0, 0, 0, 0, 0, 0, 0, 0,
     0, 0, 0, 0, 0, 0, 0, 0, 0, 0, 59, 0, 102, 0, 102, 0, 102, 0, 102, 0, 102, 0, 102, 0, 0, 0, 0, 0, 0, 0, 0, 0,
     0, 0, 0, 0, 0, 0, 0, 0, 0, 0, 62, 0, 99, 0, 99, 0, 99, 0, 99, 0, 99, 0, 62, 0, 0, 0, 0, 0, 0, 0, 0, 0,
     0, 0, 0, 0, 0, 0, 0, 0, 0, 0, 59, 0, 102, 0, 102, 0, 102, 0, 102, 0, 102, 0, 62, 0, 6, 0, 6, 0, 15, 0, 0, 0]"

definition font_113 :: "u8 list" where
  "font_113 = [
     0, 0, 0, 0, 0, 0, 0, 0, 0, 0, 110, 0, 51, 0, 51, 0, 51, 0, 51, 0, 51, 0, 62, 0, 48, 0, 48, 0, 120, 0, 0, 0,
     0, 0, 0, 0, 0, 0, 0, 0, 0, 0, 59, 0, 110, 0, 102, 0, 6, 0, 6, 0, 6, 0, 15, 0, 0, 0, 0, 0, 0, 0, 0, 0,
     0, 0, 0, 0, 0, 0, 0, 0, 0, 0, 62, 0, 99, 0, 6, 0, 28, 0, 48, 0, 99, 0, 62, 0, 0, 0, 0, 0, 0, 0, 0, 0,
     0, 0, 0, 0, 8, 0, 12, 0, 12, 0, 63, 0, 12, 0, 12, 0, 12, 0, 12, 0, 108, 0, 56, 0, 0, 0, 0, 0, 0, 0, 0, 0]"

definition font_117 :: "u8 list" where
  "font_117 = [
     0, 0, 0, 0, 0, 0, 0, 0, 0, 0, 51, 0, 51, 0, 51, 0, 51, 0, 51, 0, 51, 0, 110, 0, 0, 0, 0, 0, 0, 0, 0, 0,
     0, 0, 0, 0, 0, 0, 0, 0, 0, 0, 195, 0, 195, 0, 195, 0, 195, 0, 102, 0, 60, 0, 24, 0, 0, 0, 0, 0, 0, 0, 0, 0,
     0, 0, 0, 0, 0, 0, 0, 0, 0, 0, 195, 0, 195, 0, 195, 0, 219, 0, 219, 0, 255, 0, 102, 0, 0, 0, 0, 0, 0, 0, 0, 0,
     0, 0, 0, 0, 0, 0, 0, 0, 0, 0, 195, 0, 102, 0, 60, 0, 24, 0, 60, 0, 102, 0, 195, 0, 0, 0, 0, 0, 0, 0, 0, 0]"

definition font_121 :: "u8 list" where
  "font_121 = [
     0, 0, 0, 0, 0, 0, 0, 0, 0, 0, 99, 0, 99, 0, 99, 0, 99, 0, 99, 0, 99, 0, 126, 0, 96, 0, 48, 0, 31, 0, 0, 0,
     0, 0, 0, 0, 0, 0, 0, 0, 0, 0, 127, 0, 51, 0, 24, 0, 12, 0, 6, 0, 99, 0, 127, 0, 0, 0, 0, 0, 0, 0, 0, 0,
     0, 0, 0, 0, 112, 0, 24, 0, 24, 0, 24, 0, 14, 0, 24, 0, 24, 0, 24, 0, 24, 0, 112, 0, 0, 0, 0, 0, 0, 0, 0, 0,
     0, 0, 0, 0, 24, 0, 24, 0, 24, 0, 24, 0, 0, 0, 24, 0, 24, 0, 24, 0, 24, 0, 24, 0, 0, 0, 0, 0, 0, 0, 0, 0]"

definition font_125 :: "u8 list" where
  "font_125 = [
     0, 0, 0, 0, 14, 0, 24, 0, 24, 0, 24, 0, 112, 0, 24, 0, 24, 0, 24, 0, 24, 0, 14, 0, 0, 0, 0, 0, 0, 0, 0, 0,
     0, 0, 0, 0, 110, 0, 59, 0, 0, 0, 0, 0, 0, 0, 0, 0, 0, 0, 0, 0, 0, 0, 0, 0, 0, 0, 0, 0, 0, 0, 0, 0]"

definition font :: "u8 list" where
  "font = concat [font_33, font_37, font_41, font_45, font_49, font_53, font_57, font_61, font_65, font_69, font_73, font_77, font_81, font_85, font_89, font_93, font_97, font_101, font_105, font_109, font_113, font_117, font_121, font_125]"

end
