(* ===== verification/Video.thy ===== *)
theory Video
  imports CString Font
begin

text \<open>
  The video driver, \<^verbatim>\<open>Kernel/drivers/video.c\<close>: characters and rectangles drawn into the linear frame
  buffer, which is part of the machine's memory.  The floating point arithmetic behind a line is
  an argument of its model, since the kernel is built for the x87 unit of the processor.
\<close>

section \<open>State\<close>

record Color =
  col_b :: u8
  col_g :: u8
  col_r :: u8

text \<open>The fields of the VBE block that are used, the driver's variables, and the memory.\<close>

record screen =
  scr_width :: u16
  scr_height :: u16
  framebuffer :: u32
  penX :: u16
  penY :: u16
  penColor :: Color
  fontSize :: u8
  num_buffer :: ptr
  vmem :: bytes

definition bytesPerPixel :: u64 where "bytesPerPixel = 3"
definition CHAR_WIDTH :: int where "CHAR_WIDTH = 9"
definition CHAR_HEIGHT :: int where "CHAR_HEIGHT = 16"

text \<open>The size of a character cell in pixels, as the \<open>int\<close> expressions of the code compute it.\<close>

definition cellW :: "screen \<Rightarrow> int" where "cellW v = CHAR_WIDTH * uint (fontSize v)"
definition cellH :: "screen \<Rightarrow> int" where "cellH v = CHAR_HEIGHT * uint (fontSize v)"

definition fb_start :: "screen \<Rightarrow> ptr" where "fb_start v = ucast (framebuffer v)"

definition getPtrToPixel :: "screen \<Rightarrow> u16 \<Rightarrow> u16 \<Rightarrow> ptr" where
  "getPtrToPixel v x y = fb_start v + bytesPerPixel * (ucast x + ucast y * ucast (scr_width v))"

definition put_color :: "ptr \<Rightarrow> Color \<Rightarrow> bytes \<Rightarrow> bytes" where
  "put_color p c m = m(p := col_b c, p + 1 := col_g c, p + 2 := col_r c)"

definition scrGetWidth :: "screen \<Rightarrow> u16" where "scrGetWidth v = scr_width v"
definition scrGetHeight :: "screen \<Rightarrow> u16" where "scrGetHeight v = scr_height v"
definition scrGetPenX :: "screen \<Rightarrow> u16" where "scrGetPenX v = penX v"
definition scrGetPenY :: "screen \<Rightarrow> u16" where "scrGetPenY v = penY v"

section \<open>Pixels and rectangles\<close>

fun clear_loop :: "nat \<Rightarrow> ptr \<Rightarrow> bytes \<Rightarrow> bytes" where
  "clear_loop 0 pos m = m"
| "clear_loop (Suc n) pos m = clear_loop n (pos + 1) (m(pos := 0))"

definition scrClear :: "screen \<Rightarrow> screen" where
  "scrClear v =
    (let len = (3 :: u32) * ucast (scr_width v) * ucast (scr_height v)
     in v\<lparr>vmem := clear_loop (unat len) (fb_start v) (vmem v), penX := 0, penY := 0\<rparr>)"

definition scrSetPixel :: "u16 \<Rightarrow> u16 \<Rightarrow> Color \<Rightarrow> screen \<Rightarrow> screen" where
  "scrSetPixel x y color v =
    (if scr_width v \<le> x \<or> scr_height v \<le> y then v
     else v\<lparr>vmem := put_color (getPtrToPixel v x y) color (vmem v)\<rparr>)"

fun rect_row :: "nat \<Rightarrow> ptr \<Rightarrow> Color \<Rightarrow> bytes \<Rightarrow> bytes" where
  "rect_row 0 p color m = m"
| "rect_row (Suc n) p color m = rect_row n (p + 3) color (put_color p color m)"

text \<open>\<open>adv\<close> pixels are skipped behind each row.\<close>

fun rect_rows :: "nat \<Rightarrow> nat \<Rightarrow> u64 \<Rightarrow> ptr \<Rightarrow> Color \<Rightarrow> bytes \<Rightarrow> bytes" where
  "rect_rows 0 width adv p color m = m"
| "rect_rows (Suc n) width adv p color m =
     rect_rows n width adv (p + 3 * (of_nat width + adv)) color (rect_row width p color m)"

definition scrDrawRect :: "u16 \<Rightarrow> u16 \<Rightarrow> u16 \<Rightarrow> u16 \<Rightarrow> Color \<Rightarrow> screen \<Rightarrow> screen" where
  "scrDrawRect x y width height color v =
    (if scr_width v \<le> x \<or> scr_height v \<le> y then v
     else let w = min width (scr_width v - x);
              h = min height (scr_height v - y);
              adv = ucast (scr_width v - w)
          in v\<lparr>vmem := rect_rows (unat h) (unat w) adv (getPtrToPixel v x y) color (vmem v)\<rparr>)"

text \<open>
  \<open>fpu n d y0 x0 x\<close> is the machine's \<^verbatim>\<open>(uint16_t)(m*x+b + 0.5)\<close> for \<^verbatim>\<open>m = n/d\<close> and \<^verbatim>\<open>b = y0 - m*x0\<close>, computed
  in floating point (with \<open>d = 0\<close> for a line of one point).
\<close>

type_synonym fpu = "int \<Rightarrow> int \<Rightarrow> u16 \<Rightarrow> u16 \<Rightarrow> u16 \<Rightarrow> u16"

definition line_across :: "fpu \<Rightarrow> u16 \<Rightarrow> u16 \<Rightarrow> u16 \<Rightarrow> u16 \<Rightarrow> Color \<Rightarrow> screen \<Rightarrow> screen" where
  "line_across fpu fromX fromY toX toY color v =
    (if scr_width v \<le> fromX then v
     else let end = (if scr_width v \<le> toX then scr_width v - 1 else toX)
          in fold (\<lambda>x. scrSetPixel x (fpu (uint toY - uint fromY) (uint toX - uint fromX) fromY fromX x) color)
               (map of_nat [unat fromX..<Suc (unat end)]) v)"

definition line_down :: "fpu \<Rightarrow> u16 \<Rightarrow> u16 \<Rightarrow> u16 \<Rightarrow> u16 \<Rightarrow> Color \<Rightarrow> screen \<Rightarrow> screen" where
  "line_down fpu fromX fromY toX toY color v =
    (if scr_height v \<le> fromY then v
     else let end = (if scr_height v \<le> toY then scr_height v - 1 else toY)
          in fold (\<lambda>y. scrSetPixel (fpu (uint toX - uint fromX) (uint toY - uint fromY) fromX fromY y) y color)
               (map of_nat [unat fromY..<Suc (unat end)]) v)"

definition scrDrawLine :: "fpu \<Rightarrow> u16 \<Rightarrow> u16 \<Rightarrow> u16 \<Rightarrow> u16 \<Rightarrow> Color \<Rightarrow> screen \<Rightarrow> screen" where
  "scrDrawLine fpu fromX fromY toX toY color =
    (let dx = (if toX < fromX then fromX - toX else toX - fromX);
         dy = (if toY < fromY then fromY - toY else toY - fromY) in
     if dy < dx
     then if toX < fromX then line_across fpu toX toY fromX fromY color
          else line_across fpu fromX fromY toX toY color
     else if toY < fromY then line_down fpu toX toY fromX fromY color
          else line_down fpu fromX fromY toX toY color)"

section \<open>The pen\<close>

definition scrSetPenPosition :: "u16 \<Rightarrow> u16 \<Rightarrow> screen \<Rightarrow> screen" where
  "scrSetPenPosition x y v =
    (let maxX = of_int (uint (scr_width v) - cellW v);
         maxY = of_int (uint (scr_height v) - cellH v)
     in v\<lparr>penX := (if x < maxX then x else maxX), penY := (if y < maxY then y else maxY)\<rparr>)"

definition scrSetPenColor :: "Color \<Rightarrow> screen \<Rightarrow> screen" where
  "scrSetPenColor color v = v\<lparr>penColor := color\<rparr>"

definition scrPrintNewline :: "screen \<Rightarrow> screen" where
  "scrPrintNewline v =
    (let v1 = v\<lparr>penX := 0\<rparr> in
     if uint (penY v) + 2 * cellH v \<le> uint (scr_height v) then v1\<lparr>penY := penY v + of_int (cellH v)\<rparr>
     else let dst = fb_start v;
              src = dst + bytesPerPixel * (of_int (cellH v) * ucast (scr_width v));
              len = bytesPerPixel * (ucast (scr_width v) * of_int (uint (scr_height v) - cellH v));
              m1 = memcpy (vmem v) dst src len
          in v1\<lparr>vmem := memset m1 (dst + len) 0 (bytesPerPixel * ucast (scr_width v) * of_int (cellH v))\<rparr>)"

text \<open>The test that should stop a backspace at the start of the screen compares an unsigned number with zero.\<close>

fun blank_rows :: "nat list \<Rightarrow> screen \<Rightarrow> screen" where
  "blank_rows [] v = v"
| "blank_rows (h # hs) v =
     blank_rows hs (v\<lparr>vmem := rect_row (nat (cellW v)) (getPtrToPixel v (penX v) (penY v + of_nat h))
       \<lparr>col_b = 0, col_g = 0, col_r = 0\<rparr> (vmem v)\<rparr>)"

definition scrBackspace :: "screen \<Rightarrow> screen" where
  "scrBackspace v =
    (let v1 = (if uint (penX v) - cellW v < 0
               then v\<lparr>penX := of_int (uint (scr_width v) - cellW v), penY := penY v - of_int (cellH v)\<rparr>
               else v\<lparr>penX := penX v - of_int (cellW v)\<rparr>)
     in blank_rows [0..<nat (cellH v)] v1)"

section \<open>Characters\<close>

text \<open>
  One row of a glyph: each of the eight bits of the first byte is \<open>fontSize\<close> pixels wide; for the
  ninth the counter is advanced twice in every round in which the pixel is set.
\<close>

fun draw_bit :: "nat \<Rightarrow> bool \<Rightarrow> Color \<Rightarrow> ptr \<Rightarrow> nat \<Rightarrow> bytes \<Rightarrow> bytes" where
  "draw_bit 0 on color pos w m = m"
| "draw_bit (Suc n) on color pos w m =
     draw_bit n on color pos (Suc w) (if on then put_color (pos + 3 * of_nat w) color m else m)"

fun draw_last :: "nat \<Rightarrow> bool \<Rightarrow> Color \<Rightarrow> ptr \<Rightarrow> nat \<Rightarrow> bytes \<Rightarrow> bytes" where
  "draw_last 0 on color pos w m = m"
| "draw_last (Suc n) on color pos w m =
     (if on then draw_last n on color pos (Suc (Suc w)) (put_color (pos + 3 * of_nat w) color m)
      else draw_last n on color pos (Suc w) m)"

definition draw_row :: "nat \<Rightarrow> u8 \<Rightarrow> u8 \<Rightarrow> Color \<Rightarrow> ptr \<Rightarrow> bytes \<Rightarrow> bytes" where
  "draw_row sz d0 d1 color pos m =
    draw_last sz (bit d1 0) color pos (8 * sz)
      (fold (\<lambda>k. draw_bit sz (bit d0 k) color pos (k * sz)) [0..<8] m)"

text \<open>The \<open>fontSize\<close> repetitions of row \<open>h\<close> go to \<open>h * fontSize - j\<close>, upwards, as \<^verbatim>\<open>offset--\<close> has it.\<close>

definition draw_glyph :: "u8 \<Rightarrow> screen \<Rightarrow> screen" where
  "draw_glyph c v =
    (let sz = unat (fontSize v); d = 32 * (unat c - 33) in
     v\<lparr>vmem := fold (\<lambda>(h, j). draw_row sz (font ! (d + 2 * h)) (font ! (d + 2 * h + 1)) (penColor v)
          (getPtrToPixel v (penX v) (of_int (uint (penY v) + int h + int h * (int sz - 1) - int j))))
        [(h, j). h \<leftarrow> [0..<16], j \<leftarrow> [0..<sz]] (vmem v)\<rparr>)"

definition advance_pen :: "screen \<Rightarrow> screen" where
  "advance_pen v =
    (let v1 = v\<lparr>penX := penX v + of_int (cellW v)\<rparr>
     in if uint (scr_width v) - cellW v < uint (penX v1) then scrPrintNewline v1 else v1)"

definition print_plain :: "u8 \<Rightarrow> screen \<Rightarrow> screen" where
  "print_plain c v =
    (if c = 10 then scrPrintNewline v
     else if c = 8 then scrBackspace v
     else advance_pen (if FIRST_CHAR \<le> c \<and> c \<le> LAST_CHAR then draw_glyph c v else v))"

text \<open>A tab prints three blanks.\<close>

definition scrPrintChar :: "u8 \<Rightarrow> screen \<Rightarrow> screen" where
  "scrPrintChar c v =
    (if c = 9 then print_plain 32 (print_plain 32 (print_plain 32 v)) else print_plain c v)"

definition scrPrintCharWithColor :: "u8 \<Rightarrow> Color \<Rightarrow> screen \<Rightarrow> screen" where
  "scrPrintCharWithColor c color v = scrSetPenColor (penColor v) (scrPrintChar c (scrSetPenColor color v))"

partial_function (option) print_loop :: "ptr \<Rightarrow> screen \<Rightarrow> screen option" where
  "print_loop s v = (if vmem v s = 0 then Some v else print_loop (s + 1) (scrPrintChar (vmem v s) v))"

definition scrPrint :: "ptr \<Rightarrow> screen \<Rightarrow> (u32 \<times> screen) option" where
  "scrPrint s v = do {
     v1 \<leftarrow> print_loop s v;
     Some (or (ucast (penX v1)) (push_bit 16 (ucast (penY v1))), v1)
   }"

definition scrPrintStringWithColor :: "ptr \<Rightarrow> Color \<Rightarrow> screen \<Rightarrow> screen option" where
  "scrPrintStringWithColor str color v = do {
     (_, v1) \<leftarrow> scrPrint str (scrSetPenColor color v);
     Some (scrSetPenColor (penColor v) v1)
   }"

definition scrChangeFont :: "u64 \<Rightarrow> screen \<Rightarrow> screen" where
  "scrChangeFont newSize v = (if 0 < newSize \<and> newSize < 6 then v\<lparr>fontSize := ucast newSize\<rparr> else v)"

section \<open>Numbers\<close>

text \<open>The digits are written lowest first, and the string is reversed in place afterwards.\<close>

definition base_char :: "u64 \<Rightarrow> u8" where
  "base_char r = (if r < 10 then ucast r + 48 else ucast r + 55)"

partial_function (option) base_loop :: "u64 \<Rightarrow> u64 \<Rightarrow> ptr \<Rightarrow> nat \<Rightarrow> bytes \<Rightarrow> (nat \<times> bytes) option" where
  "base_loop base value buffer n m =
    (if base = 0 then None
     else let m1 = m(buffer + of_nat n := base_char (value mod base)) in
          if value div base = 0 then Some (Suc n, m1)
          else base_loop base (value div base) buffer (Suc n) m1)"

fun swap_ends :: "nat \<Rightarrow> nat \<Rightarrow> nat \<Rightarrow> ptr \<Rightarrow> bytes \<Rightarrow> bytes" where
  "swap_ends 0 i j buffer m = m"
| "swap_ends (Suc k) i j buffer m = swap_ends k (Suc i) (j - 1) buffer (swap_at m buffer i j)"

definition toBase :: "u64 \<Rightarrow> ptr \<Rightarrow> u32 \<Rightarrow> bytes \<Rightarrow> (u32 \<times> bytes) option" where
  "toBase value buffer base m = do {
     (n, m1) \<leftarrow> base_loop (ucast base) value buffer 0 m;
     Some (of_nat n, swap_ends (n div 2) 0 (n - 1) buffer (m1(buffer + of_nat n := 0)))
   }"

definition scrPrintBase :: "u64 \<Rightarrow> u32 \<Rightarrow> screen \<Rightarrow> screen option" where
  "scrPrintBase value base v = do {
     (_, m) \<leftarrow> toBase value (num_buffer v) base (vmem v);
     (_, v1) \<leftarrow> scrPrint (num_buffer v) (v\<lparr>vmem := m\<rparr>);
     Some v1
   }"

definition scrPrintHex :: "u64 \<Rightarrow> screen \<Rightarrow> screen option" where
  "scrPrintHex value v = scrPrintBase value 16 v"

end
