(* ===== verification/Queues.thy ===== *)
theory Queues
  imports Processes
begin

text \<open>
  The queues as lists.  \<open>queues s Q\<close> relates the linked queues of a state to seven lists of
  nodes; the pointer operations of \<open>Scheduler\<close> are shown to be the list operations their
  names promise.
\<close>

section \<open>The queues of a state\<close>

definition queues :: "kernel \<Rightarrow> (nat \<Rightarrow> ptr list) \<Rightarrow> bool" where
  "queues s Q \<longleftrightarrow> (\<forall>i<7. llist (nxt s) (qhead s i) (Q i)) \<and>
     (\<forall>i<7. \<forall>j<7. i \<noteq> j \<longrightarrow> set (Q i) \<inter> set (Q j) = {})"

definition queued :: "(nat \<Rightarrow> ptr list) \<Rightarrow> ptr set" where
  "queued Q = (\<Union>i<7. set (Q i))"

lemma queuesD:
  assumes "queues s Q" "i < 7"
  shows "llist (nxt s) (qhead s i) (Q i)" and "distinct (Q i)" and "NULL \<notin> set (Q i)"
    and "qhead s i = NULL \<longleftrightarrow> Q i = []"
proof -
  show l: "llist (nxt s) (qhead s i) (Q i)" using assms by (simp add: queues_def)
  show "distinct (Q i)" using l by (rule llist_distinct)
  show "NULL \<notin> set (Q i)" using l by (rule llist_not_null_mem)
  show "qhead s i = NULL \<longleftrightarrow> Q i = []" using l by (cases "Q i") auto
qed

lemma queues_apart: "queues s Q \<Longrightarrow> i < 7 \<Longrightarrow> j < 7 \<Longrightarrow> i \<noteq> j \<Longrightarrow> set (Q i) \<inter> set (Q j) = {}"
  unfolding queues_def by blast

lemma queuesI:
  assumes "\<And>i. i < 7 \<Longrightarrow> llist (nxt s) (qhead s i) (Q i)"
    and "\<And>i j. i < 7 \<Longrightarrow> j < 7 \<Longrightarrow> i \<noteq> j \<Longrightarrow> set (Q i) \<inter> set (Q j) = {}"
  shows "queues s Q"
  using assms unfolding queues_def by blast

lemma queuesI_upd:
  assumes "llist (nxt s) (qhead s i) xs"
    and "\<And>j. j < 7 \<Longrightarrow> j \<noteq> i \<Longrightarrow> llist (nxt s) (qhead s j) (Q j)"
    and "\<And>j. j < 7 \<Longrightarrow> j \<noteq> i \<Longrightarrow> set xs \<inter> set (Q j) = {}"
    and "\<And>j k. j < 7 \<Longrightarrow> k < 7 \<Longrightarrow> j \<noteq> k \<Longrightarrow> set (Q j) \<inter> set (Q k) = {}"
  shows "queues s (Q(i := xs))"
proof (rule queuesI)
  fix j :: nat assume "j < 7"
  then show "llist (nxt s) (qhead s j) ((Q(i := xs)) j)" using assms(1,2) by simp
next
  fix j k :: nat assume "j < 7" "k < 7" "j \<noteq> k"
  then show "set ((Q(i := xs)) j) \<inter> set ((Q(i := xs)) k) = {}"
    using assms(3) [of j] assms(3) [of k] assms(4) [of j k] by (simp add: Int_commute)
qed

lemma queued_upd: "i < 7 \<Longrightarrow> queued (Q(i := xs)) = set xs \<union> (\<Union>j\<in>{..<7} - {i}. set (Q j))"
proof -
  assume "i < 7"
  then have "{..<7} = insert i ({..<7} - {i})" by auto
  then have "queued (Q(i := xs)) = set xs \<union> (\<Union>j\<in>{..<7} - {i}. set ((Q(i := xs)) j))"
    unfolding queued_def by (metis UN_insert fun_upd_same)
  then show ?thesis by auto
qed

lemma queued_split: "i < 7 \<Longrightarrow> queued Q = set (Q i) \<union> (\<Union>j\<in>{..<7} - {i}. set (Q j))"
  by (auto simp: queued_def)

lemma queued_mem: "i < 7 \<Longrightarrow> x \<in> set (Q i) \<Longrightarrow> x \<in> queued Q"
  by (auto simp: queued_def)

lemma queued_null: "queues s Q \<Longrightarrow> NULL \<notin> queued Q"
  using queuesD(3) by (fastforce simp: queued_def)

text \<open>Only the links and the heads of the queues matter.\<close>

lemma queues_cong:
  assumes "\<And>a. a \<in> queued Q \<Longrightarrow> nxt s' a = nxt s a" "\<And>i. i < 7 \<Longrightarrow> qhead s' i = qhead s i"
  shows "queues s' Q = queues s Q"
proof -
  have "llist (nxt s') (qhead s' i) (Q i) = llist (nxt s) (qhead s i) (Q i)" if "i < 7" for i
  proof -
    have "llist (nxt s') (qhead s' i) (Q i) = llist (nxt s) (qhead s' i) (Q i)"
      using assms(1) queued_mem [OF that] by (intro lseg_cong) blast
    then show ?thesis using assms(2) that by simp
  qed
  then show ?thesis by (simp add: queues_def)
qed

lemma upd_node_nodes [simp]: "nodes (upd_node a f s) = (nodes s)(a := f (nodes s a))"
  by (simp add: upd_node_def)

lemma upd_node_qhead [simp]: "qhead (upd_node a f s) = qhead s"
  by (simp add: upd_node_def)

lemma set_next_nxt [simp]: "nxt (set_next a p s) = (nxt s)(a := p)"
  by (auto simp: set_next_def nxt_def)

lemma set_next_qhead [simp]: "qhead (set_next a p s) = qhead s"
  by (simp add: set_next_def)

lemma set_qhead_qhead [simp]: "qhead (set_qhead i p s) = (qhead s)(i := p)"
  by (simp add: set_qhead_def)

lemma set_qhead_nodes [simp]: "nodes (set_qhead i p s) = nodes s" "nxt (set_qhead i p s) = nxt s"
  by (auto simp: set_qhead_def nxt_def)

text \<open>An update of a node that keeps its link.\<close>

lemma nxt_upd_node: "p_next (f (nodes s a)) = p_next (nodes s a) \<Longrightarrow> nxt (upd_node a f s) = nxt s"
  by (auto simp: nxt_def)

lemma queues_upd_node [simp]:
  "p_next (f (nodes s a)) = p_next (nodes s a) \<Longrightarrow> queues (upd_node a f s) Q = queues s Q"
  by (rule queues_cong) (simp_all add: nxt_upd_node)

section \<open>Linking and unlinking\<close>

lemma link_last_eq:
  assumes "queues s Q" "i < 7"
  shows "link_last i n s = Some (if Q i = [] then set_qhead i n s else set_next (last (Q i)) n s)"
proof -
  have "walk_last (nxt s) NULL (qhead s i) = Some (last (NULL # Q i))"
    using queuesD(1) [OF assms] by (rule walk_last_llist)
  moreover have "last (NULL # Q i) = NULL \<longleftrightarrow> Q i = []"
    using queuesD(3) [OF assms] by (cases "Q i = []") (simp, metis last_ConsR last_in_set)
  ultimately show ?thesis by (auto simp: link_last_def)
qed

lemma queues_append:
  assumes q: "queues s Q" and i: "i < 7" and n: "n \<noteq> NULL" "n \<notin> queued Q"
  shows "queues (set_next n NULL (if Q i = [] then set_qhead i n s else set_next (last (Q i)) n s))
    (Q(i := Q i @ [n]))" (is "queues ?s _")
proof -
  have ni: "n \<notin> set (Q j)" if "j < 7" for j using n(2) queued_mem [OF that] by blast
  have "llist (nxt ?s) (qhead ?s i) (Q i @ [n])"
  proof (cases "Q i = []")
    case True
    then show ?thesis using n(1) by simp
  next
    case False
    then have "llist ((nxt s)(last (Q i) := n, n := NULL)) (qhead s i) (Q i @ [n])"
      using queuesD(1) [OF q i] ni [OF i] n(1) by (intro llist_append_last)
    then show ?thesis using False by simp
  qed
  then show ?thesis
  proof (rule queuesI_upd)
    fix j assume j: "j < 7" "j \<noteq> i"
    have "last (Q i) \<notin> set (Q j)" if "Q i \<noteq> []"
      using queues_apart [OF q i j(1)] j(2) last_in_set [OF that] by blast
    then show "llist (nxt ?s) (qhead ?s j) (Q j)"
      using queuesD(1) [OF q j(1)] ni [OF j(1)] j(2) by (cases "Q i = []") auto
    show "set (Q i @ [n]) \<inter> set (Q j) = {}" using queues_apart [OF q i j(1)] j(2) ni [OF j(1)] by auto
  qed (rule queues_apart [OF q])
qed

lemma queues_unlink:
  assumes q: "queues s Q" and i: "i < 7" and Qi: "Q i = as @ x # bs"
  shows "queues (if as = [] then set_qhead i (nxt s x) s else set_next (last as) (nxt s x) s)
    (Q(i := as @ bs))" (is "queues ?s _")
proof -
  have l: "llist (nxt s) (qhead s i) (as @ x # bs)" using queuesD(1) [OF q i] Qi by simp
  have "llist (nxt ?s) (qhead ?s i) (as @ bs)"
  proof (cases "as = []")
    case True
    then show ?thesis using l by simp
  next
    case False
    then show ?thesis using llist_unlink [OF l] by simp
  qed
  then show ?thesis
  proof (rule queuesI_upd)
    fix j assume j: "j < 7" "j \<noteq> i"
    have "last as \<notin> set (Q j)" if "as \<noteq> []"
      using queues_apart [OF q i j(1)] j(2) last_in_set [OF that] Qi by fastforce
    then show "llist (nxt ?s) (qhead ?s j) (Q j)"
      using queuesD(1) [OF q j(1)] j(2) by (cases "as = []") auto
    show "set (as @ bs) \<inter> set (Q j) = {}" using queues_apart [OF q i j(1)] j(2) Qi by auto
  qed (rule queues_apart [OF q])
qed

lemma queued_append: "i < 7 \<Longrightarrow> queued (Q(i := Q i @ [n])) = insert n (queued Q)"
  using queued_upd [of i Q "Q i @ [n]"] queued_split [of i Q] by auto

lemma queued_unlink:
  assumes "queues s Q" "i < 7" "Q i = as @ x # bs"
  shows "queued (Q(i := as @ bs)) = queued Q - {x}"
proof -
  have "x \<notin> (\<Union>j\<in>{..<7} - {i}. set (Q j))"
    using queues_apart [OF assms(1,2)] assms(3) by fastforce
  moreover have "x \<notin> set as" "x \<notin> set bs" using queuesD(2) [OF assms(1,2)] assms(3) by auto
  ultimately show ?thesis
    using queued_upd [OF assms(2), of Q "as @ bs"] queued_split [OF assms(2), of Q] assms(3) by auto
qed

section \<open>What the queue operations do\<close>

text \<open>
  What a process is, apart from its scheduling data (\<open>core\<close>) and apart from its place in a queue
  (\<open>vitals\<close>); and states that differ in queue links,
  quantums and priorities only.
\<close>

definition core :: "PCBNodeCDT \<Rightarrow> PCBNodeCDT" where
  "core n = n\<lparr>p_next := NULL, p_quantums := 0, p_priority := 0, p_state := READY, p_agingInterval := 0,
              p_counterInit := 0, p_manualBlocked := False\<rparr>"

definition vitals :: "kernel \<Rightarrow> ptr \<Rightarrow> PCBNodeCDT \<times> u32 \<times> ProcessState \<times> u64 \<times> bool \<times> bool" where
  "vitals s a = (core (nodes s a), p_id (nodes s a), p_state (nodes s a), p_agingInterval (nodes s a),
                 p_foreground (nodes s a), p_manualBlocked (nodes s a))"

lemma core_fields:
  assumes "core n = core m"
  shows "p_id n = p_id m" "p_stack n = p_stack m" "p_foreground n = p_foreground m" "p_pdTable n = p_pdTable m"
    "p_childsIds n = p_childsIds m" "p_parentId n = p_parentId m" "p_firstAlloc n = p_firstAlloc m"
    "p_memoryFromMM n = p_memoryFromMM m"
  using arg_cong [OF assms, of p_id] arg_cong [OF assms, of p_stack] arg_cong [OF assms, of p_foreground] arg_cong [OF assms, of p_pdTable] arg_cong [OF assms, of p_childsIds]
    arg_cong [OF assms, of p_parentId] arg_cong [OF assms, of p_firstAlloc] arg_cong [OF assms, of p_memoryFromMM]
  by (simp_all add: core_def)

lemma core_upd [simp]:
  "core (n\<lparr>p_next := a\<rparr>) = core n" "core (n\<lparr>p_quantums := q\<rparr>) = core n" "core (n\<lparr>p_priority := b\<rparr>) = core n"
  "core (n\<lparr>p_state := st\<rparr>) = core n" "core (n\<lparr>p_agingInterval := g\<rparr>) = core n" "core (n\<lparr>p_counterInit := c\<rparr>) = core n"
  "core (n\<lparr>p_manualBlocked := mb\<rparr>) = core n"
  by (simp_all add: core_def)

definition requeued :: "kernel \<Rightarrow> kernel \<Rightarrow> bool" where
  "requeued s s' \<longleftrightarrow> vitals s' = vitals s \<and> s'\<lparr>nodes := nodes s, qhead := qhead s\<rparr> = s"

lemma requeued_refl [simp]: "requeued s s"
  by (simp add: requeued_def)

lemma requeued_trans: "requeued s s1 \<Longrightarrow> requeued s1 s2 \<Longrightarrow> requeued s s2"
proof -
  assume a: "requeued s s1" "requeued s1 s2"
  have "s2\<lparr>nodes := nodes s, qhead := qhead s\<rparr> =
      (s2\<lparr>nodes := nodes s1, qhead := qhead s1\<rparr>)\<lparr>nodes := nodes s, qhead := qhead s\<rparr>" by simp
  also have "\<dots> = s" using a by (simp add: requeued_def)
  finally show ?thesis using a by (simp add: requeued_def)
qed

lemma requeuedD:
  assumes "requeued s s'"
  shows "p_id (nodes s' a) = p_id (nodes s a)" "p_state (nodes s' a) = p_state (nodes s a)"
    "p_agingInterval (nodes s' a) = p_agingInterval (nodes s a)"
    "p_foreground (nodes s' a) = p_foreground (nodes s a)"
    "p_manualBlocked (nodes s' a) = p_manualBlocked (nodes s a)"
    "k_current s' = k_current s" "k_idle s' = k_idle s" "k_foreground s' = k_foreground s"
    "timers s' = timers s" "timerList s' = timerList s" "TSCFrequency s' = TSCFrequency s"
    "tsc s' = tsc s" "tscReads s' = tscReads s" "bufs s' = bufs s" "allocs s' = allocs s"
    "mm s' = mm s" "mem s' = mem s"
proof -
  have v: "vitals s' a = vitals s a" using assms by (simp add: requeued_def)
  have k: "s'\<lparr>nodes := nodes s, qhead := qhead s\<rparr> = s" using assms by (simp add: requeued_def)
  show "p_id (nodes s' a) = p_id (nodes s a)" "p_state (nodes s' a) = p_state (nodes s a)"
    "p_agingInterval (nodes s' a) = p_agingInterval (nodes s a)"
    "p_foreground (nodes s' a) = p_foreground (nodes s a)"
    "p_manualBlocked (nodes s' a) = p_manualBlocked (nodes s a)"
    using v by (simp_all add: vitals_def)
  show "k_current s' = k_current s" "k_idle s' = k_idle s" "k_foreground s' = k_foreground s"
    "timers s' = timers s" "timerList s' = timerList s" "TSCFrequency s' = TSCFrequency s"
    "tsc s' = tsc s" "tscReads s' = tscReads s" "bufs s' = bufs s" "allocs s' = allocs s"
    "mm s' = mm s" "mem s' = mem s"
    using arg_cong [OF k, of k_current] arg_cong [OF k, of k_idle] arg_cong [OF k, of k_foreground] arg_cong [OF k, of timers] arg_cong [OF k, of timerList] arg_cong [OF k, of TSCFrequency]
      arg_cong [OF k, of tsc] arg_cong [OF k, of tscReads] arg_cong [OF k, of bufs] arg_cong [OF k, of allocs] arg_cong [OF k, of mm] arg_cong [OF k, of mem]
    by simp_all
qed

lemma requeued_core: "requeued s s' \<Longrightarrow> core (nodes s' a) = core (nodes s a)"
  by (auto simp: requeued_def vitals_def fun_eq_iff)

lemma requeued_set_qhead: "requeued s (set_qhead i p s)"
  by (simp add: requeued_def set_qhead_def vitals_def fun_eq_iff)

lemma requeued_upd_node:
  assumes "vitals (upd_node a f s) a = vitals s a"
  shows "requeued s (upd_node a f s)"
  using assms by (auto simp: requeued_def upd_node_def vitals_def fun_eq_iff)

lemma requeued_set_next: "requeued s (set_next a p s)"
  unfolding set_next_def by (rule requeued_upd_node) (simp add: vitals_def)

lemma requeued_link: "requeued s (if c then set_qhead i n s else set_next a n s)"
  by (simp add: requeued_set_qhead requeued_set_next)

lemma aging_level_less: "aging_level a < 6"
  by (simp add: aging_level_def)

lemma aging_level_7 [simp]: "aging_level a < 7" "aging_level a \<noteq> 6"
  by (simp_all add: aging_level_def)

lemma insertInQueue_ok:
  assumes q: "queues s Q" and n: "n \<noteq> NULL" "n \<notin> queued Q"
    and i: "i = aging_level (p_agingInterval (nodes s n))"
  shows "\<exists>s'. insertInQueue n s = Some s' \<and> queues s' (Q(i := Q i @ [n])) \<and> requeued s s' \<and>
    p_quantums (nodes s' n) = defaultQuantums i \<and> p_priority (nodes s' n) = of_nat i"
proof -
  have i7: "i < 7" using i by simp
  let ?s1 = "if Q i = [] then set_qhead i n s else set_next (last (Q i)) n s"
  let ?f = "\<lambda>x. x\<lparr>p_next := NULL, p_quantums := defaultQuantums i, p_priority := of_nat i\<rparr>"
  have run: "insertInQueue n s = Some (upd_node n ?f ?s1)"
    using link_last_eq [OF q i7] by (simp add: insertInQueue_def i [symmetric])
  have "nxt (upd_node n ?f ?s1) = nxt (set_next n NULL ?s1)" by (auto simp: nxt_def set_next_def)
  then have "queues (upd_node n ?f ?s1) (Q(i := Q i @ [n])) = queues (set_next n NULL ?s1) (Q(i := Q i @ [n]))"
    by (intro queues_cong) simp_all
  then have "queues (upd_node n ?f ?s1) (Q(i := Q i @ [n]))" using queues_append [OF q i7 n] by simp
  moreover have "requeued s (upd_node n ?f ?s1)"
    by (rule requeued_trans [OF requeued_link requeued_upd_node]) (simp add: vitals_def)
  ultimately show ?thesis using run by (intro exI [of _ "upd_node n ?f ?s1"]) simp
qed

lemma insertLast_ok:
  assumes q: "queues s Q" and n: "n \<noteq> NULL" "n \<notin> queued Q"
  shows "\<exists>s'. insertLast n s = Some s' \<and> queues s' (Q(5 := Q 5 @ [n])) \<and> requeued s s'"
proof -
  let ?s1 = "if Q 5 = [] then set_qhead 5 n s else set_next (last (Q 5)) n s"
  have "insertLast n s = Some (set_next n NULL ?s1)"
    using link_last_eq [OF q, of 5] by (simp add: insertLast_def)
  moreover have "requeued s (set_next n NULL ?s1)"
    by (rule requeued_trans [OF requeued_link requeued_set_next])
  ultimately show ?thesis using queues_append [OF q _ n, of 5] by auto
qed

text \<open>Here the link of the new node is cleared first.\<close>

lemma insertInBlockedQueue_ok:
  assumes q: "queues s Q" and n: "n \<noteq> NULL" "n \<notin> queued Q"
  shows "\<exists>s'. insertInBlockedQueue n s = Some s' \<and> queues s' (Q(6 := Q 6 @ [n])) \<and> requeued s s'"
proof -
  let ?s0 = "set_next n NULL s"
  have q0: "queues ?s0 Q = queues s Q" by (rule queues_cong) (use n(2) in auto)
  let ?s1 = "if Q 6 = [] then set_qhead 6 n ?s0 else set_next (last (Q 6)) n ?s0"
  have run: "insertInBlockedQueue n s = Some ?s1"
    using link_last_eq [of ?s0 Q 6] q q0 by (simp add: insertInBlockedQueue_def)
  have "last (Q 6) \<noteq> n" if "Q 6 \<noteq> []"
    using last_in_set [OF that] queued_mem [of 6 "last (Q 6)" Q] n(2) by auto
  then have "nxt ?s1 = nxt (set_next n NULL (if Q 6 = [] then set_qhead 6 n s else set_next (last (Q 6)) n s))"
    by (auto simp: fun_eq_iff)
  then have "queues ?s1 (Q(6 := Q 6 @ [n]))"
    using queues_append [OF q _ n, of 6]
      queues_cong [of "Q(6 := Q 6 @ [n])" ?s1 "set_next n NULL (if Q 6 = [] then set_qhead 6 n s else set_next (last (Q 6)) n s)"]
    by auto
  moreover have "requeued s ?s1" by (rule requeued_trans [OF requeued_set_next requeued_link])
  ultimately show ?thesis using run by blast
qed

end
