(* ===== verification/Dispatch.thy ===== *)
theory Dispatch
  imports Queues
begin

text \<open>
  What the scheduler does to the queues, as operations on lists: requeueing the processes that
  are no longer blocked, putting the running process back and choosing the next one.  The
  pointer code is shown to implement them.
\<close>

section \<open>Lookups\<close>

lemma walk_find_find:
  "llist f p xs \<Longrightarrow> walk_find f P prev p =
     Some (last (prev # takeWhile (\<lambda>x. \<not> P x) xs), case find P xs of None \<Rightarrow> NULL | Some x \<Rightarrow> x)"
proof (induction xs arbitrary: p prev)
  case Nil
  then show ?case by (simp add: walk_find.simps)
next
  case (Cons x xs)
  then have "p = x" "x \<noteq> NULL" "llist f (f x) xs" by auto
  then show ?case using Cons.IH [of "f x" x] by (subst walk_find.simps) auto
qed

lemma find_append: "find P (xs @ ys) = (case find P xs of None \<Rightarrow> find P ys | Some x \<Rightarrow> Some x)"
  by (induction xs) auto

lemma find_SomeD: "find P xs = Some x \<Longrightarrow> x \<in> set xs \<and> P x"
  by (induction xs) (auto split: if_splits)

lemma find_NoneD: "find P xs = None \<Longrightarrow> \<forall>x\<in>set xs. \<not> P x"
  by (induction xs) (auto split: if_splits)

lemma find_in_ok:
  assumes "queues s Q" "set is \<subseteq> {..<7}"
  shows "find_in is P s = Some (case find P (concat (map Q is)) of None \<Rightarrow> NULL | Some x \<Rightarrow> x)"
  using assms(2)
proof (induction "is")
  case Nil
  then show ?case by simp
next
  case (Cons i "is")
  then have i: "i < 7" "find_in is P s = Some (case find P (concat (map Q is)) of None \<Rightarrow> NULL | Some x \<Rightarrow> x)"
    by auto
  note w = walk_find_find [OF queuesD(1) [OF assms(1) i(1)], of P NULL]
  show ?case
  proof (cases "find P (Q i)")
    case None
    then have "find P (Q i @ concat (map Q is)) = find P (concat (map Q is))"
      by (simp add: find_append)
    then show ?thesis using w None i(2) by simp
  next
    case (Some x)
    then have "x \<in> set (Q i)" by (auto simp: find_Some_iff)
    then have "x \<noteq> NULL" using queuesD(3) [OF assms(1) i(1)] by auto
    moreover have "find P (Q i @ concat (map Q is)) = Some x" using Some by (simp add: find_append)
    ultimately show ?thesis using w Some by simp
  qed
qed

definition pids :: "kernel \<Rightarrow> (nat \<Rightarrow> ptr list) \<Rightarrow> u32 set" where
  "pids s Q = (\<lambda>a. p_id (nodes s a)) ` (insert (k_current s) (insert (k_idle s) (queued Q)))"

lemma concat_queued: "set (concat (map Q [0..<7])) = queued Q"
  by (auto simp: queued_def)

lemma exists_ok: "queues s Q \<Longrightarrow> exists pid s = Some (pid \<in> pids s Q)"
proof -
  assume q: "queues s Q"
  let ?P = "\<lambda>a. p_id (nodes s a) = pid"
  have f: "find_in [0..<7] ?P s = Some (case find ?P (concat (map Q [0..<7])) of None \<Rightarrow> NULL | Some x \<Rightarrow> x)"
    by (rule find_in_ok [OF q]) auto
  show ?thesis
  proof (cases "find ?P (concat (map Q [0..<7]))")
    case None
    then have "\<forall>x\<in>queued Q. \<not> ?P x" using find_NoneD [OF None] concat_queued by blast
    then have "pid \<in> pids s Q \<longleftrightarrow> p_id (nodes s (k_current s)) = pid \<or> p_id (nodes s (k_idle s)) = pid"
      by (auto simp: pids_def)
    then show ?thesis unfolding exists_def f None by simp
  next
    case (Some x)
    then have "x \<in> queued Q" "?P x" using find_SomeD [OF Some] concat_queued by blast+
    moreover have "x \<noteq> NULL" using calculation(1) queued_null [OF q] by auto
    moreover have "pid \<in> pids s Q" using calculation(1,2) by (auto simp: pids_def)
    ultimately show ?thesis unfolding exists_def f Some by simp
  qed
qed

lemma setProcessState_ok:
  assumes "queues s Q"
  shows "setProcessState p st s =
    (if p_id (nodes s p) \<in> pids s Q \<and> \<not> (p_id (nodes s p) \<le> IDLE_ID \<and> st = EXITED)
     then Some (True, upd_node p (\<lambda>n. n\<lparr>p_state := st, p_manualBlocked := False\<rparr>) s)
     else Some (False, s))"
  using exists_ok [OF assms] by (auto simp: setProcessState_def)

lemma pids_upd_node:
  "p_id (f (nodes s a)) = p_id (nodes s a) \<Longrightarrow> pids (upd_node a f s) Q = pids s Q"
proof -
  assume "p_id (f (nodes s a)) = p_id (nodes s a)"
  then have "(\<lambda>x. p_id (nodes (upd_node a f s) x)) = (\<lambda>x. p_id (nodes s x))" by (auto simp: fun_eq_iff)
  moreover have "k_current (upd_node a f s) = k_current s" "k_idle (upd_node a f s) = k_idle s"
    by (simp_all add: upd_node_def)
  ultimately show ?thesis unfolding pids_def by (simp only:)
qed

section \<open>Unblocking\<close>

text \<open>
  The nodes \<open>xs\<close> go, in order, to the end of the queues their aging selects.
\<close>

definition requeue :: "kernel \<Rightarrow> ptr list \<Rightarrow> (nat \<Rightarrow> ptr list) \<Rightarrow> nat \<Rightarrow> ptr list" where
  "requeue s xs Q i = Q i @ filter (\<lambda>a. aging_level (p_agingInterval (nodes s a)) = i) xs"

lemma requeue_Nil [simp]: "requeue s [] Q = Q"
  by (auto simp: requeue_def)

lemma requeue_Cons:
  "requeue s (x # xs) Q =
     requeue s xs (Q(aging_level (p_agingInterval (nodes s x)) :=
       Q (aging_level (p_agingInterval (nodes s x))) @ [x]))"
  by (auto simp: requeue_def fun_eq_iff)

lemma requeue_cong: "(\<And>a. p_agingInterval (nodes s' a) = p_agingInterval (nodes s a)) \<Longrightarrow> requeue s' xs Q = requeue s xs Q"
  by (simp add: requeue_def fun_eq_iff)

definition blocked :: "kernel \<Rightarrow> ptr \<Rightarrow> bool" where
  "blocked s a \<longleftrightarrow> p_state (nodes s a) = BLOCKED"

lemma checkBlocked_step:
  "x \<noteq> NULL \<Longrightarrow> \<not> blocked s x \<Longrightarrow> checkBlocked_loop previous x s =
     do { s1 \<leftarrow> insertInQueue x (if previous = NULL then set_qhead 6 (nxt s x) s else set_next previous (nxt s x) s);
          checkBlocked_loop previous (nxt s x) s1 }"
  by (subst checkBlocked_loop.simps) (simp add: blocked_def Let_def)

text \<open>An insertion sets the quantum of the node that goes in, and of no other.\<close>

lemma insertInQueue_quantums:
  "insertInQueue x s = Some s' \<Longrightarrow> a \<noteq> x \<Longrightarrow> p_quantums (nodes s' a) = p_quantums (nodes s a)"
  by (auto simp: insertInQueue_def link_last_def set_next_def set_qhead_def upd_node_def Let_def split: bind_splits if_splits)

lemma checkBlocked_loop_ok:
  assumes "queues s Q" "Q 6 = done @ rest" "\<forall>a\<in>set done. blocked s a"
  shows "\<exists>s'. checkBlocked_loop (last (NULL # done)) (case rest of [] \<Rightarrow> NULL | x # xs \<Rightarrow> x) s = Some s' \<and>
    queues s' (requeue s (filter (\<lambda>a. \<not> blocked s a) rest) (Q(6 := done @ filter (blocked s) rest))) \<and>
    requeued s s' \<and> (\<forall>a. a \<notin> queued Q \<longrightarrow> p_quantums (nodes s' a) = p_quantums (nodes s a))"
  using assms
proof (induction rest arbitrary: s Q "done")
  case Nil
  then show ?case by (subst checkBlocked_loop.simps) (auto intro!: exI [of _ s])
next
  case (Cons x rest)
  have l: "llist (nxt s) (qhead s 6) (done @ x # rest)" using queuesD(1) [OF Cons.prems(1), of 6] Cons.prems(2) by simp
  have x0: "x \<noteq> NULL" using l by auto
  have nx: "nxt s x = (case rest of [] \<Rightarrow> NULL | y # ys \<Rightarrow> y)" using l by (cases rest) auto
  show ?case
  proof (cases "blocked s x")
    case True
    have "\<forall>a\<in>set (done @ [x]). blocked s a" using True Cons.prems(3) by auto
    have Q6: "Q 6 = (done @ [x]) @ rest" using Cons.prems(2) by simp
    have e: "(done @ [x]) @ filter (blocked s) rest = done @ filter (blocked s) (x # rest)"
      "last (NULL # done @ [x]) = x" "filter (\<lambda>a. \<not> blocked s a) rest = filter (\<lambda>a. \<not> blocked s a) (x # rest)"
      using True by simp_all
    have "checkBlocked_loop (last (NULL # done)) x s = checkBlocked_loop x (nxt s x) s"
      using True x0 by (subst checkBlocked_loop.simps) (simp add: blocked_def)
    then show ?thesis
      using Cons.IH [OF Cons.prems(1) Q6 \<open>\<forall>a\<in>set (done @ [x]). blocked s a\<close>, unfolded e] nx by simp
  next
    case False
    let ?prev = "last (NULL # done)"
    let ?s1 = "if done = [] then set_qhead 6 (nxt s x) s else set_next (last done) (nxt s x) s"
    let ?Q1 = "Q(6 := done @ rest)"
    have q1: "queues ?s1 ?Q1" using queues_unlink [OF Cons.prems(1) _ Cons.prems(2)] by simp
    have rq1: "requeued s ?s1" by (rule requeued_link)
    have pd: "(if ?prev = NULL then set_qhead 6 (nxt s x) s else set_next ?prev (nxt s x) s) = ?s1"
      using l llist_not_null_mem [OF l] by (cases "done = []") (auto dest: last_in_set)
    have "x \<notin> queued ?Q1"
      using queued_unlink [OF Cons.prems(1) _ Cons.prems(2)] by simp
    define i where "i = aging_level (p_agingInterval (nodes s x))"
    have i1: "i = aging_level (p_agingInterval (nodes ?s1 x))" using requeuedD(3) [OF rq1] by (simp add: i_def)
    obtain s2 where ins: "insertInQueue x ?s1 = Some s2" and q2: "queues s2 (?Q1(i := ?Q1 i @ [x]))"
      and rq2: "requeued ?s1 s2"
      using insertInQueue_ok [OF q1 x0 \<open>x \<notin> queued ?Q1\<close> i1] by blast
    have rq: "requeued s s2" using rq1 rq2 by (rule requeued_trans)
    have i6: "i \<noteq> 6" by (simp add: i_def)
    have bl: "blocked s2 = blocked s" using requeuedD(2) [OF rq] by (simp add: blocked_def fun_eq_iff)
    have "(?Q1(i := ?Q1 i @ [x])) 6 = done @ rest" using i6 by simp
    from Cons.IH [OF q2 this, unfolded bl, OF Cons.prems(3)] obtain s' where
      run: "checkBlocked_loop ?prev (case rest of [] \<Rightarrow> NULL | y # ys \<Rightarrow> y) s2 = Some s'"
      and q': "queues s' (requeue s2 (filter (\<lambda>a. \<not> blocked s a) rest)
                ((?Q1(i := ?Q1 i @ [x]))(6 := done @ filter (blocked s) rest)))"
      and rq': "requeued s2 s'"
      and qu: "\<And>a. a \<notin> queued (?Q1(i := ?Q1 i @ [x])) \<Longrightarrow> p_quantums (nodes s' a) = p_quantums (nodes s2 a)" by blast
    have xq: "x \<in> queued Q" using queued_mem [of 6 x Q] Cons.prems(2) by simp
    have "queued (?Q1(i := ?Q1 i @ [x])) \<subseteq> queued Q"
    proof -
      have "queued ?Q1 \<subseteq> queued Q" using queued_unlink [OF Cons.prems(1) _ Cons.prems(2)] by auto
      moreover have "queued (?Q1(i := ?Q1 i @ [x])) = insert x (queued ?Q1)"
        by (rule queued_append) (simp add: i_def)
      ultimately show ?thesis using xq by simp
    qed
    then have qu': "p_quantums (nodes s' a) = p_quantums (nodes s a)" if "a \<notin> queued Q" for a
    proof -
      have "a \<noteq> x" using that xq by auto
      moreover have "p_quantums (nodes ?s1 a) = p_quantums (nodes s a)" by (simp add: set_qhead_def set_next_def upd_node_def)
      ultimately show ?thesis using qu [of a] insertInQueue_quantums [OF ins] that \<open>_ \<subseteq> queued Q\<close> by auto
    qed
    have "requeue s2 (filter (\<lambda>a. \<not> blocked s a) rest) ((?Q1(i := ?Q1 i @ [x]))(6 := done @ filter (blocked s) rest)) =
      requeue s (filter (\<lambda>a. \<not> blocked s a) (x # rest)) (Q(6 := done @ filter (blocked s) (x # rest)))"
      using requeuedD(3) [OF rq] False i6 requeue_Cons [of s x]
      by (simp add: i_def requeue_def fun_eq_iff)
    then have "queues s' (requeue s (filter (\<lambda>a. \<not> blocked s a) (x # rest)) (Q(6 := done @ filter (blocked s) (x # rest))))"
      using q' by simp
    moreover have "checkBlocked_loop ?prev x s = Some s'"
      unfolding checkBlocked_step [OF x0 False] pd ins unfolding nx bind.bind_lunit by (rule run)
    ultimately show ?thesis using requeued_trans [OF rq rq'] qu' unfolding list.case by blast
  qed
qed

lemma checkBlocked_ok:
  assumes "queues s Q"
  shows "\<exists>s'. checkBlocked s = Some s' \<and> requeued s s' \<and>
    queues s' (requeue s (filter (\<lambda>a. \<not> blocked s a) (Q 6)) (Q(6 := filter (blocked s) (Q 6)))) \<and>
    (\<forall>a. a \<notin> queued Q \<longrightarrow> p_quantums (nodes s' a) = p_quantums (nodes s a))"
proof -
  have "qhead s 6 = (case Q 6 of [] \<Rightarrow> NULL | x # xs \<Rightarrow> x)"
    using queuesD(1) [OF assms, of 6] by (cases "Q 6") auto
  then show ?thesis using checkBlocked_loop_ok [OF assms, of "[]" "Q 6"] by (auto simp: checkBlocked_def)
qed

section \<open>The next process\<close>

text \<open>The running process goes where its state says; the first ready queue that is not empty gives the next.\<close>

definition abs_put_back :: "ptr \<Rightarrow> ProcessState \<Rightarrow> nat \<Rightarrow> (nat \<Rightarrow> ptr list) \<Rightarrow> nat \<Rightarrow> ptr list" where
  "abs_put_back c st l Q =
    (case st of BLOCKED \<Rightarrow> Q(6 := Q 6 @ [c]) | RUNNING \<Rightarrow> Q(l := Q l @ [c]) | YIELDED \<Rightarrow> Q(5 := Q 5 @ [c])
     | READY \<Rightarrow> Q | EXITED \<Rightarrow> Q)"

fun abs_take :: "nat list \<Rightarrow> (nat \<Rightarrow> ptr list) \<Rightarrow> ptr option \<times> (nat \<Rightarrow> ptr list)" where
  "abs_take [] Q = (None, Q)"
| "abs_take (i # is) Q = (if Q i \<noteq> [] then (Some (hd (Q i)), Q(i := tl (Q i))) else abs_take is Q)"

definition abs_next :: "ptr \<Rightarrow> ProcessState \<Rightarrow> nat \<Rightarrow> (nat \<Rightarrow> ptr list) \<Rightarrow> ptr option \<times> (nat \<Rightarrow> ptr list)" where
  "abs_next c st l Q = abs_take [0..<6] (abs_put_back c st l Q)"

lemma queues_upd_other:
  "a \<notin> queued Q \<Longrightarrow> queues (upd_node a f s) Q = queues s Q"
  by (rule queues_cong) (auto simp: nxt_def)

text \<open>States that differ, apart from queue links, only in the state of one node.\<close>

lemma put_back_ok:
  assumes q: "queues s Q" and c: "c \<noteq> NULL" "c \<notin> queued Q"
    and l: "l = aging_level (p_agingInterval (nodes s c))"
  shows "\<exists>s'. put_back c s = Some s' \<and> queues s' (abs_put_back c (p_state (nodes s c)) l Q) \<and>
    requeued (if p_state (nodes s c) = RUNNING \<or> p_state (nodes s c) = YIELDED then set_state c READY s else s) s'"
proof -
  have q1: "queues (set_state c READY s) Q"
    unfolding set_state_def using q c(2) by (simp add: queues_upd_other)
  have q2: "queues (set_next c NULL (set_state c READY s)) Q"
    unfolding set_next_def using q1 c(2) by (simp add: queues_upd_other)
  have l2: "l = aging_level (p_agingInterval (nodes (set_next c NULL (set_state c READY s)) c))"
    by (simp add: l set_next_def set_state_def)
  show ?thesis
  proof (cases "p_state (nodes s c)")
    case RUNNING
    obtain s' where "insertInQueue c (set_next c NULL (set_state c READY s)) = Some s'"
      "queues s' (Q(l := Q l @ [c]))" "requeued (set_next c NULL (set_state c READY s)) s'"
      using insertInQueue_ok [OF q2 c l2] by blast
    then show ?thesis
      using RUNNING requeued_trans [OF requeued_set_next] by (auto simp: put_back_def abs_put_back_def)
  next
    case BLOCKED
    then show ?thesis using insertInBlockedQueue_ok [OF q c] by (auto simp: put_back_def abs_put_back_def)
  next
    case YIELDED
    then show ?thesis using insertLast_ok [OF q1 c] by (auto simp: put_back_def abs_put_back_def)
  qed (use q in \<open>auto simp: put_back_def abs_put_back_def\<close>)
qed

lemma take_first_ok:
  assumes "queues s Q" "set is \<subseteq> {..<7}"
  shows "\<exists>s'. take_first is s = (case fst (abs_take is Q) of None \<Rightarrow> NULL | Some n \<Rightarrow> n, s') \<and>
    queues s' (snd (abs_take is Q)) \<and> requeued s s' \<and> nodes s' = nodes s"
  using assms(2)
proof (induction "is")
  case Nil
  then show ?case using assms(1) by simp
next
  case (Cons i "is")
  then have i: "i < 7" by simp
  show ?case
  proof (cases "Q i")
    case Nil
    then have "qhead s i = NULL" using queuesD(4) [OF assms(1) i] by simp
    then show ?thesis using Cons Nil by simp
  next
    case (Cons x xs)
    have h: "qhead s i = x" "x \<noteq> NULL" using queuesD(1) [OF assms(1) i] Cons by auto
    have "queues (set_qhead i (nxt s x) s) (Q(i := [] @ xs))"
      using queues_unlink [OF assms(1) i, of "[]" x xs] Cons by simp
    then have "queues (set_qhead i (nxt s x) s) (Q(i := tl (Q i)))" using Cons by (simp only: append_Nil list.sel)
    moreover have "take_first (i # is) s = (x, set_qhead i (nxt s x) s)" using h by simp
    moreover have "abs_take (i # is) Q = (Some x, Q(i := tl (Q i)))" using Cons by simp
    ultimately show ?thesis by (metis fst_conv snd_conv option.simps(5) requeued_set_qhead set_qhead_nodes(1))
  qed
qed

lemma abs_take_mem:
  "abs_take is Q = (Some n, Q') \<Longrightarrow> set is \<subseteq> {..<7} \<Longrightarrow>
     \<exists>i\<in>set is. \<exists>xs. Q i = n # xs \<and> Q' = Q(i := xs)"
  by (induction "is") (auto split: if_splits simp: neq_Nil_conv)

lemma abs_take_None: "abs_take is Q = (None, Q') \<Longrightarrow> Q' = Q \<and> (\<forall>i\<in>set is. Q i = [])"
  by (induction "is") (auto split: if_splits)

definition pick_next :: "kernel \<Rightarrow> kernel" where
  "pick_next s = (let (next, s3) = take_first [0..<6] s
                  in if next = NULL then run_idle (s3\<lparr>k_current := next\<rparr>) else run_next next s3)"

lemma nextProcess_eq:
  "nextProcess s = do {
     let s1 = (if p_id (nodes s (k_current s)) = p_id (nodes s (k_idle s))
               then (set_state (k_current s) READY s)\<lparr>k_current := NULL\<rparr> else s);
     s2 \<leftarrow> put_back (k_current s1) s1;
     Some (pick_next s2)
   }"
  by (simp add: nextProcess_def pick_next_def Let_def case_prod_unfold)

lemma nxt_fields [simp]:
  "nxt (s\<lparr>k_current := c\<rparr>) = nxt s" "nxt (s\<lparr>k_foreground := c\<rparr>) = nxt s"
  by (simp_all add: nxt_def fun_eq_iff)

lemma ready_levels: "set [0..<6] \<subseteq> {..<7::nat}" "\<And>i. i \<in> set [0..<6] \<longleftrightarrow> i < (6::nat)"
  by auto

lemma queues_current [simp]: "queues (s\<lparr>k_current := c\<rparr>) Q = queues s Q"
  "queues (s\<lparr>k_foreground := f\<rparr>) Q = queues s Q"
  by (simp_all add: queues_def nxt_fields)

text \<open>The outcome of the choice, in terms of the lists.\<close>

definition chosen :: "kernel \<Rightarrow> (nat \<Rightarrow> ptr list) \<Rightarrow> ptr" where
  "chosen s Q = (case fst (abs_take [0..<6] Q) of None \<Rightarrow> k_idle s | Some n \<Rightarrow> n)"

definition remaining :: "(nat \<Rightarrow> ptr list) \<Rightarrow> nat \<Rightarrow> ptr list" where
  "remaining Q = snd (abs_take [0..<6] Q)"

lemma remaining_sub: "queues s Q \<Longrightarrow> queued (remaining Q) \<subseteq> queued Q"
proof -
  assume q: "queues s Q"
  obtain r Q' where t: "abs_take [0..<6] Q = (r, Q')" by fastforce
  show ?thesis
  proof (cases r)
    case None
    then show ?thesis using abs_take_None [of "[0..<6]" Q Q'] t by (simp add: remaining_def)
  next
    case (Some n)
    then obtain i xs where "i < 6" "Q i = n # xs" "Q' = Q(i := xs)"
      using abs_take_mem [OF _ ready_levels(1), of Q n Q'] t by auto
    then show ?thesis using queued_upd [of i Q xs] queued_split [of i Q] t by (auto simp: remaining_def)
  qed
qed

lemma chosen_out:
  assumes "queues s Q" "k_idle s \<notin> queued Q"
  shows "chosen s Q \<notin> queued (remaining Q)"
proof -
  obtain r Q' where t: "abs_take [0..<6] Q = (r, Q')" by fastforce
  show ?thesis
  proof (cases r)
    case None
    then show ?thesis using abs_take_None [of "[0..<6]" Q Q'] t assms(2) by (simp add: remaining_def chosen_def)
  next
    case (Some n)
    then obtain i xs where i: "i < 6" "Q i = n # xs" "Q' = Q(i := xs)"
      using abs_take_mem [OF _ ready_levels(1), of Q n Q'] t by auto
    then have "queued (Q(i := [] @ xs)) = queued Q - {n}" by (intro queued_unlink [OF assms(1)]) auto
    then show ?thesis using i t Some by (simp add: remaining_def chosen_def)
  qed
qed

lemma pick_next_ok:
  assumes q: "queues s Q" and idle: "k_idle s \<notin> queued Q"
  shows "queues (pick_next s) (remaining Q)" and "k_current (pick_next s) = chosen s Q"
    and "p_state (nodes (pick_next s) (chosen s Q)) = RUNNING"
    and "\<And>a. a \<noteq> chosen s Q \<Longrightarrow> vitals (pick_next s) a = vitals s a"
    and "\<And>a. core (nodes (pick_next s) a) = core (nodes s a)"
    and "k_idle (pick_next s) = k_idle s" "bufs (pick_next s) = bufs s" "timers (pick_next s) = timers s"
    and "TSCFrequency (pick_next s) = TSCFrequency s" "tsc (pick_next s) = tsc s"
proof -
  obtain s3 where tf: "take_first [0..<6] s = (case fst (abs_take [0..<6] Q) of None \<Rightarrow> NULL | Some n \<Rightarrow> n, s3)"
    and q3: "queues s3 (remaining Q)" and rq: "requeued s s3" and nd: "nodes s3 = nodes s"
    using take_first_ok [OF q ready_levels(1)] unfolding remaining_def by blast
  have v: "vitals s3 = vitals s" using rq by (simp add: requeued_def)
  note out = chosen_out [OF q idle]
  obtain r Q' where t: "abs_take [0..<6] Q = (r, Q')" by fastforce
  have "queues (pick_next s) (remaining Q) \<and> k_current (pick_next s) = chosen s Q \<and>
    p_state (nodes (pick_next s) (chosen s Q)) = RUNNING \<and>
    (\<forall>a. a \<noteq> chosen s Q \<longrightarrow> vitals (pick_next s) a = vitals s a) \<and>
    (\<forall>a. core (nodes (pick_next s) a) = core (nodes s a)) \<and>
    k_idle (pick_next s) = k_idle s \<and> bufs (pick_next s) = bufs s \<and> timers (pick_next s) = timers s \<and>
    TSCFrequency (pick_next s) = TSCFrequency s \<and> tsc (pick_next s) = tsc s"
  proof (cases r)
    case None
    then have ch: "chosen s Q = k_idle s" using t by (simp add: chosen_def)
    have pn: "pick_next s = run_idle (s3\<lparr>k_current := NULL\<rparr>)" using tf t None by (simp add: pick_next_def)
    have "queues (run_idle (s3\<lparr>k_current := NULL\<rparr>)) (remaining Q)"
      using q3 out ch requeuedD(7) [OF rq] by (simp add: run_idle_def queues_upd_other)
    then show ?thesis unfolding pn ch using requeuedD [OF rq] nd
      by (auto simp: run_idle_def upd_node_def vitals_def)
  next
    case (Some n)
    then have ch: "chosen s Q = n" using t by (simp add: chosen_def)
    obtain i xs where "i < 6" "Q i = n # xs" using abs_take_mem [OF _ ready_levels(1), of Q n Q'] t Some by auto
    then have n0: "n \<noteq> NULL" using queuesD(3) [OF q, of i] by auto
    then have pn: "pick_next s = run_next n s3" using tf t Some by (simp add: pick_next_def)
    have "queues (run_next n s3) (remaining Q)"
      using q3 out ch by (simp add: run_next_def set_state_def set_next_def setForegroundProcess_def queues_upd_other)
    then show ?thesis unfolding pn ch using requeuedD [OF rq] nd
      by (auto simp: run_next_def set_state_def set_next_def setForegroundProcess_def upd_node_def vitals_def)
  qed
  then show "queues (pick_next s) (remaining Q)" "k_current (pick_next s) = chosen s Q"
    "p_state (nodes (pick_next s) (chosen s Q)) = RUNNING"
    "\<And>a. a \<noteq> chosen s Q \<Longrightarrow> vitals (pick_next s) a = vitals s a"
    "\<And>a. core (nodes (pick_next s) a) = core (nodes s a)"
    "k_idle (pick_next s) = k_idle s" "bufs (pick_next s) = bufs s" "timers (pick_next s) = timers s"
    "TSCFrequency (pick_next s) = TSCFrequency s" "tsc (pick_next s) = tsc s" by blast+
qed

end
