(* ===== verification/Demo.thy ===== *)
theory Demo
  imports Queues
begin

text \<open>
  A small concrete state of the kernel, on which the properties are tried: \<^verbatim>\<open>init\<close> (id 1) runs,
  processes 3 and 5 wait in the second ready queue, process 4 is blocked.
\<close>

definition demo_pcb :: "u32 \<Rightarrow> ProcessState \<Rightarrow> u64 \<Rightarrow> ptr \<Rightarrow> PCBNodeCDT" where
  "demo_pcb i st aging next = \<lparr>p_next = next, p_id = i, p_foreground = True, p_state = st,
     p_manualBlocked = False, p_priority = 0, p_quantums = 1, p_agingInterval = aging, p_counterInit = 0,
     p_parentId = 1, p_childsIds = replicate PD_SIZE 0, p_stack = 0x100000 * ucast i, p_baseStack = 0,
     p_stackSize = 0x4000, p_memoryFromMM = 0, p_firstAlloc = NULL, p_pdTable = replicate PD_SIZE NULL\<rparr>"

definition demo_nodes :: "ptr \<Rightarrow> PCBNodeCDT" where
  "demo_nodes = tbl (demo_pcb 0 READY 0 NULL)
     [(0x1000, demo_pcb 1 RUNNING 0 NULL), (0x2000, demo_pcb 2 READY 0 NULL),
      (0x3000, demo_pcb 3 READY 60 0x5000), (0x4000, demo_pcb 4 BLOCKED 0 NULL), (0x5000, demo_pcb 5 READY 100 NULL)]"

definition demo_kernel :: kernel where
  "demo_kernel = \<lparr>nodes = demo_nodes, allocs = (\<lambda>_. \<lparr>pa_allocation = NULL, pa_next = NULL\<rparr>),
     bufs = (\<lambda>_. demo_buffer),
     timers = (\<lambda>_. \<lparr>t_next = NULL, t_endInterval = 0, t_sleepingProcess = NULL, t_pid = 0\<rparr>),
     qhead = (\<lambda>_. NULL)(1 := 0x3000, 6 := 0x4000), k_current = 0x1000, k_idle = 0x2000, k_foreground = NULL,
     timerList = NULL, stdinAt = 0x9000, stdoutAt = 0x9100, stderrAt = 0x9200, TSCFrequency = 1000,
     tsc = (\<lambda>k. 5000), tscReads = 0, mm = one_block_globals, mem = (\<lambda>_. 0)\<rparr>"

definition demo_Q :: "nat \<Rightarrow> ptr list" where
  "demo_Q = (\<lambda>_. [])(1 := [0x3000, 0x5000], 6 := [0x4000])"

lemma demo_Q_eval [simp]: "demo_Q 0 = []" "demo_Q (Suc 0) = [0x3000, 0x5000]" "demo_Q 2 = []" "demo_Q 3 = []"
  "demo_Q 4 = []" "demo_Q 5 = []" "demo_Q 6 = [0x4000]"
  by (simp_all add: demo_Q_def)

lemma seven: "(\<forall>i<7. P i) \<longleftrightarrow> P 0 \<and> P (Suc 0) \<and> P 2 \<and> P 3 \<and> P 4 \<and> P 5 \<and> P (6::nat)"
proof -
  have "i < 7 \<longleftrightarrow> i = 0 \<or> i = Suc 0 \<or> i = 2 \<or> i = 3 \<or> i = 4 \<or> i = 5 \<or> i = 6" for i :: nat by arith
  then show ?thesis by auto
qed

lemma demo_queued [simp]: "queued demo_Q = {0x3000, 0x5000, 0x4000}"
proof -
  have "{..<7::nat} = {0, Suc 0, 2, 3, 4, 5, 6}" by auto
  then show ?thesis by (auto simp: queued_def)
qed

lemma demo_nodes_eval [simp]:
  "demo_nodes 0x1000 = demo_pcb 1 RUNNING 0 NULL" "demo_nodes 0x2000 = demo_pcb 2 READY 0 NULL"
  "demo_nodes 0x3000 = demo_pcb 3 READY 60 0x5000" "demo_nodes 0x4000 = demo_pcb 4 BLOCKED 0 NULL"
  "demo_nodes 0x5000 = demo_pcb 5 READY 100 NULL"
  by (simp_all add: demo_nodes_def tbl_eval)

lemma demo_pcb_eval [simp]:
  "p_next (demo_pcb i st g n) = n" "p_id (demo_pcb i st g n) = i" "p_state (demo_pcb i st g n) = st"
  "p_agingInterval (demo_pcb i st g n) = g" "p_quantums (demo_pcb i st g n) = 1"
  "p_manualBlocked (demo_pcb i st g n) = False" "p_foreground (demo_pcb i st g n) = True"
  "p_firstAlloc (demo_pcb i st g n) = NULL" "p_parentId (demo_pcb i st g n) = 1"
  "p_childsIds (demo_pcb i st g n) = replicate PD_SIZE 0" "p_pdTable (demo_pcb i st g n) = replicate PD_SIZE NULL"
  "p_memoryFromMM (demo_pcb i st g n) = 0" "p_stackSize (demo_pcb i st g n) = 0x4000"
  by (simp_all add: demo_pcb_def)

lemma demo_kernel_eval [simp]:
  "nodes demo_kernel = demo_nodes" "k_current demo_kernel = 0x1000" "k_idle demo_kernel = 0x2000"
  "qhead demo_kernel = (\<lambda>_. NULL)(1 := 0x3000, 6 := 0x4000)" "TSCFrequency demo_kernel = 1000"
  "tsc demo_kernel k = 5000" "tscReads demo_kernel = 0" "timerList demo_kernel = NULL"
  "nxt demo_kernel a = p_next (demo_nodes a)" "mm demo_kernel = one_block_globals"
  by (simp_all add: demo_kernel_def nxt_def)

lemma demo_queues: "queues demo_kernel demo_Q"
  unfolding queues_def seven by (simp split del: if_split)

end
