(* ===== verification/SchedProps.thy ===== *)
theory SchedProps
  imports Dispatch Demo
begin

text \<open>The properties of the scheduler's queues.\<close>

section \<open>Dispatching\<close>

definition level_of :: "kernel \<Rightarrow> ptr \<Rightarrow> nat" where
  "level_of s a = aging_level (p_agingInterval (nodes s a))"

text \<open>The queues once the running process is put back.\<close>

definition returned :: "kernel \<Rightarrow> (nat \<Rightarrow> ptr list) \<Rightarrow> nat \<Rightarrow> ptr list" where
  "returned s Q = abs_put_back (k_current s) (p_state (nodes s (k_current s))) (level_of s (k_current s)) Q"

lemma queued_put_back:
  "queued (abs_put_back c st l Q) =
     (if st = RUNNING \<or> st = BLOCKED \<or> st = YIELDED then insert c (queued Q) else queued Q)" if "l < 7"
  using that queued_append [of l Q c] queued_append [of 5 Q c] queued_append [of 6 Q c]
  by (cases st) (simp_all add: abs_put_back_def del: fun_upd_apply)

lemma chosen_idle: "k_idle s' = k_idle s \<Longrightarrow> chosen s' Q = chosen s Q"
  by (cases "fst (abs_take [0..<6] Q)") (simp_all add: chosen_def)

text \<open>Nothing is lost: the chosen node and those that remain are the nodes there were.\<close>

lemma chosen_remaining:
  assumes "queues s Q" "k_idle s \<notin> queued Q"
  shows "insert (k_idle s) (insert (chosen s Q) (queued (remaining Q))) = insert (k_idle s) (queued Q)"
proof -
  obtain r Q' where t: "abs_take [0..<6] Q = (r, Q')" by fastforce
  show ?thesis
  proof (cases r)
    case None
    then show ?thesis using abs_take_None [of "[0..<6]" Q Q'] t by (simp add: remaining_def chosen_def)
  next
    case (Some n)
    then obtain i xs where i: "i < 6" "Q i = n # xs" "Q' = Q(i := xs)"
      using abs_take_mem [OF _ ready_levels(1), of Q n Q'] t by auto
    then have "queued (Q(i := [] @ xs)) = queued Q - {n}" by (intro queued_unlink [OF assms(1)]) auto
    moreover have "n \<in> queued Q" using i by (intro queued_mem [of i]) auto
    ultimately show ?thesis using i t Some by (auto simp: remaining_def chosen_def)
  qed
qed

lemma nextProcess_dispatch:
  assumes q: "queues s Q" and c: "k_current s \<noteq> NULL" "k_current s \<notin> queued Q"
    and idle: "k_idle s \<notin> queued Q" "p_id (nodes s (k_current s)) \<noteq> p_id (nodes s (k_idle s))"
  shows "\<exists>s'. nextProcess s = Some s' \<and> queues s' (remaining (returned s Q)) \<and>
    k_current s' = chosen s (returned s Q) \<and> p_state (nodes s' (k_current s')) = RUNNING \<and>
    k_current s' \<notin> queued (remaining (returned s Q)) \<and> k_idle s' = k_idle s \<and>
    (\<forall>a. core (nodes s' a) = core (nodes s a))"
proof -
  let ?c = "k_current s" and ?st = "p_state (nodes s (k_current s))"
  obtain s2 where pb: "put_back ?c s = Some s2" and q2: "queues s2 (returned s Q)"
    and rq: "requeued (if ?st = RUNNING \<or> ?st = YIELDED then set_state ?c READY s else s) s2"
    using put_back_ok [OF q c refl] by (auto simp: returned_def level_of_def)
  have run: "nextProcess s = Some (pick_next s2)"
    using idle(2) pb by (simp add: nextProcess_eq)
  have idle2: "k_idle s2 = k_idle s" and id2: "core (nodes s2 a) = core (nodes s a)" for a
    using requeuedD(7) [OF rq] requeued_core [OF rq, of a] by (auto simp: set_state_def upd_node_def split: if_splits)
  have "k_idle s \<noteq> ?c" using idle(2) by auto
  then have ni: "k_idle s2 \<notin> queued (returned s Q)"
    using idle(1) idle2 queued_put_back [of "level_of s ?c" ?c ?st Q]
    by (auto simp: returned_def level_of_def split: if_splits)
  note pn = pick_next_ok [OF q2 ni]
  show ?thesis
    using run pn(1,2,3,5,6) chosen_out [OF q2 ni] chosen_idle [of s2 s "returned s Q"] idle2 id2
    by (intro exI [of _ "pick_next s2"]) simp
qed

text \<open>
  When the idle process gives up the processor its own node pointer is cleared before it is
  used, so the code works on the null node.  Linking the null pointer behind a queue changes
  nothing, whatever the null cell holds.
\<close>

lemma link_last_null: "queues s Q \<Longrightarrow> i < 7 \<Longrightarrow> link_last i NULL s = Some s"
proof -
  assume q: "queues s Q" and i: "i < 7"
  note l = queuesD(1) [OF q i]
  show ?thesis
  proof (cases "Q i = []")
    case True
    then have "qhead s i = NULL" using l by simp
    then have "set_qhead i NULL s = s" by (simp add: set_qhead_def fun_upd_idem)
    then show ?thesis using link_last_eq [OF q i] True by simp
  next
    case False
    then have "nxt s (last (Q i)) = NULL" using lseg_last l by blast
    then have "set_next (last (Q i)) NULL s = s"
      by (simp add: set_next_def upd_node_def nxt_def fun_upd_idem)
    then show ?thesis using link_last_eq [OF q i] False by simp
  qed
qed

lemma put_back_null:
  assumes q: "queues s Q"
  shows "\<exists>f. put_back NULL s = Some (upd_node NULL f s) \<and> core (f (nodes s NULL)) = core (nodes s NULL)"
proof -
  have n: "NULL \<notin> queued Q" using q by (rule queued_null)
  have q': "queues (upd_node NULL f s) Q" for f using q n by (simp add: queues_upd_other)
  show ?thesis
  proof (cases "p_state (nodes s NULL)")
    case RUNNING
    let ?s1 = "set_next NULL NULL (set_state NULL READY s)"
    have "?s1 = upd_node NULL (\<lambda>n. n\<lparr>p_state := READY, p_next := NULL\<rparr>) s"
      by (simp add: set_next_def set_state_def upd_node_def)
    then have "link_last i NULL ?s1 = Some ?s1" if "i < 7" for i using link_last_null [OF q' that] by metis
    then have "insertInQueue NULL ?s1 = Some (upd_node NULL (\<lambda>n. n\<lparr>p_next := NULL,
        p_quantums := defaultQuantums i, p_priority := of_nat i\<rparr>) ?s1)"
      if "i = aging_level (p_agingInterval (nodes ?s1 NULL))" for i
      unfolding that insertInQueue_def using \<open>\<And>i. i < 7 \<Longrightarrow> link_last i NULL ?s1 = Some ?s1\<close> by (simp add: Let_def)
    then show ?thesis
      using RUNNING
      by (intro exI [of _ "\<lambda>n. n\<lparr>p_state := READY, p_next := NULL,
            p_quantums := defaultQuantums (aging_level (p_agingInterval n)),
            p_priority := of_nat (aging_level (p_agingInterval n))\<rparr>"])
        (simp add: put_back_def set_next_def set_state_def upd_node_def)
  next
    case BLOCKED
    have "set_next NULL NULL s = upd_node NULL (\<lambda>n. n\<lparr>p_next := NULL\<rparr>) s" by (simp add: set_next_def)
    then show ?thesis using BLOCKED link_last_null [OF q', of 6]
      by (auto simp: put_back_def insertInBlockedQueue_def intro!: exI [of _ "\<lambda>n. n\<lparr>p_next := NULL\<rparr>"])
  next
    case YIELDED
    have "set_state NULL READY s = upd_node NULL (\<lambda>n. n\<lparr>p_state := READY\<rparr>) s" by (simp add: set_state_def)
    then have "link_last 5 NULL (set_state NULL READY s) = Some (set_state NULL READY s)"
      using link_last_null [OF q', of 5] by simp
    then show ?thesis using YIELDED
      by (intro exI [of _ "\<lambda>n. n\<lparr>p_state := READY, p_next := NULL\<rparr>"])
        (simp add: put_back_def insertLast_def set_next_def set_state_def upd_node_def)
  qed (auto simp: put_back_def upd_node_def intro!: exI [of _ "\<lambda>n. n"])
qed

lemma nextProcess_from_idle:
  assumes q: "queues s Q" and idle: "k_current s = k_idle s" "k_idle s \<notin> queued Q" "k_idle s \<noteq> NULL"
  shows "\<exists>s'. nextProcess s = Some s' \<and> queues s' (remaining Q) \<and> k_current s' = chosen s Q \<and>
    p_state (nodes s' (k_current s')) = RUNNING \<and> k_idle s' = k_idle s \<and>
    (\<forall>a. core (nodes s' a) = core (nodes s a))"
proof -
  let ?s1 = "(set_state (k_idle s) READY s)\<lparr>k_current := NULL\<rparr>"
  have q1: "queues ?s1 Q" using q idle(2) by (simp add: set_state_def queues_upd_other)
  obtain f where pb: "put_back NULL ?s1 = Some (upd_node NULL f ?s1)"
    and f: "core (f (nodes ?s1 NULL)) = core (nodes ?s1 NULL)"
    using put_back_null [OF q1] by blast
  let ?s2 = "upd_node NULL f ?s1"
  have q2: "queues ?s2 Q" using q1 queued_null [OF q] by (simp add: queues_upd_other)
  have i2: "k_idle ?s2 = k_idle s" by (simp add: upd_node_def set_state_def)
  have run: "nextProcess s = Some (pick_next ?s2)" using idle(1) pb by (simp add: nextProcess_eq)
  have ni: "k_idle ?s2 \<notin> queued Q" using idle(2) i2 by simp
  have id2: "core (nodes ?s2 a) = core (nodes s a)" for a
    using f by (simp add: upd_node_def set_state_def)
  show ?thesis
    using run pick_next_ok(1-3,5,6) [OF q2 ni] chosen_idle [OF i2] i2 id2
    by (intro exI [of _ "pick_next ?s2"]) simp
qed

end
