(* ===== verification/Ticks.thy ===== *)
theory Ticks
  imports SchedProps
begin

text \<open>
  The parts of a scheduler tick around the choice of the next process: waking the sleepers and
  looking for processes to delete, and the tick as a whole.
\<close>

section \<open>Sleepers\<close>

text \<open>The processes a scan of the timers \<open>ts\<close> makes ready.\<close>

definition due :: "kernel \<Rightarrow> (nat \<Rightarrow> ptr list) \<Rightarrow> u64 \<Rightarrow> ptr list \<Rightarrow> ptr set" where
  "due s Q now ts = {a. (\<exists>t\<in>set ts. t_sleepingProcess (timers s t) = a \<and> t_endInterval (timers s t) \<le> now) \<and>
     \<not> p_manualBlocked (nodes s a) \<and> p_id (nodes s a) \<in> pids s Q}"

definition wake_all :: "ptr set \<Rightarrow> kernel \<Rightarrow> kernel" where
  "wake_all D s = s\<lparr>nodes := \<lambda>a. if a \<in> D then (nodes s a)\<lparr>p_state := READY, p_manualBlocked := False\<rparr>
                                  else nodes s a\<rparr>"

lemma wake_all_fields [simp]:
  "timers (wake_all D s) = timers s" "tnxt (wake_all D s) = tnxt s" "nxt (wake_all D s) = nxt s"
  "qhead (wake_all D s) = qhead s" "k_current (wake_all D s) = k_current s" "k_idle (wake_all D s) = k_idle s"
  "TSCFrequency (wake_all D s) = TSCFrequency s" "tsc (wake_all D s) = tsc s"
  "p_id (nodes (wake_all D s) a) = p_id (nodes s a)" "core (nodes (wake_all D s) a) = core (nodes s a)"
  "p_agingInterval (nodes (wake_all D s) a) = p_agingInterval (nodes s a)"
  by (simp_all add: wake_all_def tnxt_def nxt_def fun_eq_iff)

lemma wake_all_empty [simp]: "wake_all {} s = s"
  by (simp add: wake_all_def)

lemma wake_all_insert: "wake_all D (wake_all {a} s) = wake_all (insert a D) s"
  by (auto simp: wake_all_def fun_eq_iff)

lemma wake_all_queues [simp]: "queues (wake_all D s) Q = queues s Q"
  by (rule queues_cong) simp_all

lemma wake_all_pids [simp]: "pids (wake_all D s) Q = pids s Q"
  by (simp add: pids_def)

lemma due_wake_all: "D \<subseteq> {a. \<not> p_manualBlocked (nodes s a)} \<Longrightarrow> due (wake_all D s) Q now ts = due s Q now ts"
  by (auto simp: due_def wake_all_def pids_def)

lemma wake_ok:
  assumes "queues s Q"
  shows "wake now t s = Some (wake_all (due s Q now [t]) s)"
proof -
  let ?a = "t_sleepingProcess (timers s t)"
  have e: "upd_node ?a (\<lambda>n. n\<lparr>p_state := READY, p_manualBlocked := False\<rparr>) s = wake_all {?a} s"
    by (auto simp: upd_node_def wake_all_def fun_eq_iff)
  have "due s Q now [t] = (if t_endInterval (timers s t) \<le> now \<and> \<not> p_manualBlocked (nodes s ?a) \<and>
      p_id (nodes s ?a) \<in> pids s Q then {?a} else {})"
    by (auto simp: due_def)
  then show ?thesis
    using setProcessState_ok [OF assms, of ?a READY] e by (simp add: wake_def isManualBlocked_def Let_def)
qed

lemma updateTimers_loop_ok:
  assumes "queues s Q" "llist (tnxt s) p ts" "\<forall>t\<in>set ts. p_state (nodes s (t_sleepingProcess (timers s t))) \<noteq> EXITED"
  shows "updateTimers_loop now p s = Some (wake_all (due s Q now ts) s)"
  using assms
proof (induction ts arbitrary: s p)
  case Nil
  then show ?case by (subst updateTimers_loop.simps) (simp add: due_def)
next
  case (Cons t ts)
  then have p: "p = t" "t \<noteq> NULL" "llist (tnxt s) (tnxt s t) ts" by auto
  let ?D = "due s Q now [t]"
  let ?s1 = "wake_all ?D s"
  have sub: "?D \<subseteq> {a. \<not> p_manualBlocked (nodes s a)}" by (auto simp: due_def)
  have "\<forall>t\<in>set ts. p_state (nodes ?s1 (t_sleepingProcess (timers ?s1 t))) \<noteq> EXITED"
    using Cons.prems(3) by (simp add: wake_all_def)
  then have IH: "updateTimers_loop now (tnxt s t) ?s1 = Some (wake_all (due s Q now ts) ?s1)"
    using Cons.IH [of ?s1 "tnxt s t"] Cons.prems(1) p(3) due_wake_all [OF sub] by simp
  have "?D = {} \<or> (\<exists>a. ?D = {a})" by (auto simp: due_def)
  moreover have "due s Q now (t # ts) = ?D \<union> due s Q now ts" by (auto simp: due_def)
  ultimately have "wake_all (due s Q now ts) ?s1 = wake_all (due s Q now (t # ts)) s"
    using wake_all_insert by auto
  then show ?case
    using Cons.prems(3) p(1,2) IH wake_ok [OF Cons.prems(1)]
    by (subst updateTimers_loop.simps) (simp add: getProcessState_def)
qed

lemma updateTimers_ok:
  assumes "queues s Q" "llist (tnxt s) (timerList s) ts"
    and "\<forall>t\<in>set ts. p_state (nodes s (t_sleepingProcess (timers s t))) \<noteq> EXITED"
  shows "updateTimers now s = Some (wake_all (due s Q now ts) s)"
  unfolding updateTimers_def by (rule updateTimers_loop_ok [OF assms])

section \<open>Nothing to delete\<close>

lemma checkExited_loop_none:
  "llist (nxt s) p xs \<Longrightarrow> \<forall>a\<in>set xs. p_state (nodes s a) \<noteq> EXITED \<Longrightarrow> checkExited_loop i prev p s = Some s"
proof (induction xs arbitrary: p prev)
  case Nil
  then show ?case by (subst checkExited_loop.simps) simp
next
  case (Cons x xs)
  then show ?case by (subst checkExited_loop.simps) simp
qed

lemma check_queues_none:
  "queues s Q \<Longrightarrow> set is \<subseteq> {..<7} \<Longrightarrow> \<forall>a\<in>queued Q. p_state (nodes s a) \<noteq> EXITED \<Longrightarrow> check_queues is s = Some s"
proof (induction "is")
  case Nil
  then show ?case by simp
next
  case (Cons i "is")
  then have i: "i < 7" by simp
  then have "checkExited_loop i NULL (qhead s i) s = Some s"
    using Cons.prems queuesD(1) [OF Cons.prems(1) i] queued_mem [OF i] by (intro checkExited_loop_none) auto
  then show ?case using Cons by simp
qed

lemma checkExited_none:
  assumes "queues s Q" "\<forall>a\<in>insert (k_current s) (queued Q). p_state (nodes s a) \<noteq> EXITED"
  shows "checkExited s = Some s"
proof -
  have "set [0..<7] \<subseteq> {..<7::nat}" by auto
  then have "check_queues [0..<7] s = Some s" using assms by (intro check_queues_none) auto
  then show ?thesis using assms(2) by (simp add: checkExited_def)
qed

section \<open>The invariant\<close>

text \<open>
  The processes that exist, and the scheduler's invariant: the queues are lists, the running and
  the idle process are in none of them, and only the idle process has its id.
\<close>

definition runnable :: "kernel \<Rightarrow> (nat \<Rightarrow> ptr list) \<Rightarrow> ptr set" where
  "runnable s Q = insert (k_idle s) (insert (k_current s) (queued Q))"

definition sched_ok :: "kernel \<Rightarrow> (nat \<Rightarrow> ptr list) \<Rightarrow> bool" where
  "sched_ok s Q \<longleftrightarrow> queues s Q \<and> k_current s \<noteq> NULL \<and> k_idle s \<noteq> NULL \<and>
     k_current s \<notin> queued Q \<and> k_idle s \<notin> queued Q \<and>
     (\<forall>a\<in>runnable s Q. p_id (nodes s a) = p_id (nodes s (k_idle s)) \<longrightarrow> a = k_idle s)"

lemma sched_ok_cong:
  assumes "sched_ok s Q" "queues s' Q'" "queued Q' = queued Q" "k_current s' = k_current s"
    and "k_idle s' = k_idle s" "\<And>a. core (nodes s' a) = core (nodes s a)"
  shows "sched_ok s' Q'" "runnable s' Q' = runnable s Q"
  using assms core_fields(1) [OF assms(6)] by (auto simp: sched_ok_def runnable_def)

lemma sched_ok_upd_node:
  assumes "sched_ok s Q" "p_next (f (nodes s a)) = p_next (nodes s a)" "core (f (nodes s a)) = core (nodes s a)"
  shows "sched_ok (upd_node a f s) Q" "runnable (upd_node a f s) Q = runnable s Q"
proof -
  have q: "queues (upd_node a f s) Q" using assms(1,2) by (simp add: sched_ok_def)
  show "sched_ok (upd_node a f s) Q" "runnable (upd_node a f s) Q = runnable s Q"
    using sched_ok_cong [OF assms(1) q refl] assms(3) by (simp_all add: upd_node_def)
qed

lemma chosen_not_null: "queues s Q \<Longrightarrow> k_idle s \<noteq> NULL \<Longrightarrow> chosen s Q \<noteq> NULL"
proof -
  assume q: "queues s Q" and i: "k_idle s \<noteq> NULL"
  obtain r Q' where t: "abs_take [0..<6] Q = (r, Q')" by fastforce
  show ?thesis
  proof (cases r)
    case None
    then show ?thesis using t i by (simp add: chosen_def)
  next
    case (Some n)
    then obtain j xs where "j < 6" "Q j = n # xs" using abs_take_mem [OF _ ready_levels(1), of Q n Q'] t by auto
    then show ?thesis using queuesD(3) [OF q, of j] t Some by (auto simp: chosen_def)
  qed
qed

text \<open>What the choice of the next process makes of queues \<open>P\<close>.\<close>

lemma dispatched_ok:
  assumes r: "queues s' (remaining P)" "k_current s' = chosen s P" "k_idle s' = k_idle s"
    and sP: "queues sP P" "k_idle sP = k_idle s" and n: "k_idle s \<noteq> NULL" "k_idle s \<notin> queued P"
    and ids: "\<And>a. a \<in> insert (k_idle s) (queued P) \<Longrightarrow> p_id (nodes s' a) = p_id (nodes s' (k_idle s)) \<Longrightarrow> a = k_idle s"
  shows "sched_ok s' (remaining P)" "runnable s' (remaining P) = insert (k_idle s) (queued P)"
proof -
  have ch: "chosen sP P = chosen s P" using sP(2) by (rule chosen_idle)
  have "insert (k_idle s) (insert (chosen s P) (queued (remaining P))) = insert (k_idle s) (queued P)"
    using chosen_remaining [OF sP(1)] n(2) sP(2) ch by simp
  then show run: "runnable s' (remaining P) = insert (k_idle s) (queued P)" using r by (simp add: runnable_def)
  have "k_current s' \<notin> queued (remaining P)" using chosen_out [OF sP(1)] sP(2) r(2) n(2) ch by simp
  moreover have "k_current s' \<noteq> NULL" using chosen_not_null [OF sP(1)] sP(2) n(1) r(2) ch by simp
  moreover have "k_idle s' \<notin> queued (remaining P)" using remaining_sub [OF sP(1)] r(3) n(2) by auto
  moreover have "\<forall>a\<in>runnable s' (remaining P). p_id (nodes s' a) = p_id (nodes s' (k_idle s')) \<longrightarrow> a = k_idle s'"
    unfolding run using ids r(3) by auto
  ultimately show "sched_ok s' (remaining P)" using r(1,3) n(1) by (simp add: sched_ok_def)
qed

text \<open>The queues a dispatch chooses from: the idle process is in none of them.\<close>

definition offered :: "kernel \<Rightarrow> (nat \<Rightarrow> ptr list) \<Rightarrow> nat \<Rightarrow> ptr list" where
  "offered s Q = (if k_current s = k_idle s then Q else returned s Q)"

lemma offered_ok:
  assumes "sched_ok s Q"
  shows "\<exists>sP. queues sP (offered s Q) \<and> k_idle sP = k_idle s" "k_idle s \<notin> queued (offered s Q)"
    "queued (offered s Q) \<subseteq> insert (k_current s) (queued Q)"
proof -
  have q: "queues s Q" and n: "k_current s \<noteq> NULL" and out: "k_current s \<notin> queued Q" "k_idle s \<notin> queued Q"
    using assms by (auto simp: sched_ok_def)
  have lv: "level_of s (k_current s) < 7" by (simp add: level_of_def)
  then show sub: "queued (offered s Q) \<subseteq> insert (k_current s) (queued Q)"
    using queued_put_back [OF lv] by (auto simp: offered_def returned_def)
  show "k_idle s \<notin> queued (offered s Q)"
    using sub out(2) by (auto simp: offered_def split: if_splits)
  obtain s2 where "queues s2 (returned s Q)"
    and rq: "requeued (if p_state (nodes s (k_current s)) = RUNNING \<or> p_state (nodes s (k_current s)) = YIELDED
              then set_state (k_current s) READY s else s) s2"
    using put_back_ok [OF q n(1) out(1) refl] by (auto simp: returned_def level_of_def)
  moreover have "k_idle s2 = k_idle s"
    using requeuedD(7) [OF rq] by (simp add: set_state_def upd_node_def split: if_splits)
  ultimately show "\<exists>sP. queues sP (offered s Q) \<and> k_idle sP = k_idle s"
    using q by (cases "k_current s = k_idle s") (auto simp: offered_def)
qed

text \<open>A dispatch takes the first of what is offered, and keeps the invariant.\<close>

lemma nextProcess_spec:
  assumes ok: "sched_ok s Q"
  shows "\<exists>s'. nextProcess s = Some s' \<and> sched_ok s' (remaining (offered s Q)) \<and> k_current s' = chosen s (offered s Q) \<and>
    runnable s' (remaining (offered s Q)) = insert (k_idle s) (queued (offered s Q)) \<and>
    p_state (nodes s' (k_current s')) = RUNNING \<and> (\<forall>a. core (nodes s' a) = core (nodes s a))"
proof -
  let ?R = "offered s Q"
  have q: "queues s Q" and n: "k_current s \<noteq> NULL" "k_idle s \<noteq> NULL" and out: "k_current s \<notin> queued Q" "k_idle s \<notin> queued Q"
    and ids: "\<And>a. a \<in> runnable s Q \<Longrightarrow> p_id (nodes s a) = p_id (nodes s (k_idle s)) \<Longrightarrow> a = k_idle s"
    using ok by (auto simp: sched_ok_def)
  note off = offered_ok [OF ok]
  obtain sP where sP: "queues sP ?R" "k_idle sP = k_idle s" using off(1) by blast
  obtain s' where r: "nextProcess s = Some s'" "queues s' (remaining ?R)" "k_current s' = chosen s ?R"
    "p_state (nodes s' (k_current s')) = RUNNING" "k_idle s' = k_idle s" "\<And>a. core (nodes s' a) = core (nodes s a)"
  proof (cases "k_current s = k_idle s")
    case True
    then show thesis using nextProcess_from_idle [OF q True out(2) n(2)] that by (auto simp: offered_def)
  next
    case False
    then have "p_id (nodes s (k_current s)) \<noteq> p_id (nodes s (k_idle s))"
      using ids [of "k_current s"] by (auto simp: runnable_def)
    then show thesis using nextProcess_dispatch [OF q n(1) out] False that by (auto simp: offered_def)
  qed
  have "a = k_idle s" if "a \<in> insert (k_idle s) (queued ?R)" "p_id (nodes s' a) = p_id (nodes s' (k_idle s))" for a
    using ids [of a] that off(3) core_fields(1) [OF r(6)] by (auto simp: runnable_def)
  then show ?thesis
    using dispatched_ok [OF r(2,3,5) sP n(2) off(2)] r(1,3,4,6) by (intro exI [of _ s']) simp
qed

text \<open>It loses no process but one that is READY while it runs.\<close>

lemma offered_queued:
  assumes "sched_ok s Q" "k_current s = k_idle s \<or> p_state (nodes s (k_current s)) \<in> {RUNNING, BLOCKED, YIELDED}"
  shows "insert (k_idle s) (queued (offered s Q)) = runnable s Q"
proof -
  have lv: "level_of s (k_current s) < 7" by (simp add: level_of_def)
  show ?thesis using assms(2) queued_put_back [OF lv] by (auto simp: offered_def returned_def runnable_def)
qed

lemma queued_requeue:
  "queued (requeue s (filter (\<lambda>a. \<not> blocked s a) (Q 6)) (Q(6 := filter (blocked s) (Q 6)))) = queued Q"
proof (rule set_eqI)
  fix x
  have "x \<in> queued (requeue s (filter (\<lambda>a. \<not> blocked s a) (Q 6)) (Q(6 := filter (blocked s) (Q 6)))) \<longleftrightarrow>
    (\<exists>i<7. x \<in> set ((Q(6 := filter (blocked s) (Q 6))) i)) \<or> (x \<in> set (Q 6) \<and> \<not> blocked s x)"
    by (auto simp: queued_def requeue_def simp del: fun_upd_apply)
  also have "\<dots> \<longleftrightarrow> (\<exists>i<7. x \<in> set (Q i))"
  proof
    assume "\<exists>i<7. x \<in> set (Q i)"
    then obtain i where "i < 7" "x \<in> set (Q i)" by blast
    then show "(\<exists>i<7. x \<in> set ((Q(6 := filter (blocked s) (Q 6))) i)) \<or> (x \<in> set (Q 6) \<and> \<not> blocked s x)"
      by (cases "i = 6") (auto intro!: exI [of _ i])
  qed (auto split: if_splits intro: exI [of _ 6])
  finally show "x \<in> queued (requeue s (filter (\<lambda>a. \<not> blocked s a) (Q 6)) (Q(6 := filter (blocked s) (Q 6)))) \<longleftrightarrow> x \<in> queued Q"
    by (auto simp: queued_def)
qed

text \<open>
  What unblocking does to the lists, given the level each process goes to and which are still blocked:
  those that are not leave the list of the blocked ones and go, in order, to the end of their level.
\<close>

definition abs_unblock :: "(ptr \<Rightarrow> nat) \<Rightarrow> (ptr \<Rightarrow> bool) \<Rightarrow> (nat \<Rightarrow> ptr list) \<Rightarrow> nat \<Rightarrow> ptr list" where
  "abs_unblock lv bl Q i =
    (if i = 6 then filter bl (Q 6) else Q i @ filter (\<lambda>a. \<not> bl a \<and> lv a = i) (Q 6))"

lemma requeue_unblock:
  "requeue s (filter (\<lambda>a. \<not> blocked s a) (Q 6)) (Q(6 := filter (blocked s) (Q 6))) =
     abs_unblock (level_of s) (blocked s) Q"
  by (auto simp: fun_eq_iff requeue_def abs_unblock_def level_of_def intro!: filter_cong)

section \<open>The tick\<close>

text \<open>What the tick does before it looks at the queues.\<close>

definition accounted :: "ptr \<Rightarrow> kernel \<Rightarrow> kernel" where
  "accounted rsp s =
    (let t = tsc s (tscReads s)
     in upd_node (k_current s)
          (\<lambda>n. n\<lparr>p_stack := rsp,
                p_agingInterval := p_agingInterval n div 2 + (t - p_counterInit n) div TSCFrequency s\<rparr>)
          (s\<lparr>tscReads := tscReads s + 1\<rparr>))"

definition millis :: "kernel \<Rightarrow> u64" where
  "millis s = tsc s (tscReads s) div TSCFrequency s"

lemma accounted_fields [simp]:
  "nxt (accounted rsp s) = nxt s" "qhead (accounted rsp s) = qhead s" "timers (accounted rsp s) = timers s"
  "tnxt (accounted rsp s) = tnxt s" "timerList (accounted rsp s) = timerList s"
  "k_current (accounted rsp s) = k_current s" "k_idle (accounted rsp s) = k_idle s"
  "p_state (nodes (accounted rsp s) a) = p_state (nodes s a)" "p_id (nodes (accounted rsp s) a) = p_id (nodes s a)"
  "p_manualBlocked (nodes (accounted rsp s) a) = p_manualBlocked (nodes s a)"
  by (auto simp: accounted_def upd_node_def nxt_def tnxt_def Let_def fun_eq_iff)

lemma accounted_core:
  "core (nodes (accounted rsp s) a) = core (if a = k_current s then (nodes s a)\<lparr>p_stack := rsp\<rparr> else nodes s a)"
  by (simp add: accounted_def upd_node_def Let_def core_def)

lemma accounted_queues [simp]: "queues (accounted rsp s) Q = queues s Q"
  by (rule queues_cong) simp_all

lemma accounted_due [simp]: "due (accounted rsp s) Q now ts = due s Q now ts"
  by (simp add: due_def pids_def)

lemma accounted_ok: "sched_ok (accounted rsp s) Q = sched_ok s Q" "runnable (accounted rsp s) Q = runnable s Q"
  by (simp_all add: sched_ok_def runnable_def)

text \<open>The tick, with its straight-line prefix put together.\<close>

definition tick_end :: "kernel \<Rightarrow> (ptr \<times> kernel) option" where
  "tick_end s = do {
     let s7 = upd_node (k_current s) (\<lambda>n. n\<lparr>p_quantums := p_quantums n - 1\<rparr>) s;
     s8 \<leftarrow> (if p_quantums (nodes s7 (k_current s)) < 1 \<or> p_state (nodes s7 (k_current s)) = BLOCKED \<or>
               p_state (nodes s7 (k_current s)) = YIELDED
           then nextProcess s7 else Some s7);
     let s10 = upd_node (k_current s8) (\<lambda>n. n\<lparr>p_counterInit := tsc s8 (tscReads s8)\<rparr>) (s8\<lparr>tscReads := tscReads s8 + 1\<rparr>);
     Some (p_stack (nodes s10 (k_current s8)), s10)
   }"

definition tick_start :: "ptr \<Rightarrow> kernel \<Rightarrow> kernel option" where
  "tick_start rsp s = do {
     s4 \<leftarrow> updateTimers (millis s) (accounted rsp s);
     s5 \<leftarrow> checkBlocked s4;
     checkExited s5
   }"

lemma tscReads_unused [simp]:
  "k_current (s\<lparr>tscReads := k\<rparr>) = k_current s" "upd_node a f (s\<lparr>tscReads := k\<rparr>) = (upd_node a f s)\<lparr>tscReads := k\<rparr>"
  by (simp_all add: upd_node_def)

lemma scheduler_eq:
  assumes "k_current s \<noteq> NULL" "TSCFrequency s \<noteq> 0"
  shows "scheduler rsp s = Option.bind (tick_start rsp s) tick_end"
proof -
  have "upd_node (k_current s) (\<lambda>n. n\<lparr>p_agingInterval := p_agingInterval n div 2 +
        (tsc s (tscReads s) - p_counterInit (nodes s (k_current s))) div TSCFrequency s\<rparr>)
      ((upd_node (k_current s) (\<lambda>n. n\<lparr>p_stack := rsp\<rparr>) s)\<lparr>tscReads := tscReads s + 1\<rparr>) = accounted rsp s"
    by (simp add: accounted_def upd_node_def Let_def)
  then show ?thesis
    using assms
    by (simp add: scheduler_def readTimeStampCounter_def over_frequency_def millis_def tick_end_def [abs_def] tick_start_def
        Let_def upd_node_def)
qed

text \<open>The end of a tick: the quantum is charged, and when it is used up the next process is chosen.\<close>

definition used_up :: "kernel \<Rightarrow> bool" where
  "used_up s \<longleftrightarrow> p_quantums (nodes s (k_current s)) - 1 < 1 \<or>
     p_state (nodes s (k_current s)) = BLOCKED \<or> p_state (nodes s (k_current s)) = YIELDED"

definition goes_on :: "kernel \<Rightarrow> (nat \<Rightarrow> ptr list) \<Rightarrow> ptr \<times> (nat \<Rightarrow> ptr list)" where
  "goes_on s Q = (if used_up s then (chosen s (offered s Q), remaining (offered s Q)) else (k_current s, Q))"

lemma tick_end_spec:
  assumes ok: "sched_ok s Q" and g: "goes_on s Q = (c', Q')"
  shows "\<exists>s'. tick_end s = Some (p_stack (nodes s' c'), s') \<and> sched_ok s' Q' \<and> k_current s' = c' \<and>
    runnable s' Q' = (if used_up s then insert (k_idle s) (queued (offered s Q)) else runnable s Q) \<and>
    (\<forall>a. core (nodes s' a) = core (nodes s a)) \<and> (used_up s \<longrightarrow> p_state (nodes s' c') = RUNNING)"
proof -
  let ?c = "k_current s"
  let ?s7 = "upd_node ?c (\<lambda>n. n\<lparr>p_quantums := p_quantums n - 1\<rparr>) s"
  let ?b = "p_quantums (nodes ?s7 ?c) < 1 \<or> p_state (nodes ?s7 ?c) = BLOCKED \<or> p_state (nodes ?s7 ?c) = YIELDED"
  have ok7: "sched_ok ?s7 Q" "runnable ?s7 Q = runnable s Q"
    using sched_ok_upd_node [OF ok, of "\<lambda>n. n\<lparr>p_quantums := p_quantums n - 1\<rparr>" ?c] by simp_all
  have f7: "k_current ?s7 = ?c" "k_idle ?s7 = k_idle s" "core (nodes ?s7 a) = core (nodes s a)" for a
    by (simp_all add: upd_node_def)
  have b: "?b = used_up s" by (simp add: used_up_def)
  have off: "offered ?s7 Q = offered s Q" "chosen ?s7 R = chosen s R" for R
    using f7(1,2) chosen_idle [OF f7(2)] by (simp_all add: offered_def returned_def level_of_def)
  have "\<exists>s8. (if ?b then nextProcess ?s7 else Some ?s7) = Some s8 \<and> sched_ok s8 Q' \<and> k_current s8 = c' \<and>
    runnable s8 Q' = (if used_up s then insert (k_idle s) (queued (offered s Q)) else runnable s Q) \<and>
    (\<forall>a. core (nodes s8 a) = core (nodes s a)) \<and> (used_up s \<longrightarrow> p_state (nodes s8 c') = RUNNING)"
  proof (cases "used_up s")
    case True
    then show ?thesis
      using nextProcess_spec [OF ok7(1)] g unfolding b off f7 goes_on_def by auto
  next
    case False
    then show ?thesis using ok7 f7 g unfolding b goes_on_def by (intro exI [of _ ?s7]) auto
  qed
  then obtain s8 where r: "(if ?b then nextProcess ?s7 else Some ?s7) = Some s8" "sched_ok s8 Q'" "k_current s8 = c'"
    "runnable s8 Q' = (if used_up s then insert (k_idle s) (queued (offered s Q)) else runnable s Q)"
    "\<And>a. core (nodes s8 a) = core (nodes s a)" "used_up s \<longrightarrow> p_state (nodes s8 c') = RUNNING" by blast
  let ?s10 = "upd_node (k_current s8) (\<lambda>n. n\<lparr>p_counterInit := tsc s8 (tscReads s8)\<rparr>) (s8\<lparr>tscReads := tscReads s8 + 1\<rparr>)"
  have k: "k_current ?s10 = c'" by (simp add: upd_node_def r(3))
  have "tick_end s = Some (p_stack (nodes ?s10 c'), ?s10)"
    unfolding tick_end_def Let_def r(1) bind.bind_lunit r(3) by (rule refl)
  moreover have "queues ?s10 Q'"
    using r(2) queues_cong [of Q' ?s10 s8] by (simp add: sched_ok_def nxt_def upd_node_def)
  ultimately show ?thesis
    using sched_ok_cong [OF r(2), of ?s10 Q'] r(4,5,6) k
    by (intro exI [of _ ?s10]) (simp add: upd_node_def)
qed

lemma tick_end_keeps:
  assumes ok: "sched_ok s Q"
    and st: "k_current s = k_idle s \<or> p_state (nodes s (k_current s)) \<in> {RUNNING, BLOCKED, YIELDED}"
  shows "\<exists>s' Q'. tick_end s = Some (p_stack (nodes s' (k_current s')), s') \<and> sched_ok s' Q' \<and>
    runnable s' Q' = runnable s Q \<and> (\<forall>a. core (nodes s' a) = core (nodes s a))"
  using tick_end_spec [OF ok prod.collapse [symmetric]] offered_queued [OF ok st] by metis

text \<open>The part of a tick up to the search for processes that have exited.\<close>

lemma tick_unblocks:
  assumes ok: "sched_ok s Q" and ts: "llist (tnxt s) (timerList s) ts"
    and live: "\<forall>t\<in>set ts. p_state (nodes s (t_sleepingProcess (timers s t))) \<noteq> EXITED"
    and D: "D = due s Q (millis s) ts"
  shows "\<exists>s5 Q5. tick_start rsp s = checkExited s5 \<and> queued Q5 = queued Q \<and>
    sched_ok s5 Q5 \<and> runnable s5 Q5 = runnable s Q \<and> k_current s5 = k_current s \<and> k_idle s5 = k_idle s \<and>
    (\<forall>a. core (nodes s5 a) = core (nodes (accounted rsp s) a)) \<and>
    (\<forall>a. p_state (nodes s5 a) = (if a \<in> D then READY else p_state (nodes s a))) \<and> requeued (wake_all D (accounted rsp s)) s5 \<and>
    (\<forall>a. a \<notin> queued Q \<longrightarrow> p_quantums (nodes s5 a) = p_quantums (nodes s a)) \<and>
    Q5 = abs_unblock (level_of (accounted rsp s)) (\<lambda>a. (if a \<in> D then READY else p_state (nodes s a)) = BLOCKED) Q"
proof -
  let ?s3 = "accounted rsp s"
  let ?s4 = "wake_all D ?s3"
  have q: "queues s Q" using ok by (simp add: sched_ok_def)
  have up: "updateTimers (millis s) ?s3 = Some ?s4"
    using updateTimers_ok [of ?s3 Q ts "millis s"] q ts live D by simp
  have q4: "queues ?s4 Q" using q by simp
  let ?Q5 = "requeue ?s4 (filter (\<lambda>a. \<not> blocked ?s4 a) (Q 6)) (Q(6 := filter (blocked ?s4) (Q 6)))"
  obtain s5 where s5: "checkBlocked ?s4 = Some s5" "requeued ?s4 s5" "queues s5 ?Q5"
    "\<And>a. a \<notin> queued Q \<Longrightarrow> p_quantums (nodes s5 a) = p_quantums (nodes ?s4 a)"
    using checkBlocked_ok [OF q4] by blast
  have qu: "p_quantums (nodes s5 a) = p_quantums (nodes s a)" if "a \<notin> queued Q" for a
    using s5(4) [OF that] by (simp add: wake_all_def accounted_def upd_node_def Let_def)
  have "level_of ?s4 = level_of ?s3" "blocked ?s4 = (\<lambda>a. (if a \<in> D then READY else p_state (nodes s a)) = BLOCKED)"
    by (simp_all add: fun_eq_iff level_of_def blocked_def) (simp add: wake_all_def)
  then have un: "?Q5 = abs_unblock (level_of ?s3) (\<lambda>a. (if a \<in> D then READY else p_state (nodes s a)) = BLOCKED) Q"
    using requeue_unblock [of ?s4 Q] by simp
  note rq = requeuedD [OF s5(2)]
  have st: "p_state (nodes s5 a) = (if a \<in> D then READY else p_state (nodes s a))" for a
    using rq(2) [of a] by (simp add: wake_all_def)
  have cr: "core (nodes s5 a) = core (nodes ?s3 a)" for a using requeued_core [OF s5(2), of a] by simp
  have qd: "queued ?Q5 = queued Q" by (rule queued_requeue)
  have "sched_ok s5 ?Q5" "runnable s5 ?Q5 = runnable ?s3 Q"
    using sched_ok_cong [of ?s3 Q s5 ?Q5] ok s5(3) qd rq(6,7) cr by (simp_all add: accounted_ok)
  then show ?thesis using up s5(1,2) qd rq(6,7) cr st qu un
    by (intro exI [of _ s5] exI [of _ ?Q5]) (simp add: accounted_ok tick_start_def)
qed

section \<open>The tick on lists\<close>

text \<open>The ready processes in the order they are served.\<close>

definition ready_order :: "(nat \<Rightarrow> ptr list) \<Rightarrow> ptr list" where "ready_order Q = concat (map Q [0..<6])"

lemma abs_take_concat:
  "distinct is \<Longrightarrow> fst (abs_take is Q) = (case concat (map Q is) of [] \<Rightarrow> None | a # _ \<Rightarrow> Some a) \<and>
    concat (map (snd (abs_take is Q)) is) = tl (concat (map Q is)) \<and> (\<forall>i. i \<notin> set is \<longrightarrow> snd (abs_take is Q) i = Q i)"
proof (induction "is")
  case (Cons i "is")
  have m: "concat (map (\<lambda>a. if a = i then xs else Q a) is) = concat (map Q is)" for xs
    using Cons.prems by (intro arg_cong [of _ _ concat] map_cong) auto
  show ?case
  proof (cases "Q i")
    case (Cons a xs)
    then show ?thesis by (simp add: m)
  qed (use Cons in simp)
qed simp

lemma chosen_order: "chosen s R = (case ready_order R of [] \<Rightarrow> k_idle s | a # _ \<Rightarrow> a)"
proof -
  have "fst (abs_take [0..<6] R) = (case ready_order R of [] \<Rightarrow> None | a # _ \<Rightarrow> Some a)"
    unfolding ready_order_def using abs_take_concat [of "[0..<6]" R] by simp
  then show ?thesis by (simp add: chosen_def split: list.splits)
qed

text \<open>
  A tick as an operation on lists.  The processes of the last list that are not blocked go to the
  ready queues of their levels.  When the time of the running process \<open>c\<close> is up, \<open>c\<close> (if it is not
  the idle one) goes where its state says, and the first of the ready processes in the order of the
  levels runs, or the idle process if there is none.
\<close>

definition abs_tick :: "(ptr \<Rightarrow> nat) \<Rightarrow> (ptr \<Rightarrow> ProcessState) \<Rightarrow> bool \<Rightarrow> ptr \<Rightarrow> ptr \<Rightarrow> (nat \<Rightarrow> ptr list) \<Rightarrow>
    ptr \<times> (nat \<Rightarrow> ptr list)" where
  "abs_tick lv st up c idle Q =
    (let U = abs_unblock lv (\<lambda>a. st a = BLOCKED) Q;
         R = (if c = idle then U else abs_put_back c (st c) (lv c) U)
     in if up then (case ready_order R of [] \<Rightarrow> idle | a # _ \<Rightarrow> a, remaining R) else (c, U))"

text \<open>The states once the sleepers that are due are awake, and the levels after the accounting.\<close>

definition state_now :: "kernel \<Rightarrow> (nat \<Rightarrow> ptr list) \<Rightarrow> ptr list \<Rightarrow> ptr \<Rightarrow> ProcessState" where
  "state_now s Q ts a = (if a \<in> due s Q (millis s) ts then READY else p_state (nodes s a))"

definition level_now :: "kernel \<Rightarrow> ptr \<Rightarrow> nat" where
  "level_now s a = aging_level
    (if a = k_current s
     then p_agingInterval (nodes s a) div 2 + (tsc s (tscReads s) - p_counterInit (nodes s a)) div TSCFrequency s
     else p_agingInterval (nodes s a))"

definition time_up :: "kernel \<Rightarrow> (nat \<Rightarrow> ptr list) \<Rightarrow> ptr list \<Rightarrow> bool" where
  "time_up s Q ts \<longleftrightarrow> p_quantums (nodes s (k_current s)) \<le> 1 \<or> state_now s Q ts (k_current s) \<in> {BLOCKED, YIELDED}"

lemma level_accounted: "level_of (accounted rsp s) = level_now s"
  by (auto simp: fun_eq_iff level_of_def level_now_def accounted_def upd_node_def Let_def)

lemma level_cong: "(\<And>a. p_agingInterval (nodes s' a) = p_agingInterval (nodes s a)) \<Longrightarrow> level_of s' = level_of s"
  by (simp add: fun_eq_iff level_of_def)

text \<open> (C3)
  A timer tick refines the tick on lists.  On a kernel that keeps the scheduler's invariant and in
  which no process has exited, the tick returns; its queues and the process it resumes are those that
  \<open>abs_tick\<close> gives for the states in which the due sleepers are awake, for the levels that follow
  from the aging, and for a time that is up when the quantum is used up or the process blocked or
  yielded.  The invariant holds again, the stack pointer of the interrupted process and nobody
  else's is saved, and the tick resumes with the one saved for the process that is now current, which
  is RUNNING if it was chosen.  (A process that is READY while it runs, because its timer expired or
  its buffer got a byte, goes into no queue when its time is up: \<open>abs_put_back\<close> says so.)
\<close>

theorem scheduler_refines_abs_tick:
  assumes ok: "sched_ok s Q" and f: "TSCFrequency s \<noteq> 0" and ts: "llist (tnxt s) (timerList s) ts"
    and live: "\<forall>t\<in>set ts. p_state (nodes s (t_sleepingProcess (timers s t))) \<noteq> EXITED"
      "\<forall>a\<in>insert (k_current s) (queued Q). p_state (nodes s a) \<noteq> EXITED"
    and tick: "abs_tick (level_now s) (state_now s Q ts) (time_up s Q ts) (k_current s) (k_idle s) Q = (c', Q')"
  shows "\<exists>s'. scheduler rsp s = Some (p_stack (nodes s' c'), s') \<and> k_current s' = c' \<and> sched_ok s' Q' \<and>
    (\<forall>a. p_stack (nodes s' a) = (if a = k_current s then rsp else p_stack (nodes s a))) \<and>
    (time_up s Q ts \<longrightarrow> p_state (nodes s' c') = RUNNING)"
proof -
  let ?c = "k_current s" and ?U = "abs_unblock (level_now s) (\<lambda>a. state_now s Q ts a = BLOCKED) Q"
  have U: "abs_unblock (level_of (accounted rsp s))
      (\<lambda>a. (if a \<in> due s Q (millis s) ts then READY else p_state (nodes s a)) = BLOCKED) Q = ?U"
    by (simp add: level_accounted state_now_def)
  obtain s5 where s5: "tick_start rsp s = checkExited s5" "queued ?U = queued Q" "sched_ok s5 ?U"
    "k_current s5 = ?c" "k_idle s5 = k_idle s" "\<And>a. core (nodes s5 a) = core (nodes (accounted rsp s) a)"
    "\<And>a. p_state (nodes s5 a) = state_now s Q ts a"
    "requeued (wake_all (due s Q (millis s) ts) (accounted rsp s)) s5"
    "\<And>a. a \<notin> queued Q \<Longrightarrow> p_quantums (nodes s5 a) = p_quantums (nodes s a)"
    using tick_unblocks [OF ok ts live(1) refl, of rsp] unfolding U state_now_def by blast
  have lv: "level_of s5 = level_now s"
    using level_cong [of s5 "accounted rsp s"] requeuedD(3) [OF s5(8)] level_accounted [of rsp s] by simp
  have "\<forall>a\<in>insert (k_current s5) (queued ?U). p_state (nodes s5 a) \<noteq> EXITED"
    unfolding s5(2,4,7) using live(2) by (simp add: state_now_def)
  then have "checkExited s5 = Some s5" using checkExited_none [of s5 ?U] s5(3) by (simp add: sched_ok_def)
  then have sch: "scheduler rsp s = tick_end s5"
    using scheduler_eq [of s rsp] f ok s5(1) by (simp add: sched_ok_def)
  have "?c \<notin> queued Q" using ok by (simp add: sched_ok_def)
  then have up: "used_up s5 = time_up s Q ts" using s5(9) [of ?c] unfolding used_up_def time_up_def s5(4,7) by auto
  have off: "offered s5 ?U = (if ?c = k_idle s then ?U else abs_put_back ?c (state_now s Q ts ?c) (level_now s ?c) ?U)"
    unfolding offered_def returned_def s5(4,5,7) lv ..
  have "goes_on s5 ?U = (c', Q')"
    unfolding goes_on_def chosen_order up off s5(4,5) using tick unfolding abs_tick_def Let_def .
  from tick_end_spec [OF s5(3) this] obtain s' where s': "tick_end s5 = Some (p_stack (nodes s' c'), s')" "sched_ok s' Q'"
    "k_current s' = c'" "\<And>a. core (nodes s' a) = core (nodes s5 a)" "used_up s5 \<longrightarrow> p_state (nodes s' c') = RUNNING" by blast
  have "p_stack (nodes s' a) = (if a = ?c then rsp else p_stack (nodes s a))" for a
    using core_fields(2) [OF s'(4) [unfolded s5(6) accounted_core], of a] by simp
  then show ?thesis using sch s' up by auto
qed

lemma demo_sched_ok: "sched_ok demo_kernel demo_Q"
  by (simp add: sched_ok_def runnable_def demo_queues)

lemma demo_tick:
  "\<forall>a\<in>insert (k_current demo_kernel) (queued demo_Q). p_state (nodes demo_kernel a) \<noteq> EXITED"
  "llist (tnxt demo_kernel) (timerList demo_kernel) []"
  "due demo_kernel demo_Q now [] = {}"
  by (simp_all add: due_def)

text \<open>
  In the demonstration state a timer is due whose process 0x4000 is in the list of the blocked ones:
  the tick wakes it, puts it at the end of its level, and goes on with the running process.
\<close>

definition sleeping_kernel :: kernel where
  "sleeping_kernel = demo_kernel\<lparr>timerList := 0x9000,
     timers := (timers demo_kernel)(0x9000 := \<lparr>t_next = NULL, t_endInterval = 0, t_sleepingProcess = 0x4000, t_pid = 4\<rparr>)\<rparr>"

lemma sleeping_eval [simp]:
  "nodes sleeping_kernel = demo_nodes" "k_current sleeping_kernel = 0x1000" "k_idle sleeping_kernel = 0x2000"
  "TSCFrequency sleeping_kernel = 1000" "tsc sleeping_kernel k = 5000" "tscReads sleeping_kernel = 0"
  "timerList sleeping_kernel = 0x9000" "nxt sleeping_kernel = nxt demo_kernel" "qhead sleeping_kernel = qhead demo_kernel"
  "timers sleeping_kernel 0x9000 = \<lparr>t_next = NULL, t_endInterval = 0, t_sleepingProcess = 0x4000, t_pid = 4\<rparr>"
  by (simp_all add: sleeping_kernel_def nxt_def fun_eq_iff)

lemma sleeping_ok: "sched_ok sleeping_kernel demo_Q" "llist (tnxt sleeping_kernel) (timerList sleeping_kernel) [0x9000]"
  "state_now sleeping_kernel demo_Q [0x9000] = (\<lambda>a. if a = 0x4000 then READY else p_state (demo_nodes a))"
proof -
  have "queues sleeping_kernel demo_Q" using demo_queues by (simp add: queues_def)
  then show "sched_ok sleeping_kernel demo_Q" by (simp add: sched_ok_def runnable_def)
  show "llist (tnxt sleeping_kernel) (timerList sleeping_kernel) [0x9000]" by (simp add: tnxt_def)
  show "state_now sleeping_kernel demo_Q [0x9000] = (\<lambda>a. if a = 0x4000 then READY else p_state (demo_nodes a))"
    by (auto simp: fun_eq_iff state_now_def due_def pids_def)
qed

lemma sleeping_tick:
  "abs_tick (level_now sleeping_kernel) (state_now sleeping_kernel demo_Q [0x9000]) (time_up sleeping_kernel demo_Q [0x9000])
     0x1000 0x2000 demo_Q = (0x4000, (\<lambda>_. [])(0 := [0x1000], 1 := [0x3000, 0x5000]))"
proof -
  let ?st = "\<lambda>a. if a = 0x4000 then READY else p_state (demo_nodes a)" and ?lv = "level_now sleeping_kernel"
  have lv: "?lv 0x4000 = 0" "?lv 0x1000 = 0" by (simp_all add: level_now_def aging_level_def QUANTUM_SIZE_def demo_pcb_def)
  have U: "abs_unblock ?lv (\<lambda>a. ?st a = BLOCKED) demo_Q = (\<lambda>_. [])(0 := [0x4000], 1 := [0x3000, 0x5000])"
    using lv by (auto simp: fun_eq_iff abs_unblock_def demo_Q_def)
  have "time_up sleeping_kernel demo_Q [0x9000]" by (simp add: time_up_def)
  then show ?thesis
    unfolding abs_tick_def sleeping_ok(3) U
    by (auto simp: abs_put_back_def lv ready_order_def remaining_def upt_rec fun_eq_iff)
qed

lemma scheduler_refines_abs_tick_witness:
  "\<exists>s'. scheduler 0x7777 sleeping_kernel = Some (0x400000, s') \<and> k_current s' = 0x4000 \<and>
    queues s' ((\<lambda>_. [])(0 := [0x1000], 1 := [0x3000, 0x5000])) \<and> p_stack (nodes s' 0x1000) = 0x7777"
proof -
  have "TSCFrequency sleeping_kernel \<noteq> 0"
    "\<forall>t\<in>set [0x9000]. p_state (nodes sleeping_kernel (t_sleepingProcess (timers sleeping_kernel t))) \<noteq> EXITED"
    "\<forall>a\<in>insert (k_current sleeping_kernel) (queued demo_Q). p_state (nodes sleeping_kernel a) \<noteq> EXITED"
    by simp_all
  from scheduler_refines_abs_tick [OF sleeping_ok(1) this(1) sleeping_ok(2) this(2,3), of "0x4000" _ "0x7777"] sleeping_tick
  show ?thesis by (fastforce simp: sched_ok_def demo_pcb_def)
qed

text \<open>
  A process that is READY while it runs is lost: at the next dispatch it goes into no queue.
  (\<^verbatim>\<open>setBufferReferencesReady\<close> and an expired timer make the running process READY.)
\<close>

theorem nextProcess_loses_ready:
  assumes "sched_ok s Q" "k_current s \<noteq> k_idle s" "p_state (nodes s (k_current s)) = READY"
  shows "\<exists>s' Q'. nextProcess s = Some s' \<and> queues s' Q' \<and> runnable s' Q' = runnable s Q - {k_current s}"
proof -
  have q: "queues s Q" and n: "k_current s \<noteq> NULL" "k_current s \<notin> queued Q" "k_idle s \<notin> queued Q"
    using assms(1) by (auto simp: sched_ok_def)
  have "p_id (nodes s (k_current s)) \<noteq> p_id (nodes s (k_idle s))"
    using assms(1,2) by (auto simp: sched_ok_def runnable_def)
  from nextProcess_dispatch [OF q n this] obtain s' where s': "nextProcess s = Some s'"
    "queues s' (remaining (returned s Q))" "k_current s' = chosen s (returned s Q)" "k_idle s' = k_idle s"
    by blast
  have ret: "returned s Q = Q" using assms(3) by (simp add: returned_def abs_put_back_def)
  have "runnable s' (remaining Q) = insert (k_idle s) (queued Q)"
    using chosen_remaining [OF q n(3)] s'(3,4) ret by (simp add: runnable_def)
  also have "\<dots> = runnable s Q - {k_current s}" using n(2) assms(2) by (auto simp: runnable_def)
  finally show ?thesis using s'(1,2) ret by auto
qed

definition ready_kernel :: kernel where
  "ready_kernel = set_state 0x1000 READY demo_kernel"

lemma ready_kernel_ok: "sched_ok ready_kernel demo_Q" "runnable ready_kernel demo_Q = runnable demo_kernel demo_Q"
  unfolding ready_kernel_def set_state_def
  using sched_ok_upd_node [OF demo_sched_ok, of "\<lambda>n. n\<lparr>p_state := READY\<rparr>" "0x1000"] by simp_all

lemma nextProcess_loses_ready_witness:
  "\<exists>s' Q'. nextProcess ready_kernel = Some s' \<and> queues s' Q' \<and> runnable s' Q' = {0x2000, 0x3000, 0x5000, 0x4000}"
proof -
  have k: "k_current ready_kernel = 0x1000" "k_idle ready_kernel = 0x2000"
    by (simp_all add: ready_kernel_def set_state_def upd_node_def)
  have st: "p_state (nodes ready_kernel 0x1000) = READY" by (simp add: ready_kernel_def set_state_def)
  have "runnable ready_kernel demo_Q - {0x1000} = {0x2000, 0x3000, 0x5000, 0x4000}"
    unfolding ready_kernel_ok(2) by (auto simp: runnable_def)
  then show ?thesis using nextProcess_loses_ready [OF ready_kernel_ok(1)] k st by simp
qed

section \<open>The order of the processes\<close>

text \<open> (C5)
  The dispatcher serves by priority, and first come first served within a level: after the running
  process was put back where its state says, the next one is the first of the ready processes in
  that order (the idle process if there is none), the others keep their order, and the blocked ones
  stay where they are.
\<close>

theorem nextProcess_serves_in_order:
  assumes "queues s Q" "k_current s \<noteq> NULL" "k_current s \<notin> queued Q" "k_idle s \<notin> queued Q"
    and "p_id (nodes s (k_current s)) \<noteq> p_id (nodes s (k_idle s))" "R = returned s Q"
  shows "\<exists>s' R'. nextProcess s = Some s' \<and> queues s' R' \<and> p_state (nodes s' (k_current s')) = RUNNING \<and>
    k_current s' = (case ready_order R of [] \<Rightarrow> k_idle s | a # _ \<Rightarrow> a) \<and>
    ready_order R' = tl (ready_order R) \<and> R' 6 = R 6"
proof -
  obtain s' where s': "nextProcess s = Some s'" "queues s' (remaining R)" "k_current s' = chosen s R"
    "p_state (nodes s' (k_current s')) = RUNNING"
    using nextProcess_dispatch [OF assms(1-5)] assms(6) by blast
  note c = abs_take_concat [of "[0..<6]" R]
  have "fst (abs_take [0..<6] R) = (case ready_order R of [] \<Rightarrow> None | a # _ \<Rightarrow> Some a)"
    unfolding ready_order_def using c by simp
  then have "k_current s' = (case ready_order R of [] \<Rightarrow> k_idle s | a # _ \<Rightarrow> a)"
    using s'(3) by (simp add: chosen_def split: list.splits)
  then show ?thesis using s' c by (auto simp: remaining_def ready_order_def)
qed

text \<open>In the demonstration state the running process goes to the highest level and runs on.\<close>

lemma nextProcess_serves_in_order_witness:
  "\<exists>s' R'. nextProcess demo_kernel = Some s' \<and> queues s' R' \<and> k_current s' = 0x1000 \<and> ready_order R' = [0x3000, 0x5000]"
proof -
  have k: "k_current demo_kernel = 0x1000" "k_idle demo_kernel = 0x2000" by (simp_all add: demo_kernel_def)
  have "returned demo_kernel demo_Q = demo_Q(0 := [0x1000])"
    by (simp add: returned_def k level_of_def aging_level_def abs_put_back_def)
  then have "ready_order (returned demo_kernel demo_Q) = [0x1000, 0x3000, 0x5000]"
    by (simp add: ready_order_def upt_rec demo_Q_def)
  then show ?thesis
    using nextProcess_serves_in_order [OF demo_queues, of "returned demo_kernel demo_Q"] k by auto
qed

end
