(* ===== verification/Syscalls.thy ===== *)
theory Syscalls
  imports Boot Keyboard Sync Video Ticks
begin

text \<open>
  The system calls of \<^verbatim>\<open>Kernel/interruptRelated/syscallsDispatcher.c\<close> over the state of the whole
  machine, and the exception handler of \<^verbatim>\<open>exceptions.c\<close> that uses them.
\<close>

section \<open>State\<close>

text \<open>
  The state of the modules, the register dump, and the devices: the clock, the speaker's port and
  what was sent to it, and the floating point unit.  The copies of memory and of the memory
  managers inside \<open>scr\<close> and \<open>sems\<close> are views: the ones that count are the kernel's.
\<close>

record machine =
  kern :: kernel
  kbd :: keyboard
  scr :: screen
  sems :: sync
  inforeg :: "u64 list"
  hasRegDump :: bool
  rtc :: "u8 \<times> u8 \<times> u8"
  sound_port :: "u8 \<times> u8"
  ports :: "port_op list"
  fpu_of :: fpu

definition put_kern :: "kernel \<Rightarrow> machine \<Rightarrow> machine" where
  "put_kern s M = M\<lparr>kern := s\<rparr>"

definition on_mem :: "(bytes \<Rightarrow> bytes) \<Rightarrow> machine \<Rightarrow> machine" where
  "on_mem f M = put_kern ((kern M)\<lparr>mem := f (mem (kern M))\<rparr>) M"

definition screen_view :: "machine \<Rightarrow> screen" where
  "screen_view M = (scr M)\<lparr>vmem := mem (kern M)\<rparr>"

definition put_screen :: "screen \<Rightarrow> machine \<Rightarrow> machine" where
  "put_screen v M = on_mem (\<lambda>_. vmem v) (M\<lparr>scr := v\<rparr>)"

definition on_screen :: "(screen \<Rightarrow> screen) \<Rightarrow> machine \<Rightarrow> machine" where
  "on_screen f M = put_screen (f (screen_view M)) M"

definition sync_view :: "machine \<Rightarrow> sync" where
  "sync_view M = (sems M)\<lparr>sync_mm := mm (kern M), names := mem (kern M)\<rparr>"

definition put_sync :: "sync \<Rightarrow> machine \<Rightarrow> machine" where
  "put_sync s M = put_kern ((kern M)\<lparr>mm := sync_mm s\<rparr>) (M\<lparr>sems := s\<rparr>)"

text \<open>Small stores of the calls that return their result through a pointer.\<close>

definition store16 :: "ptr \<Rightarrow> u16 \<Rightarrow> bytes \<Rightarrow> bytes" where
  "store16 a v m = m(a := ucast v, a + 1 := ucast (drop_bit 8 v))"

definition store32 :: "ptr \<Rightarrow> u32 \<Rightarrow> bytes \<Rightarrow> bytes" where
  "store32 a v m = fold (\<lambda>i m. m(a + of_nat i := ucast (drop_bit (8 * i) v))) [0..<4] m"

section \<open>Replies\<close>

text \<open>
  A call returns, or raises the timer interrupt to give up the processor; then \<open>resume\<close> is what
  the process does once it runs again.
\<close>

datatype resume =
    AndReturn u64
  | ReadOn ptr ptr ptr u64
  | WriteOn ptr ptr ptr u64
  | ChildsOn ptr
  | SleepOn ptr
  | LockOn ptr
  | UnlockOn ptr

datatype reply = Ret u64 | Int20h resume | Hlt u64

type_synonym outcome = "(reply \<times> machine) option"

definition err :: u64 where "err = - 1"

section \<open>Reading and writing\<close>

text \<open>One pass of the waiting loop, and what follows when there is no need to wait.\<close>

definition read_pass :: "ptr \<Rightarrow> ptr \<Rightarrow> ptr \<Rightarrow> u64 \<Rightarrow> machine \<Rightarrow> outcome" where
  "read_pass current b buff count M =
    (let s = kern M; B = bufs s b in
     if bufferDim B = 0 \<and> bufState B \<noteq> CLOSED then do {
       (_, s1) \<leftarrow> setProcessState current BLOCKED s;
       Some (Int20h (ReadOn current b buff count), put_kern s1 M)
     }
     else if bufState B = CLOSED then Some (Ret 0, M)
     else if buffId B = PIPE then do {
       (k, s1) \<leftarrow> readPipe b buff count s;
       Some (Ret k, put_kern s1 M)
     }
     else let (k, m, r) = readBuffer (Some B) buff count (mem s)
          in Some (Ret k, put_kern ((buf_result b r s)\<lparr>mem := m\<rparr>) M))"

definition arqSysRead :: "u64 \<Rightarrow> ptr \<Rightarrow> u64 \<Rightarrow> machine \<Rightarrow> outcome" where
  "arqSysRead pd buff count M =
    (let s = kern M; current = getCurrentProcessEntry s in
     if current = NULL then Some (Ret 0, M)
     else do {
       b \<leftarrow> getPDEntry current (unat (ucast pd :: u32)) s;
       let st = bufState (bufs s b);
       if b = NULL \<or> st = CLOSED \<or> st = WRITE then Some (Ret 0, M)
       else read_pass current b buff count M
     })"

fun print_bytes :: "(u8 \<Rightarrow> screen \<Rightarrow> screen) \<Rightarrow> nat \<Rightarrow> ptr \<Rightarrow> screen \<Rightarrow> screen" where
  "print_bytes f 0 p v = v"
| "print_bytes f (Suc n) p v = print_bytes f n (p + 1) (f (vmem v p) v)"

definition red :: Color where "red = \<lparr>col_b = 0, col_g = 0, col_r = 0xFF\<rparr>"

text \<open>The loops over the screen count with an \<^verbatim>\<open>int\<close>: no result from \<open>2 ^ 31\<close> bytes on, where it overflows.\<close>

definition write_pass :: "ptr \<Rightarrow> ptr \<Rightarrow> ptr \<Rightarrow> u64 \<Rightarrow> machine \<Rightarrow> outcome" where
  "write_pass current b buff count M =
    (let s = kern M; B = bufs s b in
     if unat (bufferDim B) = BUFF_SIZE \<and> bufState B \<noteq> CLOSED then do {
       (_, s1) \<leftarrow> setProcessState current BLOCKED s;
       Some (Int20h (WriteOn current b buff count), put_kern s1 M)
     }
     else if bufState B = CLOSED then Some (Ret 0, M)
     else if (buffId B = STDOUT \<or> buffId B = STDERR) \<and> 2 ^ 31 \<le> count then None
     else if buffId B = STDOUT then Some (Ret count, on_screen (print_bytes scrPrintChar (unat count) buff) M)
     else if buffId B = STDERR
     then Some (Ret count, on_screen (print_bytes (\<lambda>c. scrPrintCharWithColor c red) (unat count) buff) M)
     else do {
       (k, s1) \<leftarrow> writePipe b buff count s;
       Some (Ret k, put_kern s1 M)
     })"

definition arqSysWrite :: "u64 \<Rightarrow> ptr \<Rightarrow> u64 \<Rightarrow> machine \<Rightarrow> outcome" where
  "arqSysWrite pd buff count M =
    (let s = kern M; current = getCurrentProcessEntry s in
     if current = NULL then Some (Ret 0, M)
     else do {
       b \<leftarrow> getPDEntry current (unat (ucast pd :: u32)) s;
       let st = bufState (bufs s b);
       if b = NULL \<or> st = CLOSED \<or> st = READ then Some (Ret 0, M)
       else write_pass current b buff count M
     })"

section \<open>Memory and semaphores\<close>

definition arqSysMalloc :: "u64 \<Rightarrow> machine \<Rightarrow> outcome" where
  "arqSysMalloc n M = do {
     (p, s) \<leftarrow> sysMalloc (getCurrentProcessEntry (kern M)) n (kern M);
     Some (Ret p, put_kern s M)
   }"

definition arqSysFree :: "ptr \<Rightarrow> machine \<Rightarrow> outcome" where
  "arqSysFree p M = do {
     s \<leftarrow> sysFree (getCurrentProcessEntry (kern M)) p (kern M);
     Some (Ret 0, put_kern s M)
   }"

definition arqSysRealloc :: "ptr \<Rightarrow> u64 \<Rightarrow> machine \<Rightarrow> outcome" where
  "arqSysRealloc p n M = do {
     (q, s) \<leftarrow> sysRealloc (getCurrentProcessEntry (kern M)) p n (kern M);
     Some (Ret q, put_kern s M)
   }"

definition arqSysGetFreeMemory :: "machine \<Rightarrow> outcome" where
  "arqSysGetFreeMemory M = Some (Ret (getFreeMemoryAmount (mm (kern M))), M)"

definition arqSysGetUsedMemory :: "machine \<Rightarrow> outcome" where
  "arqSysGetUsedMemory M = Some (Ret (getUsedMemoryAmount (mm (kern M))), M)"

definition arqSysSemOpen :: "ptr \<Rightarrow> u64 \<Rightarrow> machine \<Rightarrow> outcome" where
  "arqSysSemOpen sem_id initialValue M = do {
     (r, s) \<leftarrow> semOpen sem_id initialValue (sync_view M);
     Some (Ret r, put_sync s M)
   }"

text \<open>A lock routine that finds its lock word taken runs again on the same semaphore.\<close>

definition sem_reply :: "resume \<Rightarrow> u64 option \<Rightarrow> reply" where
  "sem_reply again r = (case r of None \<Rightarrow> Int20h again | Some v \<Rightarrow> Ret v)"

definition arqSysSemWait :: "ptr \<Rightarrow> machine \<Rightarrow> outcome" where
  "arqSysSemWait sem_id M = do {
     p \<leftarrow> getSemById sem_id (sync_view M);
     (r, s) \<leftarrow> semWait sem_id (sync_view M);
     Some (sem_reply (LockOn p) r, put_sync s M)
   }"

definition arqSysSemPost :: "ptr \<Rightarrow> machine \<Rightarrow> outcome" where
  "arqSysSemPost sem_id M = do {
     p \<leftarrow> getSemById sem_id (sync_view M);
     (r, s) \<leftarrow> semPost sem_id (sync_view M);
     Some (sem_reply (UnlockOn p) r, put_sync s M)
   }"

definition arqSysSemClose :: "ptr \<Rightarrow> machine \<Rightarrow> outcome" where
  "arqSysSemClose sem_id M = do {
     (r, s) \<leftarrow> semClose sem_id (sync_view M);
     Some (Ret r, put_sync s M)
   }"

section \<open>Processes\<close>

text \<open>Process ids arrive in 64-bit registers and are cut to 32 bits when they are looked up.\<close>

definition arqSysBlock :: "u64 \<Rightarrow> machine \<Rightarrow> outcome" where
  "arqSysBlock pid M = do {
     e \<leftarrow> getEntry (ucast pid) (kern M);
     if e = NULL then Some (Ret err, M)
     else do { s \<leftarrow> sysBlock e (kern M); Some (Int20h (AndReturn 0), put_kern s M) }
   }"

definition arqSysUnblock :: "u64 \<Rightarrow> machine \<Rightarrow> outcome" where
  "arqSysUnblock pid M = do {
     e \<leftarrow> getEntry (ucast pid) (kern M);
     if e = NULL then Some (Ret err, M)
     else do { s \<leftarrow> sysUnBlock e (kern M); Some (Int20h (AndReturn 0), put_kern s M) }
   }"

definition arqSysPriority :: "u64 \<Rightarrow> u64 \<Rightarrow> machine \<Rightarrow> outcome" where
  "arqSysPriority pid newPriority M =
    (if pid = 1 \<or> pid = 2 then Some (Ret err, M)
     else do {
       (r, s) \<leftarrow> changePriority (ucast pid) (ucast newPriority) (kern M);
       Some (Ret (of_int r), put_kern s M)
     })"

definition arqSysChangeState :: "u64 \<Rightarrow> machine \<Rightarrow> outcome" where
  "arqSysChangeState pid M = do {
     e \<leftarrow> getEntry (ucast pid) (kern M);
     if e = NULL then Some (Ret err, M)
     else do {
       s \<leftarrow> (if isBlocked e (kern M) then map_option snd (setProcessState e READY (kern M))
            else if isReady e (kern M) then map_option snd (setProcessState e BLOCKED (kern M))
            else Some (kern M));
       Some (Int20h (AndReturn 0), put_kern s M)
     }
   }"

definition arqSysKill :: "u64 \<Rightarrow> machine \<Rightarrow> outcome" where
  "arqSysKill pid M =
    (if pid < 3 then Some (Ret err, M)
     else do {
       e \<leftarrow> getEntry (ucast pid) (kern M);
       (ok, s) \<leftarrow> setProcessState e EXITED (kern M);
       Some (if ok then Int20h (AndReturn 1) else Ret err, put_kern s M)
     })"

text \<open>\<^verbatim>\<open>ProcessData\<close> in memory: 32 bytes, with the pointers at 8 and 16 and the two bytes at 24.\<close>

definition store_data :: "ptr \<Rightarrow> ProcessData \<Rightarrow> bytes \<Rightarrow> bytes" where
  "store_data a d m =
    (store64 (a + 16) (pd_baseStack d) (store64 (a + 8) (pd_stack d) (store32 a (pd_id d) m)))
      (a + 25 := pd_priority d, a + 24 := (if pd_foreground d then 1 else 0))"

definition arqSysPs :: "ptr \<Rightarrow> machine \<Rightarrow> outcome" where
  "arqSysPs processes M = do {
     ds \<leftarrow> sysPs (kern M);
     Some (Ret (of_nat (length ds)),
           on_mem (fold (\<lambda>(i, d). store_data (processes + 32 * of_nat i) d) (enumerate 0 ds)) M)
   }"

definition arqSysExecve :: "u64 \<Rightarrow> u64 \<Rightarrow> ptr \<Rightarrow> ptr \<Rightarrow> machine \<Rightarrow> outcome" where
  "arqSysExecve processFunction argc argv rsp M =
    (let (r, s) = sysExecve processFunction argc argv rsp (kern M) in Some (Ret (of_int r), put_kern s M))"

definition arqSysFork :: "ptr \<Rightarrow> machine \<Rightarrow> outcome" where
  "arqSysFork rsp M = do { (r, s) \<leftarrow> sysFork rsp (kern M); Some (Ret (of_int r), put_kern s M) }"

definition arqSysGetPid :: "machine \<Rightarrow> outcome" where
  "arqSysGetPid M = Some (Ret (ucast (getCurrentProcessPid (kern M))), M)"

definition arqSysIdle :: "machine \<Rightarrow> outcome" where "arqSysIdle M = Some (Hlt 0, M)"

definition childs_pass :: "ptr \<Rightarrow> machine \<Rightarrow> outcome" where
  "childs_pass current M = do {
     waiting \<leftarrow> hasOpenChilds current (kern M);
     if waiting then do {
       (_, s) \<leftarrow> setProcessState current BLOCKED (kern M);
       Some (Int20h (ChildsOn current), put_kern s M)
     }
     else Some (Ret 0, put_kern (setProcessToForeground current (kern M)) M)
   }"

definition arqSysWait :: "machine \<Rightarrow> outcome" where
  "arqSysWait M =
    (let current = getCurrentProcessEntry (kern M)
     in childs_pass current (put_kern (setProcessToBackground current (kern M)) M))"

definition arqSysExit :: "machine \<Rightarrow> outcome" where
  "arqSysExit M = do {
     (_, s) \<leftarrow> setProcessState (getCurrentProcessEntry (kern M)) EXITED (kern M);
     Some (Int20h (AndReturn 0), put_kern s M)
   }"

definition arqSysYield :: "machine \<Rightarrow> outcome" where
  "arqSysYield M = do {
     (_, s) \<leftarrow> setProcessState (getCurrentProcessEntry (kern M)) YIELDED (kern M);
     Some (Int20h (AndReturn 0), put_kern s M)
   }"

definition arqSysSleep :: "u64 \<Rightarrow> machine \<Rightarrow> outcome" where
  "arqSysSleep ms M = do {
     (timer, s) \<leftarrow> sleep_begin ms (kern M);
     Some (Int20h (SleepOn timer), put_kern s M)
   }"

definition arqSysSetToForeground :: "machine \<Rightarrow> outcome" where
  "arqSysSetToForeground M =
    Some (Ret 0, put_kern (setProcessToForeground (getCurrentProcessEntry (kern M)) (kern M)) M)"

definition arqSysSetToBackground :: "machine \<Rightarrow> outcome" where
  "arqSysSetToBackground M =
    Some (Ret 0, put_kern (setProcessToBackground (getCurrentProcessEntry (kern M)) (kern M)) M)"

section \<open>Descriptors\<close>

definition arqSysPipe :: "ptr \<Rightarrow> machine \<Rightarrow> outcome" where
  "arqSysPipe pipePds M = do {
     let m = mem (kern M);
     (r, fds, s) \<leftarrow> openPipe (getCurrentProcessEntry (kern M)) [load32 m pipePds, load32 m (pipePds + 4)] (kern M);
     Some (Ret (of_int r),
           on_mem (\<lambda>m. store32 (pipePds + 4) (fds ! 1) (store32 pipePds (fds ! 0) m)) (put_kern s M))
   }"

definition arqSysClosePd :: "u64 \<Rightarrow> machine \<Rightarrow> outcome" where
  "arqSysClosePd pd M = do {
     let p = getCurrentProcessEntry (kern M);
     b \<leftarrow> getPDEntry p (unat (ucast pd :: u32)) (kern M);
     if b \<noteq> NULL then do { s \<leftarrow> sysClosePd p b (ucast pd) (kern M); Some (Ret 0, put_kern s M) }
     else Some (Ret err, M)
   }"

definition arqSysDup :: "u64 \<Rightarrow> u64 \<Rightarrow> machine \<Rightarrow> outcome" where
  "arqSysDup oldPd newPd M =
    (let (r, s) = dupPd (getCurrentProcessEntry (kern M)) oldPd newPd (kern M)
     in Some (Ret (of_int r), put_kern s M))"

section \<open>Screen, keyboard, clock, speaker and registers\<close>

definition arqSysClear :: "machine \<Rightarrow> outcome" where
  "arqSysClear M = Some (Ret 0, on_screen scrClear (M\<lparr>kbd := resetBuffer (kbd M)\<rparr>))"

definition arqSysScreenHeight :: "ptr \<Rightarrow> machine \<Rightarrow> outcome" where
  "arqSysScreenHeight p M = Some (Ret 0, on_mem (store16 p (scrGetHeight (scr M))) M)"

definition arqSysScreenWidth :: "ptr \<Rightarrow> machine \<Rightarrow> outcome" where
  "arqSysScreenWidth p M = Some (Ret 0, on_mem (store16 p (scrGetWidth (scr M))) M)"

definition arqSysGetPenX :: "ptr \<Rightarrow> machine \<Rightarrow> outcome" where
  "arqSysGetPenX p M = Some (Ret 0, on_mem (store16 p (scrGetPenX (scr M))) M)"

definition arqSysGetPenY :: "ptr \<Rightarrow> machine \<Rightarrow> outcome" where
  "arqSysGetPenY p M = Some (Ret 0, on_mem (store16 p (scrGetPenY (scr M))) M)"

definition arqSysGameRead :: "ptr \<Rightarrow> machine \<Rightarrow> outcome" where
  "arqSysGameRead p M =
    (let (c, k) = gameRead (kbd M) in Some (Ret 0, on_mem (\<lambda>m. m(p := c)) (M\<lparr>kbd := k\<rparr>)))"

definition arqSysgetPtrToPixel :: "u64 \<Rightarrow> u64 \<Rightarrow> ptr \<Rightarrow> machine \<Rightarrow> outcome" where
  "arqSysgetPtrToPixel x y color M =
    (let px = getPtrToPixel (scr M) (ucast x) (ucast y)
     in Some (Ret 0, on_mem (\<lambda>m. let m1 = m(color := m px); m2 = m1(color + 2 := m1 (px + 2))
                                 in m2(color + 1 := m2 (px + 1))) M))"

definition arqSysDrawLine :: "u64 \<Rightarrow> u64 \<Rightarrow> u64 \<Rightarrow> u64 \<Rightarrow> ptr \<Rightarrow> machine \<Rightarrow> outcome" where
  "arqSysDrawLine fromX fromY toX toY color M =
    (let m = mem (kern M); c = \<lparr>col_b = m color, col_g = m (color + 1), col_r = m (color + 2)\<rparr>
     in Some (Ret 0, on_screen (scrDrawLine (fpu_of M) (ucast fromX) (ucast fromY) (ucast toX) (ucast toY) c) M))"

definition arqSysChangeFontSize :: "u64 \<Rightarrow> machine \<Rightarrow> outcome" where
  "arqSysChangeFontSize newSize M =
    Some (Ret 0, if 0 < newSize \<and> newSize < 6 then on_screen (scrChangeFont newSize) M else M)"

definition arqSysClock :: "ptr \<Rightarrow> ptr \<Rightarrow> ptr \<Rightarrow> machine \<Rightarrow> outcome" where
  "arqSysClock hours minutes seconds M =
    (let (h, mi, se) = rtc M
     in Some (Ret 0, on_mem (\<lambda>m. store32 seconds (ucast se) (store32 minutes (ucast mi) (store32 hours (ucast h) m))) M))"

definition DEFAULT_FREQUENCY :: u64 where "DEFAULT_FREQUENCY = 1500"

definition arqSysBeep :: "u64 \<Rightarrow> machine \<Rightarrow> outcome" where
  "arqSysBeep ms M = do {
     ops \<leftarrow> speaker (sound_port M) ms DEFAULT_FREQUENCY;
     Some (Ret 0, M\<lparr>ports := ports M @ ops\<rparr>)
   }"

definition arqSysMemoryDump :: "ptr \<Rightarrow> ptr \<Rightarrow> machine \<Rightarrow> outcome" where
  "arqSysMemoryDump direction buffer M = Some (Ret 0, on_mem (printMemory direction buffer) M)"

definition arqSysGetRegistersInfo :: "ptr \<Rightarrow> machine \<Rightarrow> outcome" where
  "arqSysGetRegistersInfo buffer M =
    (let (r, m) = getRegistersInfo (hasRegDump M) (inforeg M) buffer (mem (kern M))
     in Some (Ret (of_int r), on_mem (\<lambda>_. m) M))"

section \<open>The dispatcher\<close>

text \<open>The table, by call number; the arguments are the registers.\<close>

type_synonym call = "u64 \<Rightarrow> u64 \<Rightarrow> u64 \<Rightarrow> u64 \<Rightarrow> u64 \<Rightarrow> u64 \<Rightarrow> ptr \<Rightarrow> machine \<Rightarrow> outcome"

definition TOTAL_SYSCALLS :: nat where "TOTAL_SYSCALLS = 43"

definition setSyscalls :: "call list" where
  "setSyscalls = [
     (\<lambda>rdi rsi rdx r10 r8 r9 rsp. arqSysRead rdi rsi rdx),
     (\<lambda>rdi rsi rdx r10 r8 r9 rsp. arqSysWrite rdi rsi rdx),
     (\<lambda>rdi rsi rdx r10 r8 r9 rsp. arqSysClear),
     (\<lambda>rdi rsi rdx r10 r8 r9 rsp. arqSysBeep rdi),
     (\<lambda>rdi rsi rdx r10 r8 r9 rsp. arqSysSleep rdi),
     (\<lambda>rdi rsi rdx r10 r8 r9 rsp. arqSysClock rdi rsi rdx),
     (\<lambda>rdi rsi rdx r10 r8 r9 rsp. arqSysScreenHeight rdi),
     (\<lambda>rdi rsi rdx r10 r8 r9 rsp. arqSysScreenWidth rdi),
     (\<lambda>rdi rsi rdx r10 r8 r9 rsp. arqSysgetPtrToPixel rdi rsi rdx),
     (\<lambda>rdi rsi rdx r10 r8 r9 rsp. arqSysGameRead rdi),
     (\<lambda>rdi rsi rdx r10 r8 r9 rsp. arqSysDrawLine rdi rsi rdx r10 r8),
     (\<lambda>rdi rsi rdx r10 r8 r9 rsp. arqSysGetPenX rdi),
     (\<lambda>rdi rsi rdx r10 r8 r9 rsp. arqSysGetPenY rdi),
     (\<lambda>rdi rsi rdx r10 r8 r9 rsp. arqSysChangeFontSize rdi),
     (\<lambda>rdi rsi rdx r10 r8 r9 rsp. arqSysMemoryDump rdi rsi),
     (\<lambda>rdi rsi rdx r10 r8 r9 rsp. arqSysGetRegistersInfo rdi),
     (\<lambda>rdi rsi rdx r10 r8 r9 rsp. arqSysBlock rdi),
     (\<lambda>rdi rsi rdx r10 r8 r9 rsp. arqSysKill rdi),
     (\<lambda>rdi rsi rdx r10 r8 r9 rsp. arqSysExecve rdi rsi rdx rsp),
     (\<lambda>rdi rsi rdx r10 r8 r9 rsp. arqSysFork rsp),
     (\<lambda>rdi rsi rdx r10 r8 r9 rsp. arqSysIdle),
     (\<lambda>rdi rsi rdx r10 r8 r9 rsp. arqSysPs rdi),
     (\<lambda>rdi rsi rdx r10 r8 r9 rsp. arqSysPriority rdi rsi),
     (\<lambda>rdi rsi rdx r10 r8 r9 rsp. arqSysChangeState rdi),
     (\<lambda>rdi rsi rdx r10 r8 r9 rsp. arqSysWait),
     (\<lambda>rdi rsi rdx r10 r8 r9 rsp. arqSysExit),
     (\<lambda>rdi rsi rdx r10 r8 r9 rsp. arqSysSemOpen rdi rsi),
     (\<lambda>rdi rsi rdx r10 r8 r9 rsp. arqSysSemPost rdi),
     (\<lambda>rdi rsi rdx r10 r8 r9 rsp. arqSysSemWait rdi),
     (\<lambda>rdi rsi rdx r10 r8 r9 rsp. arqSysSemClose rdi),
     (\<lambda>rdi rsi rdx r10 r8 r9 rsp. arqSysPipe rdi),
     (\<lambda>rdi rsi rdx r10 r8 r9 rsp. arqSysClosePd rdi),
     (\<lambda>rdi rsi rdx r10 r8 r9 rsp. arqSysMalloc rdi),
     (\<lambda>rdi rsi rdx r10 r8 r9 rsp. arqSysFree rdi),
     (\<lambda>rdi rsi rdx r10 r8 r9 rsp. arqSysRealloc rdi rsi),
     (\<lambda>rdi rsi rdx r10 r8 r9 rsp. arqSysSetToForeground),
     (\<lambda>rdi rsi rdx r10 r8 r9 rsp. arqSysSetToBackground),
     (\<lambda>rdi rsi rdx r10 r8 r9 rsp. arqSysDup rdi rsi),
     (\<lambda>rdi rsi rdx r10 r8 r9 rsp. arqSysYield),
     (\<lambda>rdi rsi rdx r10 r8 r9 rsp. arqSysUnblock rdi),
     (\<lambda>rdi rsi rdx r10 r8 r9 rsp. arqSysGetPid),
     (\<lambda>rdi rsi rdx r10 r8 r9 rsp. arqSysGetFreeMemory),
     (\<lambda>rdi rsi rdx r10 r8 r9 rsp. arqSysGetUsedMemory)]"

definition syscallsDispatcher ::
    "u64 \<Rightarrow> u64 \<Rightarrow> u64 \<Rightarrow> u64 \<Rightarrow> u64 \<Rightarrow> u64 \<Rightarrow> u64 \<Rightarrow> ptr \<Rightarrow> machine \<Rightarrow> outcome" where
  "syscallsDispatcher rax rdi rsi rdx rcx r8 r9 rsp M =
    (if unat rax < TOTAL_SYSCALLS then (setSyscalls ! unat rax) rdi rsi rdx rcx r8 r9 rsp M
     else Some (Ret err, M))"

text \<open>What a process goes on with after the interrupt.\<close>

fun resumed :: "resume \<Rightarrow> machine \<Rightarrow> outcome" where
  "resumed (AndReturn v) M = Some (Ret v, M)"
| "resumed (ReadOn current b buff count) M = read_pass current b buff count M"
| "resumed (WriteOn current b buff count) M = write_pass current b buff count M"
| "resumed (ChildsOn current) M = childs_pass current M"
| "resumed (SleepOn timer) M = do { s \<leftarrow> sleep_end timer (kern M); Some (Ret 0, put_kern s M) }"
| "resumed (LockOn p) M =
     (let (r, s) = lock_pass semLock p (sync_view M) in Some (sem_reply (LockOn p) r, put_sync s M))"
| "resumed (UnlockOn p) M =
     (let (r, s) = lock_pass semUnlock p (sync_view M) in Some (sem_reply (UnlockOn p) r, put_sync s M))"

end
