(* ===== verification/Exceptions.thy ===== *)
theory Exceptions
  imports Syscalls
begin

text \<open>
  The exception screen, \<^verbatim>\<open>Kernel/interruptRelated/exceptions.c\<close>: the registers are printed, a key
  is waited for with a system call, and the process is ended.
\<close>

section \<open>Printing\<close>

text \<open>The texts are constants of the kernel: their characters are printed one by one.\<close>

definition print_text :: "string \<Rightarrow> screen \<Rightarrow> screen" where
  "print_text t = fold (\<lambda>c. scrPrintChar (of_char c)) t"

definition nl :: string where "nl = [CHR 0x0A]"
definition tabs :: string where "tabs = [CHR 0x09, CHR 0x09]"

definition zeroDivision :: "screen \<Rightarrow> screen" where
  "zeroDivision = print_text (''Zero Division Exception'' @ nl)"

definition invalidOpcode :: "screen \<Rightarrow> screen" where
  "invalidOpcode = print_text (''Invalid Opcode Exception'' @ nl)"

definition pageFault :: "screen \<Rightarrow> screen" where
  "pageFault = print_text (''Page fault Exception'' @ nl)"

definition boundsException :: "screen \<Rightarrow> screen" where
  "boundsException = print_text (''Index out of Bounds Exception'' @ nl)"

definition notHandledException :: "screen \<Rightarrow> screen" where
  "notHandledException = print_text (''Unknown Exception'' @ nl)"

definition exception_title :: "int \<Rightarrow> screen \<Rightarrow> screen" where
  "exception_title exception =
    (if exception = 0 then zeroDivision else if exception = 5 then boundsException
     else if exception = 6 then invalidOpcode else if exception = 14 then pageFault
     else notHandledException)"

text \<open>A register: its label, its place in the dump, the base it is printed in, and what follows.\<close>

definition dump_layout :: "(string \<times> nat \<times> u32 \<times> string) list" where
  "dump_layout = [
     (''RAX = '', 0, 16, []), (tabs @ ''RBX = '', 1, 16, []), (tabs @ ''RCX = '', 2, 16, nl),
     (''RDX = '', 3, 16, []), (tabs @ ''RDI = '', 4, 16, []), (tabs @ ''RSI = '', 5, 16, nl),
     (''RBP = '', 6, 16, []), (tabs @ ''RSP = '', 7, 16, []), (tabs @ ''R8 = '', 8, 16, nl),
     (''R9 = '', 9, 16, []), (tabs @ ''R10 = '', 10, 16, []), (tabs @ ''R11 = '', 11, 16, nl),
     (''R12 = '', 12, 16, []), (tabs @ ''R13 = '', 13, 16, []), (tabs @ ''R14 = '', 14, 16, nl),
     (''R15 = '', 15, 16, nl),
     (''RFLAGS = '', 16, 2, []), (tabs @ ''RIP = '', 17, 16, nl)]"

fun print_dump :: "(string \<times> nat \<times> u32 \<times> string) list \<Rightarrow> u64 list \<Rightarrow> screen \<Rightarrow> screen option" where
  "print_dump [] regdump v = Some v"
| "print_dump ((label, i, base, after) # rows) regdump v = do {
     v1 \<leftarrow> scrPrintBase (regdump ! i) base (print_text label v);
     print_dump rows regdump (print_text after v1)
   }"

definition print_error_code :: "int \<Rightarrow> u64 \<Rightarrow> screen \<Rightarrow> screen option" where
  "print_error_code exception errorCode v =
    (if exception = 14 then do {
       v1 \<leftarrow> scrPrintBase errorCode 10 (print_text ''Error code: '' v);
       Some (print_text (nl @ nl) v1)
     }
     else Some v)"

definition exception_screen :: "int \<Rightarrow> u64 list \<Rightarrow> u64 \<Rightarrow> screen \<Rightarrow> screen option" where
  "exception_screen exception regdump errorCode v = do {
     let v1 = exception_title exception (scrChangeFont 1 (scrClear v));
     v2 \<leftarrow> print_error_code exception errorCode (scrPrintNewline (scrPrintNewline v1));
     v3 \<leftarrow> print_dump dump_layout regdump (print_text (''Register dump:'' @ nl) v2);
     Some (print_text ''Press any key to continue'' (scrPrintNewline v3))
   }"

section \<open>The handler\<close>

text \<open>
  Up to the reply of the system call that reads one byte of standard input into a local variable
  at \<open>c\<close>, and what follows once it has returned.
\<close>

definition exception_begin :: "int \<Rightarrow> u64 list \<Rightarrow> u64 \<Rightarrow> ptr \<Rightarrow> machine \<Rightarrow> outcome" where
  "exception_begin exception regdump errorCode c M = do {
     v \<leftarrow> exception_screen exception regdump errorCode (screen_view M);
     syscallsDispatcher 0 0 c 1 0 0 0 0 (put_screen v M)
   }"

definition exception_end :: "machine \<Rightarrow> outcome" where
  "exception_end M = do {
     let M1 = on_screen scrClear M;
     (_, s) \<leftarrow> setProcessState (getCurrentProcessEntry (kern M1)) EXITED (kern M1);
     Some (Int20h (AndReturn 0), put_kern s M1)
   }"

end
