(* ===== verification/KeyboardProps.thy ===== *)
theory KeyboardProps
  imports Keyboard Ticks
begin

text \<open>Waking the users of a buffer, and what pressing a key does.\<close>

section \<open>Waking the users of a buffer\<close>

text \<open>The processes \<^verbatim>\<open>setBufferReferencesReady\<close> makes READY: the running one may be among them.\<close>

definition woken_refs :: "kernel \<Rightarrow> (nat \<Rightarrow> ptr list) \<Rightarrow> bool \<Rightarrow> ptr list \<Rightarrow> ptr set" where
  "woken_refs s Q fgOnly refs = {r \<in> set refs. r \<noteq> NULL \<and> (\<not> fgOnly \<or> p_foreground (nodes s r)) \<and> p_id (nodes s r) \<in> pids s Q}"

lemma wake_all_more [simp]:
  "bufs (wake_all D s) = bufs s" "stdinAt (wake_all D s) = stdinAt s" "mem (wake_all D s) = mem s" "mm (wake_all D s) = mm s"
  "p_foreground (nodes (wake_all D s) a) = p_foreground (nodes s a)"
  by (simp_all add: wake_all_def)

lemma upd_buf_fields [simp]:
  "nodes (upd_buf a f s) = nodes s" "nxt (upd_buf a f s) = nxt s" "qhead (upd_buf a f s) = qhead s"
  "k_current (upd_buf a f s) = k_current s" "k_idle (upd_buf a f s) = k_idle s" "stdinAt (upd_buf a f s) = stdinAt s"
  "bufs (upd_buf a f s) = (bufs s)(a := f (bufs s a))" "mem (upd_buf a f s) = mem s" "mm (upd_buf a f s) = mm s"
  by (simp_all add: upd_buf_def nxt_def fun_eq_iff)

lemma upd_buf_queues [simp]: "queues (upd_buf a f s) Q = queues s Q" "pids (upd_buf a f s) Q = pids s Q"
proof -
  show "queues (upd_buf a f s) Q = queues s Q" by (rule queues_cong) simp_all
qed (simp add: pids_def)

lemma ready_refs_ok:
  "queues s Q \<Longrightarrow> ready_refs fgOnly rs s = Some (wake_all (woken_refs s Q fgOnly rs) s)"
proof (induction rs arbitrary: s)
  case Nil
  then show ?case by (simp add: woken_refs_def)
next
  case (Cons r rs)
  let ?c = "r \<noteq> NULL \<and> (\<not> fgOnly \<or> isInForeground r s)"
  have same: "woken_refs (wake_all D s) Q fgOnly rs = woken_refs s Q fgOnly rs" for D by (simp add: woken_refs_def)
  have e: "upd_node r (\<lambda>n. n\<lparr>p_state := READY, p_manualBlocked := False\<rparr>) s = wake_all {r} s"
    by (auto simp: upd_node_def wake_all_def fun_eq_iff)
  show ?case
  proof (cases "?c \<and> p_id (nodes s r) \<in> pids s Q")
    case True
    then have set: "setProcessState r READY s = Some (True, wake_all {r} s)"
      using setProcessState_ok [OF Cons.prems, of r READY] e by simp
    have "woken_refs s Q fgOnly (r # rs) = insert r (woken_refs s Q fgOnly rs)"
      using True by (auto simp: woken_refs_def isInForeground_def)
    then show ?thesis using True set Cons.IH [of "wake_all {r} s"] Cons.prems
      by (simp add: same wake_all_insert)
  next
    case False
    then have "woken_refs s Q fgOnly (r # rs) = woken_refs s Q fgOnly rs"
      by (auto simp: woken_refs_def isInForeground_def)
    moreover have "setProcessState r READY s = Some (False, s)" if ?c
      using setProcessState_ok [OF Cons.prems, of r READY] False that by auto
    ultimately show ?thesis using Cons.IH [OF Cons.prems] by auto
  qed
qed

definition readers :: "kernel \<Rightarrow> (nat \<Rightarrow> ptr list) \<Rightarrow> ptr \<Rightarrow> ptr set" where
  "readers s Q b = woken_refs s Q (buffId (bufs s b) \<noteq> PIPE) (ib_references (bufs s b))"

lemma setBufferReferencesReady_ok:
  "queues s Q \<Longrightarrow> setBufferReferencesReady b s = Some (wake_all (readers s Q b) s)"
  by (simp add: setBufferReferencesReady_def readers_def ready_refs_ok)

lemma wake_all_state: "p_state (nodes (wake_all D s) a) = (if a \<in> D then READY else p_state (nodes s a))"
  by (simp add: wake_all_def)

section \<open>Keys\<close>

lemma toBuff_ok:
  assumes q: "queues s Q" and b: "unwrapped (bufs s (stdinAt s))" "0 < headroom (bufs s (stdinAt s))"
  shows "\<exists>s'. toBuff c s = Some s' \<and> contents (bufs s' (stdinAt s)) = contents (bufs s (stdinAt s)) @ [c] \<and>
    (\<forall>a. p_state (nodes s' a) =
      (if bufferDim (bufs s (stdinAt s)) = 0 \<and> a \<in> readers s Q (stdinAt s) then READY else p_state (nodes s a)))"
proof -
  let ?in = "stdinAt s"
  have "unat (1::u64) \<le> headroom (bufs s ?in)" using b(2) by simp
  moreover have "auxBuff \<noteq> NULL" by (simp add: auxBuff_def)
  ultimately obtain b' where b': "copyToBuffer (\<lambda>_. c) (Some (bufs s ?in)) auxBuff 1 = Some (1, Some b')"
    "contents b' = contents (bufs s ?in) @ bytes_at (\<lambda>_. c) auxBuff 1" "same_ends (bufs s ?in) b'"
    using copyToBuffer_ok [OF b(1), of 1 auxBuff "\<lambda>_. c"] by auto
  let ?s1 = "upd_buf ?in (\<lambda>_. b') s"
  have q1: "queues ?s1 Q" using q by simp
  have rd: "readers ?s1 Q ?in = readers s Q ?in"
    using b'(3) by (simp add: readers_def same_ends_def woken_refs_def)
  have "toBuff c s = Some (if bufferDim (bufs s ?in) = 0 then wake_all (readers s Q ?in) ?s1 else ?s1)"
    using b'(1) setBufferReferencesReady_ok [OF q1, of ?in] rd by (simp add: toBuff_def buf_result_def Let_def)
  then show ?thesis using b'(2) by (simp add: wake_all_state bytes_at_def)
qed

text \<open>
  Typing: a mapped key that is no modifier, with the control key up, puts exactly its character
  (by the shift and caps lock state) at the end of standard input, changes no driver state, and
  if standard input was empty makes the foreground processes that use it READY and no other.
\<close>

theorem addKey_types:
  assumes q: "queues s Q" and key: "key < 0x80" "key \<notin> {R_SHIFT, L_SHIFT, L_CNTRL}" "isMapped key = Some idx"
    and plain: "\<not> leftCntrl k" "idx \<noteq> 50" "idx \<noteq> 51"
    and b: "unwrapped (bufs s (stdinAt s))" "0 < headroom (bufs s (stdinAt s))"
    and item: "column (kb_lock k) ((if shiftKey k then SHIFTED else KEYS) ! idx) \<noteq> 9"
  shows "\<exists>s'. addKey key k s = Some (False, k, s') \<and>
    contents (bufs s' (stdinAt s)) = contents (bufs s (stdinAt s)) @ [typed idx k] \<and>
    (\<forall>a. p_state (nodes s' a) =
      (if bufferDim (bufs s (stdinAt s)) = 0 \<and> a \<in> readers s Q (stdinAt s) then READY else p_state (nodes s a)))"
proof -
  obtain s' where s': "toBuff (typed idx k) s = Some s'"
    "contents (bufs s' (stdinAt s)) = contents (bufs s (stdinAt s)) @ [typed idx k]"
    "\<forall>a. p_state (nodes s' a) =
      (if bufferDim (bufs s (stdinAt s)) = 0 \<and> a \<in> readers s Q (stdinAt s) then READY else p_state (nodes s a))"
    using toBuff_ok [OF q b, of "typed idx k"] by blast
  have "\<not> 0x80 < key" using key(1) by simp
  then have "addKey key k s = Some (False, k, s')"
    using key plain item s'(1) by (simp add: addKey_def press_def isCapslock_def Let_def)
  then show ?thesis using s'(2,3) by blast
qed

text \<open>Standard input of the demonstration state with one foreground reader.\<close>

definition typing_kernel :: kernel where
  "typing_kernel = upd_buf 0x9000 (\<lambda>_. (clearBuffer demo_buffer)\<lparr>buffId := STDIN, ib_references := 0x4000 # replicate 31 NULL\<rparr>) demo_kernel"

lemma addKey_types_witness:
  "\<exists>s'. addKey 0x1E keyboard0 typing_kernel = Some (False, keyboard0, s') \<and>
    contents (bufs s' 0x9000) = [97] \<and> p_state (nodes s' 0x4000) = READY"
proof -
  let ?b = "(clearBuffer demo_buffer)\<lparr>buffId := STDIN, ib_references := 0x4000 # replicate 31 NULL\<rparr>"
  have i: "stdinAt typing_kernel = 0x9000" "bufs typing_kernel 0x9000 = ?b"
    by (simp_all add: typing_kernel_def) (simp add: demo_kernel_def)
  have q: "queues typing_kernel demo_Q" using demo_queues by (simp add: typing_kernel_def)
  have c: "unwrapped ?b" "headroom ?b = 1023" "contents ?b = []" "bufferDim ?b = 0"
    by (simp_all add: unwrapped_def buf_ok_def clearBuffer_def contents_def headroom_def BUFF_SIZE_def PD_SIZE_def)
  have k: "isMapped 0x1E = Some 0" "typed 0 keyboard0 = 97" "column (kb_lock keyboard0) (KEYS ! 0) = 97"
    by (simp_all add: isMapped_def SCAN_CODES_def typed_def isArrow_def keyboard0_def KEYS_def letters_def upt_rec column_def)
  have "readers typing_kernel demo_Q 0x9000 = {0x4000}"
    unfolding readers_def i by (auto simp: woken_refs_def typing_kernel_def pids_def)
  then show ?thesis
    using addKey_types [OF q _ _ k(1), of keyboard0] c k(2,3)
    unfolding i by (auto simp: R_SHIFT_def L_SHIFT_def L_CNTRL_def keyboard0_def)
qed

section \<open>The ring of keys\<close>

text \<open>The states of the driver that can be reached from boot.\<close>

inductive kb_reach :: "keyboard \<Rightarrow> bool" where
  boot: "kb_reach keyboard0"
| key: "kb_reach k \<Longrightarrow> addKey code k s = Some (y, k', s') \<Longrightarrow> kb_reach k'"
| read_key: "kb_reach k \<Longrightarrow> kb_reach (snd (readKeyboardBuffer k))"
| game: "kb_reach k \<Longrightarrow> kb_reach (snd (gameRead k))"
| reset: "kb_reach k \<Longrightarrow> kb_reach (resetBuffer k)"

lemma press_state: "press key idx k s = Some (y, k', s') \<Longrightarrow> k' = k \<or> k' = capsLock k"
  by (auto simp: press_def Let_def split: if_splits Option.bind_splits)

lemma addKey_state: "addKey key k s = Some (y, k', s') \<Longrightarrow> k' \<in> {k, shift k, cntrl k, capsLock k}"
  by (auto simp: addKey_def split: if_splits option.splits dest: press_state)

lemma kb_reach_count: "kb_reach k \<Longrightarrow> keyCount k = 0"
proof (induction rule: kb_reach.induct)
  case (key k code s y k' s')
  then show ?case using addKey_state [OF key(2)] by (auto simp: shift_def cntrl_def capsLock_def)
qed (simp_all add: keyboard0_def readKeyboardBuffer_def gameRead_def read_ring_def isBuffEmpty_def resetBuffer_def)

text \<open>
  The driver's ring of keys is never filled: in every state it can reach from boot, whatever keys
  were pressed, \<^verbatim>\<open>gameRead\<close> answers -1 and changes nothing, so the game never sees a key.
\<close>

theorem gameRead_never_a_key:
  assumes "kb_reach k"
  shows "gameRead k = (0xFF, k)"
  using kb_reach_count [OF assms] by (simp add: gameRead_def read_ring_def isBuffEmpty_def)

lemma gameRead_never_a_key_witness: "gameRead (shift keyboard0) = (0xFF, shift keyboard0)"
proof -
  have "addKey L_SHIFT keyboard0 demo_kernel = Some (False, shift keyboard0, demo_kernel)"
    by (simp add: addKey_def L_SHIFT_def R_SHIFT_def)
  then show ?thesis by (rule gameRead_never_a_key [OF kb_reach.key [OF kb_reach.boot]])
qed

end
