(* ===== verification/Priorities.thy ===== *)
theory Priorities
  imports Ticks
begin

text \<open>
  Process ids, taking a process out of the queues and changing its priority.
\<close>

section \<open>Fresh ids\<close>

definition max32 :: "u32 \<Rightarrow> u32 list \<Rightarrow> u32" where
  "max32 = foldl (\<lambda>m x. if m < x then x else m)"

lemma max32_ge: "m \<le> max32 m xs" "x \<in> set xs \<Longrightarrow> x \<le> max32 m xs"
proof -
  have "m \<le> max32 m xs \<and> (\<forall>x\<in>set xs. x \<le> max32 m xs)"
    unfolding max32_def
  proof (induction xs arbitrary: m)
    case (Cons y ys)
    show ?case using Cons.IH [of "if m < y then y else m"] by (auto split: if_splits)
  qed simp
  then show "m \<le> max32 m xs" "x \<in> set xs \<Longrightarrow> x \<le> max32 m xs" by auto
qed

lemma max32_mem: "max32 m xs \<in> insert m (set xs)"
  unfolding max32_def by (induction xs arbitrary: m) (auto split: if_splits)

lemma max_id_llist: "llist (nxt s) p xs \<Longrightarrow> max_id s m p = Some (max32 m (map (\<lambda>a. p_id (nodes s a)) xs))"
  unfolding max32_def by (induction xs arbitrary: m p) (simp_all add: max_id.simps)

lemma max_id_in_ok:
  "queues s Q \<Longrightarrow> set is \<subseteq> {..<7} \<Longrightarrow>
     max_id_in is m s = Some (max32 m (map (\<lambda>a. p_id (nodes s a)) (concat (map Q is))))"
  by (induction "is" arbitrary: m) (auto simp: max_id_llist [OF queuesD(1)] max32_def)

text \<open>
  The id given to a new process is new: it is above the ids of the running and of every queued
  process, and it is not the idle process's, as long as the ids have not reached the last
  32-bit number.
\<close>

theorem unusedID_fresh:
  assumes "queues s Q" "k_current s \<noteq> NULL"
    and small: "\<forall>a\<in>insert (k_current s) (queued Q). p_id (nodes s a) < 0xFFFFFFFF"
  shows "\<exists>pid. unusedID s = Some pid \<and> pid \<noteq> IDLE_ID \<and>
    (\<forall>a\<in>insert (k_current s) (queued Q). p_id (nodes s a) < pid)"
proof -
  let ?c = "p_id (nodes s (k_current s))"
  let ?ids = "map (\<lambda>a. p_id (nodes s a)) (concat (map Q [0..<7]))"
  let ?m = "max32 ?c ?ids"
  have "set [0..<7] \<subseteq> {..<7::nat}" by auto
  note run = max_id_in_ok [OF assms(1) this, of ?c]
  have ids: "set ?ids = (\<lambda>a. p_id (nodes s a)) ` queued Q"
    unfolding set_map concat_queued by (rule refl)
  have all: "\<forall>a\<in>insert (k_current s) (queued Q). p_id (nodes s a) \<le> ?m"
    using max32_ge(1) [of ?c ?ids] max32_ge(2) [of _ ?ids ?c] ids by blast
  have "?m \<in> insert ?c (set ?ids)" by (rule max32_mem)
  moreover have "\<forall>y\<in>insert ?c (set ?ids). y < 0xFFFFFFFF" unfolding ids using small by auto
  ultimately have "?m < 0xFFFFFFFF" by blast
  then have "unat ?m < 4294967295" by (simp add: word_less_nat_alt)
  then have u: "unat (?m + 1) = unat ?m + 1" by (simp add: unat_plus_fits)
  then have lt: "?m < ?m + 1" by (simp add: word_less_nat_alt)
  let ?pid = "if ?m + 1 = 2 then 3 else ?m + 1"
  have "unusedID s = Some ?pid" using assms(2) run by (simp add: unusedID_def)
  moreover have "?m < ?pid" using lt by (auto simp: word_less_nat_alt)
  ultimately show ?thesis using all
    by (intro exI [of _ ?pid]) (auto simp: IDLE_ID_def intro: le_less_trans)
qed

lemma unusedID_fresh_witness:
  "\<exists>pid. unusedID demo_kernel = Some pid \<and> pid \<noteq> IDLE_ID \<and> 1 < pid \<and> 3 < pid \<and> 5 < pid \<and> 4 < pid"
  using unusedID_fresh [OF demo_queues] by simp

section \<open>Taking a process out\<close>

definition unlinked :: "ptr \<Rightarrow> (nat \<Rightarrow> ptr list) \<Rightarrow> nat \<Rightarrow> ptr list" where
  "unlinked a Q i = remove1 a (Q i)"

lemma unlinked_eq:
  assumes "queues s Q" "i < 7" "Q i = as @ a # bs"
  shows "\<forall>j<7. unlinked a Q j = (Q(i := as @ bs)) j"
proof (intro allI impI)
  fix j :: nat assume j: "j < 7"
  show "unlinked a Q j = (Q(i := as @ bs)) j"
  proof (cases "j = i")
    case True
    have "a \<notin> set as" using queuesD(2) [OF assms(1,2)] assms(3) by simp
    then show ?thesis using True assms(3) by (simp add: unlinked_def remove1_append)
  next
    case False
    then have "a \<notin> set (Q j)" using queues_apart [OF assms(1) j assms(2)] assms(3) by auto
    then show ?thesis using False by (simp add: unlinked_def remove1_idem)
  qed
qed

lemma queues_eq: "queues s Q \<Longrightarrow> \<forall>i<7. Q' i = Q i \<Longrightarrow> queues s Q'"
  unfolding queues_def by simp

lemma remove_in_ok:
  assumes q: "queues s Q" and "is": "set is \<subseteq> {..<7}"
    and a: "a \<in> set (concat (map Q is))" "p_id (nodes s a) = pid"
    and uniq: "\<forall>b\<in>queued Q. p_id (nodes s b) = pid \<longrightarrow> b = a"
  shows "\<exists>s'. remove_in is pid s = Some (a, s') \<and> queues s' (unlinked a Q) \<and> requeued s s'"
  using "is" a(1)
proof (induction "is")
  case Nil
  then show ?case by simp
next
  case (Cons i "is")
  then have i: "i < 7" by simp
  note l = queuesD(1) [OF q i]
  show ?case
  proof (cases "a \<in> set (Q i)")
    case True
    then obtain as bs where Qi: "Q i = as @ a # bs" by (auto dest: split_list)
    have a0: "a \<noteq> NULL" using queuesD(3) [OF q i] True by auto
    have "\<forall>y\<in>set as. p_id (nodes s y) \<noteq> pid"
    proof
      fix y assume "y \<in> set as"
      moreover from this have "y \<in> queued Q" using queued_mem [OF i] Qi by auto
      moreover have "y \<noteq> a" using queuesD(2) [OF q i] Qi \<open>y \<in> set as\<close> by auto
      ultimately show "p_id (nodes s y) \<noteq> pid" using uniq by blast
    qed
    then have w: "walk_find (nxt s) (\<lambda>x. p_id (nodes s x) = pid) NULL (qhead s i) = Some (last (NULL # as), a)"
      using l Qi a0 a(2) by (intro walk_find_hit) auto
    let ?s1 = "if as = [] then set_qhead i (nxt s a) s else set_next (last as) (nxt s a) s"
    have prev: "(if last (NULL # as) = NULL then set_qhead i (nxt s a) s else set_next (last (NULL # as)) (nxt s a) s) = ?s1"
      using queuesD(3) [OF q i] Qi by (cases "as = []") (auto dest: last_in_set)
    have q1: "queues ?s1 (Q(i := as @ bs))" by (rule queues_unlink [OF q i Qi])
    have "a \<notin> queued (Q(i := as @ bs))" using queued_unlink [OF q i Qi] by simp
    then have "queues (set_next a NULL ?s1) (Q(i := as @ bs))"
      unfolding set_next_def [of a] using q1 by (intro queues_upd_other [THEN iffD2])
    then have "queues (set_next a NULL ?s1) (unlinked a Q)"
      by (rule queues_eq) (rule unlinked_eq [OF q i Qi])
    moreover have "requeued s (set_next a NULL ?s1)"
      by (rule requeued_trans [OF requeued_link requeued_set_next])
    moreover have "remove_in (i # is) pid s = Some (a, set_next a NULL ?s1)"
      using a0 by (simp add: w prev del: last.simps split del: if_split)
    ultimately show ?thesis by blast
  next
    case False
    have "\<forall>x\<in>set (Q i). p_id (nodes s x) \<noteq> pid" using uniq queued_mem [OF i] False by blast
    then have "walk_find (nxt s) (\<lambda>x. p_id (nodes s x) = pid) NULL (qhead s i) = Some (last (NULL # Q i), NULL)"
      using l by (intro walk_find_none)
    then show ?thesis using Cons False by simp
  qed
qed

lemma removeFromQueue_ok:
  assumes "queues s Q" "a \<in> queued Q" "p_id (nodes s a) = pid" "\<forall>b\<in>queued Q. p_id (nodes s b) = pid \<longrightarrow> b = a"
  shows "\<exists>s'. removeFromQueue pid s = Some (a, s') \<and> queues s' (unlinked a Q) \<and> requeued s s'"
proof -
  have "set [0..<7] \<subseteq> {..<7::nat}" by auto
  then show ?thesis unfolding removeFromQueue_def
    using remove_in_ok [OF assms(1) _ _ assms(3,4), of "[0..<7]"] assms(2) by (simp only: concat_queued)
qed

lemma unlinked_out: "queues s Q \<Longrightarrow> a \<notin> queued (unlinked a Q)"
proof -
  assume q: "queues s Q"
  have "a \<notin> set (unlinked a Q i)" if "i < 7" for i
    using queuesD(2) [OF q that] by (simp add: unlinked_def)
  then show ?thesis by (simp add: queued_def)
qed

section \<open>Changing priorities\<close>

text \<open>The ready level a process lands in when it is given priority \<open>np\<close>.\<close>

definition level_for :: "u32 \<Rightarrow> nat" where
  "level_for np = aging_level (the (priority_aging np))"

lemma small_u32: "np < 6 \<Longrightarrow> np \<in> {0, 1, 2, 3, 4, 5 :: u32}"
proof -
  assume "np < 6"
  then have "unat np < 6" by (simp add: word_less_nat_alt)
  then have "unat np \<in> {0, 1, 2, 3, 4, 5}" by auto
  then show ?thesis by (auto simp: word_unat_eq_iff simp del: unat_inj)
qed

lemma level_for_eval: "map level_for [0, 1, 2, 3, 4, 5] = [0, 1, 3, 5, 5, 5]"
  by (simp add: level_for_def priority_aging_def aging_level_def QUANTUM_SIZE_def)

text \<open>The last part of \<^verbatim>\<open>changePriority\<close>, on a node that is in no queue.\<close>

lemma reinsert:
  assumes q: "queues s P" and n: "a \<noteq> NULL" "a \<notin> queued P" and np: "np < 6"
    and s3: "s3 = upd_node a (\<lambda>n. n\<lparr>p_priority := ucast np, p_quantums := defaultQuantums (unat np)\<rparr>)
      (case priority_aging np of None \<Rightarrow> s | Some g \<Rightarrow> upd_node a (\<lambda>n. n\<lparr>p_agingInterval := g\<rparr>) s)"
    and l: "l = (if p_state (nodes s a) = BLOCKED then 6 else level_for np)"
  shows "\<exists>s'. (if p_state (nodes s3 a) = BLOCKED then insertInBlockedQueue a s3 else insertInQueue a s3) = Some s' \<and>
    queues s' (P(l := P l @ [a])) \<and> k_current s' = k_current s \<and> k_idle s' = k_idle s \<and>
    (\<forall>b. core (nodes s' b) = core (nodes s b)) \<and> p_state (nodes s' b) = p_state (nodes s b)"
proof -
  obtain g where g: "priority_aging np = Some g" using small_u32 [OF np] by (auto simp: priority_aging_def)
  have q3: "queues s3 P" using q n(2) by (simp add: s3 g queues_upd_other)
  have f3: "p_state (nodes s3 b) = p_state (nodes s b)" "core (nodes s3 b) = core (nodes s b)"
    "k_current s3 = k_current s" "k_idle s3 = k_idle s" "p_agingInterval (nodes s3 a) = g" for b
    by (auto simp: s3 g upd_node_def core_def)
  show ?thesis
  proof (cases "p_state (nodes s a) = BLOCKED")
    case True
    obtain s' where s': "insertInBlockedQueue a s3 = Some s'" "queues s' (P(6 := P 6 @ [a]))" "requeued s3 s'"
      using insertInBlockedQueue_ok [OF q3 n] by blast
    show ?thesis using True s' f3 l requeuedD(2,6,7) [OF s'(3)] requeued_core [OF s'(3)] by auto
  next
    case False
    have lv: "level_for np = aging_level (p_agingInterval (nodes s3 a))" using g f3(5) by (simp add: level_for_def)
    obtain s' where s': "insertInQueue a s3 = Some s'" "queues s' (P(level_for np := P (level_for np) @ [a]))" "requeued s3 s'"
      using insertInQueue_ok [OF q3 n lv] by blast
    show ?thesis using False s' f3 l requeuedD(2,6,7) [OF s'(3)] requeued_core [OF s'(3)] by auto
  qed
qed

text \<open> (C22)
  Changing the priority of a waiting process moves it: it leaves its queue and goes to the end
  of the blocked list if it is blocked, and otherwise to the end of the ready queue its new
  aging interval selects, which is queue 0, 1, 3, 5, 5, 5 for the priorities 0 to 5.  Nothing
  else moves.
\<close>

theorem changePriority_moves:
  assumes ok: "sched_ok s Q" and a: "a \<in> queued Q" "p_id (nodes s a) = pid"
    and uniq: "\<forall>b\<in>runnable s Q. p_id (nodes s b) = pid \<longrightarrow> b = a" and np: "np < 6"
  shows "\<exists>s'. changePriority pid np s = Some (1, s') \<and> runnable s' (unlinked a Q) = runnable s (unlinked a Q) \<and>
    (let l = (if p_state (nodes s a) = BLOCKED then 6 else [0, 1, 3, 5, 5, 5] ! unat np)
     in queues s' ((unlinked a Q)(l := unlinked a Q l @ [a])))"
proof -
  have q: "queues s Q" and c: "k_current s \<notin> queued Q" using ok by (auto simp: sched_ok_def)
  have ex: "exists pid s = Some True" using exists_ok [OF q, of pid] a by (auto simp: pids_def)
  have nc: "p_id (nodes s (k_current s)) \<noteq> pid" using uniq c a(1) by (auto simp: runnable_def)
  have "\<forall>b\<in>queued Q. p_id (nodes s b) = pid \<longrightarrow> b = a" using uniq by (auto simp: runnable_def)
  then obtain s1 where s1: "removeFromQueue pid s = Some (a, s1)" "queues s1 (unlinked a Q)" "requeued s s1"
    using removeFromQueue_ok [OF q a] by blast
  define l where "l = (if p_state (nodes s1 a) = BLOCKED then 6 else level_for np)"
  have l': "l = (if p_state (nodes s a) = BLOCKED then 6 else [0, 1, 3, 5, 5, 5] ! unat np)"
    using small_u32 [OF np] level_for_eval requeuedD(2) [OF s1(3), of a] by (auto simp: l_def)
  have a0: "a \<noteq> NULL" using queued_null [OF q] a(1) by auto
  obtain s' where s': "(let s2 = (case priority_aging np of None \<Rightarrow> s1 | Some g \<Rightarrow> upd_node a (\<lambda>n. n\<lparr>p_agingInterval := g\<rparr>) s1);
      s3 = upd_node a (\<lambda>n. n\<lparr>p_priority := ucast np, p_quantums := defaultQuantums (unat np)\<rparr>) s2
    in if p_state (nodes s3 a) = BLOCKED then insertInBlockedQueue a s3 else insertInQueue a s3) = Some s'"
    "queues s' ((unlinked a Q)(l := unlinked a Q l @ [a]))" "k_current s' = k_current s1" "k_idle s' = k_idle s1"
    using reinsert [OF s1(2) a0 unlinked_out [OF q] np refl l_def] unfolding Let_def by blast
  have "changePriority pid np s = Some (1, s')"
    using ex nc np s1(1) s'(1) by (simp add: changePriority_def Let_def not_le [THEN iffD2, OF np])
  then show ?thesis using s'(2,3,4) l' requeuedD(6,7) [OF s1(3)]
    by (intro exI [of _ s']) (simp add: runnable_def Let_def)
qed

lemma changePriority_moves_witness:
  "\<exists>s'. changePriority 3 2 demo_kernel = Some (1, s') \<and>
    queues s' ((unlinked 0x3000 demo_Q)(3 := unlinked 0x3000 demo_Q 3 @ [0x3000]))"
proof -
  have u: "\<forall>b\<in>runnable demo_kernel demo_Q. p_id (nodes demo_kernel b) = 3 \<longrightarrow> b = 0x3000"
    by (simp add: runnable_def)
  have l: "(if p_state (nodes demo_kernel 0x3000) = BLOCKED then 6 else [0, 1, 3, 5, 5, 5 :: nat] ! unat (2 :: u32)) = 3"
    by simp
  have a: "0x3000 \<in> queued demo_Q" "p_id (nodes demo_kernel 0x3000) = 3" by simp_all
  have np: "(2 :: u32) < 6" by simp
  show ?thesis using changePriority_moves [OF demo_sched_ok a u np] unfolding l Let_def by blast
qed

lemma changePriority_running:
  assumes ok: "sched_ok s Q" and pid: "p_id (nodes s (k_current s)) = pid" and np: "np < 6"
    and l: "l = (if p_state (nodes s (k_current s)) = BLOCKED then 6 else level_for np)"
  shows "\<exists>s'. changePriority pid np s = Some (1, s') \<and> queues s' (Q(l := Q l @ [k_current s])) \<and>
    k_current s' = k_current s \<and> k_current s \<in> queued (Q(l := Q l @ [k_current s]))"
proof -
  let ?a = "k_current s"
  have q: "queues s Q" and c: "?a \<noteq> NULL" "?a \<notin> queued Q" using ok by (auto simp: sched_ok_def)
  have ex: "exists pid s = Some True" using exists_ok [OF q, of pid] pid by (auto simp: pids_def)
  have l7: "l < 7" by (simp add: l level_for_def)
  obtain s' where s': "(let s2 = (case priority_aging np of None \<Rightarrow> s | Some g \<Rightarrow> upd_node ?a (\<lambda>n. n\<lparr>p_agingInterval := g\<rparr>) s);
      s3 = upd_node ?a (\<lambda>n. n\<lparr>p_priority := ucast np, p_quantums := defaultQuantums (unat np)\<rparr>) s2
    in if p_state (nodes s3 ?a) = BLOCKED then insertInBlockedQueue ?a s3 else insertInQueue ?a s3) = Some s'"
    "queues s' (Q(l := Q l @ [?a]))" "k_current s' = ?a"
    using reinsert [OF q c np refl l] unfolding Let_def by blast
  have "changePriority pid np s = Some (1, s')"
    using ex pid np s'(1) by (simp add: changePriority_def Let_def not_le [THEN iffD2, OF np])
  moreover have "?a \<in> queued (Q(l := Q l @ [?a]))" unfolding queued_append [OF l7] by simp
  ultimately show ?thesis using s'(2,3) by blast
qed

text \<open>
  Changing the priority of the running process also inserts it in a ready queue, so that it is
  running and waiting at once (the comment in the code says that only its priority changes).
\<close>

theorem changePriority_queues_running:
  assumes ok: "sched_ok s Q" and pid: "p_id (nodes s (k_current s)) = pid" and np: "np < 6"
  shows "\<exists>s' Q'. changePriority pid np s = Some (1, s') \<and> queues s' Q' \<and> k_current s' = k_current s \<and>
    k_current s' \<in> queued Q'"
  using changePriority_running [OF ok pid np refl] by (metis (no_types, lifting))

lemma changePriority_queues_running_witness:
  "\<exists>s' Q'. changePriority 1 2 demo_kernel = Some (1, s') \<and> queues s' Q' \<and> k_current s' = 0x1000 \<and> 0x1000 \<in> queued Q'"
  using changePriority_queues_running [OF demo_sched_ok, of 1 2] by auto

end
