(* ===== verification/VideoProps.thy ===== *)
theory VideoProps
  imports Video
begin

text \<open>Where the video driver writes, and where its pen can be.\<close>

section \<open>Rectangles stay in the frame buffer\<close>

lemma put_color_out: "a \<noteq> p \<Longrightarrow> a \<noteq> p + 1 \<Longrightarrow> a \<noteq> p + 2 \<Longrightarrow> put_color p c m a = m a"
  by (simp add: put_color_def)

lemma rect_row_out: "(\<And>k. k < 3 * n \<Longrightarrow> a \<noteq> p + of_nat k) \<Longrightarrow> rect_row n p c m a = m a"
proof (induction n arbitrary: p m)
  case 0
  then show ?case by simp
next
  case (Suc n)
  have "a \<noteq> p + 3 + of_nat k" if "k < 3 * n" for k
    using Suc.prems [of "k + 3"] that by (simp add: algebra_simps)
  moreover have "a \<noteq> p" "a \<noteq> p + 1" "a \<noteq> p + 2"
    using Suc.prems [of 0] Suc.prems [of 1] Suc.prems [of 2] by auto
  ultimately show ?case using Suc.IH [of "p + 3"] by (simp add: put_color_out)
qed

lemma rect_rows_out:
  assumes "w \<le> W" "\<And>i k. i < n \<Longrightarrow> k < 3 * w \<Longrightarrow> a \<noteq> p + of_nat (3 * W * i + k)"
  shows "rect_rows n w (of_nat (W - w)) p c m a = m a"
  using assms(2)
proof (induction n arbitrary: p m)
  case 0
  then show ?case by simp
next
  case (Suc n)
  have adv: "p + 3 * (of_nat w + of_nat (W - w)) = p + of_nat (3 * W)" using assms(1) by (simp add: of_nat_diff)
  have "a \<noteq> p + of_nat (3 * W) + of_nat (3 * W * i + k)" if "i < n" "k < 3 * w" for i k
    using Suc.prems [of "Suc i" k] that by (simp add: algebra_simps)
  moreover have "rect_row w p c m a = m a"
    using Suc.prems [of 0] by (intro rect_row_out) auto
  moreover have "rect_rows n w (of_nat (W - w)) (p + of_nat (3 * W)) c m' a = m' a" for m'
    using calculation(1) by (rule Suc.IH)
  ultimately show ?case by (simp only: rect_rows.simps adv)
qed

definition in_frame :: "screen \<Rightarrow> ptr \<Rightarrow> bool" where
  "in_frame v a \<longleftrightarrow> (\<exists>k < 3 * (unat (scr_width v) * unat (scr_height v)). a = fb_start v + of_nat k)"

lemma widen: "(ucast (z :: u16) :: u64) = of_nat (unat z)"
  by (simp add: unsigned_of_nat)

lemma getPtrToPixel_nat: "getPtrToPixel v x y = fb_start v + of_nat (3 * (unat x + unat y * unat (scr_width v)))"
proof -
  show ?thesis unfolding getPtrToPixel_def bytesPerPixel_def widen by simp
qed

lemma pixel_index:
  assumes "X + w \<le> W" "Y + n \<le> H" "i < n" "k < 3 * w"
  shows "3 * (X + Y * W) + (3 * W * i + k) < 3 * (W * H :: nat)"
proof -
  have "3 * (X + Y * W) + (3 * W * i + k) < 3 * (X + Y * W) + 3 * W * i + 3 * w" using assms(4) by simp
  also have "\<dots> = 3 * (X + w) + 3 * ((Y + i) * W)" by (simp add: algebra_simps)
  also have "\<dots> \<le> 3 * W + 3 * ((Y + i) * W)" using assms(1) by simp
  also have "\<dots> = 3 * ((Y + i + 1) * W)" by (simp add: algebra_simps)
  also have "\<dots> \<le> 3 * (H * W)" using assms(2,3) by (intro mult_le_mono) auto
  finally show ?thesis by (simp add: mult.commute)
qed

text \<open>
  Drawing a rectangle, however large and wherever it starts, writes no byte outside the frame
  buffer and leaves the pen and the geometry alone.
\<close>

theorem scrDrawRect_in_frame:
  assumes "\<not> in_frame v a"
  shows "vmem (scrDrawRect x y width height color v) a = vmem v a"
proof (cases "scr_width v \<le> x \<or> scr_height v \<le> y")
  case True
  then show ?thesis by (simp add: scrDrawRect_def)
next
  case False
  define W H X Y where "W = unat (scr_width v)" and "H = unat (scr_height v)" and "X = unat x" and "Y = unat y"
  let ?w = "min width (scr_width v - x)" and ?h = "min height (scr_height v - y)"
  have le: "x \<le> scr_width v" "y \<le> scr_height v" using False by auto
  have wh: "unat ?w \<le> W - X" "unat ?h \<le> H - Y" "X < W" "Y < H"
    using False unat_minus_fits [OF le(1)] unat_minus_fits [OF le(2)]
    by (auto simp: W_def H_def X_def Y_def min_def word_le_nat_alt word_less_nat_alt not_le)
  then have fit: "X + unat ?w \<le> W" "Y + unat ?h \<le> H" "unat ?w \<le> W" by auto
  have "?w \<le> scr_width v" using fit(3) by (simp only: W_def word_le_nat_alt)
  then have "unat (scr_width v - ?w) = W - unat ?w" using unat_minus_fits by (auto simp only: W_def)
  then have adv: "(ucast (scr_width v - ?w) :: u64) = of_nat (W - unat ?w)" by (simp only: widen)
  have "a \<noteq> getPtrToPixel v x y + of_nat (3 * W * i + k)" if "i < unat ?h" "k < 3 * unat ?w" for i k
  proof
    assume "a = getPtrToPixel v x y + of_nat (3 * W * i + k)"
    moreover have "getPtrToPixel v x y = fb_start v + of_nat (3 * (X + Y * W))"
      by (simp only: getPtrToPixel_nat W_def X_def Y_def)
    ultimately have "a = fb_start v + of_nat (3 * (X + Y * W) + (3 * W * i + k))"
      using of_nat_add [of "3 * (X + Y * W)" "3 * W * i + k", where 'a = "64 word"] by (simp only: add.assoc)
    moreover have "3 * (X + Y * W) + (3 * W * i + k) < 3 * (W * H)" using fit(1,2) that by (rule pixel_index)
    ultimately have "in_frame v a" unfolding in_frame_def W_def H_def by blast
    then show False using assms by simp
  qed
  then have "rect_rows (unat ?h) (unat ?w) (of_nat (W - unat ?w)) (getPtrToPixel v x y) color (vmem v) a = vmem v a"
    using fit(3) by (intro rect_rows_out)
  then show ?thesis using False adv by (simp add: scrDrawRect_def Let_def)
qed

definition demo_screen :: screen where
  "demo_screen = \<lparr>scr_width = 1024, scr_height = 768, framebuffer = 0xFD000000, penX = 0, penY = 0,
     penColor = \<lparr>col_b = 0x7F, col_g = 0x7F, col_r = 0x7F\<rparr>, fontSize = 1, num_buffer = 0x7000, vmem = (\<lambda>_. 0)\<rparr>"

lemma demo_frame: "in_frame demo_screen a \<Longrightarrow> 0xFD000000 \<le> unat a"
proof -
  assume "in_frame demo_screen a"
  then obtain k where k: "k < 2359296" "a = 0xFD000000 + of_nat k" by (auto simp: in_frame_def demo_screen_def fb_start_def)
  have "unat (0xFD000000 + of_nat k :: u64) = 0xFD000000 + k"
    using k(1) by (subst unat_plus_fits64) (simp_all add: unat_of_nat64)
  then show ?thesis using k(2) by simp
qed

lemma scrDrawRect_in_frame_witness:
  "vmem (scrDrawRect 1000 700 500 500 \<lparr>col_b = 1, col_g = 2, col_r = 3\<rparr> demo_screen) 0x1234 = 0"
proof -
  have "\<not> in_frame demo_screen 0x1234" using demo_frame [of "0x1234"] by auto
  then show ?thesis using scrDrawRect_in_frame [of demo_screen "0x1234"] by (simp add: demo_screen_def)
qed

section \<open>Lines stay in the frame buffer\<close>

definition same_frame :: "screen \<Rightarrow> screen \<Rightarrow> bool" where
  "same_frame v v' \<longleftrightarrow> scr_width v' = scr_width v \<and> scr_height v' = scr_height v \<and> framebuffer v' = framebuffer v"

lemma in_frame_cong: "same_frame v v' \<Longrightarrow> in_frame v' = in_frame v"
  by (simp add: same_frame_def in_frame_def fb_start_def fun_eq_iff)

lemma scrSetPixel_in_frame:
  assumes "\<not> in_frame v a"
  shows "vmem (scrSetPixel x y color v) a = vmem v a" and "same_frame v (scrSetPixel x y color v)"
proof -
  show "same_frame v (scrSetPixel x y color v)" by (simp add: scrSetPixel_def same_frame_def)
  show "vmem (scrSetPixel x y color v) a = vmem v a"
  proof (cases "scr_width v \<le> x \<or> scr_height v \<le> y")
    case True
    then show ?thesis by (simp add: scrSetPixel_def)
  next
    case False
    then have lt: "unat x < unat (scr_width v)" "unat y < unat (scr_height v)" by (simp_all add: word_less_nat_alt not_le)
    let ?i = "unat x + unat y * unat (scr_width v)"
    have "a \<noteq> getPtrToPixel v x y + of_nat k" if "k < 3" for k
    proof
      assume "a = getPtrToPixel v x y + of_nat k"
      then have "a = fb_start v + of_nat (3 * ?i + k)"
        using of_nat_add [of "3 * ?i" k, where 'a = "64 word"] by (simp only: getPtrToPixel_nat add.assoc)
      moreover have "3 * ?i + (3 * unat (scr_width v) * 0 + k) < 3 * (unat (scr_width v) * unat (scr_height v))"
        using lt that by (intro pixel_index [of _ 1 _ _ 1]) simp_all
      ultimately show False using assms unfolding in_frame_def by auto
    qed
    from this [of 0] this [of 1] this [of 2] show ?thesis using False by (simp add: scrSetPixel_def put_color_out)
  qed
qed

lemma fold_pixels:
  "\<not> in_frame v a \<Longrightarrow> vmem (fold (\<lambda>z. scrSetPixel (f z) (g z) color) zs v) a = vmem v a"
proof (induction zs arbitrary: v)
  case Nil
  then show ?case by simp
next
  case (Cons z zs)
  note px = scrSetPixel_in_frame [OF Cons.prems, of "f z" "g z" color]
  have "\<not> in_frame (scrSetPixel (f z) (g z) color v) a" using Cons.prems in_frame_cong [OF px(2)] by simp
  then show ?case using Cons.IH px(1) by simp
qed

text \<open> (C36)
  Drawing a line writes no byte outside the frame buffer, whatever its ends are and whatever the
  floating point unit answers, rounding errors and the undefined slope of a point included.
\<close>

theorem scrDrawLine_in_frame:
  assumes "\<not> in_frame v a"
  shows "vmem (scrDrawLine fpu fromX fromY toX toY color v) a = vmem v a"
proof -
  have "vmem (line_across fpu x y x' y' color v) a = vmem v a" for x y x' y'
    unfolding line_across_def using fold_pixels [OF assms, of "\<lambda>x. x"] by (simp add: Let_def del: upt_Suc)
  moreover have "vmem (line_down fpu x y x' y' color v) a = vmem v a" for x y x' y'
    unfolding line_down_def using fold_pixels [OF assms, of _ "\<lambda>y. y"] by (simp add: Let_def del: upt_Suc)
  ultimately show ?thesis by (simp add: scrDrawLine_def Let_def)
qed

lemma scrDrawLine_in_frame_witness:
  "vmem (scrDrawLine (\<lambda>n d y0 x0 x. x) 0 0 5000 5000 \<lparr>col_b = 1, col_g = 2, col_r = 3\<rparr> demo_screen) 0x1234 = 0"
proof -
  have "\<not> in_frame demo_screen 0x1234" using demo_frame [of "0x1234"] by auto
  then show ?thesis using scrDrawLine_in_frame [of demo_screen "0x1234"] by (simp add: demo_screen_def)
qed

section \<open>The pen stays on the screen\<close>

definition pen_ok :: "screen \<Rightarrow> bool" where
  "pen_ok v \<longleftrightarrow> uint (penX v) + cellW v \<le> uint (scr_width v) \<and> uint (penY v) + cellH v \<le> uint (scr_height v)"

definition same_geometry :: "screen \<Rightarrow> screen \<Rightarrow> bool" where
  "same_geometry v v' \<longleftrightarrow> scr_width v' = scr_width v \<and> scr_height v' = scr_height v \<and> fontSize v' = fontSize v \<and>
     framebuffer v' = framebuffer v"

lemma cell_nonneg [simp]: "0 \<le> cellW v" "0 \<le> cellH v"
  by (simp_all add: cellW_def cellH_def CHAR_WIDTH_def CHAR_HEIGHT_def)

lemma uint_add_int:
  assumes "0 \<le> i" "uint (a :: u16) + i < 2 ^ 16"
  shows "uint (a + of_int i) = uint a + i"
proof -
  have "uint (a + of_int i) = (uint a + i) mod 2 ^ 16" by (simp add: uint_word_ariths mod_simps uint_word_of_int)
  then show ?thesis using assms by simp
qed

lemma u16_bound: "uint (a :: u16) < 2 ^ 16"
  using unsigned_less [of a, where 'a = int] by simp

lemma newline_pen: "pen_ok v \<or> (uint (penY v) + cellH v \<le> uint (scr_height v) \<and> cellW v \<le> uint (scr_width v)) \<Longrightarrow>
  pen_ok (scrPrintNewline v) \<and> same_geometry v (scrPrintNewline v)"
proof -
  assume "pen_ok v \<or> (uint (penY v) + cellH v \<le> uint (scr_height v) \<and> cellW v \<le> uint (scr_width v))"
  moreover have "0 \<le> uint (penX v)" by simp
  ultimately have y: "uint (penY v) + cellH v \<le> uint (scr_height v)" "cellW v \<le> uint (scr_width v)"
    unfolding pen_ok_def by linarith+
  show ?thesis
  proof (cases "uint (penY v) + 2 * cellH v \<le> uint (scr_height v)")
    case True
    moreover have "uint (penY v) + cellH v < 2 ^ 16"
      using y(1) u16_bound [of "scr_height v"] by simp
    then have "uint (penY v + of_int (cellH v)) = uint (penY v) + cellH v" by (intro uint_add_int) auto
    ultimately show ?thesis using y
      by (simp add: scrPrintNewline_def pen_ok_def same_geometry_def cellW_def cellH_def Let_def)
  next
    case False
    then show ?thesis using y by (simp add: scrPrintNewline_def pen_ok_def same_geometry_def cellW_def cellH_def Let_def)
  qed
qed

lemma advance_pen_ok:
  assumes "pen_ok v"
  shows "pen_ok (advance_pen v) \<and> same_geometry v (advance_pen v)"
proof -
  let ?v1 = "v\<lparr>penX := penX v + of_int (cellW v)\<rparr>"
  have c: "cellW ?v1 = cellW v" "cellH ?v1 = cellH v" by (simp_all add: cellW_def cellH_def)
  have "uint (penX v) + cellW v < 2 ^ 16" using assms u16_bound [of "scr_width v"] by (simp add: pen_ok_def)
  then have x: "uint (penX ?v1) = uint (penX v) + cellW v" using uint_add_int [of "cellW v" "penX v"] by simp
  show ?thesis
  proof (cases "uint (scr_width v) - cellW v < uint (penX ?v1)")
    case True
    have "0 \<le> uint (penX v)" by simp
    moreover have "uint (penX v) + cellW v \<le> uint (scr_width v)" using assms unfolding pen_ok_def by simp
    ultimately have w: "cellW v \<le> uint (scr_width v)" by linarith
    have "pen_ok (scrPrintNewline ?v1) \<and> same_geometry ?v1 (scrPrintNewline ?v1)"
      using newline_pen [of ?v1] assms w c by (simp add: pen_ok_def)
    then show ?thesis using True by (simp add: advance_pen_def same_geometry_def)
  next
    case False
    then have "pen_ok ?v1" using assms c by (simp add: pen_ok_def)
    then show ?thesis using False by (simp add: advance_pen_def same_geometry_def)
  qed
qed

lemma draw_glyph_pen: "pen_ok (draw_glyph c v) = pen_ok v" "same_geometry v (draw_glyph c v)"
  by (simp_all add: draw_glyph_def pen_ok_def same_geometry_def cellW_def cellH_def Let_def)

lemma print_plain_pen:
  assumes "pen_ok v" "c \<noteq> 8"
  shows "pen_ok (print_plain c v) \<and> same_geometry v (print_plain c v)"
proof (cases "c = 10")
  case True
  then show ?thesis using newline_pen assms by (simp add: print_plain_def)
next
  case False
  let ?v = "if FIRST_CHAR \<le> c \<and> c \<le> LAST_CHAR then draw_glyph c v else v"
  have "pen_ok ?v" "same_geometry v ?v" using assms(1) draw_glyph_pen by (auto simp: same_geometry_def)
  then show ?thesis using advance_pen_ok [of ?v] False assms(2) by (auto simp: print_plain_def same_geometry_def)
qed

lemma blank_rows_pen: "penX (blank_rows hs v) = penX v \<and> penY (blank_rows hs v) = penY v"
  by (induction hs arbitrary: v) auto

lemma blank_rows_geometry: "same_geometry v (blank_rows hs v)"
  by (induction hs arbitrary: v) (auto simp: same_geometry_def)

lemma uint_sub_int:
  assumes "0 \<le> i" "i < 2 ^ 16"
  shows "uint ((a :: u16) - of_int i) = (if i \<le> uint a then uint a - i else 2 ^ 16 + uint a - i)"
proof -
  have m: "uint (a - of_int i) = (uint a - i) mod 2 ^ 16" by (simp add: uint_word_ariths mod_simps uint_word_of_int)
  show ?thesis
  proof (cases "i \<le> uint a")
    case True
    then show ?thesis using m assms u16_bound [of a] by simp
  next
    case False
    have "(uint a - i) mod 2 ^ 16 = (uint a - i + 2 ^ 16) mod 2 ^ 16" by simp
    also have "\<dots> = uint a - i + 2 ^ 16" using False assms uint_ge_0 [of a] by (intro mod_pos_pos_trivial) linarith+
    finally show ?thesis using m False by simp
  qed
qed

text \<open>A backspace keeps the pen unless there is neither a cell to its left nor a row above it.\<close>

lemma scrBackspace_pen:
  assumes "pen_ok v"
  shows "same_geometry v (scrBackspace v) \<and>
    (pen_ok (scrBackspace v) \<longleftrightarrow> cellW v \<le> uint (penX v) \<or> cellH v \<le> uint (penY v))"
proof -
  have w: "cellW v \<le> uint (scr_width v)" "cellH v \<le> uint (scr_height v)"
    using assms uint_ge_0 [of "penX v"] uint_ge_0 [of "penY v"] unfolding pen_ok_def by linarith+
  have b: "cellW v < 2 ^ 16" "cellH v < 2 ^ 16" using w u16_bound [of "scr_width v"] u16_bound [of "scr_height v"] by linarith+
  have g: "pen_ok (blank_rows hs v') = pen_ok v'" for hs v'
    using blank_rows_geometry [of v' hs] blank_rows_pen [of hs v'] by (simp add: pen_ok_def same_geometry_def cellW_def cellH_def)
  have r: "uint (of_int (uint (scr_width v) - cellW v) :: u16) = uint (scr_width v) - cellW v"
    using w(1) uint_sub_int [OF cell_nonneg(1) b(1), of "scr_width v"] by simp
  show ?thesis
  proof (cases "cellW v \<le> uint (penX v)")
    case True
    let ?v = "v\<lparr>penX := penX v - of_int (cellW v)\<rparr>"
    have "scrBackspace v = blank_rows [0..<nat (cellH v)] ?v" using True by (simp add: scrBackspace_def)
    moreover have "pen_ok ?v"
      using assms True uint_sub_int [OF cell_nonneg(1) b(1), of "penX v"] cell_nonneg(1) [of v]
      by (simp add: pen_ok_def cellW_def cellH_def)
    ultimately show ?thesis using g True blank_rows_geometry [of ?v] by (simp add: same_geometry_def)
  next
    case False
    let ?v = "v\<lparr>penX := of_int (uint (scr_width v) - cellW v), penY := penY v - of_int (cellH v)\<rparr>"
    have "scrBackspace v = blank_rows [0..<nat (cellH v)] ?v" using False by (simp add: scrBackspace_def)
    moreover have "\<not> 65536 + uint (penY v) \<le> uint (scr_height v)"
    proof -
      have "uint (scr_height v) < 65536" using u16_bound [of "scr_height v"] by simp
      then show ?thesis using uint_ge_0 [of "penY v"] by linarith
    qed
    then have "pen_ok ?v \<longleftrightarrow> cellH v \<le> uint (penY v)"
      using assms r uint_sub_int [OF cell_nonneg(2) b(2), of "penY v"] cell_nonneg(2) [of v]
      by (simp add: pen_ok_def cellW_def cellH_def)
    ultimately show ?thesis using g False blank_rows_geometry [of ?v] by (simp add: same_geometry_def)
  qed
qed

text \<open> (C37)
  Which characters keep a whole character cell on the screen at the pen: from a pen with room for a
  cell, every character (letters, newlines with or without scrolling, tabs that wrap, characters that
  have no glyph) leaves the pen with room for a cell, but a backspace does so exactly if there is a
  whole cell to the left of the pen or a whole row above it.  No character changes the geometry.
\<close>

theorem scrPrintChar_keeps_pen:
  assumes "pen_ok v"
  shows "same_geometry v (scrPrintChar c v) \<and>
    (pen_ok (scrPrintChar c v) \<longleftrightarrow> c \<noteq> 8 \<or> cellW v \<le> uint (penX v) \<or> cellH v \<le> uint (penY v))"
proof -
  consider "c = 9" | "c = 8" | "c \<noteq> 9" "c \<noteq> 8" by blast
  then show ?thesis
  proof cases
    case 1
    let ?p = "print_plain 32"
    have "pen_ok (?p v) \<and> same_geometry v (?p v)" using assms by (intro print_plain_pen) auto
    moreover from this have "pen_ok (?p (?p v)) \<and> same_geometry (?p v) (?p (?p v))" by (intro print_plain_pen) auto
    moreover from this have "pen_ok (?p (?p (?p v))) \<and> same_geometry (?p (?p v)) (?p (?p (?p v)))" by (intro print_plain_pen) auto
    ultimately show ?thesis using 1 by (simp add: scrPrintChar_def same_geometry_def)
  next
    case 2
    then show ?thesis using scrBackspace_pen [OF assms] by (simp add: scrPrintChar_def print_plain_def)
  next
    case 3
    then show ?thesis using print_plain_pen [OF assms] by (simp add: scrPrintChar_def)
  qed
qed

lemma scrPrintChar_keeps_pen_witness: "pen_ok (scrPrintChar 65 demo_screen) \<and> \<not> pen_ok (scrPrintChar 8 demo_screen)"
proof -
  have "pen_ok demo_screen" "\<not> cellW demo_screen \<le> uint (penX demo_screen)" "\<not> cellH demo_screen \<le> uint (penY demo_screen)"
    by (simp_all add: pen_ok_def demo_screen_def cellW_def cellH_def CHAR_WIDTH_def CHAR_HEIGHT_def)
  then show ?thesis using scrPrintChar_keeps_pen [of demo_screen 65] scrPrintChar_keeps_pen [of demo_screen 8] by simp
qed

text \<open>
  A backspace at the start of the screen is not stopped: the pen wraps around to a row near
  65536, far below the screen.
\<close>

theorem scrBackspace_leaves_screen:
  assumes "penX v = 0" "penY v = 0" "0 < fontSize v" "fontSize v < 6"
  shows "uint (penY (scrBackspace v)) = 65536 - cellH v"
proof -
  have f: "0 < uint (fontSize v)" "uint (fontSize v) < 6"
    using assms(3,4) by (simp_all add: word_less_def)
  have c: "0 < cellW v" "0 < cellH v" "cellH v < 65536"
    using f by (simp_all add: cellW_def cellH_def CHAR_WIDTH_def CHAR_HEIGHT_def)
  have "penY (scrBackspace v) = - of_int (cellH v)"
    using assms(1,2) c(1) by (simp add: scrBackspace_def Let_def blank_rows_pen)
  then have "uint (penY (scrBackspace v)) = (- cellH v) mod 65536"
    by (simp add: uint_word_ariths mod_simps uint_word_of_int)
  also have "\<dots> = 65536 - cellH v" using c by (simp add: zmod_zminus1_eq_if)
  finally show ?thesis .
qed

lemma scrBackspace_leaves_screen_witness: "uint (penY (scrBackspace demo_screen)) = 65520"
  using scrBackspace_leaves_screen [of demo_screen]
  by (simp add: demo_screen_def cellH_def CHAR_HEIGHT_def)

section \<open>Numbers\<close>

lemma base_loop_one: "base_loop b v buffer n m = Some r \<Longrightarrow> b = 1 \<longrightarrow> v = 0"
proof (rule base_loop.raw_induct [where P = "\<lambda>b v buffer n m r. b = 1 \<longrightarrow> v = 0"])
  fix f :: "u64 \<Rightarrow> u64 \<Rightarrow> ptr \<Rightarrow> nat \<Rightarrow> bytes \<Rightarrow> (nat \<times> bytes) option" and b v buffer n m r
  assume "\<And>b v buffer n m r. f b v buffer n m = Some r \<Longrightarrow> b = 1 \<longrightarrow> v = 0"
    and "(if b = 0 then None else let m1 = m(buffer + of_nat n := base_char (v mod b))
      in if v div b = 0 then Some (Suc n, m1) else f b (v div b) buffer (Suc n) m1) = Some r"
  then show "b = 1 \<longrightarrow> v = 0" by (cases r) (fastforce simp: Let_def split: if_splits)
qed

lemma base_loop_returns: "2 \<le> base \<Longrightarrow> \<exists>r. base_loop base value buffer n m = Some r"
proof (induction "unat value" arbitrary: "value" n m rule: less_induct)
  case less
  have b: "2 \<le> unat base" using less.prems by (simp add: word_le_nat_alt)
  show ?case
  proof (cases "value div base = 0")
    case True
    then show ?thesis using b by (subst base_loop.simps) (auto simp: Let_def)
  next
    case False
    then have "unat value \<noteq> 0" by (metis div_0 unat_eq_0)
    then have "unat (value div base) < unat value" using b by (simp add: unat_div)
    then show ?thesis using less.hyps [of "value div base"] less.prems False b
      by (subst base_loop.simps) (auto simp: Let_def)
  qed
qed

text \<open> (C38)
  Writing a number out returns for every base from two on, whatever the number, and only then,
  but for a zero in base one: every other number in base one is divided forever, and base zero is
  a division by zero.
\<close>

theorem toBase_returns_iff:
  "(\<exists>r. toBase value buffer base m = Some r) \<longleftrightarrow> 2 \<le> base \<or> base = 1 \<and> value = 0"
proof -
  let ?b = "ucast base :: u64"
  have l: "(\<exists>r. toBase value buffer base m = Some r) \<longleftrightarrow> (\<exists>r. base_loop ?b value buffer 0 m = Some r)"
    by (cases "base_loop ?b value buffer 0 m") (auto simp: toBase_def split: prod.splits)
  have u: "unat ?b = unat base" by (transfer, simp add: take_bit_take_bit)
  consider "base = 0" | "base = 1" | "2 \<le> base"
  proof -
    have "unat base = 0 \<or> unat base = 1 \<or> 2 \<le> unat base" by arith
    then show ?thesis using that by (auto simp: word_unat_eq_iff word_le_nat_alt simp del: unat_inj)
  qed
  then show ?thesis
  proof cases
    case 1
    then show ?thesis unfolding l by (subst base_loop.simps) simp
  next
    case 2
    have "\<not> 2 \<le> (1 :: u32)" by (simp add: word_le_nat_alt)
    moreover have "\<exists>r. base_loop 1 0 buffer 0 m = Some r" by (subst base_loop.simps) simp
    ultimately show ?thesis using 2 base_loop_one [of 1 "value" buffer 0 m] unfolding l by auto
  next
    case 3
    then have "2 \<le> ?b" by (simp add: word_le_nat_alt u)
    then show ?thesis using base_loop_returns 3 unfolding l by blast
  qed
qed

end
