(* ===== verification/SyscallProps.thy ===== *)
theory SyscallProps
  imports Exceptions KeyboardProps Priorities VideoProps
begin

text \<open>What the system calls do to the processes that make them and to the ones they name.\<close>

lemma put_kern_fields [simp]: "kern (put_kern s M) = s" "put_kern s (put_kern s1 M) = put_kern s M"
  by (simp_all add: put_kern_def)

section \<open>Pipes\<close>

text \<open>Both ends of an open, empty pipe.\<close>

definition is_pipe :: "kernel \<Rightarrow> ptr \<Rightarrow> ptr \<Rightarrow> bool" where
  "is_pipe s w r \<longleftrightarrow> w \<noteq> NULL \<and> r \<noteq> NULL \<and> w \<noteq> r \<and> oppositeEnd (bufs s w) = r \<and> oppositeEnd (bufs s r) = w \<and>
     buffId (bufs s w) = PIPE \<and> buffId (bufs s r) = PIPE \<and> bufState (bufs s w) = WRITE \<and> bufState (bufs s r) = READ \<and>
     unwrapped (bufs s w) \<and> unwrapped (bufs s r) \<and> contents (bufs s w) = [] \<and> contents (bufs s r) = []"

lemma contents_empty: "contents b = [] \<longleftrightarrow> bufferDim b = 0"
  using contents_length [of b] by (metis length_0_conv unat_eq_0)

lemma same_ends_sym: "same_ends b b' \<Longrightarrow> buffId b' = buffId b" "same_ends b b' \<Longrightarrow> bufState b' = bufState b"
  "same_ends b b' \<Longrightarrow> oppositeEnd b' = oppositeEnd b" "same_ends b b' \<Longrightarrow> ib_references b' = ib_references b"
  by (auto simp: same_ends_def)

text \<open>\<^verbatim>\<open>updateOppositeEnd\<close> moves everything to the other end and wakes its users.\<close>

lemma updateOppositeEnd_ok:
  assumes q: "queues s Q" and w: "w \<noteq> NULL" "w \<noteq> r" "r \<noteq> NULL" "oppositeEnd (bufs s w) = r"
    and b: "unwrapped (bufs s w)" "unwrapped (bufs s r)"
    and n: "contents (bufs s w) \<noteq> []" "length (contents (bufs s w)) \<le> headroom (bufs s r)"
  shows "\<exists>bw br. updateOppositeEnd w s =
      Some (wake_all (readers s Q r) (upd_buf r (\<lambda>_. br) (upd_buf w (\<lambda>_. bw) s))) \<and>
    contents bw = [] \<and> contents br = contents (bufs s r) @ contents (bufs s w) \<and>
    unwrapped bw \<and> unwrapped br \<and> same_ends (bufs s w) bw \<and> same_ends (bufs s r) br"
proof -
  let ?W = "bufs s w" and ?R = "bufs s r"
  have ax: "auxBuff \<noteq> NULL" by (simp add: auxBuff_def)
  obtain k aux bw where c: "copyFromBuffer auxBuff (Some ?W) (of_nat BUFF_SIZE) (\<lambda>_. 0) = (k, aux, Some bw)"
    "unwrapped bw" "same_ends ?W bw" "unat k = min (unat (of_nat BUFF_SIZE :: u64)) (length (contents ?W))"
    "contents ?W = bytes_at aux auxBuff (unat k) @ contents bw"
    using copyFromBuffer_ok [OF b(1) ax] by blast
  have "length (contents ?W) \<le> BUFF_SIZE" using b(1) by (simp add: unwrapped_def buf_ok_def)
  then have k: "unat k = length (contents ?W)" using c(4) by (simp add: BUFF_SIZE_def)
  then have "bufferDim bw = 0" using arg_cong [OF c(5), of length] by (simp add: unat_eq_0)
  then have bw: "contents bw = []" "bytes_at aux auxBuff (unat k) = contents ?W" using c(5) by (simp_all add: contents_empty [THEN iffD2])
  have k0: "k \<noteq> 0" using k n(1) by (metis length_0_conv unat_0)
  let ?s1 = "upd_buf w (\<lambda>_. bw) s"
  have r1: "bufs ?s1 r = ?R" "oppositeEnd (bufs ?s1 w) = r" using w same_ends_sym(3) [OF c(3)] by auto
  obtain br where d: "copyToBuffer aux (Some ?R) auxBuff k = Some (k, Some br)" "unwrapped br"
    "contents br = contents ?R @ contents ?W" "same_ends ?R br"
    using copyToBuffer_ok [OF b(2) _ ax, of k aux] n(2) k bw(2) by auto
  have "readers (upd_buf r (\<lambda>_. br) ?s1) Q r = readers s Q r"
    using same_ends_sym [OF d(4)] by (simp add: readers_def woken_refs_def)
  then have "setBufferReferencesReady r (upd_buf r (\<lambda>_. br) ?s1) = Some (wake_all (readers s Q r) (upd_buf r (\<lambda>_. br) ?s1))"
    using setBufferReferencesReady_ok [of "upd_buf r (\<lambda>_. br) ?s1" Q r] q by simp
  then have "updateOppositeEnd w s = Some (wake_all (readers s Q r) (upd_buf r (\<lambda>_. br) ?s1))"
    unfolding updateOppositeEnd_def using w(1,3) c(1) k0 r1 d(1) by (simp add: buf_result_def buf_arg_def)
  then show ?thesis using c(2,3) d(2-4) bw(1) by blast
qed

lemma updateOppositeEnd_empty:
  assumes "contents (bufs s w) = []"
  shows "updateOppositeEnd w s = Some (if w = NULL then s else upd_buf w (\<lambda>b. b) s)"
proof -
  have "bufferDim (bufs s w) = 0" using assms by (simp add: contents_empty)
  then show ?thesis by (simp add: updateOppositeEnd_def copyFromBuffer_def auxBuff_def BUFF_SIZE_def buf_result_def upd_buf_def)
qed

lemma writePipe_ok:
  assumes q: "queues s Q" and p: "is_pipe s w r" and n: "0 < count" "unat count \<le> headroom (bufs s w)" "unat count \<le> headroom (bufs s r)"
    and buff: "buff \<noteq> NULL"
  shows "\<exists>bw br. writePipe w buff count s =
      Some (count, wake_all (readers s Q r) (upd_buf r (\<lambda>_. br) (upd_buf w (\<lambda>_. bw) s))) \<and>
    contents br = bytes_at (mem s) buff (unat count) \<and> unwrapped br \<and> same_ends (bufs s r) br \<and>
    contents bw = [] \<and> same_ends (bufs s w) bw"
proof -
  have P: "w \<noteq> NULL" "r \<noteq> NULL" "w \<noteq> r" "oppositeEnd (bufs s w) = r" "bufState (bufs s w) = WRITE"
    "unwrapped (bufs s w)" "unwrapped (bufs s r)" "contents (bufs s w) = []" "contents (bufs s r) = []"
    using p by (auto simp: is_pipe_def)
  obtain b1 where b1: "writeBuffer (mem s) (Some (bufs s w)) buff count = Some (count, Some b1)" "unwrapped b1"
    "contents b1 = bytes_at (mem s) buff (unat count)" "same_ends (bufs s w) b1"
    using writeBuffer_ok [OF P(6) n(2) buff] P(5,8) by auto
  let ?s1 = "upd_buf w (\<lambda>_. b1) s"
  have u: "0 < unat count" using n(1) by (simp add: unat_gt_0 word_neq_0_conv)
  have "contents b1 \<noteq> []" using b1(3) u by (metis bytes_at_length length_0_conv less_irrefl)
  moreover have "length (contents b1) \<le> headroom (bufs s r)" using b1(3) n(3) by (metis bytes_at_length)
  ultimately obtain bw br where m: "updateOppositeEnd w ?s1 =
      Some (wake_all (readers ?s1 Q r) (upd_buf r (\<lambda>_. br) (upd_buf w (\<lambda>_. bw) ?s1)))"
    "contents bw = []" "contents br = contents b1" "unwrapped br" "same_ends b1 bw" "same_ends (bufs s r) br"
    using updateOppositeEnd_ok [of ?s1 Q w r] q P b1(2) same_ends_sym(3) [OF b1(4)] by auto
  have rd: "readers ?s1 Q r = readers s Q r" using P(3) by (simp add: readers_def woken_refs_def)
  have uu: "upd_buf w (\<lambda>_. bw) ?s1 = upd_buf w (\<lambda>_. bw) s" by (simp add: upd_buf_def)
  have dim: "unat (bufferDim (bufs s w)) < BUFF_SIZE - 1"
    using P(8) by (simp add: contents_empty BUFF_SIZE_def)
  have "writePipe w buff count s = Some (count, wake_all (readers s Q r) (upd_buf r (\<lambda>_. br) (upd_buf w (\<lambda>_. bw) s)))"
    using P(1,5) buff n(1) dim b1(1) m(1) unfolding writePipe_def rd uu
    by (simp add: buf_result_def Let_def)
  moreover have "same_ends (bufs s w) bw" using b1(4) m(5) by (simp add: same_ends_def)
  ultimately show ?thesis using m b1(3) by auto
qed

lemma readPipe_ok:
  assumes r: "r \<noteq> NULL" "bufState (bufs s r) = READ" "buf_ok (bufs s r)" and n: "unat count = length (contents (bufs s r))" "0 < count"
    and dst: "dst \<noteq> NULL" and t: "0 \<notin> set (contents (bufs s r))"
    and w: "oppositeEnd (bufs s r) \<noteq> r" "contents (bufs s (oppositeEnd (bufs s r))) = []"
  shows "\<exists>s'. readPipe r dst count s = Some (count, s') \<and> bytes_at (mem s') dst (unat count) = contents (bufs s r)"
proof -
  let ?b = "bufs s r"
  have tx: "text_of (unat count) ?b = contents ?b"
  proof -
    have "takeWhile (\<lambda>c. c \<noteq> 0) (contents ?b) = contents ?b" using t by (subst takeWhile_eq_all_conv) auto
    then show ?thesis unfolding text_of_def n(1) by (metis order_refl take_all)
  qed
  have "bufferDim ?b \<noteq> 0" using n by (auto simp: unat_eq_0)
  then have d: "0 < bufferDim ?b" by (simp add: word_gt_0)
  obtain m' b' where b': "readBuffer (Some ?b) dst count (mem s) = (of_nat (length (contents ?b)), m', Some b')"
    "bytes_at m' dst (length (contents ?b)) = contents ?b" "same_ends ?b b'"
    using readBuffer_ok [OF r(3) _ dst n(2) d, of "mem s"] r(2) tx by auto
  let ?s1 = "(upd_buf r (\<lambda>_. b') s)\<lparr>mem := m'\<rparr>"
  have e: "oppositeEnd (bufs ?s1 r) = oppositeEnd ?b" using same_ends_sym(3) [OF b'(3)] by simp
  have "contents (bufs ?s1 (oppositeEnd ?b)) = []" using w by simp
  note up = updateOppositeEnd_empty [OF this]
  have c: "of_nat (length (contents ?b)) = count" using n(1) by (metis of_nat_unat ucast_id)
  have "readPipe r dst count s = Some (count, if oppositeEnd ?b = NULL then ?s1 else upd_buf (oppositeEnd ?b) (\<lambda>b. b) ?s1)"
    using r(1,2) dst n(2) d b'(1) e up c unfolding readPipe_def by (simp add: buf_result_def Let_def)
  then show ?thesis using b'(2) n(1) by auto
qed

text \<open> (C8)
  A reader that waits on an empty pipe is woken by the next write and gets what was written: when
  the running process writes text to the write end, the call returns the full count, a user of the
  read end is READY afterwards, and when that user goes on with its read it gets exactly the bytes
  written, in order.
\<close>

theorem pipe_wakes_reader:
  assumes q: "queues (kern M) Q" and cur: "k_current (kern M) \<noteq> NULL"
    and pd: "unat (ucast pd :: u32) < PD_SIZE" "p_pdTable (nodes (kern M) (k_current (kern M))) ! unat (ucast pd :: u32) = w"
    and p: "is_pipe (kern M) w r"
    and n: "0 < count" "unat count \<le> headroom (bufs (kern M) w)" "unat count \<le> headroom (bufs (kern M) r)"
    and buff: "buff \<noteq> NULL" "0 \<notin> set (bytes_at (mem (kern M)) buff (unat count))" and dst: "dst \<noteq> NULL"
    and rd: "rd \<in> set (ib_references (bufs (kern M) r))" "rd \<noteq> NULL" "p_id (nodes (kern M) rd) \<in> pids (kern M) Q"
  shows "\<exists>M1 M2. arqSysWrite pd buff count M = Some (Ret count, M1) \<and> p_state (nodes (kern M1) rd) = READY \<and>
    resumed (ReadOn rd r dst count) M1 = Some (Ret count, M2) \<and>
    bytes_at (mem (kern M2)) dst (unat count) = bytes_at (mem (kern M)) buff (unat count)"
proof -
  let ?s = "kern M"
  have P: "w \<noteq> NULL" "r \<noteq> NULL" "w \<noteq> r" "oppositeEnd (bufs ?s r) = w" "bufState (bufs ?s w) = WRITE" "bufState (bufs ?s r) = READ"
    "buffId (bufs ?s w) = PIPE" "buffId (bufs ?s r) = PIPE" "contents (bufs ?s w) = []"
    using p by (auto simp: is_pipe_def)
  obtain bw br where w: "writePipe w buff count ?s =
      Some (count, wake_all (readers ?s Q r) (upd_buf r (\<lambda>_. br) (upd_buf w (\<lambda>_. bw) ?s)))"
    "contents br = bytes_at (mem ?s) buff (unat count)" "unwrapped br" "same_ends (bufs ?s r) br"
    "contents bw = []" "same_ends (bufs ?s w) bw"
    using writePipe_ok [OF q p n buff(1)] by blast
  define s1 where "s1 = wake_all (readers ?s Q r) (upd_buf r (\<lambda>_. br) (upd_buf w (\<lambda>_. bw) ?s))"
  have "bufferDim (bufs ?s w) = 0" using P(9) by (simp add: contents_empty)
  then have wp: "write_pass (k_current ?s) w buff count M = Some (Ret count, put_kern s1 M)"
    using P(5,7) w(1) by (simp add: write_pass_def Let_def BUFF_SIZE_def s1_def)
  have aw: "arqSysWrite pd buff count M = Some (Ret count, put_kern s1 M)"
    using cur pd P(1,5) wp by (simp add: arqSysWrite_def getPDEntry_def getCurrentProcessEntry_def Let_def)
  have st: "p_state (nodes s1 rd) = READY"
    using rd P(8) by (simp add: s1_def wake_all_state readers_def woken_refs_def)
  have b1: "bufs s1 r = br" "bufs s1 w = bw" "mem s1 = mem ?s" using P(3) by (simp_all add: s1_def)
  have e: "oppositeEnd br = w" "bufState br = READ" "buffId br = PIPE" using same_ends_sym [OF w(4)] P by auto
  have len: "unat count = length (contents br)" unfolding w(2) by simp
  have dim: "bufferDim br \<noteq> 0"
  proof
    assume "bufferDim br = 0"
    then have "unat count = 0" using len by simp
    then show False using n(1) by (simp add: unat_eq_0)
  qed
  have "\<exists>s2. readPipe r dst count s1 = Some (count, s2) \<and> bytes_at (mem s2) dst (unat count) = contents (bufs s1 r)"
    using P(1-3) w(3,5) e len n(1) dst buff(2) by (intro readPipe_ok) (auto simp: b1 w(2) unwrapped_def)
  then obtain s2 where s2: "readPipe r dst count s1 = Some (count, s2)" "bytes_at (mem s2) dst (unat count) = contents br"
    by (auto simp: b1)
  have rp: "resumed (ReadOn rd r dst count) (put_kern s1 M) = Some (Ret count, put_kern s2 M)"
    using dim e s2(1) by (simp add: read_pass_def Let_def b1)
  show ?thesis using aw st rp s2(2) w(2) by (intro exI [of _ "put_kern s1 M"] exI [of _ "put_kern s2 M"]) simp
qed

text \<open>The demonstration state with a pipe from the running process to the blocked one.\<close>

definition pipe_end :: "BufferState \<Rightarrow> ptr \<Rightarrow> ptr \<Rightarrow> IPCBufferCDT" where
  "pipe_end st opposite user = (clearBuffer demo_buffer)\<lparr>buffId := PIPE, bufState := st, oppositeEnd := opposite,
     ib_references := user # replicate 31 NULL\<rparr>"

definition pipe_kernel :: kernel where
  "pipe_kernel = (upd_buf 0xB000 (\<lambda>_. pipe_end READ 0xA000 0x4000) (upd_buf 0xA000 (\<lambda>_. pipe_end WRITE 0xB000 0x1000)
     (upd_node 0x1000 (\<lambda>n. n\<lparr>p_pdTable := [NULL, NULL, NULL, 0xA000] @ replicate 28 NULL\<rparr>) demo_kernel)))
     \<lparr>mem := tbl 0 [(0x600, 72), (0x601, 105)]\<rparr>"

definition demo_machine :: machine where
  "demo_machine = \<lparr>kern = demo_kernel, kbd = keyboard0, scr = demo_screen, sems = demo_sync, inforeg = replicate 17 0,
     hasRegDump = False, rtc = (0x12, 0x30, 0), sound_port = (0, 0), ports = [], fpu_of = (\<lambda>n d y0 x0 x. y0)\<rparr>"

lemma pipe_end_fields [simp]:
  "buffId (pipe_end st q u) = PIPE" "bufState (pipe_end st q u) = st" "oppositeEnd (pipe_end st q u) = q"
  "ib_references (pipe_end st q u) = u # replicate 31 NULL" "unwrapped (pipe_end st q u)"
  "contents (pipe_end st q u) = []" "headroom (pipe_end st q u) = 1023"
  by (simp_all add: pipe_end_def unwrapped_def buf_ok_def clearBuffer_def contents_def headroom_def BUFF_SIZE_def PD_SIZE_def demo_buffer_def)

lemma pipe_wakes_reader_witness:
  "\<exists>M1 M2. arqSysWrite 3 0x600 2 (put_kern pipe_kernel demo_machine) = Some (Ret 2, M1) \<and>
    p_state (nodes (kern M1) 0x4000) = READY \<and> resumed (ReadOn 0x4000 0xB000 0x900 2) M1 = Some (Ret 2, M2) \<and>
    bytes_at (mem (kern M2)) 0x900 2 = [72, 105]"
proof -
  have k: "nodes pipe_kernel = nodes (upd_node 0x1000 (\<lambda>n. n\<lparr>p_pdTable := [NULL, NULL, NULL, 0xA000] @ replicate 28 NULL\<rparr>) demo_kernel)"
    "nxt pipe_kernel = nxt demo_kernel" "qhead pipe_kernel = qhead demo_kernel"
    "k_current pipe_kernel = 0x1000" "k_idle pipe_kernel = 0x2000" "bufs pipe_kernel 0xA000 = pipe_end WRITE 0xB000 0x1000"
    "bufs pipe_kernel 0xB000 = pipe_end READ 0xA000 0x4000" "mem pipe_kernel = tbl 0 [(0x600, 72), (0x601, 105)]"
    by (simp_all add: pipe_kernel_def upd_buf_def upd_node_def nxt_def fun_eq_iff)
  have q: "queues pipe_kernel demo_Q" using demo_queues k(2,3) queues_cong by metis
  have n: "p_pdTable (nodes pipe_kernel 0x1000) = [NULL, NULL, NULL, 0xA000] @ replicate 28 NULL"
    "p_id (nodes pipe_kernel 0x4000) = 4" by (simp_all add: k(1))
  have pd: "unat (ucast (3 :: u64) :: u32) = 3" by simp
  have pid: "4 \<in> pids pipe_kernel demo_Q" by (simp add: pids_def k(1,4,5))
  have pipe: "is_pipe pipe_kernel 0xA000 0xB000" by (simp add: is_pipe_def k)
  have tx: "bytes_at (tbl 0 [(0x600, 72), (0x601, 105)]) 0x600 2 = [72, 105]" by (simp add: bytes_at_def upt_rec tbl_eval)
  show ?thesis
    using pipe_wakes_reader [of "put_kern pipe_kernel demo_machine" demo_Q 3 "0xA000" "0xB000" 2 "0x600" "0x900" "0x4000"]
    by (simp add: q k n pd pid pipe tx PD_SIZE_def)
qed

section \<open>Protected processes\<close>

text \<open> (C23)
  \<^verbatim>\<open>kill\<close> never touches the two processes of the system, whatever number it is called with, even
  one whose upper half is lost when it is looked up: processes with id 1 or 2 keep their state.
\<close>

theorem kill_spares_system:
  assumes "arqSysKill pid M = Some (reply, M')" "p_id (nodes (kern M) a) \<le> IDLE_ID"
  shows "nodes (kern M') a = nodes (kern M) a"
proof (cases "pid < 3")
  case True
  then show ?thesis using assms(1) by (simp add: arqSysKill_def)
next
  case False
  then obtain e ok s where s: "setProcessState e EXITED (kern M) = Some (ok, s)" "M' = put_kern s M"
    using assms(1) by (auto simp: arqSysKill_def bind_eq_Some_conv)
  then have "s = kern M \<or> s = upd_node e (\<lambda>n. n\<lparr>p_state := EXITED, p_manualBlocked := False\<rparr>) (kern M) \<and> \<not> p_id (nodes (kern M) e) \<le> IDLE_ID"
    by (auto simp: setProcessState_def bind_eq_Some_conv split: if_splits)
  then show ?thesis using assms(2) s(2) by (auto simp: upd_node_def)
qed

lemma kill_spares_system_witness:
  "\<exists>reply M'. arqSysKill 0x100000001 demo_machine = Some (reply, M') \<and> p_state (nodes (kern M') 0x1000) = RUNNING"
proof -
  have k: "kern demo_machine = demo_kernel" by (simp add: demo_machine_def)
  have u: "(ucast (0x100000001 :: u64) :: u32) = 1" by simp
  have q: "exists 1 demo_kernel = Some True" using exists_ok [OF demo_queues, of 1] by (simp add: pids_def)
  have e: "getEntry 1 demo_kernel = Some 0x1000" by (simp add: getEntry_def q)
  have "\<exists>ok s. setProcessState 0x1000 EXITED demo_kernel = Some (ok, s)"
    using setProcessState_ok [OF demo_queues, of "0x1000" EXITED] by metis
  then obtain ok s where s: "setProcessState 0x1000 EXITED demo_kernel = Some (ok, s)" by blast
  obtain reply M' where r: "arqSysKill 0x100000001 demo_machine = Some (reply, M')"
    unfolding arqSysKill_def k u e using s by (simp add: word_less_nat_alt)
  have "nodes (kern M') 0x1000 = nodes (kern demo_machine) 0x1000"
    using kill_spares_system [OF r, of "0x1000"] by (simp add: k IDLE_ID_def)
  then show ?thesis using r k by auto
qed

text \<open>
  The guard of the priority call is not as tight: it compares all 64 bits, the lookup only 32.
  A request for process 1 is refused, but with any bit of the upper half set the same process is
  found and moved to the ready queue of the new level, even while it runs.
\<close>

theorem arqSysPriority_guard_bypassed:
  assumes ok: "sched_ok (kern M) Q" and init: "p_id (nodes (kern M) (k_current (kern M))) = 1"
    and high: "ucast pid = (1 :: u32)" "pid \<noteq> 1" and np: "ucast newPriority < (6 :: u32)"
  shows "\<exists>M'. arqSysPriority 1 newPriority M = Some (Ret err, M) \<and> arqSysPriority pid newPriority M = Some (Ret 1, M') \<and>
    (\<exists>Q'. queues (kern M') Q' \<and> k_current (kern M') \<in> queued Q')"
proof -
  have "pid \<noteq> 2" using high(1) by auto
  moreover obtain s' Q' where "changePriority 1 (ucast newPriority) (kern M) = Some (1, s')"
    "queues s' Q'" "k_current s' = k_current (kern M)" "k_current (kern M) \<in> queued Q'"
    using changePriority_running [OF ok init np refl] by blast
  ultimately show ?thesis using high
    by (intro exI [of _ "put_kern s' M"]) (auto simp: arqSysPriority_def)
qed

lemma arqSysPriority_guard_bypassed_witness:
  "\<exists>M'. arqSysPriority 1 2 demo_machine = Some (Ret err, demo_machine) \<and>
    arqSysPriority 0x100000001 2 demo_machine = Some (Ret 1, M')"
proof -
  have "sched_ok (kern demo_machine) demo_Q" using demo_sched_ok by (simp add: demo_machine_def)
  then show ?thesis using arqSysPriority_guard_bypassed [of demo_machine demo_Q "0x100000001" 2]
    by (auto simp: demo_machine_def)
qed

end
