(* ===== verification/Sized.thy ===== *)
theory Sized
  imports SyscallProps
begin

text \<open>
  The sizes of the kernel's arrays as a type of its states: whatever happens to the machine, every
  table of descriptors, of children and of references keeps its length, and no buffer ever counts
  more bytes than it has.
\<close>

section \<open>The invariant\<close>

definition node_sized :: "PCBNodeCDT \<Rightarrow> bool" where
  "node_sized n \<longleftrightarrow> length (p_pdTable n) = PD_SIZE \<and> length (p_childsIds n) = PD_SIZE"

definition sized :: "kernel \<Rightarrow> bool" where
  "sized s \<longleftrightarrow> (\<forall>a. node_sized (nodes s a)) \<and> (\<forall>b. buf_ok (bufs s b))"

lemma sizedD: "sized s \<Longrightarrow> node_sized (nodes s a)" "sized s \<Longrightarrow> buf_ok (bufs s b)"
  by (simp_all add: sized_def)

lemma sized_fields [simp]:
  "sized (s\<lparr>mm := g\<rparr>) = sized s" "sized (s\<lparr>mem := m\<rparr>) = sized s" "sized (s\<lparr>timers := t\<rparr>) = sized s"
  "sized (s\<lparr>allocs := al\<rparr>) = sized s" "sized (s\<lparr>k_current := c\<rparr>) = sized s" "sized (s\<lparr>k_idle := c\<rparr>) = sized s"
  "sized (s\<lparr>k_foreground := c\<rparr>) = sized s" "sized (s\<lparr>timerList := c\<rparr>) = sized s" "sized (s\<lparr>qhead := q\<rparr>) = sized s"
  "sized (s\<lparr>tscReads := k\<rparr>) = sized s"
  by (simp_all add: sized_def)

lemma sized_upd_node: "sized s \<Longrightarrow> node_sized (f (nodes s a)) \<Longrightarrow> sized (upd_node a f s)"
  by (simp add: sized_def upd_node_def)

lemma sized_upd_buf: "sized s \<Longrightarrow> buf_ok (f (bufs s a)) \<Longrightarrow> sized (upd_buf a f s)"
  by (simp add: sized_def upd_buf_def)

lemma sized_upd_node_keep [simp]:
  assumes "\<And>n. node_sized n \<Longrightarrow> node_sized (f n)"
  shows "sized s \<Longrightarrow> sized (upd_node a f s)"
  using assms by (intro sized_upd_node) (auto dest: sizedD)

lemma sized_upd_buf_keep [simp]:
  assumes "\<And>b. buf_ok b \<Longrightarrow> buf_ok (f b)"
  shows "sized s \<Longrightarrow> sized (upd_buf a f s)"
  using assms by (intro sized_upd_buf) (auto dest: sizedD)

lemma node_sized_fields [simp]:
  "node_sized (n\<lparr>p_next := x1\<rparr>) = node_sized n" "node_sized (n\<lparr>p_state := x2\<rparr>) = node_sized n"
  "node_sized (n\<lparr>p_manualBlocked := x3\<rparr>) = node_sized n" "node_sized (n\<lparr>p_foreground := x4\<rparr>) = node_sized n"
  "node_sized (n\<lparr>p_quantums := x5\<rparr>) = node_sized n" "node_sized (n\<lparr>p_agingInterval := x6\<rparr>) = node_sized n"
  "node_sized (n\<lparr>p_priority := x7\<rparr>) = node_sized n" "node_sized (n\<lparr>p_counterInit := x8\<rparr>) = node_sized n"
  "node_sized (n\<lparr>p_parentId := x9\<rparr>) = node_sized n" "node_sized (n\<lparr>p_stack := x10\<rparr>) = node_sized n"
  "node_sized (n\<lparr>p_id := x11\<rparr>) = node_sized n" "node_sized (n\<lparr>p_firstAlloc := x12\<rparr>) = node_sized n"
  "node_sized (n\<lparr>p_pdTable := (p_pdTable n)[i := b]\<rparr>) = node_sized n"
  "node_sized (n\<lparr>p_pdTable := map g (p_pdTable n)\<rparr>) = node_sized n"
  "node_sized (n\<lparr>p_childsIds := (p_childsIds n)[j := c]\<rparr>) = node_sized n"
  "node_sized (n\<lparr>p_childsIds := map h (p_childsIds n)\<rparr>) = node_sized n"
  by (simp_all add: node_sized_def)

lemma sized_set [simp]:
  "sized s \<Longrightarrow> sized (set_next a p s)" "sized s \<Longrightarrow> sized (set_state a st s)" "sized (set_qhead i p s) = sized s"
  "sized (upd_timer a g s) = sized s" "sized (upd_alloc a h s) = sized s"
  by (simp_all add: set_next_def set_state_def set_qhead_def upd_timer_def upd_alloc_def)

section \<open>Operations on buffers\<close>

lemma buf_ok_fields [simp]:
  "buf_ok (b\<lparr>buffId := i\<rparr>) = buf_ok b" "buf_ok (b\<lparr>bufState := st\<rparr>) = buf_ok b" "buf_ok (b\<lparr>oppositeEnd := e\<rparr>) = buf_ok b"
  "buf_ok (b\<lparr>cursor := c\<rparr>) = buf_ok b"
  by (simp_all add: buf_ok_def)

lemma buf_ok_ops [simp]:
  "buf_ok b \<Longrightarrow> buf_ok (clearBuffer b)" "buf_ok b \<Longrightarrow> buf_ok (empty_buffer b)" "buf_ok b \<Longrightarrow> buf_ok (setBufferState b st)"
  "buf_ok b \<Longrightarrow> buf_ok (setBufferId b i)" "buf_ok b \<Longrightarrow> buf_ok (setBufferOppositeEnd b e)"
  "buf_ok b \<Longrightarrow> buf_ok (snd (setReferenceByIndex b r j))" "buf_ok b \<Longrightarrow> buf_ok (b\<lparr>ib_references := replicate PD_SIZE NULL\<rparr>)"
  by (simp_all add: buf_ok_def clearBuffer_def empty_buffer_def setBufferState_def setBufferId_def setBufferOppositeEnd_def
      setReferenceByIndex_def Let_def)

lemma fill_loop_sized: "fill_loop m src k n b = Some (k', b') \<Longrightarrow> buf_ok b \<Longrightarrow> buf_ok b'"
proof (induction n arbitrary: k b)
  case 0
  then show ?case by simp
next
  case (Suc n)
  have "unat (bufferDim b + 1) = unat (bufferDim b) + 1" if "unat (bufferDim b) < BUFF_SIZE"
    using that by (intro unat16_plus1) (simp add: BUFF_SIZE_def)
  then have "buf_ok (b\<lparr>ib_buffer := (ib_buffer b)[i := c], bufferDim := bufferDim b + 1\<rparr>)" if "unat (bufferDim b) < BUFF_SIZE" for i c
    using Suc.prems(2) that by (simp add: buf_ok_def)
  then show ?case using Suc.prems Suc.IH by (auto simp: Let_def split: if_splits)
qed

lemma drain_loop_sized: "drain_loop dst k n m b = (k', m', b') \<Longrightarrow> buf_ok b \<Longrightarrow> buf_ok b'"
  by (induction n arbitrary: k m b) (auto simp: advance_ok split: if_splits)

lemma read_loop_sized: "read_loop d dst k n m b = (k', m', b') \<Longrightarrow> buf_ok b \<Longrightarrow> buf_ok b'"
  by (induction n arbitrary: k m b) (auto simp: advance_ok split: if_splits)

lemma writeBuffer_sized: "writeBuffer m (Some b) p n = Some (k, Some b') \<Longrightarrow> buf_ok b \<Longrightarrow> buf_ok b'"
  by (auto simp: writeBuffer_def bind_eq_Some_conv dest: fill_loop_sized split: if_splits)

lemma copyToBuffer_sized: "copyToBuffer m (Some b) p n = Some (k, Some b') \<Longrightarrow> buf_ok b \<Longrightarrow> buf_ok b'"
  by (auto simp: copyToBuffer_def bind_eq_Some_conv dest: fill_loop_sized split: if_splits)

lemma readBuffer_sized: "readBuffer (Some b) p n m = (k, m', Some b') \<Longrightarrow> buf_ok b \<Longrightarrow> buf_ok b'"
  by (auto simp: readBuffer_def dest: read_loop_sized split: if_splits prod.splits)

lemma copyFromBuffer_sized: "copyFromBuffer p (Some b) n m = (k, m', Some b') \<Longrightarrow> buf_ok b \<Longrightarrow> buf_ok b'"
  by (auto simp: copyFromBuffer_def dest: drain_loop_sized split: if_splits prod.splits)

text \<open>A result is written back to the buffer it came from.\<close>

lemma buf_result_sized: "sized s \<Longrightarrow> (\<And>b'. r = Some b' \<Longrightarrow> buf_ok b') \<Longrightarrow> sized (buf_result a r s)"
  by (auto simp: buf_result_def intro: sized_upd_buf split: option.splits)

section \<open>Processes and queues\<close>

named_theorems sized_op

lemma setProcessState_sized [sized_op]: "setProcessState a st s = Some (ok, s') \<Longrightarrow> sized s \<Longrightarrow> sized s'"
  by (auto simp: setProcessState_def bind_eq_Some_conv split: if_splits)

lemma sized_ground [simp]:
  "sized s \<Longrightarrow> sized (setForegroundProcess a s)" "sized s \<Longrightarrow> sized (setProcessToForeground a s)"
  "sized s \<Longrightarrow> sized (setProcessToBackground a s)"
  by (simp_all add: setForegroundProcess_def setProcessToForeground_def setProcessToBackground_def Let_def)

lemma removeFromPDs_sized [simp]: "sized s \<Longrightarrow> sized (removeFromPDs a b s)"
  by (simp add: removeFromPDs_def)

lemma sysBlock_sized [sized_op]: "sysBlock a s = Some s' \<Longrightarrow> sized s \<Longrightarrow> sized s'"
  by (auto simp: sysBlock_def bind_eq_Some_conv split: if_splits)

lemma sysUnBlock_sized [sized_op]: "sysUnBlock a s = Some s' \<Longrightarrow> sized s \<Longrightarrow> sized s'"
  by (auto simp: sysUnBlock_def bind_eq_Some_conv split: if_splits)

lemma dupPd_sized [sized_op]: "dupPd a x y s = (r, s') \<Longrightarrow> sized s \<Longrightarrow> sized s'"
  by (auto simp: dupPd_def Let_def node_sized_def intro!: sized_upd_node dest: sizedD(1) [where a = a] split: if_splits)

lemma setProcessPd_sized [simp]: "sized s \<Longrightarrow> sized (setProcessPd a b i s)"
  by (simp add: setProcessPd_def)

lemma link_last_sized [sized_op]: "link_last i a s = Some s' \<Longrightarrow> sized s \<Longrightarrow> sized s'"
  by (auto simp: link_last_def bind_eq_Some_conv)

lemma insertInQueue_sized [sized_op]: "insertInQueue a s = Some s' \<Longrightarrow> sized s \<Longrightarrow> sized s'"
  by (auto simp: insertInQueue_def bind_eq_Some_conv Let_def dest: sized_op)

lemma insertLast_sized [sized_op]: "insertLast a s = Some s' \<Longrightarrow> sized s \<Longrightarrow> sized s'"
  by (auto simp: insertLast_def bind_eq_Some_conv dest: sized_op)

lemma insertInBlockedQueue_sized [sized_op]: "insertInBlockedQueue a s = Some s' \<Longrightarrow> sized s \<Longrightarrow> sized s'"
  by (auto simp: insertInBlockedQueue_def dest: sized_op)

lemma remove_in_sized [sized_op]: "remove_in is pid s = Some (a, s') \<Longrightarrow> sized s \<Longrightarrow> sized s'"
  by (induction "is") (auto simp: bind_eq_Some_conv split: if_splits)

lemma changePriority_sized [sized_op]: "changePriority pid np s = Some (r, s') \<Longrightarrow> sized s \<Longrightarrow> sized s'"
  by (auto simp: changePriority_def removeFromQueue_def bind_eq_Some_conv Let_def
      dest!: remove_in_sized insertInQueue_sized insertInBlockedQueue_sized split: if_splits option.splits)

lemma sysExecve_sized [sized_op]: "sysExecve f argc argv rsp s = (r, s') \<Longrightarrow> sized s \<Longrightarrow> sized s'"
  by (auto simp: sysExecve_def)

section \<open>Timers\<close>

lemma removeFromList_sized [sized_op]: "removeFromList t s = Some s' \<Longrightarrow> sized s \<Longrightarrow> sized s'"
  by (auto simp: removeFromList_def bind_eq_Some_conv split: if_splits)

lemma insertInList_sized [sized_op]: "insertInList t s = Some s' \<Longrightarrow> sized s \<Longrightarrow> sized s'"
  by (auto simp: insertInList_def bind_eq_Some_conv split: if_splits)

lemma wake_sized [sized_op]: "wake now t s = Some s' \<Longrightarrow> sized s \<Longrightarrow> sized s'"
  by (auto simp: wake_def Let_def bind_eq_Some_conv dest: sized_op split: if_splits)

lemma updateTimers_loop_sized: "updateTimers_loop now t s = Some s' \<Longrightarrow> sized s \<longrightarrow> sized s'"
proof (rule updateTimers_loop.raw_induct [where P = "\<lambda>now t s s'. sized s \<longrightarrow> sized s'"])
  fix f :: "u64 \<Rightarrow> ptr \<Rightarrow> kernel \<Rightarrow> kernel option" and now t s s'
  assume IH: "\<And>now t s s'. f now t s = Some s' \<Longrightarrow> sized s \<longrightarrow> sized s'"
    and "(if t = NULL then Some s
      else if getProcessState (t_sleepingProcess (timers s t)) s = EXITED
      then removeFromList t s \<bind> (\<lambda>s1. f now (tnxt s t) (k_freeTimer t s1))
      else wake now t s \<bind> (\<lambda>s1. f now (tnxt s1 t) s1)) = Some s'"
  then show "sized s \<longrightarrow> sized s'"
    by (auto simp: bind_eq_Some_conv k_freeTimer_def dest!: IH dest: sized_op split: if_splits)
qed

lemma updateTimers_sized [sized_op]: "updateTimers now s = Some s' \<Longrightarrow> sized s \<Longrightarrow> sized s'"
  unfolding updateTimers_def using updateTimers_loop_sized by blast

lemma sleep_begin_sized [sized_op]: "sleep_begin n s = Some (t, s') \<Longrightarrow> sized s \<Longrightarrow> sized s'"
  by (auto simp: sleep_begin_def readTimeStampCounter_def bind_eq_Some_conv Let_def dest: sized_op split: prod.splits)

lemma sleep_end_sized [sized_op]: "sleep_end t s = Some s' \<Longrightarrow> sized s \<Longrightarrow> sized s'"
  by (auto simp: sleep_end_def k_freeTimer_def bind_eq_Some_conv dest: sized_op)

section \<open>Pipes\<close>

lemma ready_refs_sized [sized_op]: "ready_refs fg rs s = Some s' \<Longrightarrow> sized s \<Longrightarrow> sized s'"
  by (induction rs arbitrary: s) (auto simp: bind_eq_Some_conv dest: setProcessState_sized split: if_splits)

lemma setBufferReferencesReady_sized [sized_op]: "setBufferReferencesReady b s = Some s' \<Longrightarrow> sized s \<Longrightarrow> sized s'"
  by (auto simp: setBufferReferencesReady_def dest: sized_op)

lemma createEmptyBuffer_sized [sized_op]: "createEmptyBuffer s = Some (b, s') \<Longrightarrow> sized s \<Longrightarrow> sized s'"
  by (auto simp: createEmptyBuffer_def bind_eq_Some_conv)

lemma destroyBuffer_sized [simp]: "sized s \<Longrightarrow> sized (destroyBuffer b s)"
proof -
  have "sized (fold (\<lambda>r. removeFromPDs r b) rs s)" if "sized s" for rs s
    using that by (induction rs arbitrary: s) simp_all
  then show "sized s \<Longrightarrow> sized (destroyBuffer b s)" by (simp add: destroyBuffer_def Let_def)
qed

lemma copyToBuffer_result_sized:
  "copyToBuffer m (buf_arg s a) p n = Some (k, r) \<Longrightarrow> sized s \<Longrightarrow> sized (buf_result a r s)"
  by (rule buf_result_sized) (auto simp: buf_arg_def copyToBuffer_def bind_eq_Some_conv
      dest: fill_loop_sized sizedD(2) [where b = a] split: if_splits)

lemma copyToBuffer_some_sized:
  "copyToBuffer m (Some (bufs s a)) p n = Some (k, r) \<Longrightarrow> sized s \<Longrightarrow> sized (buf_result a r s)"
  by (rule buf_result_sized) (auto simp: copyToBuffer_def bind_eq_Some_conv
      dest: fill_loop_sized sizedD(2) [where b = a] split: if_splits)

lemma writeBuffer_result_sized:
  "writeBuffer m (Some (bufs s a)) p n = Some (k, r) \<Longrightarrow> sized s \<Longrightarrow> sized (buf_result a r s)"
  by (rule buf_result_sized) (auto simp: writeBuffer_def bind_eq_Some_conv
      dest: fill_loop_sized sizedD(2) [where b = a] split: if_splits)

lemma readBuffer_result_sized:
  "readBuffer (Some (bufs s a)) p n m = (k, m', r) \<Longrightarrow> sized s \<Longrightarrow> sized (buf_result a r s)"
  by (rule buf_result_sized) (auto simp: readBuffer_def
      dest: read_loop_sized sizedD(2) [where b = a] split: if_splits prod.splits)

lemma copyFromBuffer_result_sized:
  "copyFromBuffer p (Some (bufs s a)) n m = (k, m', r) \<Longrightarrow> sized s \<Longrightarrow> sized (buf_result a r s)"
  by (rule buf_result_sized) (auto simp: copyFromBuffer_def
      dest: drain_loop_sized sizedD(2) [where b = a] split: if_splits prod.splits)

lemma updateOppositeEnd_sized [sized_op]: "updateOppositeEnd w s = Some s' \<Longrightarrow> sized s \<Longrightarrow> sized s'"
  by (auto simp: updateOppositeEnd_def bind_eq_Some_conv Let_def
      dest!: copyFromBuffer_result_sized copyToBuffer_result_sized dest: sized_op split: if_splits prod.splits)

lemma readPipe_sized [sized_op]: "readPipe r p n s = Some (k, s') \<Longrightarrow> sized s \<Longrightarrow> sized s'"
  by (auto simp: readPipe_def bind_eq_Some_conv Let_def dest!: readBuffer_result_sized dest: sized_op split: if_splits prod.splits)

lemma writePipe_sized [sized_op]: "writePipe w p n s = Some (k, s') \<Longrightarrow> sized s \<Longrightarrow> sized s'"
  by (auto simp: writePipe_def bind_eq_Some_conv Let_def dest!: writeBuffer_result_sized dest: sized_op split: if_splits prod.splits)

lemma closePipe_sized [sized_op]: "closePipe b s = Some s' \<Longrightarrow> sized s \<Longrightarrow> sized s'"
  by (auto simp: closePipe_def bind_eq_Some_conv Let_def dest!: copyToBuffer_result_sized dest: sized_op split: if_splits prod.splits)

lemma open_scan_sized [sized_op]: "open_scan p is d ps fds s = Some (d', ps', fds', s') \<Longrightarrow> sized s \<Longrightarrow> sized s'"
  by (induction "is" arbitrary: d ps fds s) (auto simp: bind_eq_Some_conv Let_def dest: createEmptyBuffer_sized split: if_splits)

lemma open_refs_sized [sized_op]: "open_refs p is d ps s = (d', s') \<Longrightarrow> sized s \<Longrightarrow> sized s'"
  by (induction "is" arbitrary: d s) (auto split: if_splits)

lemma openPipe_sized [sized_op]: "openPipe p fds s = Some (r, fds', s') \<Longrightarrow> sized s \<Longrightarrow> sized s'"
  by (auto simp: openPipe_def bind_eq_Some_conv Let_def dest!: open_scan_sized open_refs_sized split: if_splits prod.splits)

lemma remove_refs_sized [sized_op]: "remove_refs b pid is s = Some s' \<Longrightarrow> sized s \<Longrightarrow> sized s'"
proof (induction "is" arbitrary: s)
  case Nil
  then show ?case by simp
next
  case (Cons i "is")
  have "sized (upd_buf b (\<lambda>_. snd (setReferenceByIndex (bufs s b) NULL (of_nat i))) s)"
    using Cons.prems(2) by (intro sized_upd_buf) (simp_all add: sizedD)
  then show ?case using Cons
    by (auto simp: bind_eq_Some_conv Let_def dest!: closePipe_sized split: if_splits prod.splits)
qed

lemma sysClosePd_sized [sized_op]: "sysClosePd p b pd s = Some s' \<Longrightarrow> sized s \<Longrightarrow> sized s'"
proof -
  assume "sysClosePd p b pd s = Some s'" "sized s"
  moreover from this(2) have "sized (upd_node p (\<lambda>n. n\<lparr>p_pdTable := (p_pdTable n)[unat pd := NULL]\<rparr>) s)"
    by simp
  ultimately show "sized s'"
    by (auto simp: sysClosePd_def removeReferences_def Let_def dest!: remove_refs_sized split: if_splits)
qed

section \<open>The heap of a process, and fork\<close>

lemma k_alloc_sized [sized_op]:
  "k_allocMemory n s = Some (a, s') \<Longrightarrow> sized s \<Longrightarrow> sized s'" "k_allocPCB s = Some (a, s') \<Longrightarrow> sized s \<Longrightarrow> sized s'"
  "k_copyBlocks t u s = Some s' \<Longrightarrow> sized s \<Longrightarrow> sized s'"
  by (auto simp: k_allocMemory_def k_allocPCB_def k_copyBlocks_def bind_eq_Some_conv)

lemma k_freeMemory_sized [simp]: "sized (k_freeMemory p s) = sized s"
  by (simp add: k_freeMemory_def)

lemma sysMalloc_sized [sized_op]: "sysMalloc p n s = Some (r, s') \<Longrightarrow> sized s \<Longrightarrow> sized s'"
  by (auto simp: sysMalloc_def bind_eq_Some_conv Let_def dest!: k_alloc_sized split: if_splits)

lemma sysRealloc_sized [sized_op]:
  assumes run: "sysRealloc p q n s = Some (r, s')" and s: "sized s"
  shows "sized s'"
proof -
  obtain prev c where w: "walk_find (anxt s) (\<lambda>a. pa_allocation (allocs s a) = q) NULL (p_firstAlloc (nodes s p)) = Some (prev, c)"
    using run unfolding sysRealloc_def bind_eq_Some_conv by fastforce
  show ?thesis
  proof (cases "c = NULL")
    case True
    then show ?thesis using run s w by (simp add: sysRealloc_def)
  next
    case False
    then obtain a g m where al: "reAllocMemory c (n + sizeof_ProcessAllocations) (mm s, mem s) = Some (a, g, m)"
      using run w unfolding sysRealloc_def by (cases "reAllocMemory c (n + sizeof_ProcessAllocations) (mm s, mem s)") auto
    show ?thesis using run s w al False by (cases "a = NULL"; cases "prev = NULL") (auto simp: sysRealloc_def Let_def)
  qed
qed

lemma sysFree_sized [sized_op]: "sysFree p q s = Some s' \<Longrightarrow> sized s \<Longrightarrow> sized s'"
  by (auto simp: sysFree_def bind_eq_Some_conv Let_def split: if_splits)

lemma share_buffer_sized [simp]: "sized s \<Longrightarrow> sized (share_buffer c b s)"
  by (auto simp: share_buffer_def split: option.splits)

lemma share_buffers_sized [simp]: "sized s \<Longrightarrow> sized (fold (share_buffer c) bs s)"
  by (induction bs arbitrary: s) simp_all

lemma child_of_sized [simp]: "node_sized p \<Longrightarrow> node_sized n \<Longrightarrow> node_sized (child_of p m k n)"
  by (simp add: child_of_def node_sized_def)

lemma sysFork_sized [sized_op]: "sysFork rsp s = Some (r, s') \<Longrightarrow> sized s \<Longrightarrow> sized s'"
proof -
  have c: "sized (upd_node a (child_of (nodes s b) m k) s)" if "sized s" for a b m k s
    using that by (intro sized_upd_node) (simp_all add: sizedD)
  have "sized (s\<lparr>mem := m\<rparr>)" if "sized s" for s m using that by simp
  note c [OF this]
  then show "sysFork rsp s = Some (r, s') \<Longrightarrow> sized s \<Longrightarrow> sized s'"
    by (auto simp: sysFork_def bind_eq_Some_conv Let_def c dest!: k_alloc_sized insertInQueue_sized split: if_splits)
qed

section \<open>The end of a process, and the tick\<close>

lemma freeAllocations_loop_sized: "freeAllocations_loop a s = Some s' \<Longrightarrow> sized s \<longrightarrow> sized s'"
proof (rule freeAllocations_loop.raw_induct [where P = "\<lambda>a s s'. sized s \<longrightarrow> sized s'"])
  fix f :: "ptr \<Rightarrow> kernel \<Rightarrow> kernel option" and a s s'
  assume "\<And>a s s'. f a s = Some s' \<Longrightarrow> sized s \<longrightarrow> sized s'"
    and "(if a = NULL then Some s else f (pa_next (allocs s a)) (k_freeMemory a s)) = Some s'"
  then show "sized s \<longrightarrow> sized s'" by (auto split: if_splits)
qed

lemma close_pds_sized [sized_op]: "close_pds p is s = Some s' \<Longrightarrow> sized s \<Longrightarrow> sized s'"
proof (induction "is" arbitrary: s)
  case Nil
  then show ?case by simp
next
  case (Cons i "is")
  have "sized (upd_node p (\<lambda>n. n\<lparr>p_pdTable := (p_pdTable n)[i := NULL]\<rparr>) s)" using Cons.prems(2) by simp
  then show ?case using Cons
    by (auto simp: removeReferences_def bind_eq_Some_conv Let_def dest!: remove_refs_sized split: if_splits)
qed

lemma check_childs_sized [sized_op]: "check_childs a b is s = Some s' \<Longrightarrow> sized s \<Longrightarrow> sized s'"
proof (induction "is" arbitrary: s)
  case Nil
  then show ?case by simp
next
  case (Cons i "is")
  have "sized (upd_node c (\<lambda>n. n\<lparr>p_parentId := p_id (nodes s a)\<rparr>) s)" for c using Cons.prems(2) by simp
  then show ?case using Cons by (auto simp: bind_eq_Some_conv Let_def split: if_splits)
qed

lemma setParentReady_sized [sized_op]: "setParentReady a s = Some s' \<Longrightarrow> sized s \<Longrightarrow> sized s'"
proof -
  assume "setParentReady a s = Some s'" "sized s"
  moreover from this(2) have "sized (upd_node p (\<lambda>n. n\<lparr>p_childsIds := map (\<lambda>c. if c = pid then 0 else c) (p_childsIds n)\<rparr>) s)" for p pid
    by simp
  ultimately show "sized s'"
    by (auto simp: setParentReady_def bind_eq_Some_conv Let_def dest!: setProcessState_sized)
qed

lemma deleteProcess_sized [sized_op]: "deleteProcess a s = Some (pid, s') \<Longrightarrow> sized s \<Longrightarrow> sized s'"
  by (auto simp: deleteProcess_def readTimeStampCounter_def freeAllocations_def closePDs_def checkChilds_def
      bind_eq_Some_conv Let_def dest!: updateTimers_sized freeAllocations_loop_sized [THEN mp] close_pds_sized
      check_childs_sized setParentReady_sized split: if_splits)

lemma checkExited_loop_sized: "checkExited_loop i p c s = Some s' \<Longrightarrow> sized s \<longrightarrow> sized s'"
proof (rule checkExited_loop.raw_induct [where P = "\<lambda>i p c s s'. sized s \<longrightarrow> sized s'"])
  fix f :: "nat \<Rightarrow> ptr \<Rightarrow> ptr \<Rightarrow> kernel \<Rightarrow> kernel option" and i p c s s'
  assume IH: "\<And>i p c s s'. f i p c s = Some s' \<Longrightarrow> sized s \<longrightarrow> sized s'"
    and "(if c = NULL then Some s
      else if p_state (nodes s c) = EXITED
      then let nx = nxt s c in deleteProcess c (if p = NULL then set_qhead i nx s else set_next p nx s) \<bind>
          (\<lambda>(_, s1). f i p nx s1)
      else f i c (nxt s c) s) = Some s'"
  then show "sized s \<longrightarrow> sized s'"
    by (auto simp: bind_eq_Some_conv Let_def dest!: IH deleteProcess_sized split: if_splits)
qed

lemma check_queues_sized [sized_op]: "check_queues is s = Some s' \<Longrightarrow> sized s \<Longrightarrow> sized s'"
  by (induction "is" arbitrary: s) (auto simp: bind_eq_Some_conv dest: checkExited_loop_sized)

lemma checkBlocked_loop_sized: "checkBlocked_loop p c s = Some s' \<Longrightarrow> sized s \<longrightarrow> sized s'"
proof (rule checkBlocked_loop.raw_induct [where P = "\<lambda>p c s s'. sized s \<longrightarrow> sized s'"])
  fix f :: "ptr \<Rightarrow> ptr \<Rightarrow> kernel \<Rightarrow> kernel option" and p c s s'
  assume IH: "\<And>p c s s'. f p c s = Some s' \<Longrightarrow> sized s \<longrightarrow> sized s'"
    and "(if c = NULL then Some s
      else if p_state (nodes s c) \<noteq> BLOCKED
      then let nx = nxt s c in insertInQueue c (if p = NULL then set_qhead 6 nx s else set_next p nx s) \<bind> (\<lambda>s1. f p nx s1)
      else f c (nxt s c) s) = Some s'"
  then show "sized s \<longrightarrow> sized s'"
    by (auto simp: bind_eq_Some_conv Let_def dest!: IH insertInQueue_sized split: if_splits)
qed

lemma checkBlocked_sized [sized_op]: "checkBlocked s = Some s' \<Longrightarrow> sized s \<Longrightarrow> sized s'"
  unfolding checkBlocked_def using checkBlocked_loop_sized by blast

lemma take_first_sized [sized_op]: "take_first is s = (a, s') \<Longrightarrow> sized s \<Longrightarrow> sized s'"
  by (induction "is") (auto split: if_splits)

lemma put_back_sized [sized_op]: "put_back c s = Some s' \<Longrightarrow> sized s \<Longrightarrow> sized s'"
  by (auto simp: put_back_def dest!: insertInQueue_sized insertLast_sized insertInBlockedQueue_sized split: ProcessState.splits)

lemma nextProcess_sized [sized_op]:
  assumes "nextProcess s = Some s'" "sized s"
  shows "sized s'"
proof -
  let ?s1 = "if p_id (nodes s (k_current s)) = p_id (nodes s (k_idle s))
             then (set_state (k_current s) READY s)\<lparr>k_current := NULL\<rparr> else s"
  obtain s2 where s2: "put_back (k_current ?s1) ?s1 = Some s2"
    using assms(1) unfolding nextProcess_def Let_def bind_eq_Some_conv by blast
  obtain n s3 where s3: "take_first [0..<6] s2 = (n, s3)" by fastforce
  have "sized ?s1" using assms(2) by simp
  with s2 have "sized s2" by (rule put_back_sized)
  with s3 have "sized s3" by (rule take_first_sized)
  moreover have "s' = (if n = NULL then run_idle (s3\<lparr>k_current := n\<rparr>) else run_next n s3)"
    using assms(1) s2 unfolding nextProcess_def Let_def by (simp add: s3 del: upt_Suc split del: if_split)
  ultimately show ?thesis by (simp add: run_idle_def run_next_def)
qed

lemma checkExited_sized [sized_op]: "checkExited s = Some s' \<Longrightarrow> sized s \<Longrightarrow> sized s'"
  by (auto simp: checkExited_def bind_eq_Some_conv
      dest!: check_queues_sized deleteProcess_sized checkBlocked_sized nextProcess_sized split: if_splits)

lemma readTimeStampCounter_sized [simp]: "sized (snd (readTimeStampCounter s)) = sized s"
  by (simp add: readTimeStampCounter_def)

lemma accounted_sized [simp]: "sized s \<Longrightarrow> sized (accounted rsp s)"
  by (simp add: accounted_def Let_def)

lemma tick_start_sized [sized_op]: "tick_start rsp s = Some s' \<Longrightarrow> sized s \<Longrightarrow> sized s'"
  by (auto simp: tick_start_def bind_eq_Some_conv dest!: updateTimers_sized checkBlocked_sized checkExited_sized)

lemma tick_end_sized [sized_op]: "tick_end s = Some (sp, s') \<Longrightarrow> sized s \<Longrightarrow> sized s'"
  by (auto simp: tick_end_def bind_eq_Some_conv Let_def dest!: nextProcess_sized split: if_split_asm)

lemma scheduler_sized:
  assumes "scheduler rsp s = Some (sp, s')" "sized s"
  shows "sized s'"
proof (cases "k_current s = NULL")
  case True
  then show ?thesis using assms by (auto simp: scheduler_def Let_def)
next
  case False
  have "TSCFrequency s \<noteq> 0"
    using assms(1) False by (auto simp: scheduler_def readTimeStampCounter_def over_frequency_def Let_def upd_node_def)
  then show ?thesis using assms False scheduler_eq [of s rsp] by (auto simp: bind_eq_Some_conv dest!: tick_start_sized tick_end_sized)
qed

section \<open>The keyboard\<close>

lemma toBuff_sized [sized_op]: "toBuff c s = Some s' \<Longrightarrow> sized s \<Longrightarrow> sized s'"
  by (auto simp: toBuff_def bind_eq_Some_conv Let_def dest!: copyToBuffer_some_sized setBufferReferencesReady_sized split: if_splits)

lemma addKey_sized: "addKey key k s = Some (y, k', s') \<Longrightarrow> sized s \<Longrightarrow> sized s'"
  by (auto simp: addKey_def press_def bind_eq_Some_conv Let_def dest!: setProcessState_sized toBuff_sized
      split: if_splits option.splits)

section \<open>Machines\<close>

text \<open>What can happen to the machine.\<close>

datatype event =
    Syscall u64 "u64 list" ptr
  | Resumed resume
  | Tick ptr
  | Key u8
  | Exception int "u64 list" u64 ptr
  | ExceptionEnd

definition happens :: "event \<Rightarrow> machine \<Rightarrow> machine option" where
  "happens e M =
    (case e of
       Syscall rax r rsp \<Rightarrow> map_option snd (syscallsDispatcher rax (r ! 0) (r ! 1) (r ! 2) (r ! 3) (r ! 4) (r ! 5) rsp M)
     | Resumed k \<Rightarrow> map_option snd (resumed k M)
     | Tick rsp \<Rightarrow> map_option (\<lambda>(sp, s). put_kern s M) (scheduler rsp (kern M))
     | Key c \<Rightarrow> map_option (\<lambda>(y, k, s). put_kern s (M\<lparr>kbd := k\<rparr>)) (addKey c (kbd M) (kern M))
     | Exception n regs code c \<Rightarrow> map_option snd (exception_begin n regs code c M)
     | ExceptionEnd \<Rightarrow> map_option snd (exception_end M))"

fun run_events :: "event list \<Rightarrow> machine \<Rightarrow> machine option" where
  "run_events [] M = Some M"
| "run_events (e # es) M = do { M1 \<leftarrow> happens e M; run_events es M1 }"

lemma sized_machine [simp]:
  "sized (kern (on_mem f M)) = sized (kern M)" "sized (kern (put_screen v M)) = sized (kern M)"
  "sized (kern (on_screen g M)) = sized (kern M)" "sized (kern (put_sync y M)) = sized (kern M)"
  "kern (M\<lparr>kbd := k\<rparr>) = kern M" "kern (M\<lparr>ports := ps\<rparr>) = kern M"
  by (simp_all add: on_mem_def put_screen_def on_screen_def put_sync_def)

lemma read_pass_sized: "read_pass c b p n M = Some (r, M') \<Longrightarrow> sized (kern M) \<Longrightarrow> sized (kern M')"
  by (auto simp: read_pass_def bind_eq_Some_conv Let_def
      dest!: setProcessState_sized readPipe_sized readBuffer_result_sized split: if_splits prod.splits)

lemma write_pass_sized: "write_pass c b p n M = Some (r, M') \<Longrightarrow> sized (kern M) \<Longrightarrow> sized (kern M')"
  by (auto simp: write_pass_def bind_eq_Some_conv Let_def dest!: setProcessState_sized writePipe_sized split: if_splits)

lemma childs_pass_sized: "childs_pass c M = Some (r, M') \<Longrightarrow> sized (kern M) \<Longrightarrow> sized (kern M')"
  by (auto simp: childs_pass_def bind_eq_Some_conv dest!: setProcessState_sized split: if_splits)

lemma resumed_sized: "resumed k M = Some (r, M') \<Longrightarrow> sized (kern M) \<Longrightarrow> sized (kern M')"
  by (cases k) (auto simp: bind_eq_Some_conv dest!: read_pass_sized write_pass_sized childs_pass_sized sleep_end_sized split: prod.splits)

lemma calls_sized:
  "arqSysRead pd p n M = Some (r, M') \<Longrightarrow> sized (kern M) \<Longrightarrow> sized (kern M')"
  "arqSysWrite pd p n M = Some (r, M') \<Longrightarrow> sized (kern M) \<Longrightarrow> sized (kern M')"
  "arqSysMalloc n M = Some (r, M') \<Longrightarrow> sized (kern M) \<Longrightarrow> sized (kern M')"
  "arqSysFree p M = Some (r, M') \<Longrightarrow> sized (kern M) \<Longrightarrow> sized (kern M')"
  "arqSysRealloc p n M = Some (r, M') \<Longrightarrow> sized (kern M) \<Longrightarrow> sized (kern M')"
  "arqSysSleep n M = Some (r, M') \<Longrightarrow> sized (kern M) \<Longrightarrow> sized (kern M')"
  "arqSysFork p M = Some (r, M') \<Longrightarrow> sized (kern M) \<Longrightarrow> sized (kern M')"
  "arqSysPipe p M = Some (r, M') \<Longrightarrow> sized (kern M) \<Longrightarrow> sized (kern M')"
  "arqSysClosePd pd M = Some (r, M') \<Longrightarrow> sized (kern M) \<Longrightarrow> sized (kern M')"
  "arqSysWait M = Some (r, M') \<Longrightarrow> sized (kern M) \<Longrightarrow> sized (kern M')"
  "arqSysBlock n M = Some (r, M') \<Longrightarrow> sized (kern M) \<Longrightarrow> sized (kern M')"
  "arqSysUnblock n M = Some (r, M') \<Longrightarrow> sized (kern M) \<Longrightarrow> sized (kern M')"
  "arqSysPriority n pd M = Some (r, M') \<Longrightarrow> sized (kern M) \<Longrightarrow> sized (kern M')"
  "arqSysChangeState n M = Some (r, M') \<Longrightarrow> sized (kern M) \<Longrightarrow> sized (kern M')"
  "arqSysKill n M = Some (r, M') \<Longrightarrow> sized (kern M) \<Longrightarrow> sized (kern M')"
  "arqSysExit M = Some (r, M') \<Longrightarrow> sized (kern M) \<Longrightarrow> sized (kern M')"
  "arqSysYield M = Some (r, M') \<Longrightarrow> sized (kern M) \<Longrightarrow> sized (kern M')"
  "arqSysDup n pd M = Some (r, M') \<Longrightarrow> sized (kern M) \<Longrightarrow> sized (kern M')"
  "arqSysExecve n pd p q M = Some (r, M') \<Longrightarrow> sized (kern M) \<Longrightarrow> sized (kern M')"
  by (auto simp: arqSysRead_def arqSysWrite_def arqSysMalloc_def arqSysFree_def arqSysRealloc_def arqSysSleep_def
      arqSysFork_def arqSysPipe_def arqSysClosePd_def arqSysWait_def arqSysBlock_def arqSysUnblock_def arqSysPriority_def
      arqSysChangeState_def arqSysKill_def arqSysExit_def arqSysYield_def arqSysDup_def arqSysExecve_def
      bind_eq_Some_conv Let_def dest!: read_pass_sized write_pass_sized childs_pass_sized sysMalloc_sized sysFree_sized
      sysRealloc_sized sleep_begin_sized sysFork_sized openPipe_sized sysClosePd_sized sysBlock_sized sysUnBlock_sized
      changePriority_sized setProcessState_sized dupPd_sized sysExecve_sized split: if_splits prod.splits)

lemma device_calls_sized:
  "arqSysGetFreeMemory M = Some (r, M') \<Longrightarrow> sized (kern M) \<Longrightarrow> sized (kern M')"
  "arqSysGetUsedMemory M = Some (r, M') \<Longrightarrow> sized (kern M) \<Longrightarrow> sized (kern M')"
  "arqSysSemOpen p n M = Some (r, M') \<Longrightarrow> sized (kern M) \<Longrightarrow> sized (kern M')"
  "arqSysSemWait p M = Some (r, M') \<Longrightarrow> sized (kern M) \<Longrightarrow> sized (kern M')"
  "arqSysSemPost p M = Some (r, M') \<Longrightarrow> sized (kern M) \<Longrightarrow> sized (kern M')"
  "arqSysSemClose p M = Some (r, M') \<Longrightarrow> sized (kern M) \<Longrightarrow> sized (kern M')"
  "arqSysPs p M = Some (r, M') \<Longrightarrow> sized (kern M) \<Longrightarrow> sized (kern M')"
  "arqSysGetPid M = Some (r, M') \<Longrightarrow> sized (kern M) \<Longrightarrow> sized (kern M')"
  "arqSysIdle M = Some (r, M') \<Longrightarrow> sized (kern M) \<Longrightarrow> sized (kern M')"
  "arqSysSetToForeground M = Some (r, M') \<Longrightarrow> sized (kern M) \<Longrightarrow> sized (kern M')"
  "arqSysSetToBackground M = Some (r, M') \<Longrightarrow> sized (kern M) \<Longrightarrow> sized (kern M')"
  "arqSysClear M = Some (r, M') \<Longrightarrow> sized (kern M) \<Longrightarrow> sized (kern M')"
  "arqSysScreenHeight p M = Some (r, M') \<Longrightarrow> sized (kern M) \<Longrightarrow> sized (kern M')"
  "arqSysScreenWidth p M = Some (r, M') \<Longrightarrow> sized (kern M) \<Longrightarrow> sized (kern M')"
  "arqSysGetPenX p M = Some (r, M') \<Longrightarrow> sized (kern M) \<Longrightarrow> sized (kern M')"
  "arqSysGetPenY p M = Some (r, M') \<Longrightarrow> sized (kern M) \<Longrightarrow> sized (kern M')"
  "arqSysGameRead p M = Some (r, M') \<Longrightarrow> sized (kern M) \<Longrightarrow> sized (kern M')"
  "arqSysgetPtrToPixel n pd p M = Some (r, M') \<Longrightarrow> sized (kern M) \<Longrightarrow> sized (kern M')"
  "arqSysDrawLine n1 n2 n3 n4 p M = Some (r, M') \<Longrightarrow> sized (kern M) \<Longrightarrow> sized (kern M')"
  "arqSysChangeFontSize n M = Some (r, M') \<Longrightarrow> sized (kern M) \<Longrightarrow> sized (kern M')"
  "arqSysClock p q p1 M = Some (r, M') \<Longrightarrow> sized (kern M) \<Longrightarrow> sized (kern M')"
  "arqSysBeep n M = Some (r, M') \<Longrightarrow> sized (kern M) \<Longrightarrow> sized (kern M')"
  "arqSysMemoryDump p q M = Some (r, M') \<Longrightarrow> sized (kern M) \<Longrightarrow> sized (kern M')"
  "arqSysGetRegistersInfo p M = Some (r, M') \<Longrightarrow> sized (kern M) \<Longrightarrow> sized (kern M')"
  by (auto simp: arqSysGetFreeMemory_def arqSysGetUsedMemory_def arqSysSemOpen_def arqSysSemWait_def arqSysSemPost_def
      arqSysSemClose_def arqSysPs_def arqSysGetPid_def arqSysIdle_def arqSysSetToForeground_def arqSysSetToBackground_def
      arqSysClear_def arqSysScreenHeight_def arqSysScreenWidth_def arqSysGetPenX_def arqSysGetPenY_def arqSysGameRead_def
      arqSysgetPtrToPixel_def arqSysDrawLine_def arqSysChangeFontSize_def arqSysClock_def arqSysBeep_def
      arqSysMemoryDump_def arqSysGetRegistersInfo_def bind_eq_Some_conv Let_def split: if_splits prod.splits)

text \<open>Every entry of the table keeps the sizes.\<close>

definition call_ok :: "call \<Rightarrow> bool" where
  "call_ok f \<longleftrightarrow> (\<forall>rdi rsi rdx r10 r8 r9 rsp M r M'.
     f rdi rsi rdx r10 r8 r9 rsp M = Some (r, M') \<longrightarrow> sized (kern M) \<longrightarrow> sized (kern M'))"

lemma call_okI:
  "(\<And>rdi rsi rdx r10 r8 r9 rsp M r M'. f rdi rsi rdx r10 r8 r9 rsp M = Some (r, M') \<Longrightarrow>
     sized (kern M) \<Longrightarrow> sized (kern M')) \<Longrightarrow> call_ok f"
  unfolding call_ok_def by blast

lemma list_allI: "list_all P []" "P x \<Longrightarrow> list_all P xs \<Longrightarrow> list_all P (x # xs)"
  by simp_all

lemma table_sized: "list_all call_ok setSyscalls"
  unfolding setSyscalls_def
  apply (intro list_allI call_okI)
  apply (erule calls_sized device_calls_sized, assumption)+
  done

lemma syscallsDispatcher_sized:
  "syscallsDispatcher rax rdi rsi rdx rcx r8 r9 rsp M = Some (r, M') \<Longrightarrow> sized (kern M) \<Longrightarrow> sized (kern M')"
proof -
  have "length setSyscalls = TOTAL_SYSCALLS" by (simp add: setSyscalls_def TOTAL_SYSCALLS_def)
  then have "call_ok (setSyscalls ! unat rax)" if "unat rax < TOTAL_SYSCALLS"
    using table_sized that by (simp add: list_all_length)
  then show "syscallsDispatcher rax rdi rsi rdx rcx r8 r9 rsp M = Some (r, M') \<Longrightarrow> sized (kern M) \<Longrightarrow> sized (kern M')"
    unfolding syscallsDispatcher_def call_ok_def by (fastforce split: if_splits)
qed

lemma exception_sized:
  "exception_begin n regs code c M = Some (r, M') \<Longrightarrow> sized (kern M) \<Longrightarrow> sized (kern M')"
  "exception_end M = Some (r, M') \<Longrightarrow> sized (kern M) \<Longrightarrow> sized (kern M')"
  by (auto simp: exception_begin_def exception_end_def bind_eq_Some_conv Let_def
      dest!: syscallsDispatcher_sized setProcessState_sized)

lemma happens_sized:
  assumes "happens e M = Some M'" and "sized (kern M)"
  shows "sized (kern M')"
  using assms
  by (cases e) (auto simp: happens_def dest: syscallsDispatcher_sized resumed_sized scheduler_sized addKey_sized exception_sized)

lemma run_events_sized: "run_events es M = Some M' \<Longrightarrow> sized (kern M) \<Longrightarrow> sized (kern M')"
  by (induction es arbitrary: M) (auto simp: bind_eq_Some_conv dest: happens_sized)


lemma sized_demo: "sized pipe_kernel"
proof -
  have "buf_ok demo_buffer" by (simp add: buf_ok_def demo_buffer_def BUFF_SIZE_def PD_SIZE_def)
  moreover have "node_sized (nodes demo_kernel a)" for a
    by (simp add: demo_nodes_def tbl_eval node_sized_def)
  ultimately have "sized demo_kernel" by (simp add: sized_def demo_kernel_def)
  moreover have "buf_ok (pipe_end st p q)" for st p q
    by (simp add: pipe_end_def buf_ok_def clearBuffer_def demo_buffer_def BUFF_SIZE_def PD_SIZE_def)
  ultimately show ?thesis
    unfolding pipe_kernel_def by (simp add: sized_def node_sized_def upd_node_def upd_buf_def PD_SIZE_def)
qed


end
