(* ===== verification/BootProps.thy ===== *)
theory BootProps
  imports Boot
begin

text \<open>What the packer wrote is what the loader puts in place; the interrupt table.\<close>

section \<open>The image\<close>

definition packed :: "u8 list list \<Rightarrow> u8 list" where
  "packed fs = concat (map (\<lambda>f. le32 (of_nat (length f)) @ f) fs)"

lemma packed_simps [simp]: "packed [] = []" "packed (f # fs) = le32 (of_nat (length f)) @ f @ packed fs"
  by (simp_all add: packed_def)

lemma le32_length [simp]: "length (le32 v) = 4"
  by (simp add: le32_def)

lemma write_file_appends: "write_file target source = target @ source"
proof (induction target source rule: write_file.induct)
  case (1 target source)
  then show ?case by (subst write_file.simps) (auto simp: Let_def BUFFER_SIZE_def)
qed

lemma write_modules_appends: "write_modules target fs = target @ packed fs"
  by (induction fs arbitrary: target) (simp_all add: write_file_appends write_size_def)

lemma buildImage_eq: "buildImage (k # fs) = k @ le32 (of_nat (length fs)) @ packed fs"
  by (simp add: buildImage_def write_modules_appends write_file_appends)

section \<open>Loading\<close>

lemma bytes_at_append: "bytes_at m p (j + k) = bytes_at m p j @ bytes_at m (p + of_nat j) k"
  by (rule nth_equalityI) (auto simp: nth_append of_nat_diff algebra_simps)

lemma bytes_at_split: "bytes_at m p (length (xs @ ys)) = xs @ ys \<longleftrightarrow>
    bytes_at m p (length xs) = xs \<and> bytes_at m (p + of_nat (length xs)) (length ys) = ys"
  by (simp add: bytes_at_append)

lemma load32_le32:
  assumes "bytes_at m p 4 = le32 v"
  shows "load32 m p = v"
proof -
  have b: "m (p + of_nat i) = ucast (drop_bit (8 * i) v)" if "i < 4" for i
    using arg_cong [OF assms, of "\<lambda>xs. xs ! i"] that by (simp add: le32_def)
  have u: "[0..<4] = [0, 1, 2, 3 :: nat]" by (simp add: upt_rec)
  have "load32 m p = or (or (or (ucast (ucast v :: u8)) (push_bit 8 (ucast (ucast (drop_bit 8 v) :: u8))))
      (push_bit 16 (ucast (ucast (drop_bit 16 v) :: u8)))) (push_bit 24 (ucast (ucast (drop_bit 24 v) :: u8)))"
    using b [of 0] b [of 1] b [of 2] b [of 3] unfolding load32_def u by simp
  also have "\<dots> = v"
  proof (rule bit_word_eqI)
    fix n :: nat
    assume "n < LENGTH(32)"
    then consider "n < 8" | "8 \<le> n" "n < 16" | "16 \<le> n" "n < 24" | "24 \<le> n" "n < 32" by fastforce
    then show "bit (or (or (or (ucast (ucast v :: u8) :: u32) (push_bit 8 (ucast (ucast (drop_bit 8 v) :: u8))))
        (push_bit 16 (ucast (ucast (drop_bit 16 v) :: u8)))) (push_bit 24 (ucast (ucast (drop_bit 24 v) :: u8)))) n = bit v n"
      by cases (auto simp: bit_simps)
  qed
  finally show ?thesis .
qed

text \<open>The addresses of a region, and regions apart from \<open>A\<close> and from each other.\<close>

definition cells :: "ptr \<Rightarrow> nat \<Rightarrow> ptr set" where "cells p n = (\<lambda>k. p + of_nat k) ` {..<n}"

fun fits :: "ptr set \<Rightarrow> (ptr \<times> u8 list) list \<Rightarrow> bool" where
  "fits A [] = True"
| "fits A ((t, f) # r) = (cells t (length f) \<inter> A = {} \<and> fits (A \<union> cells t (length f)) r)"

lemma cells_add: "cells p (j + k) = cells p j \<union> cells (p + of_nat j) k"
proof -
  have "cells (p + of_nat j) k = (\<lambda>i. p + of_nat i) ` {j..<j + k}"
  proof -
    have "{j..<j + k} = (+) j ` {..<k}" by (simp add: lessThan_atLeast0 add.commute)
    then show ?thesis by (simp add: cells_def image_image add.assoc)
  qed
  moreover have "{..<j + k} = {..<j} \<union> {j..<j + k}" by auto
  ultimately show ?thesis by (simp add: cells_def image_Un)
qed

lemma bytes_at_cong: "(\<And>a. a \<in> cells p n \<Longrightarrow> m' a = m a) \<Longrightarrow> bytes_at m' p n = bytes_at m p n"
  by (intro bytes_at_eqI) (simp add: cells_def)

lemma loadModule_ok:
  assumes f: "length f < 2 ^ 32" and img: "bytes_at m p (length (le32 (of_nat (length f)) @ f)) = le32 (of_nat (length f)) @ f"
    and d: "cells t (length f) \<inter> cells p (4 + length f) = {}"
  shows "\<exists>m1. loadModule p t m = (p + of_nat (4 + length f), m1) \<and> bytes_at m1 t (length f) = f \<and>
    (\<forall>a. a \<notin> cells t (length f) \<longrightarrow> m1 a = m a)"
proof -
  let ?n = "of_nat (length f) :: u32"
  have i: "bytes_at m p 4 = le32 ?n" "bytes_at m (p + 4) (length f) = f"
    using img unfolding bytes_at_split by simp_all
  have l: "load32 m p = ?n" using i(1) by (rule load32_le32)
  have n: "(ucast ?n :: u64) = of_nat (length f)" using f by (simp add: unsigned_of_nat take_bit_nat_eq_self)
  have u: "unat (of_nat (length f) :: u64) = length f" using f by (simp add: unat_of_nat64)
  have "cells t (length f) \<inter> cells (p + 4) (length f) = {}"
    using d by (auto simp: cells_add)
  then have ap: "apart t (p + 4) (unat (of_nat (length f) :: u64))"
    unfolding u apart_def cells_def by blast
  show ?thesis
    using memcpy_copies [OF ap] i(2) l n u
    by (auto simp: loadModule_def readUint32_def cells_def algebra_simps)
qed

lemma load_loop_ok:
  assumes "length fs \<le> length ts" "\<forall>f\<in>set fs. length f < 2 ^ 32"
    and "bytes_at m p (length (packed fs)) = packed fs" "cells p (length (packed fs)) \<subseteq> A" "fits A (zip ts fs)"
  shows "\<exists>m'. load_loop (length fs) ts p m = Some m' \<and> map2 (\<lambda>t f. bytes_at m' t (length f)) ts fs = fs \<and> (\<forall>a\<in>A. m' a = m a)"
  using assms
proof (induction fs arbitrary: ts p m A)
  case Nil
  then show ?case by simp
next
  case (Cons f fs)
  obtain t ts' where ts: "ts = t # ts'" using Cons.prems(1) by (cases ts) auto
  let ?h = "le32 (of_nat (length f)) @ f" and ?q = "p + of_nat (4 + length f)" and ?R = "cells t (length f)"
  have pk: "packed (f # fs) = ?h @ packed fs" by simp
  have img: "bytes_at m p (length ?h) = ?h" "bytes_at m ?q (length (packed fs)) = packed fs"
    using Cons.prems(3) unfolding pk bytes_at_split [of m p ?h] by simp_all
  have "length (packed (f # fs)) = 4 + length f + length (packed fs)" by simp
  then have "cells p (4 + length f + length (packed fs)) \<subseteq> A" using Cons.prems(4) by (simp only:)
  then have A: "cells p (4 + length f) \<subseteq> A" "cells ?q (length (packed fs)) \<subseteq> A"
    unfolding cells_add [of p "4 + length f" "length (packed fs)"] by blast+
  have R: "?R \<inter> A = {}" "fits (A \<union> ?R) (zip ts' fs)" using Cons.prems(5) by (simp_all add: ts)
  have "length f < 2 ^ 32" using Cons.prems(2) by simp
  moreover have "?R \<inter> cells p (4 + length f) = {}" using R(1) A(1) by blast
  ultimately obtain m1 where m1: "loadModule p t m = (?q, m1)" "bytes_at m1 t (length f) = f"
    "\<And>a. a \<notin> ?R \<Longrightarrow> m1 a = m a"
    using loadModule_ok [of f m p t] img(1) by blast
  have "bytes_at m1 ?q (length (packed fs)) = packed fs"
    using img(2) bytes_at_cong [of ?q "length (packed fs)" m1 m] m1(3) A(2) R(1) by auto
  then obtain m' where m': "load_loop (length fs) ts' ?q m1 = Some m'"
    "map2 (\<lambda>t f. bytes_at m' t (length f)) ts' fs = fs" "\<forall>a\<in>A \<union> ?R. m' a = m1 a"
    using Cons.IH [of ts' m1 ?q "A \<union> ?R"] Cons.prems(1,2) R(2) A(2) ts by auto
  have "bytes_at m' t (length f) = f" using bytes_at_cong [of t "length f" m' m1] m'(3) m1(2) by auto
  moreover have "\<forall>a\<in>A. m' a = m a" using m'(3) m1(3) R(1) by auto
  ultimately show ?case using m' m1(1) by (simp add: ts)
qed

text \<open> (C15)
  What the packer writes is what the loader puts in place: when the part of the image behind the
  kernel is in memory at the start of the payload, loading returns and leaves at each target
  address exactly the bytes of its program, provided there are enough addresses and the places
  for the programs overlap neither the image nor each other.
\<close>

theorem packed_modules_load:
  assumes "length fs \<le> length targets" "length fs < 2 ^ 31" "\<forall>f\<in>set fs. length f < 2 ^ 32"
    and "bytes_at m start (length payload_bytes) = payload_bytes"
    and "buildImage (k # fs) = k @ payload_bytes"
    and "fits (cells start (length payload_bytes)) (zip targets fs)"
  shows "\<exists>m'. loadModules start targets m = Some m' \<and> map2 (\<lambda>t f. bytes_at m' t (length f)) targets fs = fs"
proof -
  let ?c = "le32 (of_nat (length fs))"
  have pb: "payload_bytes = ?c @ packed fs" using assms(5) by (simp add: buildImage_eq)
  have i: "bytes_at m start 4 = ?c" "bytes_at m (start + 4) (length (packed fs)) = packed fs"
    using assms(4) unfolding pb bytes_at_split by simp_all
  have n: "unat (of_nat (length fs) :: u32) = length fs" using assms(2) by (simp add: unat_of_nat)
  have "cells (start + 4) (length (packed fs)) \<subseteq> cells start (length payload_bytes)"
    using cells_add [of start 4 "length (packed fs)"] by (simp add: pb)
  from load_loop_ok [OF assms(1,3) i(2) this assms(6)] show ?thesis
    using load32_le32 [OF i(1)] n by (auto simp: loadModules_def readUint32_def)
qed

lemma packed_modules_load_witness:
  "\<exists>m'. loadModules 0x1000 [0x2000, 0x3000] (\<lambda>a. if a = 0x1000 then 2 else if a = 0x1004 then 1 else if a = 0x1008 then 7
      else if a = 0x1009 then 2 else if a = 0x100D then 8 else if a = 0x100E then 9 else 0) = Some m' \<and>
    [bytes_at m' 0x2000 1, bytes_at m' 0x3000 2] = [[7], [8, 9]]"
proof -
  let ?p = "[2, 0, 0, 0, 1, 0, 0, 0, 7, 2, 0, 0, 0, 8, 9] :: u8 list"
  have "buildImage ([5] # [[7], [8, 9]]) = [5] @ ?p"
    unfolding buildImage_eq by (simp add: packed_def le32_def upt_rec)
  moreover have "fits (cells 0x1000 (length ?p)) (zip [0x2000, 0x3000] [[7], [8, 9]])"
    by (simp add: cells_def lessThan_Suc lessThan_nat_numeral)
  ultimately show ?thesis
    using packed_modules_load [of "[[7], [8, 9]]" "[0x2000, 0x3000]" _ "0x1000" ?p "[5]"]
    by (simp add: bytes_at_def upt_rec)
qed

section \<open>The interrupt table\<close>

text \<open>The address the processor reads from a descriptor.\<close>

definition gate_address :: "DESCR_INT \<Rightarrow> ptr" where
  "gate_address d = or (ucast (offset_l d)) (or (push_bit 16 (ucast (offset_m d))) (push_bit 32 (ucast (offset_h d))))"

lemma setupIDTEntry_address: "gate_address (setupIDTEntry i a idt i) = a"
proof -
  have m: "(0xFFFF :: u64) = mask 16" "(0xFFFFFFFF :: u64) = mask 32" by (simp_all add: mask_eq_exp_minus_1)
  have "or (ucast (ucast (take_bit 16 a) :: u16)) (or (push_bit 16 (ucast (ucast (take_bit 16 (drop_bit 16 a)) :: u16)))
      (push_bit 32 (ucast (ucast (take_bit 32 (drop_bit 32 a)) :: u32)))) = a"
  proof (rule bit_word_eqI)
    fix n :: nat
    assume "n < LENGTH(64)"
    then consider "n < 16" | "16 \<le> n" "n < 32" | "32 \<le> n" "n < 64" by fastforce
    then show "bit (or (ucast (ucast (take_bit 16 a) :: u16) :: u64) (or (push_bit 16 (ucast (ucast (take_bit 16 (drop_bit 16 a)) :: u16)))
      (push_bit 32 (ucast (ucast (take_bit 32 (drop_bit 32 a)) :: u32))))) n = bit a n"
      by cases (auto simp: bit_simps)
  qed
  then show ?thesis unfolding gate_address_def setupIDTEntry_def m by (simp add: take_bit_eq_mask)
qed

end
