(* ===== verification/UString.thy ===== *)
theory UString
  imports Video
begin

text \<open>
  The string library of the programs, \<^verbatim>\<open>Userland/string.c\<close>.  Where its text repeats the kernel's
  \<^verbatim>\<open>string.c\<close> or \<^verbatim>\<open>video.c\<close> word for word, the definition is the one made from that text.
\<close>

section \<open>The routines shared with the kernel\<close>

definition u_stringCompare :: "bytes \<Rightarrow> ptr \<Rightarrow> ptr \<Rightarrow> int option" where "u_stringCompare = stringCompare"
definition u_stringnCompare :: "bytes \<Rightarrow> ptr \<Rightarrow> ptr \<Rightarrow> u64 \<Rightarrow> int" where "u_stringnCompare = stringnCompare"
definition u_toUpper :: "bytes \<Rightarrow> ptr \<Rightarrow> bytes option" where "u_toUpper = toUpper"
definition u_toLower :: "bytes \<Rightarrow> ptr \<Rightarrow> bytes option" where "u_toLower = toLower"
definition u_stringnCopy :: "bytes \<Rightarrow> ptr \<Rightarrow> int \<Rightarrow> ptr \<Rightarrow> int \<Rightarrow> (ptr \<times> bytes) option" where "u_stringnCopy = stringnCopy"
definition u_stringLength :: "bytes \<Rightarrow> ptr \<Rightarrow> u64 option" where "u_stringLength = stringLength"
definition u_isCharNum :: "u8 \<Rightarrow> bool" where "u_isCharNum = isCharNum"
definition u_charToNum :: "u8 \<Rightarrow> int" where "u_charToNum = charToNum"
definition u_stringReverse :: "ptr \<Rightarrow> bytes \<Rightarrow> (ptr \<times> bytes) option" where "u_stringReverse = stringReverse"
definition uintToBase :: "u64 \<Rightarrow> ptr \<Rightarrow> u32 \<Rightarrow> bytes \<Rightarrow> (u32 \<times> bytes) option" where "uintToBase = toBase"

section \<open>Copying and searching\<close>

text \<open>
  \<^verbatim>\<open>while((*temp++ = *source++) != '\0' && destSize-- > 0);\<close> may write \<open>destSize + 1\<close> characters, and
  the terminator comes behind them.
\<close>

fun u_copy_loop :: "nat \<Rightarrow> bytes \<Rightarrow> ptr \<Rightarrow> ptr \<Rightarrow> bytes" where
  "u_copy_loop 0 m temp source = m(temp := m source, temp + 1 := 0)"
| "u_copy_loop (Suc n) m temp source =
     (if m source = 0 then m(temp := 0, temp + 1 := 0)
      else u_copy_loop n (m(temp := m source)) (temp + 1) (source + 1))"

definition u_stringCopy :: "bytes \<Rightarrow> ptr \<Rightarrow> int \<Rightarrow> ptr \<Rightarrow> ptr \<times> bytes" where
  "u_stringCopy m dest destSize source = (dest, u_copy_loop (nat destSize) m dest source)"

partial_function (option) first_index :: "bytes \<Rightarrow> ptr \<Rightarrow> u8 \<Rightarrow> nat \<Rightarrow> ptr option" where
  "first_index m str c i =
    (if m (str + of_nat i) = 0 then Some NULL
     else if m (str + of_nat i) = c then Some (str + of_nat i)
     else first_index m str c (Suc i))"

definition u_firstOcurrence :: "bytes \<Rightarrow> ptr \<Rightarrow> u8 \<Rightarrow> ptr option" where
  "u_firstOcurrence m str c = first_index m str c 0"

section \<open>Numbers\<close>

text \<open>As in the kernel, but a newline also ends the number.\<close>

partial_function (option) u_num_loop :: "bytes \<Rightarrow> ptr \<Rightarrow> int \<Rightarrow> int option" where
  "u_num_loop m str num =
    (if m str = 0 \<or> m str = 10 then Some num
     else if \<not> u_isCharNum (m str) then Some 0
     else do { n1 \<leftarrow> exact (num * 10 + u_charToNum (m str)); u_num_loop m (str + 1) n1 })"

definition u_stringToNum :: "bytes \<Rightarrow> ptr \<Rightarrow> int option" where
  "u_stringToNum m str =
    (if m str = 45 then map_option uminus (u_num_loop m (str + 1) 0) else u_num_loop m str 0)"

text \<open>The sign is not counted in the result; negating the least \<open>int\<close> overflows.\<close>

definition signed_base :: "u32 \<Rightarrow> int \<Rightarrow> ptr \<Rightarrow> bytes \<Rightarrow> (u32 \<times> bytes) option" where
  "signed_base base num buffer m =
    (if num = - (2 ^ 31) then None
     else if num < 0 then uintToBase (of_int (- num)) (buffer + 1) base (m(buffer := 45))
     else uintToBase (of_int num) buffer base m)"

definition u_numToString :: "int \<Rightarrow> ptr \<Rightarrow> int \<Rightarrow> bytes \<Rightarrow> (u32 \<times> bytes) option" where
  "u_numToString num buffer bufferSize m = signed_base 10 num buffer m"

definition u_decToHex :: "int \<Rightarrow> ptr \<Rightarrow> int \<Rightarrow> bytes \<Rightarrow> (u32 \<times> bytes) option" where
  "u_decToHex num buffer bufferSize m = signed_base 16 num buffer m"

section \<open>Hexadecimal notation\<close>

text \<open>The value of a digit in either case, and nothing for another character.\<close>

definition hex_value :: "u8 \<Rightarrow> int option" where
  "hex_value c =
    (if 48 \<le> c \<and> c \<le> 57 then Some (uint c - 48)
     else if 65 \<le> c \<and> c \<le> 70 then Some (uint c - 55)
     else if 97 \<le> c \<and> c \<le> 102 then Some (uint c - 87)
     else None)"

partial_function (option) hex_digits :: "bytes \<Rightarrow> ptr \<Rightarrow> bool option" where
  "hex_digits m number =
    (if m number = 0 \<or> m number = 32 then Some True
     else if hex_value (m number) = None then Some False
     else hex_digits m (number + 1))"

text \<open>The next \<open>h\<close> or terminator.\<close>

partial_function (option) find_h :: "bytes \<Rightarrow> ptr \<Rightarrow> ptr option" where
  "find_h m number =
    (if m number = 0 \<or> m number = 104 \<or> m number = 72 then Some number else find_h m (number + 1))"

definition isHex :: "bytes \<Rightarrow> ptr \<Rightarrow> bool option" where
  "isHex m number =
    (if m number = 48 \<and> (m (number + 1) = 120 \<or> m (number + 1) = 88) then hex_digits m (number + 2)
     else do { p \<leftarrow> find_h m (number + 1); Some (m p \<noteq> 0) })"

text \<open>An \<open>int\<close> that overflows has no result.\<close>

definition int32 :: "int \<Rightarrow> int option" where
  "int32 x = (if - (2 ^ 31) \<le> x \<and> x < 2 ^ 31 then Some x else None)"

text \<open>The digits are read backwards down to \<open>start\<close>, whose own character is left out.\<close>

partial_function (option) hex_loop :: "bytes \<Rightarrow> ptr \<Rightarrow> ptr \<Rightarrow> int \<Rightarrow> int \<Rightarrow> int option" where
  "hex_loop m start number toReturn base =
    (if start = number then Some toReturn
     else do {
       r \<leftarrow> (case hex_value (m number) of None \<Rightarrow> Some toReturn | Some d \<Rightarrow> int32 (toReturn + d * base));
       b \<leftarrow> int32 (base * 16);
       hex_loop m start (number - 1) r b
     })"

definition stringHexToNum :: "bytes \<Rightarrow> ptr \<Rightarrow> int option" where
  "stringHexToNum m number = do {
     hex \<leftarrow> isHex m number;
     if \<not> hex then Some 0
     else do {
       let start = (if m number = 48 \<and> (m (number + 1) = 88 \<or> m (number + 1) = 120) then number + 1 else number);
       p \<leftarrow> find_h m number;
       hex_loop m start (p - 1) 0 1
     }
   }"

section \<open>Tokens\<close>

text \<open>\<open>token\<close> is the static variable of \<^verbatim>\<open>strtok\<close>: where the next call goes on.\<close>

partial_function (option) skip_delims :: "bytes \<Rightarrow> ptr \<Rightarrow> ptr \<Rightarrow> ptr option" where
  "skip_delims m delim token =
    (if m token = 0 then Some token
     else do {
       foundDelim \<leftarrow> occurs m delim (m token) 0;
       if foundDelim then skip_delims m delim (token + 1) else Some token
     })"

partial_function (option) cut_token :: "bytes \<Rightarrow> ptr \<Rightarrow> ptr \<Rightarrow> (ptr \<times> bytes) option" where
  "cut_token m delim token =
    (if m token = 0 then Some (token, m)
     else do {
       foundDelim \<leftarrow> occurs m delim (m token) 0;
       if foundDelim then Some (token + 1, m(token := 0)) else cut_token m delim (token + 1)
     })"

definition strtok :: "ptr \<Rightarrow> ptr \<Rightarrow> ptr \<Rightarrow> bytes \<Rightarrow> (ptr \<times> ptr \<times> bytes) option" where
  "strtok str delim token m = do {
     let t0 = (if str \<noteq> NULL then str else token);
     if t0 = NULL then Some (NULL, t0, m)
     else do {
       t1 \<leftarrow> skip_delims m delim t0;
       if m t1 = 0 then Some (NULL, t1, m)
       else do {
         (t2, m1) \<leftarrow> cut_token m delim t1;
         Some (t1, t2, m1)
       }
     }
   }"

end
