(* ===== verification/UProc.thy ===== *)
theory UProc
  imports Syscalls UString
begin

text \<open>
  A program as the kernel sees it, and the small library of the programs: the traps of
  \<^verbatim>\<open>Userland/asm/syscalls.asm\<close>, \<^verbatim>\<open>Userland/lib.c\<close> and \<^verbatim>\<open>Userland/test_utils.c\<close>.

  A program runs between its system calls on its own.  What the kernel answers, which depends on
  the rest of the system, is a list of replies: the value in \<open>rax\<close> and the bytes the call stored
  in the program's memory.  The calls are recorded in order; a call that writes is recorded with
  the bytes it hands over.  A program whose replies have run out waits in the kernel: it has no
  result.
\<close>

section \<open>Programs and their system calls\<close>

type_synonym reply = "u64 \<times> (ptr \<times> u8) list"

datatype ucall =
    Written u64 "u8 list"
  | Call nat "u64 list"

record proc =
  um :: bytes
  replies :: "reply list"
  calls :: "ucall list"

abbreviation on_um :: "(bytes \<Rightarrow> bytes) \<Rightarrow> proc \<Rightarrow> proc" where "on_um f p \<equiv> um_update f p"

definition store_all :: "(ptr \<times> u8) list \<Rightarrow> bytes \<Rightarrow> bytes" where
  "store_all ws m = fold (\<lambda>(a, b) m. m(a := b)) ws m"

text \<open>\<^verbatim>\<open>int 80h\<close>.\<close>

definition trap :: "ucall \<Rightarrow> proc \<Rightarrow> (u64 \<times> proc) option" where
  "trap c p =
    (case replies p of
       [] \<Rightarrow> None
     | (r, ws) # rest \<Rightarrow> Some (r, p\<lparr>um := store_all ws (um p), replies := rest, calls := calls p @ [c]\<rparr>))"

definition u_write :: "u64 \<Rightarrow> ptr \<Rightarrow> u64 \<Rightarrow> proc \<Rightarrow> (u64 \<times> proc) option" where
  "u_write fd buf count p = trap (Written fd (bytes_at (um p) buf (unat count))) p"

text \<open>A string constant of the program.\<close>

definition write_text :: "u64 \<Rightarrow> string \<Rightarrow> proc \<Rightarrow> (u64 \<times> proc) option" where
  "write_text fd t p = trap (Written fd (map of_char t)) p"

definition u_read :: "u64 \<Rightarrow> ptr \<Rightarrow> u64 \<Rightarrow> proc \<Rightarrow> (u64 \<times> proc) option" where
  "u_read fd buf count p = trap (Call 0 [fd, buf, count]) p"

definition u_clear :: "proc \<Rightarrow> (u64 \<times> proc) option" where "u_clear = trap (Call 2 [])"
definition u_beep :: "u64 \<Rightarrow> proc \<Rightarrow> (u64 \<times> proc) option" where "u_beep n = trap (Call 3 [n])"
definition u_sleep :: "u64 \<Rightarrow> proc \<Rightarrow> (u64 \<times> proc) option" where "u_sleep n = trap (Call 4 [n])"
definition u_clock :: "ptr \<Rightarrow> ptr \<Rightarrow> ptr \<Rightarrow> proc \<Rightarrow> (u64 \<times> proc) option" where
  "u_clock h m s = trap (Call 5 [h, m, s])"
definition u_getScreenH :: "ptr \<Rightarrow> proc \<Rightarrow> (u64 \<times> proc) option" where "u_getScreenH a = trap (Call 6 [a])"
definition u_getScreenW :: "ptr \<Rightarrow> proc \<Rightarrow> (u64 \<times> proc) option" where "u_getScreenW a = trap (Call 7 [a])"
definition u_getPtrToPixel :: "u64 \<Rightarrow> u64 \<Rightarrow> ptr \<Rightarrow> proc \<Rightarrow> (u64 \<times> proc) option" where
  "u_getPtrToPixel x y c = trap (Call 8 [x, y, c])"
definition u_gameRead :: "ptr \<Rightarrow> proc \<Rightarrow> (u64 \<times> proc) option" where "u_gameRead a = trap (Call 9 [a])"
definition u_drawLine :: "u16 \<Rightarrow> u16 \<Rightarrow> u16 \<Rightarrow> u16 \<Rightarrow> ptr \<Rightarrow> proc \<Rightarrow> (u64 \<times> proc) option" where
  "u_drawLine x0 y0 x1 y1 c = trap (Call 10 [ucast x0, ucast y0, ucast x1, ucast y1, c])"
definition u_getPenX :: "ptr \<Rightarrow> proc \<Rightarrow> (u64 \<times> proc) option" where "u_getPenX a = trap (Call 11 [a])"
definition u_getPenY :: "ptr \<Rightarrow> proc \<Rightarrow> (u64 \<times> proc) option" where "u_getPenY a = trap (Call 12 [a])"
definition u_changeFont :: "u64 \<Rightarrow> proc \<Rightarrow> (u64 \<times> proc) option" where "u_changeFont n = trap (Call 13 [n])"
definition u_memoryDump :: "ptr \<Rightarrow> ptr \<Rightarrow> proc \<Rightarrow> (u64 \<times> proc) option" where
  "u_memoryDump d b = trap (Call 14 [d, b])"
definition u_getRegs :: "ptr \<Rightarrow> proc \<Rightarrow> (u64 \<times> proc) option" where "u_getRegs b = trap (Call 15 [b])"
definition u_sysBlock :: "u64 \<Rightarrow> proc \<Rightarrow> (u64 \<times> proc) option" where "u_sysBlock pid = trap (Call 16 [pid])"
definition u_sysKill :: "u32 \<Rightarrow> proc \<Rightarrow> (u64 \<times> proc) option" where "u_sysKill pid = trap (Call 17 [ucast pid])"
definition u_sysExecve :: "ptr \<Rightarrow> u64 \<Rightarrow> ptr \<Rightarrow> proc \<Rightarrow> (u64 \<times> proc) option" where
  "u_sysExecve f argc argv = trap (Call 18 [f, argc, argv])"
definition u_sysFork :: "proc \<Rightarrow> (u64 \<times> proc) option" where "u_sysFork = trap (Call 19 [])"
definition u_idle :: "proc \<Rightarrow> (u64 \<times> proc) option" where "u_idle = trap (Call 20 [])"
definition u_sysPs :: "ptr \<Rightarrow> proc \<Rightarrow> (u64 \<times> proc) option" where "u_sysPs d = trap (Call 21 [d])"
definition u_sysPriority :: "u32 \<Rightarrow> u32 \<Rightarrow> proc \<Rightarrow> (u64 \<times> proc) option" where
  "u_sysPriority pid pr = trap (Call 22 [ucast pid, ucast pr])"
definition u_sysChangeState :: "u32 \<Rightarrow> proc \<Rightarrow> (u64 \<times> proc) option" where
  "u_sysChangeState pid = trap (Call 23 [ucast pid])"
definition u_wait :: "proc \<Rightarrow> (u64 \<times> proc) option" where "u_wait = trap (Call 24 [])"
definition u_sysExit :: "proc \<Rightarrow> (u64 \<times> proc) option" where "u_sysExit = trap (Call 25 [])"
definition u_sysSemOpen :: "ptr \<Rightarrow> u64 \<Rightarrow> proc \<Rightarrow> (u64 \<times> proc) option" where
  "u_sysSemOpen name n = trap (Call 26 [name, n])"
definition u_sysSemUp :: "ptr \<Rightarrow> proc \<Rightarrow> (u64 \<times> proc) option" where "u_sysSemUp name = trap (Call 27 [name])"
definition u_sysSemDown :: "ptr \<Rightarrow> proc \<Rightarrow> (u64 \<times> proc) option" where "u_sysSemDown name = trap (Call 28 [name])"
definition u_sysSemClose :: "ptr \<Rightarrow> proc \<Rightarrow> (u64 \<times> proc) option" where "u_sysSemClose name = trap (Call 29 [name])"
definition u_pipe :: "ptr \<Rightarrow> proc \<Rightarrow> (u64 \<times> proc) option" where "u_pipe fds = trap (Call 30 [fds])"
definition u_close :: "u64 \<Rightarrow> proc \<Rightarrow> (u64 \<times> proc) option" where "u_close fd = trap (Call 31 [fd])"
definition u_sysMalloc :: "u64 \<Rightarrow> proc \<Rightarrow> (u64 \<times> proc) option" where "u_sysMalloc n = trap (Call 32 [n])"
definition u_sysFree :: "ptr \<Rightarrow> proc \<Rightarrow> (u64 \<times> proc) option" where "u_sysFree a = trap (Call 33 [a])"
definition u_sysRealloc :: "ptr \<Rightarrow> u64 \<Rightarrow> proc \<Rightarrow> (u64 \<times> proc) option" where
  "u_sysRealloc a n = trap (Call 34 [a, n])"
definition u_setToForeground :: "proc \<Rightarrow> (u64 \<times> proc) option" where "u_setToForeground = trap (Call 35 [])"
definition u_setToBackground :: "proc \<Rightarrow> (u64 \<times> proc) option" where "u_setToBackground = trap (Call 36 [])"
definition u_dup2 :: "u64 \<Rightarrow> u64 \<Rightarrow> proc \<Rightarrow> (u64 \<times> proc) option" where "u_dup2 a b = trap (Call 37 [a, b])"
definition u_yield :: "proc \<Rightarrow> (u64 \<times> proc) option" where "u_yield = trap (Call 38 [])"
definition u_sysUnblock :: "u64 \<Rightarrow> proc \<Rightarrow> (u64 \<times> proc) option" where "u_sysUnblock pid = trap (Call 39 [pid])"
definition u_getPid :: "proc \<Rightarrow> (u64 \<times> proc) option" where "u_getPid = trap (Call 40 [])"
definition u_getFreeMemory :: "proc \<Rightarrow> (u64 \<times> proc) option" where "u_getFreeMemory = trap (Call 41 [])"
definition u_getUsedMemory :: "proc \<Rightarrow> (u64 \<times> proc) option" where "u_getUsedMemory = trap (Call 42 [])"

section \<open>The library\<close>

definition malloc :: "u64 \<Rightarrow> proc \<Rightarrow> (ptr \<times> proc) option" where "malloc n = u_sysMalloc n"
definition u_free :: "ptr \<Rightarrow> proc \<Rightarrow> proc option" where "u_free a p = map_option snd (u_sysFree a p)"
definition realloc :: "ptr \<Rightarrow> u64 \<Rightarrow> proc \<Rightarrow> (ptr \<times> proc) option" where "realloc a n = u_sysRealloc a n"

text \<open>The loop stops at the first character that is no digit.\<close>

partial_function (option) int_loop :: "bytes \<Rightarrow> ptr \<Rightarrow> int \<Rightarrow> int option" where
  "int_loop m str result =
    (if 48 \<le> m str \<and> m str \<le> 57
     then do { r1 \<leftarrow> int32 (result * 10); r2 \<leftarrow> int32 (r1 + (uint (m str) - 48)); int_loop m (str + 1) r2 }
     else Some result)"

definition stringToInt :: "bytes \<Rightarrow> ptr \<Rightarrow> int option" where
  "stringToInt m str = (if m str = 45 then map_option uminus (int_loop m (str + 1) 0) else int_loop m str 0)"

text \<open>\<^verbatim>\<open>while(length--) dst[length] = chr;\<close>\<close>

fun u_memset :: "ptr \<Rightarrow> int \<Rightarrow> nat \<Rightarrow> bytes \<Rightarrow> bytes" where
  "u_memset destination c 0 m = m"
| "u_memset destination c (Suc n) m = u_memset destination c n (m(destination + of_nat n := of_int c))"

section \<open>Test utilities\<close>

text \<open>The state of the generator is the pair of \<open>m_z\<close> and \<open>m_w\<close>.\<close>

definition seeds :: "u32 \<times> u32" where "seeds = (362436069, 521288629)"

definition GetUint :: "u32 \<times> u32 \<Rightarrow> u32 \<times> (u32 \<times> u32)" where
  "GetUint s =
    (let m_z = 36969 * and (fst s) 65535 + drop_bit 16 (fst s);
         m_w = 18000 * and (snd s) 65535 + drop_bit 16 (snd s)
     in (push_bit 16 m_z + m_w, (m_z, m_w)))"

text \<open>The scaling to \<open>max\<close> is floating point arithmetic, an argument here.\<close>

definition GetUniform :: "(u32 \<Rightarrow> u32 \<Rightarrow> u32) \<Rightarrow> u32 \<Rightarrow> u32 \<times> u32 \<Rightarrow> u32 \<times> (u32 \<times> u32)" where
  "GetUniform scale mx s = (let (u, s1) = GetUint s in (scale u mx, s1))"

fun memcheck :: "bytes \<Rightarrow> ptr \<Rightarrow> u8 \<Rightarrow> nat \<Rightarrow> bool" where
  "memcheck m p v 0 = True"
| "memcheck m p v (Suc n) = (if m p \<noteq> v then False else memcheck m (p + 1) v n)"

definition int64 :: "int \<Rightarrow> int option" where
  "int64 x = (if - (2 ^ 63) \<le> x \<and> x < 2 ^ 63 then Some x else None)"

partial_function (option) satoi_loop :: "bytes \<Rightarrow> ptr \<Rightarrow> int \<Rightarrow> int option" where
  "satoi_loop m str res =
    (if m str = 0 then Some res
     else if m str < 48 \<or> 57 < m str then Some 0
     else do { r1 \<leftarrow> int64 (res * 10); r2 \<leftarrow> int64 (r1 + uint (m str)); satoi_loop m (str + 1) (r2 - 48) })"

definition satoi :: "bytes \<Rightarrow> ptr \<Rightarrow> int option" where
  "satoi m str =
    (if str = NULL then Some 0
     else if m str = 45 then map_option uminus (satoi_loop m (str + 1) 0)
     else satoi_loop m str 0)"

end
