(* ===== verification/UStdio.thy ===== *)
theory UStdio
  imports UProc
begin

text \<open>
  Formatted input and output of the programs, \<^verbatim>\<open>Userland/stdio.c\<close>.  The arrays of a routine's
  stack frame are at addresses given by a record; the variable arguments are a list of 64-bit
  words, and taking one more than there are has no result.
\<close>

section \<open>Characters\<close>

record frame =
  L_c :: ptr
  L_buff :: ptr
  L_tmp :: ptr

abbreviation BUFFER_MAX_LENGTH :: nat where "BUFFER_MAX_LENGTH \<equiv> 250"
abbreviation TMP_LENGTH :: nat where "TMP_LENGTH \<equiv> 150"
abbreviation STDIN_FD :: u64 where "STDIN_FD \<equiv> 0"
abbreviation STDOUT_FD :: u64 where "STDOUT_FD \<equiv> 1"
abbreviation STDERR_FD :: u64 where "STDERR_FD \<equiv> 2"

definition count_or_eof :: "u64 \<Rightarrow> int" where
  "count_or_eof r = (let count = ucast r :: u32 in if count = 0 then -1 else sint count)"

definition printString :: "ptr \<Rightarrow> proc \<Rightarrow> (int \<times> proc) option" where
  "printString buffer p = do {
     n \<leftarrow> u_stringLength (um p) buffer;
     (count, p1) \<leftarrow> u_write STDOUT_FD buffer n p;
     Some (count_or_eof count, p1)
   }"

text \<open>The result \<open>-1\<close> is the byte 255 as a \<open>char\<close>.\<close>

definition getChar :: "frame \<Rightarrow> proc \<Rightarrow> (u8 \<times> proc) option" where
  "getChar L p = do {
     (r, p1) \<leftarrow> u_read STDIN_FD (L_c L) 1 (on_um (\<lambda>m. m(L_c L := 0)) p);
     let count = sint (ucast r :: u32);
     Some (if count < 1 then -1 else um p1 (L_c L), p1)
   }"

definition putChar :: "frame \<Rightarrow> u8 \<Rightarrow> proc \<Rightarrow> (int \<times> proc) option" where
  "putChar L c p = do {
     (r, p1) \<leftarrow> u_write STDOUT_FD (L_c L) 1 (on_um (\<lambda>m. m(L_c L := c)) p);
     Some (if r = 0 then -1 else 1, p1)
   }"

section \<open>Formatted output\<close>

definition arg_int :: "u64 \<Rightarrow> int" where "arg_int a = sint (ucast a :: u32)"

text \<open>\<^verbatim>\<open>stringCopy(buff + j, BUFFER_MAX_LENGTH - j, tmp); j += stringLength(tmp);\<close>\<close>

definition place :: "frame \<Rightarrow> nat \<Rightarrow> bytes \<Rightarrow> (nat \<times> bytes) option" where
  "place L j m = do {
     let m1 = snd (u_stringCopy m (L_buff L + of_nat j) (int BUFFER_MAX_LENGTH - int j) (L_tmp L));
     n \<leftarrow> u_stringLength m1 (L_tmp L);
     Some (j + unat n, m1)
   }"

text \<open>What \<open>%d\<close>, \<open>%x\<close>, \<open>%p\<close> and \<open>%s\<close> put in \<open>tmp\<close>.\<close>

definition convert :: "frame \<Rightarrow> u8 \<Rightarrow> u64 \<Rightarrow> bytes \<Rightarrow> bytes option" where
  "convert L c a m =
    (if c = 100 then map_option snd (u_numToString (arg_int a) (L_tmp L) (int TMP_LENGTH) m)
     else if c = 115 then Some (snd (u_stringCopy m (L_tmp L) (int TMP_LENGTH) a))
     else map_option snd (u_decToHex (arg_int a) (L_tmp L) (int TMP_LENGTH) m))"

text \<open>The switch: \<open>c\<close> is 99, \<open>d\<close> 100, \<open>p\<close> 112, \<open>s\<close> 115, \<open>x\<close> 120; another letter gives \<open>Inl\<close>.\<close>

definition conversion ::
    "frame \<Rightarrow> u8 \<Rightarrow> u64 list \<Rightarrow> nat \<Rightarrow> bytes \<Rightarrow> (bytes + nat \<times> u64 list \<times> bytes) option" where
  "conversion L c args j m =
    (if c \<notin> {99, 100, 112, 115, 120} then Some (Inl m)
     else case args of
       [] \<Rightarrow> None
     | a # rest \<Rightarrow>
         if c = 99 then Some (Inr (Suc j, rest, m(L_buff L + of_nat j := ucast a)))
         else do {
           m1 \<leftarrow> convert L c a m;
           (j1, m2) \<leftarrow> place L j m1;
           Some (Inr (j1, rest, m2))
         })"

partial_function (option) fmt_loop ::
    "frame \<Rightarrow> ptr \<Rightarrow> nat \<Rightarrow> nat \<Rightarrow> u64 list \<Rightarrow> bytes \<Rightarrow> (bytes + nat \<times> bytes) option" where
  "fmt_loop L str i j args m =
    (if m (str + of_nat i) = 0 \<or> BUFFER_MAX_LENGTH \<le> j then Some (Inr (j, m))
     else if m (str + of_nat i) = 37 then do {
       r \<leftarrow> conversion L (m (str + of_nat (Suc i))) args j m;
       (case r of
          Inl m1 \<Rightarrow> Some (Inl m1)
        | Inr (j1, rest, m1) \<Rightarrow> fmt_loop L str (Suc (Suc i)) j1 rest m1)
     }
     else fmt_loop L str (Suc i) (Suc j) args (m(L_buff L + of_nat j := m (str + of_nat i))))"

definition zeroed :: "ptr \<Rightarrow> nat \<Rightarrow> bytes \<Rightarrow> bytes" where
  "zeroed a n m = fold (\<lambda>i m. m(a + of_nat i := 0)) [0..<n] m"

definition clear_frame :: "frame \<Rightarrow> bytes \<Rightarrow> bytes" where
  "clear_frame L m = zeroed (L_tmp L) TMP_LENGTH (zeroed (L_buff L) BUFFER_MAX_LENGTH m)"

definition report :: "string \<Rightarrow> proc \<Rightarrow> (int \<times> proc) option" where
  "report t p = map_option (\<lambda>(r, p1). (count_or_eof r, p1)) (write_text STDERR_FD t p)"

definition eol :: string where "eol = [CHR 0x0A]"
definition quoted :: "char \<Rightarrow> string" where "quoted c = [CHR 0x27, c, CHR 0x27]"

definition printf_expected :: string where
  "printf_expected = ''Expected '' @ quoted (CHR ''s'') @ '', '' @ quoted (CHR ''d'') @ '', '' @ quoted (CHR ''x'') @
     '', '' @ quoted (CHR ''p'') @ '' or '' @ quoted (CHR ''c'') @ '' after '' @ quoted (CHR ''%'')"

definition length_int :: "u64 \<Rightarrow> int" where "length_int n = sint (ucast n :: u32)"

definition printf :: "frame \<Rightarrow> ptr \<Rightarrow> u64 list \<Rightarrow> proc \<Rightarrow> (int \<times> proc) option" where
  "printf L str args p = do {
     n \<leftarrow> u_stringLength (um p) str;
     if int BUFFER_MAX_LENGTH < length_int n then report (''Exceded length of the buffer.'' @ eol) p
     else do {
       r \<leftarrow> fmt_loop L str 0 0 args (clear_frame L (um p));
       (case r of
          Inl m \<Rightarrow> map_option (\<lambda>(_, p1). (- 1, p1)) (write_text STDERR_FD (printf_expected @ ''.'' @ eol) (on_um (\<lambda>_. m) p))
        | Inr (j, m) \<Rightarrow>
            if BUFFER_MAX_LENGTH < j then report (''Reached a buffer Overflow.'' @ eol) (on_um (\<lambda>_. m) p)
            else do {
              (count, p1) \<leftarrow> u_write STDOUT_FD (L_buff L) (of_nat j) (on_um (\<lambda>_. m) p);
              Some (count_or_eof count, on_um (clear_frame L) p1)
            })
     }
   }"

definition stringFormat :: "frame \<Rightarrow> ptr \<Rightarrow> u32 \<Rightarrow> ptr \<Rightarrow> u64 list \<Rightarrow> proc \<Rightarrow> proc option" where
  "stringFormat L dest destSize str args p = do {
     n \<leftarrow> u_stringLength (um p) str;
     if int BUFFER_MAX_LENGTH < length_int n \<or> 250 < destSize
     then map_option snd (write_text STDERR_FD ''Exceded length of the buffer'' p)
     else do {
       r \<leftarrow> fmt_loop L str 0 0 args (clear_frame L (um p));
       (case r of
          Inl m \<Rightarrow> map_option snd (write_text STDERR_FD (printf_expected @ '' '') (on_um (\<lambda>_. m) p))
        | Inr (j, m) \<Rightarrow>
            if BUFFER_MAX_LENGTH < j
            then map_option snd (write_text STDERR_FD ''Reached a buffer Overflow'' (on_um (\<lambda>_. m) p))
            else Some (on_um (\<lambda>_. clear_frame L (snd (u_stringCopy m dest (int (unat destSize)) (L_buff L)))) p))
     }
   }"

section \<open>Formatted input\<close>

text \<open>A line: up to a newline, a character that is not positive as a \<open>char\<close>, or 250 of them.\<close>

partial_function (option) line_loop :: "frame \<Rightarrow> nat \<Rightarrow> proc \<Rightarrow> proc option" where
  "line_loop L i p = do {
     (c, p1) \<leftarrow> getChar L p;
     if c \<noteq> 10 \<and> 0 < c \<and> c < 128 \<and> i < BUFFER_MAX_LENGTH
     then line_loop L (Suc i) (on_um (\<lambda>m. m(L_buff L + of_nat i := c)) p1)
     else Some p1
   }"

text \<open>At most 50 digits go from \<open>buff\<close> to \<open>tmp\<close>.\<close>

fun take_digits :: "frame \<Rightarrow> nat \<Rightarrow> nat \<Rightarrow> nat \<Rightarrow> bytes \<Rightarrow> nat \<times> bytes" where
  "take_digits L 0 aux j m = (j, m(L_tmp L + of_nat aux := 0))"
| "take_digits L (Suc k) aux j m =
     (if u_isCharNum (m (L_buff L + of_nat j)) \<and> m (L_buff L + of_nat j) \<noteq> 0
      then take_digits L k (Suc aux) (Suc j) (m(L_tmp L + of_nat aux := m (L_buff L + of_nat j)))
      else (j, m(L_tmp L + of_nat aux := 0)))"

text \<open>The loop for the width of \<open>%<width>s\<close> looks at the same character again and again.\<close>

partial_function (option) width_loop :: "bytes \<Rightarrow> ptr \<Rightarrow> int \<Rightarrow> int option" where
  "width_loop m at dimString =
    (if u_isCharNum (m at)
     then do { d1 \<leftarrow> int32 (dimString * 10); d2 \<leftarrow> int32 (d1 + (uint (m at) - 48)); width_loop m at d2 }
     else Some dimString)"

definition complain :: "string \<Rightarrow> proc \<Rightarrow> proc option" where
  "complain t p = map_option snd (write_text STDERR_FD t p)"

definition scanf_expected :: string where
  "scanf_expected = ''Expected '' @ [CHR 0x27] @ ''xxs'' @ [CHR 0x27] @ '', '' @ quoted (CHR ''d'') @ '', '' @ quoted (CHR ''x'') @
     '', '' @ quoted (CHR ''p'') @ '' or '' @ quoted (CHR ''c'') @ '' after '' @ quoted (CHR ''%'') @ ''.'' @ eol"

partial_function (option) scan_loop :: "frame \<Rightarrow> ptr \<Rightarrow> nat \<Rightarrow> nat \<Rightarrow> u64 list \<Rightarrow> proc \<Rightarrow> proc option" where
  "scan_loop L str i j args p =
    (let m = um p; c = m (str + of_nat (Suc i)); b = m (L_buff L + of_nat j) in
     if str = NULL \<or> m (str + of_nat i) = 0 then Some p
     else if m (str + of_nat i) \<noteq> 37
     then complain ''Expected a string with only %XX parameters as first argument'' p
     else if b = 0 then complain (''Not enough content entered.'' @ eol) p
     else if c = 99 then
       (case args of
          [] \<Rightarrow> None
        | a # rest \<Rightarrow> scan_loop L str (Suc (Suc i)) (Suc j) rest (on_um (\<lambda>m. m(a := b)) p))
     else if c = 100 \<or> c = 120 then
       (if \<not> u_isCharNum b
        then complain ((if c = 100 then ''Expected number.'' else ''Number expected.'') @ eol) p
        else do {
          let (j1, m1) = take_digits L 50 0 j m;
          n \<leftarrow> u_stringToNum m1 (L_tmp L);
          (case args of
             [] \<Rightarrow> None
           | a # rest \<Rightarrow> scan_loop L str (Suc (Suc i)) j1 rest (on_um (\<lambda>_. store32 a (of_int n) m1) p))
        })
     else if \<not> u_isCharNum c then complain scanf_expected p
     else do {
       dimString \<leftarrow> width_loop m (str + of_nat (Suc i)) 0;
       if c \<noteq> 115 then complain scanf_expected p
       else (case args of
               [] \<Rightarrow> None
             | a # rest \<Rightarrow> do {
                 let m1 = snd (u_stringCopy m a dimString (L_buff L + of_nat j));
                 n \<leftarrow> u_stringLength m1 a;
                 scan_loop L str (Suc (Suc i)) (j + unat n - 1) rest (on_um (\<lambda>_. m1) p)
               })
     })"

definition scanf :: "frame \<Rightarrow> ptr \<Rightarrow> u64 list \<Rightarrow> proc \<Rightarrow> proc option" where
  "scanf L str args p = do { p1 \<leftarrow> line_loop L 0 p; scan_loop L str 0 0 args p1 }"

end
