(* ===== verification/Programs.thy ===== *)
theory Programs
  imports UStdio
begin

text \<open>
  The small programs of \<^verbatim>\<open>Userland/programs\<close>.  A program's string constants, statics and locals
  are at addresses given by a record; \<open>argsv\<close> is an array of 64-bit pointers.  The three programs
  that only raise an exception are in \<open>Faults\<close>.
\<close>

section \<open>Common parts\<close>

record image =
  fr :: frame
  lit :: "string \<Rightarrow> ptr"
  loc :: "nat \<Rightarrow> ptr"

definition arg :: "ptr \<Rightarrow> nat \<Rightarrow> proc \<Rightarrow> ptr" where "arg argsv i p = load64 (um p) (argsv + 8 * of_nat i)"

text \<open>\<^verbatim>\<open>printString(argsv[i]); putChar(' ');\<close> for the arguments from 1 on, and a newline.\<close>

fun echo_args :: "image \<Rightarrow> ptr \<Rightarrow> nat list \<Rightarrow> proc \<Rightarrow> proc option" where
  "echo_args A argsv [] p = map_option snd (putChar (fr A) 10 p)"
| "echo_args A argsv (i # is) p = do {
     (_, p1) \<leftarrow> printString (arg argsv i p) p;
     (_, p2) \<leftarrow> putChar (fr A) 32 p1;
     echo_args A argsv is p2
   }"

section \<open>Signals to processes: kill, block, unblock, nice\<close>

definition kill :: "int \<Rightarrow> ptr \<Rightarrow> proc \<Rightarrow> (int \<times> proc) option" where
  "kill argsc argsv p =
    (if argsc < 2 then Some (1, p)
     else do { n \<leftarrow> stringToInt (um p) (arg argsv 1 p); (_, p1) \<leftarrow> u_sysKill (of_int n) p; Some (0, p1) })"

definition block :: "int \<Rightarrow> ptr \<Rightarrow> proc \<Rightarrow> (int \<times> proc) option" where
  "block argsc argsv p =
    (if argsc < 2 then Some (1, p)
     else do { n \<leftarrow> stringToInt (um p) (arg argsv 1 p); (_, p1) \<leftarrow> u_sysBlock (of_int n) p; Some (0, p1) })"

definition unblock :: "int \<Rightarrow> ptr \<Rightarrow> proc \<Rightarrow> (int \<times> proc) option" where
  "unblock argsc argsv p =
    (if argsc < 2 then Some (1, p)
     else do { n \<leftarrow> stringToInt (um p) (arg argsv 1 p); (_, p1) \<leftarrow> u_sysUnblock (of_int n) p; Some (0, p1) })"

definition nice :: "int \<Rightarrow> ptr \<Rightarrow> proc \<Rightarrow> (int \<times> proc) option" where
  "nice argsc argsv p =
    (if argsc < 2 then Some (1, p)
     else do {
       pid \<leftarrow> stringToInt (um p) (arg argsv 1 p);
       pr \<leftarrow> stringToInt (um p) (arg argsv 2 p);
       (_, p1) \<leftarrow> u_sysPriority (of_int pid) (of_int pr) p;
       Some (1, p1)
     })"

section \<open>Filters of standard input: cat, filter, wc\<close>

partial_function (option) cat_loop :: "image \<Rightarrow> proc \<Rightarrow> proc option" where
  "cat_loop A p = do {
     (c, p1) \<leftarrow> getChar (fr A) p;
     if c \<noteq> -1 then do { (_, p2) \<leftarrow> putChar (fr A) c p1; cat_loop A p2 } else Some p1
   }"

definition cat :: "image \<Rightarrow> int \<Rightarrow> ptr \<Rightarrow> proc \<Rightarrow> (int \<times> proc) option" where
  "cat A argsc argsv p =
    (if argsc \<le> 1 then map_option (Pair 0) (cat_loop A p)
     else map_option (Pair 0) (echo_args A argsv [1..<nat argsc] p))"

definition vocals :: "u8 list" where "vocals = map of_char ''AaEeIiOoUu''"

definition isVocal :: "u8 \<Rightarrow> bool" where "isVocal c = list_ex (\<lambda>v. c = v) vocals"

partial_function (option) filter_loop :: "image \<Rightarrow> proc \<Rightarrow> proc option" where
  "filter_loop A p = do {
     (t, p1) \<leftarrow> getChar (fr A) p;
     if t \<noteq> -1
     then if \<not> isVocal t then do { (_, p2) \<leftarrow> putChar (fr A) t p1; filter_loop A p2 } else filter_loop A p1
     else Some p1
   }"

text \<open>The static array \<open>filterBuff\<close> of 1024 bytes is at \<open>loc A 0\<close>; no terminator is stored.\<close>

partial_function (option) copy_consonants :: "ptr \<Rightarrow> ptr \<Rightarrow> nat \<Rightarrow> nat \<Rightarrow> bytes \<Rightarrow> bytes option" where
  "copy_consonants buf str sourceIndex destIndex m =
    (if m (str + of_nat sourceIndex) \<noteq> 0 \<and> destIndex < 1024
     then if \<not> isVocal (m (str + of_nat sourceIndex))
          then copy_consonants buf str (Suc sourceIndex) (Suc destIndex)
                 (m(buf + of_nat destIndex := m (str + of_nat sourceIndex)))
          else copy_consonants buf str (Suc sourceIndex) destIndex m
     else Some m)"

definition stringFilterCopy :: "image \<Rightarrow> ptr \<Rightarrow> bytes \<Rightarrow> bytes option" where
  "stringFilterCopy A str m = copy_consonants (loc A 0) str 0 0 m"

fun clean_loop :: "nat \<Rightarrow> ptr \<Rightarrow> bytes \<Rightarrow> bytes" where
  "clean_loop 0 a m = m"
| "clean_loop (Suc n) a m = (if m a \<noteq> 0 then clean_loop n (a + 1) (m(a := 0)) else m)"

definition cleanBuffer :: "ptr \<Rightarrow> bytes \<Rightarrow> bytes" where "cleanBuffer buffer m = clean_loop 1024 buffer m"

fun filter_args :: "image \<Rightarrow> ptr \<Rightarrow> nat list \<Rightarrow> proc \<Rightarrow> proc option" where
  "filter_args A argsv [] p = map_option snd (putChar (fr A) 10 p)"
| "filter_args A argsv (i # is) p = do {
     m \<leftarrow> stringFilterCopy A (arg argsv i p) (um p);
     (_, p1) \<leftarrow> printString (loc A 0) (on_um (\<lambda>_. m) p);
     (_, p2) \<leftarrow> putChar (fr A) 32 (on_um (cleanBuffer (loc A 0)) p1);
     filter_args A argsv is p2
   }"

definition filter_program :: "image \<Rightarrow> int \<Rightarrow> ptr \<Rightarrow> proc \<Rightarrow> (int \<times> proc) option" where
  "filter_program A argsc argsv p =
    (if argsc \<le> 1 then map_option (Pair 0) (filter_loop A p)
     else map_option (Pair 0) (filter_args A argsv [1..<nat argsc] p))"

partial_function (option) count_loop :: "image \<Rightarrow> int \<Rightarrow> proc \<Rightarrow> (int \<times> proc) option" where
  "count_loop A count p = do {
     (i, p1) \<leftarrow> getChar (fr A) p;
     if i \<noteq> -1
     then if i = 10 then do { c \<leftarrow> int32 (count + 1); count_loop A c p1 } else count_loop A count p1
     else Some (count, p1)
   }"

text \<open>The static array \<open>countString\<close> of 12 bytes is at \<open>loc A 0\<close>.\<close>

definition wc :: "image \<Rightarrow> int \<Rightarrow> ptr \<Rightarrow> proc \<Rightarrow> (int \<times> proc) option" where
  "wc A argsc argsv p =
    (if argsc \<le> 1 then do {
       (count, p1) \<leftarrow> count_loop A 1 p;
       (_, m) \<leftarrow> u_numToString count (loc A 0) 12 (um p1);
       (_, p2) \<leftarrow> printf (fr A) (loc A 0) [] (on_um (\<lambda>_. m) p1);
       Some (0, p2)
     }
     else Some (0, p))"

section \<open>Information: clock, mem, memorydump, ps, sleep, loop\<close>

definition getFormat :: "u32 \<Rightarrow> u32" where
  "getFormat num = (let dec = drop_bit 4 (and num 240); units = and num 15 in dec * 10 + units)"

definition clock :: "image \<Rightarrow> int \<Rightarrow> ptr \<Rightarrow> proc \<Rightarrow> (int \<times> proc) option" where
  "clock A argsc argsv p = do {
     (_, p1) \<leftarrow> u_clock (loc A 0) (loc A 1) (loc A 2) p;
     let shown = (\<lambda>i. ucast (getFormat (load32 (um p1) (loc A i))));
     (_, p2) \<leftarrow> printf (fr A) (lit A (''The system hour is %d:%d:%d'' @ eol)) [shown 0, shown 1, shown 2] p1;
     Some (0, p2)
   }"

text \<open>The local array \<open>memory\<close> of 250 bytes is at \<open>loc A 0\<close>.\<close>

definition mem_program :: "image \<Rightarrow> int \<Rightarrow> ptr \<Rightarrow> proc \<Rightarrow> (int \<times> proc) option" where
  "mem_program A argsc argsv p = do {
     (used, p1) \<leftarrow> u_getUsedMemory (on_um (zeroed (loc A 0) BUFFER_MAX_LENGTH) p);
     (_, m1) \<leftarrow> uintToBase used (loc A 0) 10 (um p1);
     (_, p2) \<leftarrow> printf (fr A) (lit A (''Memory State'' @ eol @ ''Used memory: %s '' @ eol)) [loc A 0] (on_um (\<lambda>_. m1) p1);
     (available, p3) \<leftarrow> u_getFreeMemory (on_um (zeroed (loc A 0) BUFFER_MAX_LENGTH) p2);
     (_, m2) \<leftarrow> uintToBase available (loc A 0) 10 (um p3);
     (_, p4) \<leftarrow> printf (fr A) (lit A (''Free memory: %s '' @ eol)) [loc A 0] (on_um (\<lambda>_. m2) p3);
     Some (0, p4)
   }"

definition dump_format :: string where
  "dump_format = concat (replicate 15 (''%x'' @ [CHR 0x09])) @ ''%x'' @ eol"

text \<open>The local array \<open>dump\<close> of 32 bytes is at \<open>loc A 0\<close>.\<close>

definition memoryDump :: "image \<Rightarrow> int \<Rightarrow> ptr \<Rightarrow> proc \<Rightarrow> (int \<times> proc) option" where
  "memoryDump A argsc argsv p = do {
     hex \<leftarrow> (if argsc = 0 then Some False else isHex (um p) (arg argsv 1 p));
     if \<not> hex then do {
       (_, p1) \<leftarrow> printf (fr A) (lit A ''You need to specify a memory direction in hex format.'') [] p;
       (_, p2) \<leftarrow> putChar (fr A) 10 p1;
       Some (- 1, p2)
     }
     else do {
       direction \<leftarrow> stringHexToNum (um p) (arg argsv 1 p);
       (_, p1) \<leftarrow> u_memoryDump (of_int direction) (loc A 0) p;
       let dump = (\<lambda>p i. ucast (um p (loc A 0 + of_nat i)));
       (_, p2) \<leftarrow> printf (fr A) (lit A dump_format) (map (dump p1) [0..<16]) p1;
       (_, p3) \<leftarrow> printf (fr A) (lit A dump_format) (map (dump p2) [16..<32]) p2;
       Some (0, p3)
     }
   }"

definition ps_format :: string where
  "ps_format = ''ID: %d, Priority: %d, Stack: %x, Base: %x, Foreground: %d'' @ eol"

text \<open>
  The local array \<open>data\<close> of 256 entries of 32 bytes is at \<open>loc A 0\<close>; \<open>foreground\<close> is a \<open>char\<close>.
\<close>

fun ps_lines :: "image \<Rightarrow> nat list \<Rightarrow> proc \<Rightarrow> proc option" where
  "ps_lines A [] p = Some p"
| "ps_lines A (i # is) p = do {
     let m = um p;
     let d = loc A 0 + 32 * of_nat i;
     (_, p1) \<leftarrow> printf (fr A) (lit A ps_format)
       [ucast (load32 m d), ucast (m (d + 25)), load64 m (d + 8), load64 m (d + 16), scast (m (d + 24))] p;
     ps_lines A is p1
   }"

definition ps :: "image \<Rightarrow> int \<Rightarrow> ptr \<Rightarrow> proc \<Rightarrow> (int \<times> proc) option" where
  "ps A argsc argsv p = do {
     (r, p1) \<leftarrow> u_sysPs (loc A 0) p;
     let c = sint (ucast r :: u32);
     p2 \<leftarrow> ps_lines A [0..<nat c] p1;
     Some (0, p2)
   }"

definition sleep_program :: "image \<Rightarrow> int \<Rightarrow> ptr \<Rightarrow> proc \<Rightarrow> (int \<times> proc) option" where
  "sleep_program A argc argsv p = do {
     milliseconds \<leftarrow> (if argc = 1 then Some 2000 else u_stringToNum (um p) (arg argsv 1 p));
     if argc \<noteq> 1 \<and> milliseconds = 0 then do {
       (_, p1) \<leftarrow> printf (fr A) (lit A ''You can enter only one number.'') [] p;
       (_, p2) \<leftarrow> putChar (fr A) 10 p1;
       Some (- 1, p2)
     }
     else do { (_, p1) \<leftarrow> u_sleep (of_int milliseconds) p; Some (0, p1) }
   }"

partial_function (option) loop :: "image \<Rightarrow> proc \<Rightarrow> (int \<times> proc) option" where
  "loop A p = do {
     (pid, p1) \<leftarrow> u_getPid p;
     (_, p2) \<leftarrow> printf (fr A) (lit A (''Process %d running'' @ eol)) [pid] p1;
     (_, p3) \<leftarrow> u_sleep 30000 p2;
     loop A p3
   }"

end
