(* ===== verification/Shell.thy ===== *)
theory Shell
  imports Programs
begin

text \<open>
  The shell, \<^verbatim>\<open>Userland/programs/sh.c\<close>: reading and editing a line, finding the command, cutting
  the line into arguments, starting the programs of a command or of a pipe, and the commands that
  are part of the shell.  The shell's arrays are at addresses given by a record; its other statics
  and the static variable of \<^verbatim>\<open>strtok\<close> are fields of its state.
\<close>

section \<open>State\<close>

abbreviation MAX_ARGS_COUNT :: nat where "MAX_ARGS_COUNT \<equiv> 5"
abbreviation MAX_LINES :: nat where "MAX_LINES \<equiv> 50"

definition PROMPT :: string where "PROMPT = ''user$ ''"

text \<open>The names and descriptions that \<open>loadCommands\<close> sets.\<close>

definition loadCommands :: "(string \<times> string) list" where
  "loadCommands = [
     (''clock'', ''Prints current time.''),
     (''clear'', ''Clears the screen.''),
     (''sleep'', ''Sleeps the machine.''),
     (''beep'', ''Makes a beep sound.''),
     (''increment'', ''Increments font size.''),
     (''decrement'', ''Decrements font size.''),
     (''tron'', ''Executes tron game.''),
     (''inforeg'', ''Prints the registers and their state when executed.''),
     (''memorydump'', ''Prints the 32 memory bytes next to a given hex direction.''),
     (''zeroexception'', ''Causes a Zero-Division exception. WARNING: this will restart the shell.''),
     (''invalidopcodeexception'', ''Causes an Invalid-OpCode exception. WARNING: this will restart the shell.''),
     (''help'', ''Prints the help manual for using the terminal.''),
     (''ps'', ''Prints important data for each process in the system.''),
     (''kill'', ''Kills the process that matches with the id given.''),
     (''block'', ''Blocks the process that matches with the id given.''),
     (''nice'', ''Changes the priority of the process with the id given to the new priority.''),
     (''phylo'', ''Starts the phylo process. You can add a filosopher with the a keyword and r to remove a filosopher.''),
     (''cat'', ''Copies input to output''),
     (''filter'', ''Filters vocals from input''),
     (''wc'', ''Counts input lines''),
     (''loop'', ''Prints a message every constant time with the process id''),
     (''test_sync'', ''Execute test of sync. First argument is number of loops and second refers if should use mutex or no.''),
     (''test_prio'', ''Execute test of priority''),
     (''test_mm'', ''Execute test of memory manager. First argument is the memory size to be tested.''),
     (''test_processes'', ''Execute test of processes. First argument is the max number of processes.''),
     (''mem'', ''Prints the state of the memory.''),
     (''unblock'', ''Prints the state of the memory.'')]"

definition CMDS_COUNT :: nat where "CMDS_COUNT = 27"

definition command_name :: "nat \<Rightarrow> string" where "command_name i = fst (loadCommands ! i)"
definition command_desc :: "nat \<Rightarrow> string" where "command_desc i = snd (loadCommands ! i)"

text \<open>Where the arrays are, and the address of the function of each command.\<close>

record sh_image =
  im :: image
  lastCommand :: ptr
  lastArguments :: ptr
  lines_at :: ptr
  commandsFunction :: "nat \<Rightarrow> ptr"

record shell =
  pr :: proc
  bufferCount :: u32
  secondCommand :: ptr
  lineCount :: u32
  fontSize :: int
  isBackground :: bool
  token :: ptr

abbreviation sh_mem :: "shell \<Rightarrow> bytes" where "sh_mem S \<equiv> um (pr S)"
abbreviation on_sh :: "(bytes \<Rightarrow> bytes) \<Rightarrow> shell \<Rightarrow> shell" where "on_sh f S \<equiv> pr_update (on_um f) S"

text \<open>A call of a routine of the library: its effect on the process, and its value.\<close>

definition via :: "(proc \<Rightarrow> ('a \<times> proc) option) \<Rightarrow> shell \<Rightarrow> ('a \<times> shell) option" where
  "via f S = do { (v, p) \<leftarrow> f (pr S); Some (v, S\<lparr>pr := p\<rparr>) }"

definition argument :: "sh_image \<Rightarrow> nat \<Rightarrow> ptr" where
  "argument A i = lastArguments A + of_nat (BUFFER_MAX_LENGTH * i)"

section \<open>The history of lines\<close>

definition line_at :: "sh_image \<Rightarrow> u32 \<Rightarrow> ptr" where
  "line_at A n = lines_at A + of_nat (BUFFER_MAX_LENGTH * (unat n mod MAX_LINES))"

definition clearLine :: "ptr \<Rightarrow> bytes \<Rightarrow> bytes" where "clearLine line = zeroed line BUFFER_MAX_LENGTH"

text \<open>The body of the inner loop is \<open>lineCount = 0\<close>: the semicolon is missing, to the same effect.\<close>

definition clearLines :: "sh_image \<Rightarrow> shell \<Rightarrow> shell" where
  "clearLines A S = on_sh (zeroed (lines_at A) (BUFFER_MAX_LENGTH * MAX_LINES)) (S\<lparr>lineCount := 0\<rparr>)"

text \<open>A message that goes into the history.\<close>

definition remember :: "sh_image \<Rightarrow> ptr \<Rightarrow> shell \<Rightarrow> shell" where
  "remember A msg S =
    (let l = line_at A (lineCount S)
     in on_sh (\<lambda>m. snd (u_stringCopy (clearLine l m) l (int BUFFER_MAX_LENGTH) msg)) (S\<lparr>lineCount := lineCount S + 1\<rparr>))"

section \<open>Commands\<close>

fun check_from :: "sh_image \<Rightarrow> bytes \<Rightarrow> ptr \<Rightarrow> nat list \<Rightarrow> int option" where
  "check_from A m line [] = Some (- 1)"
| "check_from A m line (i # is) = do {
     let name = lit (im A) (command_name i);
     n \<leftarrow> u_stringLength m name;
     if u_stringnCompare m name line n = 0 \<and> (m (line + n) = 32 \<or> m (line + n) = 0)
     then Some (int i) else check_from A m line is
   }"

definition checkCommand :: "sh_image \<Rightarrow> bytes \<Rightarrow> ptr \<Rightarrow> int option" where
  "checkCommand A m line = check_from A m line [0..<CMDS_COUNT]"

section \<open>Reading a line\<close>

definition echo :: "sh_image \<Rightarrow> u8 \<Rightarrow> shell \<Rightarrow> shell option" where
  "echo A c S = map_option snd (via (putChar (fr (im A)) c) S)"

text \<open>\<^verbatim>\<open>lastCommand[bufferCount++] = c;\<close>\<close>

definition push_char :: "sh_image \<Rightarrow> u8 \<Rightarrow> shell \<Rightarrow> shell" where
  "push_char A c S = on_sh (\<lambda>m. m(lastCommand A + ucast (bufferCount S) := c)) (S\<lparr>bufferCount := bufferCount S + 1\<rparr>)"

definition key_typed :: "sh_image \<Rightarrow> u8 \<Rightarrow> shell \<Rightarrow> shell option" where
  "key_typed A c S =
    (if c = - 1 then Some S
     else if c = 8 \<and> 0 < bufferCount S
     then echo A c (on_sh (\<lambda>m. m(lastCommand A + ucast (bufferCount S) := 0)) (S\<lparr>bufferCount := bufferCount S - 1\<rparr>))
     else if c = 38 then map_option (\<lambda>S1. S1\<lparr>isBackground := True\<rparr>) (echo A c S)
     else if c = 8 then Some S
     else if c = 9 then do {
       S1 \<leftarrow> echo A 32 (push_char A 32 S);
       S2 \<leftarrow> echo A 32 (push_char A 32 S1);
       echo A 32 (push_char A 32 S2)
     }
     else echo A c (push_char A c S))"

partial_function (option) edit_loop :: "sh_image \<Rightarrow> shell \<Rightarrow> shell option" where
  "edit_loop A S = do {
     (c, S1) \<leftarrow> via (getChar (fr (im A))) S;
     if c = 10 then Some S1 else do { S2 \<leftarrow> key_typed A c S1; edit_loop A S2 }
   }"

definition store_line :: "sh_image \<Rightarrow> shell \<Rightarrow> shell option" where
  "store_line A S = do {
     let l = line_at A (lineCount S);
     let m1 = (sh_mem S)(lastCommand A + ucast (bufferCount S) := 0);
     let m2 = snd (u_stringCopy (clearLine l m1) l (int BUFFER_MAX_LENGTH) (lit (im A) PROMPT));
     n \<leftarrow> u_stringLength m2 (lit (im A) PROMPT);
     let m3 = snd (u_stringCopy m2 (l + n) (int BUFFER_MAX_LENGTH - int (unat n)) (lastCommand A));
     Some (on_sh (\<lambda>_. m3) (S\<lparr>lineCount := lineCount S + 1\<rparr>))
   }"

definition awaitCommand :: "sh_image \<Rightarrow> shell \<Rightarrow> (int \<times> int \<times> shell) option" where
  "awaitCommand A S = do {
     S1 \<leftarrow> edit_loop A (on_sh (clearLine (lastCommand A)) S);
     S2 \<leftarrow> echo A 10 S1;
     S3 \<leftarrow> store_line A S2;
     idx \<leftarrow> checkCommand A (sh_mem S3) (lastCommand A);
     bar \<leftarrow> u_firstOcurrence (sh_mem S3) (lastCommand A) 124;
     let second = (if bar = NULL then NULL else bar + 2);
     jdx \<leftarrow> (if bar = NULL then Some (- 1) else checkCommand A (sh_mem S3) second);
     Some (idx, jdx, S3\<lparr>secondCommand := second, bufferCount := 0\<rparr>)
   }"

section \<open>Arguments\<close>

partial_function (option) skip_spaces :: "bytes \<Rightarrow> ptr \<Rightarrow> ptr option" where
  "skip_spaces m p = (if m p = 32 then skip_spaces m (p + 1) else Some p)"

text \<open>The loop stops at a token that starts with a bar, and after five arguments.\<close>

fun take_args :: "sh_image \<Rightarrow> nat \<Rightarrow> nat \<Rightarrow> ptr \<Rightarrow> ptr \<Rightarrow> bytes \<Rightarrow> (nat \<times> ptr \<times> bytes) option" where
  "take_args A 0 n tok t m = Some (n, t, m)"
| "take_args A (Suc k) n tok t m =
    (if tok = NULL \<or> m tok = 124 then Some (n, t, m)
     else do {
       let m1 = snd (u_stringCopy m (argument A n) (int BUFFER_MAX_LENGTH) tok);
       (tok1, t1, m2) \<leftarrow> strtok NULL (lit (im A) '' '') t m1;
       take_args A k (Suc n) tok1 t1 m2
     })"

definition getArguments :: "sh_image \<Rightarrow> ptr \<Rightarrow> shell \<Rightarrow> (nat \<times> shell) option" where
  "getArguments A line S = do {
     start \<leftarrow> skip_spaces (sh_mem S) line;
     if sh_mem S start = 0 then Some (0, S)
     else do {
       (tok, t, m) \<leftarrow> strtok start (lit (im A) '' '') (token S) (sh_mem S);
       (n, t1, m1) \<leftarrow> take_args A MAX_ARGS_COUNT 0 tok t m;
       Some (n, on_sh (\<lambda>_. m1) (S\<lparr>token := t1\<rparr>))
     }
   }"

section \<open>Starting programs\<close>

text \<open>
  A process that has asked to be replaced by another program does not go on with this one.
\<close>

datatype run = Replaced proc | Goes_on shell

definition exec :: "ptr \<Rightarrow> nat \<Rightarrow> ptr \<Rightarrow> shell \<Rightarrow> run" where
  "exec f argc argv S = Replaced ((pr S)\<lparr>calls := calls (pr S) @ [Call 18 [f, of_nat argc, argv]]\<rparr>)"

definition copy_argument :: "ptr \<Rightarrow> ptr \<Rightarrow> bytes \<Rightarrow> bytes" where
  "copy_argument dst src m = fold (\<lambda>j m. m(dst + of_nat j := m (src + of_nat j))) [0..<BUFFER_MAX_LENGTH] m"

fun copy_args :: "sh_image \<Rightarrow> ptr \<Rightarrow> nat list \<Rightarrow> shell \<Rightarrow> shell option" where
  "copy_args A aux [] S = Some S"
| "copy_args A aux (i # is) S = do {
     (a, S1) \<leftarrow> via (malloc (of_nat BUFFER_MAX_LENGTH)) S;
     copy_args A aux is (on_sh (\<lambda>m. copy_argument a (argument A i) (store64 (aux + 8 * of_nat i) a m)) S1)
   }"

definition heap_args :: "sh_image \<Rightarrow> nat \<Rightarrow> shell \<Rightarrow> (ptr \<times> shell) option" where
  "heap_args A n S = do {
     (aux, S1) \<leftarrow> via (malloc (of_nat (8 * MAX_ARGS_COUNT))) S;
     S2 \<leftarrow> copy_args A aux [0..<n] S1;
     Some (aux, S2)
   }"

definition forked :: "shell \<Rightarrow> (bool \<times> shell) option" where
  "forked S = do { (r, S1) \<leftarrow> via u_sysFork S; Some ((ucast r :: u32) = 0, S1) }"

text \<open>\<open>pipefd\<close> is a local array of two integers at \<open>loc 0\<close>.\<close>

definition pipe_fd :: "sh_image \<Rightarrow> nat \<Rightarrow> shell \<Rightarrow> u64" where
  "pipe_fd A k S = ucast (load32 (sh_mem S) (loc (im A) 0 + 4 * of_nat k))"

text \<open>
  One end of the pipe in the child: descriptor \<open>fd\<close> is closed, the other end too, and end \<open>k\<close>
  takes its place.
\<close>

definition run_piped :: "sh_image \<Rightarrow> nat \<Rightarrow> nat \<Rightarrow> u64 \<Rightarrow> nat \<Rightarrow> shell \<Rightarrow> run option" where
  "run_piped A idx argsc fd k S = do {
     (aux, S1) \<leftarrow> heap_args A argsc S;
     (_, S2) \<leftarrow> via (u_close fd) S1;
     (_, S3) \<leftarrow> via (u_close (pipe_fd A (1 - k) S2)) S2;
     (_, S4) \<leftarrow> via (u_dup2 fd (pipe_fd A k S3)) S3;
     Some (exec (commandsFunction A idx) argsc aux S4)
   }"

definition run_single :: "sh_image \<Rightarrow> nat \<Rightarrow> shell \<Rightarrow> run option" where
  "run_single A idx S = do {
     (argsc, S1) \<leftarrow> getArguments A (lastCommand A) S;
     (aux, S2) \<leftarrow> heap_args A argsc S1;
     (_, S3) \<leftarrow> (if isBackground S2 then via u_setToBackground S2 else Some (0, S2));
     Some (exec (commandsFunction A idx) argsc aux S3)
   }"

definition finish :: "shell \<Rightarrow> run option" where
  "finish S =
    (if isBackground S then Some (Goes_on S)
     else map_option (\<lambda>(_, S1). Goes_on S1) (via u_wait S))"

definition runPipe :: "sh_image \<Rightarrow> nat \<Rightarrow> nat \<Rightarrow> shell \<Rightarrow> run option" where
  "runPipe A idx jdx S = do {
     (_, S1) \<leftarrow> via (u_pipe (loc (im A) 0)) S;
     (argsc1, S2) \<leftarrow> getArguments A (lastCommand A) S1;
     (child1, S3) \<leftarrow> forked S2;
     if child1 then run_piped A idx argsc1 1 1 S3
     else do {
       (_, S4) \<leftarrow> via u_yield S3;
       (argsc2, S5) \<leftarrow> getArguments A (secondCommand S4) S4;
       (child2, S6) \<leftarrow> forked S5;
       if child2 then run_piped A jdx argsc2 0 0 S6
       else do {
         (_, S7) \<leftarrow> via u_yield S6;
         (_, S8) \<leftarrow> via (u_close (pipe_fd A 0 S7)) S7;
         (_, S9) \<leftarrow> via (u_close (pipe_fd A 1 S8)) S8;
         finish S9
       }
     }
   }"

definition runProgram :: "sh_image \<Rightarrow> int \<Rightarrow> int \<Rightarrow> shell \<Rightarrow> run option" where
  "runProgram A idx jdx S =
    (if 0 \<le> idx \<and> idx < int CMDS_COUNT
     then if 0 \<le> jdx \<and> jdx < int CMDS_COUNT then runPipe A (nat idx) (nat jdx) S
          else do {
            (child, S1) \<leftarrow> forked S;
            if child then run_single A (nat idx) S1
            else do { (_, S2) \<leftarrow> via u_yield S1; finish S2 }
          }
     else Some (Goes_on S))"

section \<open>The main loop\<close>

definition invalid_command :: string where
  "invalid_command = ''Invalid command. Use '' @ [CHR 0x27] @ ''help'' @ [CHR 0x27] @
     '' to display the available commands with a description for their use''"

definition sh_round :: "sh_image \<Rightarrow> shell \<Rightarrow> run option" where
  "sh_round A S = do {
     (_, S1) \<leftarrow> via (printString (lit (im A) PROMPT)) S;
     (idx, jdx, S2) \<leftarrow> awaitCommand A S1;
     r \<leftarrow> (if 0 \<le> idx \<and> idx < int CMDS_COUNT then runProgram A idx jdx S2
          else do {
            (_, S3) \<leftarrow> via (printString (lit (im A) invalid_command)) S2;
            S4 \<leftarrow> echo A 10 S3;
            Some (Goes_on (remember A (lit (im A) invalid_command) S4))
          });
     Some (case r of Replaced p \<Rightarrow> Replaced p | Goes_on S5 \<Rightarrow> Goes_on (S5\<lparr>isBackground := False\<rparr>))
   }"

text \<open>The loop has a result only in a child, at the end of this program.\<close>

partial_function (option) sh_loop :: "sh_image \<Rightarrow> shell \<Rightarrow> proc option" where
  "sh_loop A S = do {
     r \<leftarrow> sh_round A S;
     (case r of Replaced p \<Rightarrow> Some p | Goes_on S1 \<Rightarrow> sh_loop A S1)
   }"

definition sh :: "sh_image \<Rightarrow> shell \<Rightarrow> proc option" where
  "sh A S = sh_loop A (clearLines A S)"

section \<open>The commands of the shell\<close>

definition print_line :: "sh_image \<Rightarrow> ptr \<Rightarrow> shell \<Rightarrow> shell option" where
  "print_line A s S = map_option snd (via (printf (fr (im A)) (lit (im A) (''%s'' @ eol)) [s]) S)"

definition clear :: "sh_image \<Rightarrow> shell \<Rightarrow> (int \<times> shell) option" where
  "clear A S = do { (_, S1) \<leftarrow> via u_clear (clearLines A S); Some (0, S1) }"

definition beep_message :: string where
  "beep_message = ''I'' @ [CHR 0x27] @ ''m supposed to be beeping...''"

text \<open>\<^verbatim>\<open>clearLine(lines[lineCount % MAX_LINES]); stringFormat(lines[lineCount++ % MAX_LINES], ...)\<close>\<close>

definition format_line :: "sh_image \<Rightarrow> string \<Rightarrow> u64 list \<Rightarrow> shell \<Rightarrow> shell option" where
  "format_line A f args S = do {
     let l = line_at A (lineCount S);
     p \<leftarrow> stringFormat (fr (im A)) l (of_nat BUFFER_MAX_LENGTH) (lit (im A) f) args (on_um (clearLine l) (pr S));
     Some (S\<lparr>pr := p, lineCount := lineCount S + 1\<rparr>)
   }"

definition beep :: "sh_image \<Rightarrow> shell \<Rightarrow> (int \<times> shell) option" where
  "beep A S = do {
     S1 \<leftarrow> print_line A (lit (im A) beep_message) S;
     S2 \<leftarrow> format_line A ''%s'' [lit (im A) beep_message] S1;
     (_, S3) \<leftarrow> via (u_beep 2000) S2;
     Some (0, S3)
   }"

partial_function (option) refresh_loop :: "sh_image \<Rightarrow> u32 \<Rightarrow> shell \<Rightarrow> shell option" where
  "refresh_loop A aux S =
    (if unat aux mod MAX_LINES = unat (lineCount S) mod MAX_LINES then Some S
     else do {
       S1 \<leftarrow> (if sh_mem S (line_at A aux) \<noteq> 0 then print_line A (line_at A aux) S else Some S);
       refresh_loop A (aux + 1) S1
     })"

definition refresh :: "sh_image \<Rightarrow> shell \<Rightarrow> shell option" where
  "refresh A S = do {
     (_, S1) \<leftarrow> via u_clear S;
     refresh_loop A (if lineCount S1 < of_nat MAX_LINES then 0 else lineCount S1 + 1) S1
   }"

definition regsName :: "string list" where
  "regsName = [''RIP'', ''RAX'', ''RBX'', ''RCX'', ''RDX'', ''RDI'', ''RSI'', ''RBP'', ''RSP'', ''R8 '', ''R9'', ''R10'',
     ''R11'', ''R12'', ''R13'', ''R14'', ''R15'']"

definition regs_missing :: string where
  "regs_missing = ''Didn'' @ [CHR 0x27] @ ''t make a register screenshot, press l-alt to make a capture of the register values''"

text \<open>
  The local array \<open>regsInfo\<close> is at \<open>loc 0\<close>.  Without a capture the message is followed by the
  registers all the same.
\<close>

fun print_regs :: "sh_image \<Rightarrow> nat list \<Rightarrow> shell \<Rightarrow> shell option" where
  "print_regs A [] S = Some S"
| "print_regs A (i # is) S = do {
     let name = lit (im A) (regsName ! i);
     let S1 = on_sh (clearLine (line_at A (lineCount S))) S;
     (_, S2) \<leftarrow> via (printf (fr (im A)) (lit (im A) (''%s = %x'' @ eol)) [name, load64 (sh_mem S1) (loc (im A) 0 + 8 * of_nat i)]) S1;
     let l = line_at A (lineCount S2);
     p \<leftarrow> stringFormat (fr (im A)) l (of_nat BUFFER_MAX_LENGTH) (lit (im A) ''%s = %x'')
       [name, load64 (sh_mem S2) (loc (im A) 0 + 8 * of_nat i)] (pr S2);
     print_regs A is (S2\<lparr>pr := p, lineCount := lineCount S2 + 1\<rparr>)
   }"

definition printRegisters :: "sh_image \<Rightarrow> shell \<Rightarrow> (int \<times> shell) option" where
  "printRegisters A S = do {
     (res, S1) \<leftarrow> via (u_getRegs (loc (im A) 0)) S;
     S2 \<leftarrow> (if (ucast res :: u32) = 0 then do {
              S2 \<leftarrow> print_line A (lit (im A) regs_missing) S1;
              format_line A ''%s'' [loc (im A) 0] S2
            } else Some S1);
     S3 \<leftarrow> print_regs A [0..<17] S2;
     Some (0, S3)
   }"

definition new_font :: "sh_image \<Rightarrow> int \<Rightarrow> shell \<Rightarrow> (int \<times> shell) option" where
  "new_font A n S = do {
     (_, S1) \<leftarrow> via (u_changeFont (of_int n)) (S\<lparr>fontSize := n\<rparr>);
     S2 \<leftarrow> refresh A S1;
     Some (0, S2)
   }"

definition font_limit :: "sh_image \<Rightarrow> string \<Rightarrow> shell \<Rightarrow> (int \<times> shell) option" where
  "font_limit A msg S = do {
     (_, S1) \<leftarrow> via (printString (lit (im A) msg)) S;
     S2 \<leftarrow> echo A 10 (remember A (lit (im A) msg) S1);
     Some (0, S2)
   }"

definition increment :: "sh_image \<Rightarrow> shell \<Rightarrow> (int \<times> shell) option" where
  "increment A S =
    (if fontSize S < 5 then new_font A (fontSize S + 1) S else font_limit A ''Reached max size of font.'' S)"

definition decrement :: "sh_image \<Rightarrow> shell \<Rightarrow> (int \<times> shell) option" where
  "decrement A S =
    (if 1 < fontSize S then new_font A (fontSize S - 1) S else font_limit A ''Reached min size of font.'' S)"

section \<open>Help\<close>

fun help_lines :: "image \<Rightarrow> nat list \<Rightarrow> proc \<Rightarrow> proc option" where
  "help_lines A [] p = Some p"
| "help_lines A (i # is) p = do {
     (_, p1) \<leftarrow> printf (fr A) (lit A (''%d.%s: %s'' @ eol)) [of_nat (i + 1), lit A (command_name i), lit A (command_desc i)] p;
     help_lines A is p1
   }"

definition help_program :: "image \<Rightarrow> int \<Rightarrow> ptr \<Rightarrow> proc \<Rightarrow> (int \<times> proc) option" where
  "help_program A argsc argsv p = do {
     (_, p1) \<leftarrow> printf (fr A) (lit A (''%s'' @ eol)) [lit A ''Predefined terminal programs:''] p;
     p2 \<leftarrow> help_lines A [0..<CMDS_COUNT] p1;
     Some (0, p2)
   }"

section \<open>The start of a process\<close>

text \<open>
  \<^verbatim>\<open>Userland/_loader.c\<close>: the process is \<^verbatim>\<open>init\<close> for a null function, the idle process for 1, and
  otherwise runs the function \<open>main\<close> it was started with; then it exits.
\<close>

partial_function (option) idle :: "proc \<Rightarrow> proc option" where
  "idle p = do { (_, p1) \<leftarrow> u_idle p; idle p1 }"

definition start ::
    "(proc \<Rightarrow> proc option) \<Rightarrow> (ptr \<Rightarrow> int \<Rightarrow> ptr \<Rightarrow> proc \<Rightarrow> (int \<times> proc) option) \<Rightarrow> ptr \<Rightarrow> int \<Rightarrow> ptr \<Rightarrow> proc \<Rightarrow> proc option" where
  "start init main process argc argv p = do {
     p1 \<leftarrow> (if process \<noteq> NULL \<and> process \<noteq> 1 then map_option snd (main process argc argv p)
           else if process = NULL then init p
           else idle p);
     map_option snd (u_sysExit p1)
   }"

end
