(* ===== verification/UStringProps.thy ===== *)
theory UStringProps
  imports UString CStringProps VideoProps
begin

text \<open>What the string routines of the programs do, on strings as lists of bytes.\<close>

section \<open>Regions of memory\<close>

definition region :: "ptr \<Rightarrow> nat \<Rightarrow> ptr set" where "region a n = (\<lambda>i. a + of_nat i) ` {..<n}"

lemma region_mem [intro]: "i < n \<Longrightarrow> a + of_nat i \<in> region a n"
  by (simp add: region_def)

lemma region_start [simp]: "0 < n \<Longrightarrow> a \<in> region a n"
  using region_mem [of 0 n a] by simp

lemma region_mono: "n \<le> k \<Longrightarrow> region a n \<subseteq> region a k"
  by (auto simp: region_def)

lemma region_shift: "region (a + of_nat i) n \<subseteq> region a (i + n)"
proof
  fix x assume "x \<in> region (a + of_nat i) n"
  then obtain k where "k < n" "x = a + of_nat (i + k)" by (auto simp: region_def add.assoc)
  then show "x \<in> region a (i + n)" unfolding region_def by (intro image_eqI [of _ _ "i + k"]) auto
qed

lemma region_sub: "i + n \<le> k \<Longrightarrow> region (a + of_nat i) n \<subseteq> region a k"
  using region_shift region_mono by blast

lemma region_Suc: "region a (Suc n) = insert a (region (a + 1) n)"
proof -
  have "{..<Suc n} = insert 0 (Suc ` {..<n})" by (simp add: lessThan_Suc_eq_insert_0)
  then show ?thesis by (simp add: region_def image_image algebra_simps)
qed

lemma region_inj: "n \<le> 2 ^ 64 \<Longrightarrow> i < n \<Longrightarrow> j < n \<Longrightarrow> a + of_nat i = (a :: ptr) + of_nat j \<longleftrightarrow> i = j"
  using of_nat_u64_inj [of i j] by auto

lemma region_apart:
  assumes "unat a + n \<le> unat b" "unat b + k \<le> 2 ^ 64"
  shows "region a n \<inter> region b k = {}" "region b k \<inter> region a n = {}"
proof -
  have u: "unat (c + of_nat i) = unat c + i" if "unat c + i < 2 ^ 64" for c :: ptr and i
    using unat_plus_fits64 [of c "of_nat i"] that unat_of_nat64 [of i] by simp
  have "a + of_nat i \<noteq> b + of_nat j" if "i < n" "j < k" for i j
    using u [of a i] u [of b j] that assms by auto
  then show "region a n \<inter> region b k = {}" by (auto simp: region_def)
  then show "region b k \<inter> region a n = {}" by (simp only: Int_commute)
qed

lemma region_next:
  assumes "i + j \<le> 2 ^ 64"
  shows "region (a + of_nat i) j \<inter> region a i = {}"
proof -
  have "a + of_nat (i + l) \<noteq> a + of_nat k" if "l < j" "k < i" for l k
    using region_inj [of "i + j" "i + l" k a] assms that by simp
  then show ?thesis by (auto simp: region_def add.assoc)
qed

lemma cstr_region: "(\<And>x. x \<in> region p (Suc (length xs)) \<Longrightarrow> m' x = m x) \<Longrightarrow> cstr m' p xs = cstr m p xs"
  by (rule cstr_cong) (metis less_Suc_eq_le region_mem)

lemma cstr_drop: "cstr m p (xs @ ys) \<Longrightarrow> cstr m (p + of_nat (length xs)) ys"
proof (induction xs arbitrary: p)
  case (Cons x xs)
  then have "cstr m (p + 1 + of_nat (length xs)) ys" by simp
  then show ?case by (simp add: add.assoc add.commute add.left_commute)
qed simp

section \<open>Length and copy\<close>

lemma length_loop_ok: "cstr m (str + of_nat n) xs \<Longrightarrow> length_loop m str n = Some (n + length xs)"
proof (induction xs arbitrary: n)
  case Nil
  then show ?case by (subst length_loop.simps) simp
next
  case (Cons x xs)
  have "cstr m (str + of_nat (Suc n)) xs" using Cons.prems by (simp add: algebra_simps)
  from Cons.IH [OF this] show ?case using Cons.prems by (subst length_loop.simps) simp
qed

lemma stringLength_ok: "cstr m str xs \<Longrightarrow> u_stringLength m str = Some (of_nat (length xs))"
  using length_loop_ok [of m str 0 xs] by (simp add: u_stringLength_def stringLength_def)

text \<open>With room for the string the copy is exact, and one more terminator is written behind it.\<close>

lemma u_copy_loop_ok:
  "cstr m src xs \<Longrightarrow> length xs \<le> n \<Longrightarrow> length xs + 2 \<le> 2 ^ 64 \<Longrightarrow>
     region src (Suc (length xs)) \<inter> region dst (length xs + 2) = {} \<Longrightarrow>
     cstr (u_copy_loop n m dst src) dst xs \<and> (\<forall>x. x \<notin> region dst (length xs + 2) \<longrightarrow> u_copy_loop n m dst src x = m x)"
proof (induction xs arbitrary: n m dst src)
  case Nil
  have r: "region dst (Suc (Suc 0)) = {dst, dst + 1}"
    unfolding region_Suc by (simp add: region_def)
  have "u_copy_loop n m dst src = m(dst := 0, dst + 1 := 0)" using Nil.prems(1) by (cases n) auto
  then show ?case using r by simp
next
  case (Cons x xs)
  obtain n' where n: "n = Suc n'" using Cons.prems(2) by (cases n) auto
  let ?m = "m(dst := m src)"
  have sep: "region src (Suc (Suc (length xs))) \<inter> region dst (Suc (length xs + 2)) = {}" using Cons.prems(4) by simp
  then have sep': "region (src + 1) (Suc (length xs)) \<inter> region (dst + 1) (length xs + 2) = {}"
    "dst \<notin> region (src + 1) (Suc (length xs))"
    unfolding region_Suc [of src "Suc (length xs)"] region_Suc [of dst "length xs + 2"] by auto
  have c: "cstr ?m (src + 1) xs"
  proof -
    have "cstr ?m (src + 1) xs = cstr m (src + 1) xs" by (rule cstr_region) (use sep'(2) in auto)
    then show ?thesis using Cons.prems(1) by simp
  qed
  have IH: "cstr (u_copy_loop n' ?m (dst + 1) (src + 1)) (dst + 1) xs"
    "\<forall>y. y \<notin> region (dst + 1) (length xs + 2) \<longrightarrow> u_copy_loop n' ?m (dst + 1) (src + 1) y = ?m y"
  proof -
    have l: "length xs \<le> n'" "length xs + 2 \<le> 2 ^ 64" using Cons.prems(2,3) n by auto
    note Cons.IH [OF c l sep'(1)]
    then show "cstr (u_copy_loop n' ?m (dst + 1) (src + 1)) (dst + 1) xs"
      "\<forall>y. y \<notin> region (dst + 1) (length xs + 2) \<longrightarrow> u_copy_loop n' ?m (dst + 1) (src + 1) y = ?m y" by blast+
  qed
  have "dst \<notin> region (dst + 1) (length xs + 2)"
  proof
    assume "dst \<in> region (dst + 1) (length xs + 2)"
    then obtain k where "k < length xs + 2" "dst + of_nat 0 = dst + of_nat (Suc k)" by (auto simp: region_def algebra_simps)
    then show False using region_inj [of "length xs + 3" 0 "Suc k" dst] Cons.prems(3) by auto
  qed
  then have "u_copy_loop n' ?m (dst + 1) (src + 1) dst = x" using IH(2) Cons.prems(1) by auto
  then show ?case using IH Cons.prems(1) n region_Suc [of dst "length xs + 2"] by auto
qed

text \<open>In any case nothing is written further than the count and two more bytes.\<close>

lemma u_copy_loop_out: "x \<notin> region dst (n + 2) \<Longrightarrow> u_copy_loop n m dst src x = m x"
proof (induction n arbitrary: m dst src)
  case 0
  have "region dst (Suc (Suc 0)) = {dst, dst + 1}" unfolding region_Suc by (simp add: region_def)
  then show ?case using 0 by simp
next
  case (Suc n)
  have r: "region dst (Suc n + 2) = insert dst (region (dst + 1) (n + 2))" using region_Suc [of dst "n + 2"] by simp
  then have x: "x \<noteq> dst" "x \<notin> region (dst + 1) (n + 2)" using Suc.prems by auto
  have x1: "x \<noteq> dst + 1" using x(2) region_start [of "n + 2" "dst + 1"] by auto
  have ih: "u_copy_loop n (m(dst := m src)) (dst + 1) (src + 1) x = (m(dst := m src)) x" by (rule Suc.IH) (rule x(2))
  show ?case
  proof (cases "m src = 0")
    case True
    then show ?thesis using x(1) x1 by simp
  next
    case False
    then have "u_copy_loop (Suc n) m dst src x = u_copy_loop n (m(dst := m src)) (dst + 1) (src + 1) x" by simp
    then show ?thesis using ih fun_upd_other [OF x(1)] by metis
  qed
qed

lemma u_stringCopy_out: "x \<notin> region dst (nat n + 2) \<Longrightarrow> snd (u_stringCopy m dst n src) x = m x"
  by (simp add: u_stringCopy_def u_copy_loop_out)

lemma u_stringCopy_ok:
  assumes "cstr m src xs" "int (length xs) \<le> n" "length xs + 2 \<le> 2 ^ 64"
    "region src (Suc (length xs)) \<inter> region dst (length xs + 2) = {}"
  shows "cstr (snd (u_stringCopy m dst n src)) dst xs"
    "x \<notin> region dst (length xs + 2) \<Longrightarrow> snd (u_stringCopy m dst n src) x = m x"
  using u_copy_loop_ok [of m src xs "nat n" dst] assms by (auto simp: u_stringCopy_def)

section \<open>Numbers\<close>

lemma base_char_digit: "unat v < 10 \<Longrightarrow> base_char v = of_nat (48 + unat v)"
proof -
  assume v: "unat v < 10"
  then have "v < 10" unfolding word_less_nat_alt by simp
  moreover have "(ucast v :: u8) = of_nat (unat v)" by simp
  ultimately show "base_char v = of_nat (48 + unat v)" unfolding base_char_def by (simp add: add.commute)
qed

lemma region_snoc: "region a (Suc n) = insert (a + of_nat n) (region a n)"
  by (simp add: region_def lessThan_Suc)

text \<open>The digits are stored from the lowest to the highest.\<close>

lemma base_loop_decimal:
  "n + length (decimal (unat v)) \<le> 2 ^ 64 \<Longrightarrow>
   \<exists>m'. base_loop 10 v buffer n m = Some (n + length (decimal (unat v)), m') \<and>
     (\<forall>i<length (decimal (unat v)). m' (buffer + of_nat (n + i)) = rev (decimal (unat v)) ! i) \<and>
     (\<forall>x. x \<notin> region (buffer + of_nat n) (length (decimal (unat v))) \<longrightarrow> m' x = m x)"
proof (induction "unat v" arbitrary: v n m rule: decimal.induct)
  case 1
  let ?m = "m(buffer + of_nat n := base_char (v mod 10))"
  have c: "base_char (v mod 10) = of_nat (48 + unat v mod 10)"
    by (subst base_char_digit) (simp_all add: unat_mod)
  show ?case
  proof (cases "unat v < 10")
    case True
    then have v: "v div 10 = 0" by (simp add: word_unat_eq_iff unat_div del: unat_inj)
    have "base_loop 10 v buffer n m = Some (Suc n, ?m)" using v by (subst base_loop.simps) simp
    then show ?thesis using True c by (simp add: decimal.simps [of "unat v"] region_Suc del: of_nat_add)
  next
    case False
    let ?w = "v div 10"
    have w: "unat ?w = unat v div 10" by (simp add: unat_div)
    have nz: "?w \<noteq> 0" using False w by auto
    have d: "decimal (unat v) = decimal (unat ?w) @ [of_nat (48 + unat v mod 10)]"
      using False w decimal.simps [of "unat v"] by simp
    have len: "length (decimal (unat v)) = Suc (length (decimal (unat ?w)))" by (simp add: d)
    obtain m' where m': "base_loop 10 ?w buffer (Suc n) ?m = Some (Suc n + length (decimal (unat ?w)), m')"
      "\<forall>i<length (decimal (unat ?w)). m' (buffer + of_nat (Suc n + i)) = rev (decimal (unat ?w)) ! i"
      "\<forall>x. x \<notin> region (buffer + of_nat (Suc n)) (length (decimal (unat ?w))) \<longrightarrow> m' x = ?m x"
      using 1(1) [OF False w [symmetric], of "Suc n" ?m] 1(2) len by auto
    have run: "base_loop 10 v buffer n m = Some (n + length (decimal (unat v)), m')"
      using m'(1) nz len by (subst base_loop.simps) simp
    have reg: "region (buffer + of_nat n) (length (decimal (unat v))) =
        insert (buffer + of_nat n) (region (buffer + of_nat (Suc n)) (length (decimal (unat ?w))))"
      unfolding len region_Suc by (simp add: ac_simps)
    have "buffer + of_nat n \<notin> region (buffer + of_nat (Suc n)) (length (decimal (unat ?w)))"
    proof
      assume "buffer + of_nat n \<in> region (buffer + of_nat (Suc n)) (length (decimal (unat ?w)))"
      then obtain k where k: "k < length (decimal (unat ?w))" "buffer + of_nat n = buffer + of_nat (Suc n + k)"
        by (auto simp: region_def add.assoc)
      then have "(of_nat n :: ptr) = of_nat (Suc n + k)" by (metis add_left_cancel)
      then show False using of_nat_u64_inj [of n "Suc n + k"] k(1) 1(2) len by simp
    qed
    then have first: "m' (buffer + of_nat n) = of_nat (48 + unat v mod 10)" using m'(3) c by simp
    have "m' (buffer + of_nat (n + i)) = rev (decimal (unat v)) ! i" if "i < length (decimal (unat v))" for i
    proof (cases i)
      case 0
      then show ?thesis using first d by (simp del: of_nat_add)
    next
      case (Suc j)
      then show ?thesis using m'(2) that d len by (auto simp del: of_nat_add of_nat_Suc)
    qed
    then show ?thesis using run m'(3) reg by auto
  qed
qed

lemma swap_ends_rev:
  "i + w \<le> 2 ^ 64 \<Longrightarrow> k = w div 2 \<Longrightarrow>
     (\<forall>t<w. swap_ends k i (i + w - 1) buffer m (buffer + of_nat (i + t)) = m (buffer + of_nat (i + w - 1 - t))) \<and>
     (\<forall>x. x \<notin> region (buffer + of_nat i) w \<longrightarrow> swap_ends k i (i + w - 1) buffer m x = m x)"
proof (induction k arbitrary: i w m)
  case 0
  then have "w = 0 \<or> w = 1" by auto
  then show ?case by auto
next
  case (Suc k)
  then obtain u where w: "w = Suc (Suc u)" "k = u div 2" by (cases w; cases "w - 1") auto
  let ?j = "i + w - 1"
  let ?m = "swap_at m buffer i ?j"
  have ne: "buffer + of_nat i \<noteq> buffer + of_nat ?j"
    using of_nat_u64_inj [of i ?j] Suc.prems(1) w by simp
  have IH: "\<forall>t<u. swap_ends k (Suc i) (i + u) buffer ?m (buffer + of_nat (Suc i + t)) = ?m (buffer + of_nat (i + u - t))"
    "\<forall>x. x \<notin> region (buffer + of_nat (Suc i)) u \<longrightarrow> swap_ends k (Suc i) (i + u) buffer ?m x = ?m x"
    using Suc.IH [of "Suc i" u ?m] Suc.prems(1) w by auto
  have run: "swap_ends (Suc k) i ?j buffer m = swap_ends k (Suc i) (i + u) buffer ?m" using w by simp
  have out: "buffer + of_nat t \<notin> region (buffer + of_nat (Suc i)) u" if "t \<le> i \<or> i + u < t" "t < 2 ^ 64" for t
  proof
    assume "buffer + of_nat t \<in> region (buffer + of_nat (Suc i)) u"
    then obtain l where l: "l < u" "buffer + of_nat t = buffer + of_nat (Suc i + l)" by (auto simp: region_def add.assoc)
    then have "(of_nat t :: ptr) = of_nat (Suc i + l)" by (metis add_left_cancel)
    then show False using of_nat_u64_inj [of t "Suc i + l"] l(1) that Suc.prems(1) w by auto
  qed
  have "swap_ends (Suc k) i ?j buffer m (buffer + of_nat (i + t)) = m (buffer + of_nat (?j - t))" if t: "t < w" for t
  proof -
    consider "t = 0" | "t = Suc u" | s where "t = Suc s" "s < u" using t w by (cases t) (auto simp: less_Suc_eq)
    then show ?thesis
    proof cases
      case 1
      then show ?thesis using run IH(2) out [of i] Suc.prems(1) w ne by (simp add: swap_at_def del: of_nat_add of_nat_Suc)
    next
      case 2
      then have "i + t = ?j" using w by simp
      then show ?thesis using run IH(2) out [of ?j] Suc.prems(1) w ne 2 by (simp add: swap_at_def del: of_nat_add of_nat_Suc)
    next
      case 3
      have i: "i + t = Suc i + s" "?j - t = i + u - s" using 3 w by auto
      have "buffer + of_nat (i + u - s) \<noteq> buffer + of_nat i" "buffer + of_nat (i + u - s) \<noteq> buffer + of_nat ?j"
        using of_nat_u64_inj [of "i + u - s" i] of_nat_u64_inj [of "i + u - s" ?j] Suc.prems(1) w 3 by auto
      then have "?m (buffer + of_nat (i + u - s)) = m (buffer + of_nat (i + u - s))" by (simp add: swap_at_def)
      then show ?thesis using run IH(1) 3 unfolding i by simp
    qed
  qed
  moreover have "swap_ends (Suc k) i ?j buffer m x = m x" if x: "x \<notin> region (buffer + of_nat i) w" for x
  proof -
    have "region (buffer + of_nat (Suc i)) u \<subseteq> region (buffer + of_nat i) w"
      using region_sub [of 1 u w "buffer + of_nat i"] w by (simp add: ac_simps)
    moreover have "buffer + of_nat i \<in> region (buffer + of_nat i) w" using w by simp
    moreover have "buffer + of_nat ?j \<in> region (buffer + of_nat i) w"
      using region_mem [of "w - 1" w "buffer + of_nat i"] w by (simp add: ac_simps)
    ultimately show ?thesis using run IH(2) x by (auto simp: swap_at_def)
  qed
  ultimately show ?case by blast
qed

lemma decimal_short: "length (decimal (unat (v :: u64))) \<le> 20"
proof -
  have "unat v < 2 ^ 64" by (rule unat_less_64)
  then have "unat v < 10 ^ Suc 19" by simp
  then show ?thesis using decimal_length [of "unat v" 19] by simp
qed

lemma uintToBase_decimal:
  "\<exists>m'. uintToBase v buffer 10 m = Some (of_nat (length (decimal (unat v))), m') \<and>
     cstr m' buffer (decimal (unat v)) \<and> (\<forall>x. x \<notin> region buffer (Suc (length (decimal (unat v)))) \<longrightarrow> m' x = m x)"
proof -
  let ?d = "decimal (unat v)" and ?n = "length (decimal (unat v))"
  have n: "?n \<le> 20" by (rule decimal_short)
  obtain m1 where m1: "base_loop 10 v buffer 0 m = Some (?n, m1)" "\<forall>i<?n. m1 (buffer + of_nat i) = rev ?d ! i"
    "\<forall>x. x \<notin> region buffer ?n \<longrightarrow> m1 x = m x"
    using base_loop_decimal [of 0 v buffer m] n by auto
  let ?m1 = "m1(buffer + of_nat ?n := 0)"
  let ?m2 = "swap_ends (?n div 2) 0 (?n - 1) buffer ?m1"
  have sw: "\<forall>t<?n. ?m2 (buffer + of_nat t) = ?m1 (buffer + of_nat (?n - 1 - t))" "\<forall>x. x \<notin> region buffer ?n \<longrightarrow> ?m2 x = ?m1 x"
    using swap_ends_rev [of 0 ?n "?n div 2" buffer ?m1] n by auto
  have "?m2 (buffer + of_nat t) = ?d ! t" if t: "t < ?n" for t
  proof -
    have "buffer + of_nat (?n - 1 - t) \<noteq> buffer + of_nat ?n"
      using of_nat_u64_inj [of "?n - 1 - t" ?n] n t by auto
    then have "?m2 (buffer + of_nat t) = m1 (buffer + of_nat (?n - 1 - t))" using sw(1) t by auto
    also have "\<dots> = rev ?d ! (?n - 1 - t)" by (rule m1(2) [rule_format]) (use t in simp)
    also have "\<dots> = ?d ! t" using t by (simp add: rev_nth)
    finally show ?thesis .
  qed
  moreover have "?m2 (buffer + of_nat ?n) = 0"
  proof -
    have "buffer + of_nat ?n \<notin> region buffer ?n"
      using region_inj [of "Suc ?n" ?n _ buffer] n by (auto simp: region_def)
    then show ?thesis using sw(2) by simp
  qed
  moreover have "0 \<notin> set ?d" using decimal_chars by blast
  ultimately have "cstr ?m2 buffer ?d" unfolding cstr_iff by blast
  moreover have "?m2 x = m x" if "x \<notin> region buffer (Suc ?n)" for x
    using that sw(2) m1(3) unfolding region_snoc by auto
  moreover have "uintToBase v buffer 10 m = Some (of_nat ?n, ?m2)"
    using m1(1) by (simp add: uintToBase_def toBase_def)
  ultimately show ?thesis by blast
qed

lemma u_numToString_ok:
  assumes "- (2 ^ 31) < num" "num < 2 ^ 31"
  shows "\<exists>r m'. u_numToString num buffer sz m = Some (r, m') \<and> cstr m' buffer (decimal_int num) \<and>
    (\<forall>x. x \<notin> region buffer (Suc (length (decimal_int num))) \<longrightarrow> m' x = m x)"
proof (cases "num < 0")
  case True
  have u: "unat (of_int (- num) :: u64) = nat (- num)"
  proof -
    have "uint (of_int (- num) :: u64) = (- num) mod 2 ^ 64" by (simp add: uint_word_of_int del: of_int_minus)
    then have "uint (of_int (- num) :: u64) = - num" using assms True by simp
    then show ?thesis by (simp flip: nat_uint_eq)
  qed
  let ?d = "decimal (nat (- num))"
  have l: "length ?d \<le> 20" using decimal_short [of "of_int (- num)"] unfolding u .
  obtain m' where m': "uintToBase (of_int (- num)) (buffer + 1) 10 (m(buffer := 45)) = Some (of_nat (length ?d), m')"
    "cstr m' (buffer + 1) ?d" "\<forall>x. x \<notin> region (buffer + 1) (Suc (length ?d)) \<longrightarrow> m' x = (m(buffer := 45)) x"
    using uintToBase_decimal [of "of_int (- num)" "buffer + 1" "m(buffer := 45)"] unfolding u by blast
  have "buffer \<notin> region (buffer + 1) (Suc (length ?d))"
  proof
    assume "buffer \<in> region (buffer + 1) (Suc (length ?d))"
    then obtain k where "k < Suc (length ?d)" "buffer + of_nat 0 = buffer + of_nat (Suc k)" by (auto simp: region_def algebra_simps)
    then show False using region_inj [of "length ?d + 2" 0 "Suc k" buffer] l by auto
  qed
  then have "m' buffer = 45" using m'(3) by simp
  then show ?thesis using m' True assms region_Suc [of buffer "Suc (length ?d)"]
    by (auto simp: u_numToString_def signed_base_def decimal_int_def)
next
  case False
  have u: "unat (of_int num :: u64) = nat num"
  proof -
    have "uint (of_int num :: u64) = num mod 2 ^ 64" by (simp add: uint_word_of_int)
    then have "uint (of_int num :: u64) = num" using assms False by simp
    then show ?thesis by (simp flip: nat_uint_eq)
  qed
  show ?thesis using uintToBase_decimal [of "of_int num" buffer m] False assms unfolding u
    by (auto simp: u_numToString_def signed_base_def decimal_int_def)
qed

section \<open>Comparing with a name\<close>

lemma ncompare_prefix:
  "cstr m a ns \<Longrightarrow> cstr m b xs \<Longrightarrow> ncompare_loop m a b (length ns) = 0 \<longleftrightarrow> take (length ns) xs = ns"
proof (induction ns arbitrary: a b xs)
  case (Cons n ns)
  then show ?case by (cases xs) auto
qed simp

lemma cstr_at: "cstr m p xs \<Longrightarrow> i \<le> length xs \<Longrightarrow> m (p + of_nat i) = (if i < length xs then xs ! i else 0)"
  unfolding cstr_iff by auto

lemma first_word:
  assumes "32 \<notin> set ns"
  shows "take (length ns) xs = ns \<and> (length ns = length xs \<or> length ns < length xs \<and> xs ! length ns = 32) \<longleftrightarrow>
    takeWhile (\<lambda>c. c \<noteq> (32 :: u8)) xs = ns"
  using assms
proof (induction ns arbitrary: xs)
  case Nil
  then show ?case by (cases xs) auto
next
  case (Cons n ns)
  then show ?case by (cases xs) auto
qed

lemma is_first_word:
  assumes "cstr m name ns" "cstr m line xs" "32 \<notin> set ns" "length ns < 2 ^ 64"
  shows "u_stringnCompare m name line (of_nat (length ns)) = 0 \<and>
      (m (line + of_nat (length ns)) = 32 \<or> m (line + of_nat (length ns)) = 0) \<longleftrightarrow>
    takeWhile (\<lambda>c. c \<noteq> 32) xs = ns"
proof -
  have "u_stringnCompare m name line (of_nat (length ns)) = 0 \<longleftrightarrow> take (length ns) xs = ns"
    using ncompare_prefix [OF assms(1,2)] assms(4) by (simp add: u_stringnCompare_def stringnCompare_def unat_of_nat64)
  moreover have "m (line + of_nat (length ns)) = 32 \<or> m (line + of_nat (length ns)) = 0 \<longleftrightarrow>
      length ns = length xs \<or> length ns < length xs \<and> xs ! length ns = 32" if "take (length ns) xs = ns"
  proof -
    have "length ns \<le> length xs" using that by (metis length_take min.cobounded1)
    moreover have "0 \<notin> set xs" using assms(2) unfolding cstr_iff by blast
    ultimately show ?thesis using cstr_at [OF assms(2)] by (auto dest: nth_mem)
  qed
  ultimately show ?thesis using first_word [OF assms(3), of xs] by blast
qed

section \<open>Searching\<close>

lemma first_index_ok:
  "cstr m (str + of_nat i) xs \<Longrightarrow> c \<noteq> 0 \<Longrightarrow>
     first_index m str c i = Some (if c \<in> set xs then str + of_nat (i + length (takeWhile (\<lambda>x. x \<noteq> c) xs)) else NULL)"
proof (induction xs arbitrary: i)
  case Nil
  then show ?case by (subst first_index.simps) simp
next
  case (Cons x xs)
  have "cstr m (str + of_nat (Suc i)) xs" using Cons.prems(1) by (simp add: algebra_simps)
  from Cons.IH [OF this Cons.prems(2)] show ?case using Cons.prems by (subst first_index.simps) auto
qed

lemma firstOcurrence_ok:
  "cstr m str xs \<Longrightarrow> c \<noteq> 0 \<Longrightarrow>
     u_firstOcurrence m str c = Some (if c \<in> set xs then str + of_nat (length (takeWhile (\<lambda>x. x \<noteq> c) xs)) else NULL)"
  using first_index_ok [of m str 0 xs c] by (simp add: u_firstOcurrence_def)

section \<open>Tokens\<close>

text \<open>The delimiter is the string of one space.\<close>

lemma occurs_space: "cstr m d [32] \<Longrightarrow> c \<noteq> 0 \<Longrightarrow> occurs m d c 0 = Some (c = 32)"
  by (subst occurs.simps, subst occurs.simps) auto

lemma skip_delims_ok:
  "cstr m d [32] \<Longrightarrow> cstr m p xs \<Longrightarrow>
     skip_delims m d p = Some (p + of_nat (length (takeWhile (\<lambda>c. c = 32) xs)))"
proof (induction xs arbitrary: p)
  case Nil
  then show ?case by (subst skip_delims.simps) simp
next
  case (Cons x xs)
  have x: "m p = x" "x \<noteq> 0" "cstr m (p + 1) xs" using Cons.prems(2) by auto
  show ?case using x Cons.IH [OF Cons.prems(1) x(3)] occurs_space [OF Cons.prems(1) x(2)]
    by (subst skip_delims.simps) (simp add: ac_simps)
qed

text \<open>A token ends at the next space, which becomes a terminator, or at the end of the string.\<close>

lemma cut_token_ok:
  "cstr m d [32] \<Longrightarrow> cstr m p xs \<Longrightarrow>
     cut_token m d p =
      Some (let n = length (takeWhile (\<lambda>c. c \<noteq> 32) xs)
            in if n = length xs then (p + of_nat n, m) else (p + of_nat (Suc n), m(p + of_nat n := 0)))"
proof (induction xs arbitrary: p)
  case Nil
  then show ?case by (subst cut_token.simps) simp
next
  case (Cons x xs)
  have x: "m p = x" "x \<noteq> 0" "cstr m (p + 1) xs" using Cons.prems(2) by auto
  show ?case using x Cons.IH [OF Cons.prems(1) x(3)] occurs_space [OF Cons.prems(1) x(2)]
    by (subst cut_token.simps) (simp add: Let_def ac_simps)
qed

lemma cstr_split:
  assumes "cstr m p (xs @ c # ys)" "length xs + length ys + 2 \<le> 2 ^ 64"
  shows "cstr (m(p + of_nat (length xs) := 0)) p xs" "cstr (m(p + of_nat (length xs) := 0)) (p + of_nat (Suc (length xs))) ys"
proof -
  let ?m = "m(p + of_nat (length xs) := 0)"
  have ne: "p + of_nat i \<noteq> p + of_nat (length xs)" if "i \<le> Suc (length xs + length ys)" "i \<noteq> length xs" for i
    using region_inj [of "length xs + length ys + 2" i "length xs" p] assms(2) that by simp
  have all: "\<forall>i<length xs. m (p + of_nat i) = xs ! i" "0 \<notin> set xs"
    using assms(1) unfolding cstr_iff by (auto simp: nth_append)
  then show "cstr ?m p xs" using ne unfolding cstr_iff by auto
  have "cstr m (p + of_nat (Suc (length xs))) ys"
    using cstr_drop [of m p "xs @ [c]" ys] assms(1) by simp
  moreover have "?m (p + of_nat (Suc (length xs)) + of_nat i) = m (p + of_nat (Suc (length xs)) + of_nat i)"
    if "i \<le> length ys" for i
    using ne [of "Suc (length xs) + i"] that by (simp add: add.assoc)
  ultimately show "cstr ?m (p + of_nat (Suc (length xs))) ys" using cstr_cong [of ys ?m] by blast
qed

text \<open>
  One call: nothing is left, or the next word, with the rest behind it; only the byte behind the
  word changes.
\<close>

lemma strtok_next:
  assumes "cstr m d [32]" "cstr m p xs" "p \<noteq> NULL" "length xs + 2 \<le> 2 ^ 64" "q = NULL \<and> t = p \<or> q = p"
    and "xs' = dropWhile (\<lambda>c. c = 32) xs"
  shows "xs' = [] \<Longrightarrow> \<exists>t'. strtok q d t m = Some (NULL, t', m)"
    "xs' \<noteq> [] \<Longrightarrow> \<exists>b t' m' k. strtok q d t m = Some (b, t', m') \<and> cstr m' b (takeWhile (\<lambda>c. c \<noteq> 32) xs') \<and>
       cstr m' t' (tl (dropWhile (\<lambda>c. c \<noteq> 32) xs')) \<and> b = p + of_nat (length xs - length xs') \<and>
       t' = p + of_nat k \<and> k + length (tl (dropWhile (\<lambda>c. c \<noteq> 32) xs')) = length xs \<and>
       (\<forall>x. x \<notin> region p (length xs) \<longrightarrow> m' x = m x)"
proof -
  let ?s = "length (takeWhile (\<lambda>c. c = 32) xs)"
  have split: "xs = takeWhile (\<lambda>c. c = 32) xs @ xs'" using assms(6) by simp
  have len: "?s + length xs' = length xs" using arg_cong [OF split, of length] by simp
  let ?b = "p + of_nat ?s"
  have b: "cstr m ?b xs'" using cstr_drop [of m p "takeWhile (\<lambda>c. c = 32) xs" xs'] split assms(2) by simp
  have sk: "skip_delims m d p = Some ?b" by (rule skip_delims_ok [OF assms(1,2)])
  have q: "(if q \<noteq> NULL then q else t) = p" using assms(3,5) by auto
  show "\<exists>t'. strtok q d t m = Some (NULL, t', m)" if "xs' = []"
    using b q sk that assms(3) by (auto simp: strtok_def)
  assume ne: "xs' \<noteq> []"
  then have nz: "m ?b \<noteq> 0" using b by (cases xs') auto
  let ?w = "takeWhile (\<lambda>c. c \<noteq> 32) xs'" and ?r = "dropWhile (\<lambda>c. c \<noteq> 32) xs'"
  have cut: "cut_token m d ?b = Some (let n = length ?w in
      if n = length xs' then (?b + of_nat n, m) else (?b + of_nat (Suc n), m(?b + of_nat n := 0)))"
    by (rule cut_token_ok [OF assms(1) b])
  have bl: "?b = p + of_nat (length xs - length xs')" using len by (metis add_diff_cancel_right')
  show "\<exists>b t' m' k. strtok q d t m = Some (b, t', m') \<and> cstr m' b ?w \<and> cstr m' t' (tl ?r) \<and>
      b = p + of_nat (length xs - length xs') \<and> t' = p + of_nat k \<and> k + length (tl ?r) = length xs \<and>
      (\<forall>x. x \<notin> region p (length xs) \<longrightarrow> m' x = m x)"
  proof (cases ?r)
    case Nil
    then have w: "?w = xs'" by (metis append.right_neutral takeWhile_dropWhile_id)
    have "strtok q d t m = Some (?b, p + of_nat (length xs), m)"
      using q sk nz cut assms(3) w len by (simp add: strtok_def Let_def add.assoc flip: of_nat_add)
    moreover have "cstr m (p + of_nat (length xs)) []" using cstr_at [OF assms(2), of "length xs"] by simp
    moreover have "cstr m ?b ?w" by (simp only: w b)
    ultimately show ?thesis unfolding Nil list.sel
      by - (rule exI [of _ ?b], rule exI [of _ "p + of_nat (length xs)"], rule exI [of _ m], rule exI [of _ "length xs"],
          intro conjI bl, simp_all)
  next
    case (Cons c ys)
    then have x: "xs' = ?w @ c # ys" by (metis takeWhile_dropWhile_id)
    then have lx: "length xs' = length ?w + Suc (length ys)" by (metis length_append length_Cons)
    let ?m = "m(?b + of_nat (length ?w) := 0)"
    have lw: "length ?w \<noteq> length xs'" using lx by simp
    have t': "?b + of_nat (Suc (length ?w)) = p + of_nat (?s + Suc (length ?w))" by (simp add: add.assoc)
    have run: "strtok q d t m = Some (?b, ?b + of_nat (Suc (length ?w)), ?m)"
      using q sk nz cut assms(3) lw by (simp add: strtok_def Let_def)
    have c: "cstr ?m ?b ?w" "cstr ?m (?b + of_nat (Suc (length ?w))) ys"
      using cstr_split [of m ?b ?w c ys] b x assms(4) lx len by auto
    have out: "\<forall>x. x \<notin> region p (length xs) \<longrightarrow> ?m x = m x"
    proof -
      have "p + of_nat (?s + length ?w) \<in> region p (length xs)" using lx len by (intro region_mem) simp
      then show ?thesis by (auto simp: add.assoc)
    qed
    have k: "?s + Suc (length ?w) + length ys = length xs" using lx len by simp
    show ?thesis
      by (rule exI [of _ ?b], rule exI [of _ "?b + of_nat (Suc (length ?w))"], rule exI [of _ ?m],
          rule exI [of _ "?s + Suc (length ?w)"], intro conjI run c(1) bl t' out) (use c(2) k Cons in simp_all)
  qed
qed

end
