(* ===== verification/UStdioProps.thy ===== *)
theory UStdioProps
  imports UStdio UStringProps
begin

text \<open>What the programs' formatted output prints, and where their formatted input hangs.\<close>

section \<open>Formats as lists of pieces\<close>

text \<open>
  A format string with its arguments, as the caller means it: plain characters, \<open>%c\<close>, \<open>%s\<close> with
  the string at its address, and \<open>%d\<close>.
\<close>

datatype piece = Lit u8 | Chr u8 | Str ptr "u8 list" | Num int

fun template :: "piece \<Rightarrow> u8 list" where
  "template (Lit c) = [c]"
| "template (Chr c) = [37, 99]"
| "template (Str a xs) = [37, 115]"
| "template (Num n) = [37, 100]"

fun shown :: "piece \<Rightarrow> u8 list" where
  "shown (Lit c) = [c]"
| "shown (Chr c) = [c]"
| "shown (Str a xs) = xs"
| "shown (Num n) = decimal_int n"

fun args_of :: "piece \<Rightarrow> u64 list" where
  "args_of (Lit c) = []"
| "args_of (Chr c) = [ucast c]"
| "args_of (Str a xs) = [a]"
| "args_of (Num n) = [of_int n]"

definition arrays :: "frame \<Rightarrow> ptr set" where
  "arrays L = region (L_buff L) BUFFER_MAX_LENGTH \<union> region (L_tmp L) TMP_LENGTH"

definition frame_ok :: "frame \<Rightarrow> bool" where
  "frame_ok L \<longleftrightarrow> region (L_buff L) BUFFER_MAX_LENGTH \<inter> region (L_tmp L) TMP_LENGTH = {}"

fun piece_ok :: "frame \<Rightarrow> bytes \<Rightarrow> piece \<Rightarrow> bool" where
  "piece_ok L m (Lit c) = (c \<noteq> 0 \<and> c \<noteq> 37)"
| "piece_ok L m (Chr c) = True"
| "piece_ok L m (Str a xs) = (cstr m a xs \<and> length xs \<le> 148 \<and> region a (Suc (length xs)) \<inter> arrays L = {})"
| "piece_ok L m (Num n) = (- (2 ^ 31) < n \<and> n < 2 ^ 31)"

abbreviation same_but :: "ptr set \<Rightarrow> bytes \<Rightarrow> bytes \<Rightarrow> bool" where
  "same_but A m m' \<equiv> \<forall>x. x \<notin> A \<longrightarrow> m' x = m x"

lemma piece_ok_same: "same_but (arrays L) m m' \<Longrightarrow> piece_ok L m q \<Longrightarrow> piece_ok L m' q"
proof (cases q)
  case (Str a xs)
  assume "same_but (arrays L) m m'" "piece_ok L m q"
  then have "cstr m' a xs = cstr m a xs" using Str by (intro cstr_region) auto
  then show ?thesis using Str \<open>piece_ok L m q\<close> by simp
qed auto

section \<open>One conversion\<close>

lemma decimal_int_length:
  assumes "- (2 ^ 31) < n" "n < 2 ^ 31"
  shows "length (decimal_int n) \<le> 11"
proof -
  have "nat (- n) < 10 ^ Suc 9" "nat n < 10 ^ Suc 9" using assms by auto
  then show ?thesis using decimal_length [of "nat (- n)" 9] decimal_length [of "nat n" 9] by (auto simp: decimal_int_def)
qed

lemma place_ok:
  assumes "frame_ok L" "cstr m (L_tmp L) xs" "length xs \<le> 148" "j + length xs \<le> 248"
  shows "\<exists>m'. place L j m = Some (j + length xs, m') \<and> same_but (region (L_buff L) BUFFER_MAX_LENGTH) m m' \<and>
    bytes_at m' (L_buff L) (j + length xs) = bytes_at m (L_buff L) j @ xs"
proof -
  let ?d = "L_buff L + of_nat j"
  let ?m = "snd (u_stringCopy m ?d (int BUFFER_MAX_LENGTH - int j) (L_tmp L))"
  have r: "region ?d (length xs + 2) \<subseteq> region (L_buff L) BUFFER_MAX_LENGTH" using assms(4) by (intro region_sub) simp
  have t: "region (L_tmp L) (Suc (length xs)) \<subseteq> region (L_tmp L) TMP_LENGTH" using assms(3) by (intro region_mono) simp
  have sep: "region (L_tmp L) (Suc (length xs)) \<inter> region ?d (length xs + 2) = {}"
    using assms(1) r t unfolding frame_ok_def by blast
  have c: "cstr ?m ?d xs" "\<And>x. x \<notin> region ?d (length xs + 2) \<Longrightarrow> ?m x = m x"
    using u_stringCopy_ok [OF assms(2) _ _ sep, of "int BUFFER_MAX_LENGTH - int j"] assms(3,4) by auto
  have same: "same_but (region (L_buff L) BUFFER_MAX_LENGTH) m ?m" using c(2) r by blast
  have "cstr ?m (L_tmp L) xs = cstr m (L_tmp L) xs"
    using c(2) sep by (intro cstr_region) blast
  then have "u_stringLength ?m (L_tmp L) = Some (of_nat (length xs))" using assms(2) stringLength_ok by simp
  then have run: "place L j m = Some (j + length xs, ?m)"
    using assms(3) by (simp add: place_def unat_of_nat64 del: u_stringCopy_def)
  have "bytes_at ?m (L_buff L) (j + length xs) = bytes_at m (L_buff L) j @ xs"
  proof (rule nth_equalityI)
    fix i assume "i < length (bytes_at ?m (L_buff L) (j + length xs))"
    then have i: "i < j + length xs" by simp
    show "bytes_at ?m (L_buff L) (j + length xs) ! i = (bytes_at m (L_buff L) j @ xs) ! i"
    proof (cases "i < j")
      case True
      have "L_buff L + of_nat i \<notin> region ?d (length xs + 2)"
      proof
        assume "L_buff L + of_nat i \<in> region ?d (length xs + 2)"
        then obtain k where "k < length xs + 2" "L_buff L + of_nat i = L_buff L + of_nat (j + k)"
          by (auto simp: region_def add.assoc)
        then show False using region_inj [of 250 i "j + k" "L_buff L"] True assms(4) by auto
      qed
      then show ?thesis using c(2) True i by (simp add: nth_append)
    next
      case False
      have "i - j < length xs" using i False by arith
      then have "?m (?d + of_nat (i - j)) = xs ! (i - j)" using c(1) unfolding cstr_iff by blast
      moreover have "L_buff L + of_nat i = ?d + of_nat (i - j)" 
      proof -
        have "of_nat i = (of_nat j + of_nat (i - j) :: ptr)" using False by (metis not_less add_diff_inverse_nat of_nat_add)
        then show ?thesis by (simp only: add.assoc)
      qed
      moreover have "bytes_at ?m (L_buff L) (j + length xs) ! i = ?m (L_buff L + of_nat i)" by (rule bytes_at_nth [OF i])
      moreover have "(bytes_at m (L_buff L) j @ xs) ! i = xs ! (i - j)" by (simp add: nth_append False)
      ultimately show ?thesis by (simp only:)
    qed
  qed simp
  then show ?thesis using run same by blast
qed

fun letter :: "piece \<Rightarrow> u8" where
  "letter (Chr c) = 99" | "letter (Str a xs) = 115" | "letter (Num n) = 100" | "letter (Lit c) = c"

lemma convert_ok:
  assumes "frame_ok L" "piece_ok L m q" "q = Str a xs \<or> q = Num n"
  shows "\<exists>m'. convert L (letter q) (hd (args_of q)) m = Some m' \<and> same_but (region (L_tmp L) TMP_LENGTH) m m' \<and>
    cstr m' (L_tmp L) (shown q) \<and> length (shown q) \<le> 148"
  using assms(3)
proof
  assume q: "q = Str a xs"
  then have a: "cstr m a xs" "length xs \<le> 148" "region a (Suc (length xs)) \<inter> arrays L = {}" using assms(2) by auto
  have r: "region (L_tmp L) (length xs + 2) \<subseteq> region (L_tmp L) TMP_LENGTH" using a(2) by (intro region_mono) simp
  then have "region a (Suc (length xs)) \<inter> region (L_tmp L) (length xs + 2) = {}" using a(3) by (auto simp: arrays_def)
  then show ?thesis
    using u_stringCopy_ok [OF a(1), of "int TMP_LENGTH" "L_tmp L"] a(2) r q by (auto simp: convert_def)
next
  assume q: "q = Num n"
  then have n: "- (2 ^ 31) < n" "n < 2 ^ 31" using assms(2) by auto
  have l: "length (decimal_int n) \<le> 11" by (rule decimal_int_length [OF n])
  have "arg_int (of_int n) = n"
  proof -
    have "(ucast (of_int n :: u64) :: u32) = of_int n" by (simp add: unsigned_of_int) (transfer, simp)
    moreover have "sint (of_int n :: u32) = n" using n by (subst sint_sbintrunc') (simp add: signed_take_bit_int_eq_self)
    ultimately show ?thesis by (simp add: arg_int_def)
  qed
  moreover have "region (L_tmp L) (Suc (length (decimal_int n))) \<subseteq> region (L_tmp L) TMP_LENGTH"
    using l by (intro region_mono) simp
  moreover obtain r m' where "u_numToString n (L_tmp L) (int TMP_LENGTH) m = Some (r, m')" "cstr m' (L_tmp L) (decimal_int n)"
    "\<forall>x. x \<notin> region (L_tmp L) (Suc (length (decimal_int n))) \<longrightarrow> m' x = m x"
    using u_numToString_ok [OF n] by blast
  ultimately show ?thesis using q l by (auto simp: convert_def)
qed

lemma bytes_at_snoc: "bytes_at m a (Suc j) = bytes_at m a j @ [m (a + of_nat j)]"
  by (simp add: bytes_at_def)

lemma put_byte:
  assumes "j < BUFFER_MAX_LENGTH"
  shows "bytes_at (m(L_buff L + of_nat j := c)) (L_buff L) (Suc j) = bytes_at m (L_buff L) j @ [c]"
    "same_but (arrays L) m (m(L_buff L + of_nat j := c))"
proof -
  have "bytes_at (m(L_buff L + of_nat j := c)) (L_buff L) j = bytes_at m (L_buff L) j"
  proof (rule bytes_at_eqI)
    fix i assume "i < j"
    then have "L_buff L + of_nat i \<noteq> L_buff L + of_nat j" using region_inj [of 250 i j "L_buff L"] assms by simp
    then show "(m(L_buff L + of_nat j := c)) (L_buff L + of_nat i) = m (L_buff L + of_nat i)" by simp
  qed
  then show "bytes_at (m(L_buff L + of_nat j := c)) (L_buff L) (Suc j) = bytes_at m (L_buff L) j @ [c]"
    by (simp add: bytes_at_snoc)
  have "L_buff L + of_nat j \<in> arrays L" using assms by (auto simp: arrays_def)
  then show "same_but (arrays L) m (m(L_buff L + of_nat j := c))" by auto
qed

lemma conversion_ok:
  assumes "frame_ok L" "piece_ok L m q" "\<And>c. q \<noteq> Lit c" "j + length (shown q) \<le> 248"
  shows "\<exists>m'. conversion L (letter q) (args_of q @ rest) j m = Some (Inr (j + length (shown q), rest, m')) \<and>
    same_but (arrays L) m m' \<and> bytes_at m' (L_buff L) (j + length (shown q)) = bytes_at m (L_buff L) j @ shown q"
proof (cases "\<exists>c. q = Chr c")
  case True
  then obtain c where q: "q = Chr c" by blast
  have "(ucast (ucast c :: u64) :: u8) = c" by (transfer, simp add: take_bit_take_bit)
  then show ?thesis using put_byte [where j = j and m = m and L = L and c = c] q assms(4) by (simp add: conversion_def)
next
  case False
  then obtain a xs n where q: "q = Str a xs \<or> q = Num n" using assms(3) by (cases q) auto
  obtain m1 where m1: "convert L (letter q) (hd (args_of q)) m = Some m1" "same_but (region (L_tmp L) TMP_LENGTH) m m1"
    "cstr m1 (L_tmp L) (shown q)" "length (shown q) \<le> 148"
    using convert_ok [OF assms(1,2) q] by blast
  obtain m2 where m2: "place L j m1 = Some (j + length (shown q), m2)" "same_but (region (L_buff L) BUFFER_MAX_LENGTH) m1 m2"
    "bytes_at m2 (L_buff L) (j + length (shown q)) = bytes_at m1 (L_buff L) j @ shown q"
    using place_ok [OF assms(1) m1(3,4) assms(4)] by blast
  have "bytes_at m1 (L_buff L) j = bytes_at m (L_buff L) j"
  proof (rule bytes_at_eqI)
    fix i assume "i < j"
    then have "L_buff L + of_nat i \<in> region (L_buff L) BUFFER_MAX_LENGTH" using assms(4) by auto
    then show "m1 (L_buff L + of_nat i) = m (L_buff L + of_nat i)" using m1(2) assms(1) unfolding frame_ok_def by blast
  qed
  moreover have "same_but (arrays L) m m2" using m1(2) m2(2) by (auto simp: arrays_def)
  moreover have "conversion L (letter q) (args_of q @ rest) j m = Some (Inr (j + length (shown q), rest, m2))"
    using m1(1) m2(1) q by (auto simp: conversion_def)
  ultimately show ?thesis using m2(3) by metis
qed

section \<open>The whole format\<close>

abbreviation templates :: "piece list \<Rightarrow> u8 list" where "templates ps \<equiv> concat (map template ps)"
abbreviation rendered :: "piece list \<Rightarrow> u8 list" where "rendered ps \<equiv> concat (map shown ps)"

lemma template_conv: "(\<And>c. q \<noteq> Lit c) \<Longrightarrow> template q = [37, letter q]"
  by (cases q) auto

text \<open>What stands behind the pieces is left to the rest of the loop.\<close>

lemma fmt_loop_prefix:
  assumes "frame_ok L"
  shows "cstr m (str + of_nat i) (templates ps @ tail) \<Longrightarrow>
    region (str + of_nat i) (Suc (length (templates ps @ tail))) \<inter> arrays L = {} \<Longrightarrow>
    list_all (piece_ok L m) ps \<Longrightarrow> j + length (rendered ps) \<le> 248 \<Longrightarrow>
    \<exists>m'. fmt_loop L str i j (concat (map args_of ps) @ rest) m =
        fmt_loop L str (i + length (templates ps)) (j + length (rendered ps)) rest m' \<and>
      same_but (arrays L) m m' \<and> bytes_at m' (L_buff L) (j + length (rendered ps)) = bytes_at m (L_buff L) j @ rendered ps"
proof (induction ps arbitrary: i j m)
  case Nil
  then show ?case by auto
next
  case (Cons q ps)
  let ?l = "length (template q)" and ?n = "length (shown q)"
  have sub: "region (str + of_nat (i + ?l)) (Suc (length (templates ps @ tail))) \<inter> arrays L = {}"
    using Cons.prems(2) region_sub [of ?l "Suc (length (templates ps @ tail))" "Suc (length (templates (q # ps) @ tail))" "str + of_nat i"]
    by (auto simp: add.assoc)
  have tl: "cstr m (str + of_nat (i + ?l)) (templates ps @ tail)"
    using cstr_drop [of m "str + of_nat i" "template q" "templates ps @ tail"] Cons.prems(1) by (simp add: add.assoc)
  have step: "\<exists>m1. fmt_loop L str i j (concat (map args_of (q # ps)) @ rest) m =
      fmt_loop L str (i + ?l) (j + ?n) (concat (map args_of ps) @ rest) m1 \<and> same_but (arrays L) m m1 \<and>
      bytes_at m1 (L_buff L) (j + ?n) = bytes_at m (L_buff L) j @ shown q"
  proof (cases "\<exists>c. q = Lit c")
    case True
    then obtain c where q: "q = Lit c" by blast
    have c: "m (str + of_nat i) = c" "c \<noteq> 0" "c \<noteq> 37" using Cons.prems(1,3) q by auto
    have "fmt_loop L str i j (concat (map args_of (q # ps)) @ rest) m =
        fmt_loop L str (Suc i) (Suc j) (concat (map args_of ps) @ rest) (m(L_buff L + of_nat j := c))"
      using c Cons.prems(4) q by (subst fmt_loop.simps) simp
    then show ?thesis using put_byte [where j = j and m = m and L = L and c = c] Cons.prems(4) q by auto
  next
    case False
    then have nl: "\<And>c. q \<noteq> Lit c" by blast
    have c: "m (str + of_nat i) = 37" "m (str + of_nat (Suc i)) = letter q"
      using Cons.prems(1) template_conv [OF nl] by (simp_all add: algebra_simps)
    obtain m1 where m1: "conversion L (letter q) (args_of q @ concat (map args_of ps) @ rest) j m = Some (Inr (j + ?n, concat (map args_of ps) @ rest, m1))"
      "same_but (arrays L) m m1" "bytes_at m1 (L_buff L) (j + ?n) = bytes_at m (L_buff L) j @ shown q"
      using conversion_ok [OF assms _ nl, of m j "concat (map args_of ps) @ rest"] Cons.prems(3,4) by auto
    have "fmt_loop L str i j (concat (map args_of (q # ps)) @ rest) m =
        fmt_loop L str (Suc (Suc i)) (j + ?n) (concat (map args_of ps) @ rest) m1"
      using c m1(1) Cons.prems(4) by (subst fmt_loop.simps) (simp del: of_nat_Suc)
    then show ?thesis using m1(2,3) template_conv [OF nl] by auto
  qed
  then obtain m1 where m1: "fmt_loop L str i j (concat (map args_of (q # ps)) @ rest) m =
      fmt_loop L str (i + ?l) (j + ?n) (concat (map args_of ps) @ rest) m1" "same_but (arrays L) m m1"
    "bytes_at m1 (L_buff L) (j + ?n) = bytes_at m (L_buff L) j @ shown q"
    by blast
  have "cstr m1 (str + of_nat (i + ?l)) (templates ps @ tail) = cstr m (str + of_nat (i + ?l)) (templates ps @ tail)"
    using m1(2) sub by (intro cstr_region) blast
  then have "cstr m1 (str + of_nat (i + ?l)) (templates ps @ tail)" using tl by simp
  moreover have "list_all (piece_ok L m1) ps"
    using Cons.prems(3) piece_ok_same [OF m1(2)] by (auto simp: list_all_iff)
  ultimately obtain m' where m': "fmt_loop L str (i + ?l) (j + ?n) (concat (map args_of ps) @ rest) m1 =
      fmt_loop L str (i + ?l + length (templates ps)) (j + ?n + length (rendered ps)) rest m'"
    "same_but (arrays L) m1 m'" "bytes_at m' (L_buff L) (j + ?n + length (rendered ps)) = bytes_at m1 (L_buff L) (j + ?n) @ rendered ps"
    using Cons.IH [of m1 "i + ?l" "j + ?n"] sub Cons.prems(4) by auto
  then show ?case using m1 by (auto simp: add.assoc)
qed

lemma fmt_loop_ok:
  assumes "frame_ok L" "cstr m (str + of_nat i) (templates ps)" "region (str + of_nat i) (Suc (length (templates ps))) \<inter> arrays L = {}"
    and "list_all (piece_ok L m) ps" "j + length (rendered ps) \<le> 248"
  shows "\<exists>m'. fmt_loop L str i j (concat (map args_of ps)) m = Some (Inr (j + length (rendered ps), m')) \<and>
    same_but (arrays L) m m' \<and> bytes_at m' (L_buff L) (j + length (rendered ps)) = bytes_at m (L_buff L) j @ rendered ps"
proof -
  obtain m' where m': "fmt_loop L str i j (concat (map args_of ps)) m =
      fmt_loop L str (i + length (templates ps)) (j + length (rendered ps)) [] m'" "same_but (arrays L) m m'"
    "bytes_at m' (L_buff L) (j + length (rendered ps)) = bytes_at m (L_buff L) j @ rendered ps"
    using fmt_loop_prefix [OF assms(1), of m str i ps "[]" j "[]"] assms by auto
  have "str + of_nat (i + length (templates ps)) \<notin> arrays L"
    using assms(3) region_mem [of "length (templates ps)" "Suc (length (templates ps))" "str + of_nat i"] by (auto simp: add.assoc)
  then have "m' (str + of_nat (i + length (templates ps))) = m (str + of_nat (i + length (templates ps)))" using m'(2) by blast
  moreover have "m (str + of_nat (i + length (templates ps))) = 0"
    using assms(2) cstr_drop [of m "str + of_nat i" "templates ps" "[]"] by (simp add: add.assoc)
  ultimately show ?thesis using m' by (simp add: fmt_loop.simps [of L str "i + length (templates ps)"])
qed

lemma zeroed_out: "x \<notin> region a n \<Longrightarrow> zeroed a n m x = m x"
proof (induction n)
  case (Suc n)
  then show ?case by (auto simp: zeroed_def region_snoc)
qed (simp add: zeroed_def)

lemma clear_frame_out: "same_but (arrays L) m (clear_frame L m)"
  by (simp add: clear_frame_def arrays_def zeroed_out)

lemma length_int_small:
  assumes "n < 2 ^ 31"
  shows "length_int (of_nat n) = int n"
proof -
  have "(ucast (of_nat n :: u64) :: u32) = of_nat n" by (simp add: unsigned_of_nat) (transfer, simp add: of_nat_take_bit take_bit_take_bit)
  moreover have "sint (of_int (int n) :: u32) = int n"
    using assms by (subst sint_sbintrunc') (simp add: signed_take_bit_int_eq_self)
  ultimately show ?thesis by (simp add: length_int_def)
qed

lemma printf_ok:
  assumes "frame_ok L" "cstr (um p) str (templates ps)" "length (templates ps) \<le> 250"
    and "region str (Suc (length (templates ps))) \<inter> arrays L = {}" "list_all (piece_ok L (um p)) ps"
    and "length (rendered ps) \<le> 248" "replies p = (r, ws) # rest"
  shows "\<exists>p'. printf L str (concat (map args_of ps)) p = Some (count_or_eof r, p') \<and>
    calls p' = calls p @ [Written 1 (rendered ps)] \<and> replies p' = rest"
proof -
  let ?m = "clear_frame L (um p)"
  have out: "same_but (arrays L) (um p) ?m" by (rule clear_frame_out)
  have "cstr ?m str (templates ps) = cstr (um p) str (templates ps)"
    using out assms(4) by (intro cstr_region) blast
  moreover have "list_all (piece_ok L ?m) ps"
    using assms(5) piece_ok_same [OF out] by (auto simp: list_all_iff)
  ultimately obtain m' where m': "fmt_loop L str 0 0 (concat (map args_of ps)) ?m = Some (Inr (length (rendered ps), m'))"
    "bytes_at m' (L_buff L) (length (rendered ps)) = rendered ps"
    using fmt_loop_ok [OF assms(1), of ?m str 0 ps 0] assms(2,4,6) by (auto simp: bytes_at_def)
  have "unat (of_nat (length (rendered ps)) :: u64) = length (rendered ps)" using assms(6) by (simp add: unat_of_nat64)
  then show ?thesis
    using m' assms(3,6,7) stringLength_ok [OF assms(2)] length_int_small [of "length (templates ps)"]
    by (simp add: printf_def u_write_def trap_def)
qed

text \<open> (C26)
  Formatted output: a format made of plain characters, \<open>%c\<close>, \<open>%s\<close> and \<open>%d\<close>, of at most 250
  characters and apart from the arrays of the frame, is written to standard output in one call
  with every conversion replaced by its argument's text, as long as the text has at most 248
  characters; the value returned is that of the call.
\<close>

theorem printf_prints:
  assumes "frame_ok L" "cstr (um p) str (templates ps)" "length (templates ps) \<le> 250"
    and "region str (Suc (length (templates ps))) \<inter> arrays L = {}" "list_all (piece_ok L (um p)) ps"
    and "length (rendered ps) \<le> 248" "replies p = (r, ws) # rest"
  shows "\<exists>p'. printf L str (concat (map args_of ps)) p = Some (count_or_eof r, p') \<and>
    calls p' = calls p @ [Written 1 (rendered ps)] \<and> replies p' = rest"
  using assms by (rule printf_ok)

definition demo_frame :: frame where "demo_frame = \<lparr>L_c = 0x30000, L_buff = 0x10000, L_tmp = 0x20000\<rparr>"

lemma demo_frame_ok: "frame_ok demo_frame"
  using region_apart [of "0x10000" 250 "0x20000" 150] by (simp add: frame_ok_def demo_frame_def)

text \<open>The format \<open>n=%d%c\<close>.\<close>

definition demo_proc :: "reply list \<Rightarrow> proc" where
  "demo_proc rs = \<lparr>um = tbl 0 [(0x100, 110), (0x101, 61), (0x102, 37), (0x103, 100), (0x104, 37), (0x105, 99)],
     replies = rs, calls = []\<rparr>"

lemma printf_prints_witness:
  "\<exists>p'. printf demo_frame 0x100 [- 42, 33] (demo_proc [(6, [])]) = Some (6, p') \<and>
     calls p' = [Written 1 [110, 61, 45, 52, 50, 33]]"
proof -
  let ?ps = "[Lit 110, Lit 61, Num (- 42), Chr 33]"
  have "region 0x100 (Suc (length (templates ?ps))) \<inter> arrays demo_frame = {}"
    using region_apart [of "0x100" "Suc (length (templates ?ps))" "0x10000" 250]
      region_apart [of "0x100" "Suc (length (templates ?ps))" "0x20000" 150]
    by (auto simp: arrays_def demo_frame_def)
  moreover have "decimal_int (- 42) = [45, 52, 50]" by (simp add: decimal_int_def decimal.simps)
  moreover have "count_or_eof 6 = 6" by (simp add: count_or_eof_def)
  ultimately have "\<exists>p'. printf demo_frame 0x100 [- 42, 33] (demo_proc [(6, [])]) = Some (6, p') \<and>
      calls p' = [Written 1 [110, 61, 45, 52, 50, 33]] \<and> replies p' = []"
    using printf_prints [OF demo_frame_ok, of "demo_proc [(6, [])]" "0x100" ?ps 6 "[]" "[]"]
    by (simp add: demo_proc_def tbl_eval)
  then show ?thesis by blast
qed

text \<open> (C27)
  A letter behind \<open>%\<close> that is no conversion: whatever correct pieces stand in front of it, \<open>printf\<close>
  writes nothing to standard output; it writes its complaint to standard error, in one call, and
  returns -1.
\<close>

theorem printf_rejects:
  assumes "frame_ok L" "cstr (um p) str (templates ps @ 37 # c # cs)" "c \<notin> {99, 100, 112, 115, 120}"
    and "length (templates ps @ 37 # c # cs) \<le> 250"
    and "region str (Suc (length (templates ps @ 37 # c # cs))) \<inter> arrays L = {}" "list_all (piece_ok L (um p)) ps"
    and "length (rendered ps) \<le> 248" "replies p = (r, ws) # rest"
  shows "\<exists>p'. printf L str (concat (map args_of ps) @ args) p = Some (- 1, p') \<and> replies p' = rest \<and>
    calls p' = calls p @ [Written 2 (map of_char (printf_expected @ ''.'' @ eol))]"
proof -
  let ?t = "templates ps @ 37 # c # cs" and ?m = "clear_frame L (um p)" and ?k = "length (templates ps)"
  have out: "same_but (arrays L) (um p) ?m" by (rule clear_frame_out)
  have "cstr ?m str ?t = cstr (um p) str ?t" using out assms(5) by (intro cstr_region) blast
  then have fs: "cstr ?m str ?t" using assms(2) by simp
  have "list_all (piece_ok L ?m) ps" using assms(6) piece_ok_same [OF out] by (auto simp: list_all_iff)
  then obtain m' where m': "fmt_loop L str 0 0 (concat (map args_of ps) @ args) ?m = fmt_loop L str ?k (length (rendered ps)) args m'"
    "same_but (arrays L) ?m m'"
    using fmt_loop_prefix [OF assms(1), of ?m str 0 ps "37 # c # cs" 0 args] fs assms(5,7) by auto
  have same: "m' (str + of_nat i) = ?t ! i" if "i < length ?t" for i
  proof -
    have "str + of_nat i \<notin> arrays L" using assms(5) region_mem [of i "Suc (length ?t)" str] that by auto
    then have "m' (str + of_nat i) = ?m (str + of_nat i)" using m'(2) by blast
    then show ?thesis using fs that unfolding cstr_iff by metis
  qed
  have "m' (str + of_nat ?k) = 37" "m' (str + of_nat (Suc ?k)) = c"
    using same [of ?k] same [of "Suc ?k"] by (simp_all add: nth_append del: of_nat_Suc)
  then have "fmt_loop L str ?k (length (rendered ps)) args m' = Some (Inl m')"
    using assms(3,7) by (subst fmt_loop.simps) (simp add: conversion_def del: of_nat_Suc)
  then show ?thesis
    using m'(1) assms(4,8) stringLength_ok [OF assms(2)] length_int_small [of "length ?t"]
    by (simp add: printf_def write_text_def trap_def)
qed

text \<open>The format \<open>n=%d%c\<close> with the last letter overwritten.\<close>

lemma printf_rejects_witness:
  "\<exists>p'. printf demo_frame 0x100 [- 42] ((demo_proc [(6, [])])\<lparr>um := (um (demo_proc []))(0x105 := 33)\<rparr>) = Some (- 1, p')"
proof -
  let ?p = "(demo_proc [(6, [])])\<lparr>um := (um (demo_proc []))(0x105 := 33)\<rparr>"
  let ?ps = "[Lit 110, Lit 61, Num (- 42)]"
  have "region 0x100 (Suc (length (templates ?ps @ [37, 33]))) \<inter> arrays demo_frame = {}"
    using region_apart [of "0x100" "Suc (length (templates ?ps @ [37, 33]))" "0x10000" 250]
      region_apart [of "0x100" "Suc (length (templates ?ps @ [37, 33]))" "0x20000" 150]
    by (auto simp: arrays_def demo_frame_def)
  moreover have "decimal_int (- 42) = [45, 52, 50]" by (simp add: decimal_int_def decimal.simps)
  ultimately show ?thesis
    using printf_rejects [OF demo_frame_ok, of ?p "0x100" ?ps 33 "[]" 6 "[]" "[]" "[]"]
    by (auto simp: demo_proc_def tbl_eval)
qed

section \<open>Formatted input\<close>

lemma width_loop_hangs: "width_loop m at d = Some r \<Longrightarrow> \<not> u_isCharNum (m at)"
proof (rule width_loop.raw_induct [where P = "\<lambda>m at d r. \<not> u_isCharNum (m at)"])
  fix f :: "bytes \<Rightarrow> ptr \<Rightarrow> int \<Rightarrow> int option" and m at d r
  assume "\<And>m at d r. f m at d = Some r \<Longrightarrow> \<not> u_isCharNum (m at)"
    and "(if u_isCharNum (m at) then int32 (d * 10) \<bind> (\<lambda>d1. int32 (d1 + (uint (m at) - 48)) \<bind> (\<lambda>d2. f m at d2))
      else Some d) = Some r"
  then show "\<not> u_isCharNum (m at)" by (fastforce simp: bind_eq_Some_conv split: if_splits)
qed

text \<open>
  A width in the format of \<^verbatim>\<open>scanf\<close>, as in \<open>%20s\<close>, is never passed: when the formatted input comes
  to a digit behind a percent sign and has text left, it does not return.
\<close>

theorem scanf_width_hangs:
  assumes "str \<noteq> NULL" "um p (str + of_nat i) = 37" "u_isCharNum (um p (str + of_nat (Suc i)))"
    and "um p (L_buff L + of_nat j) \<noteq> 0"
  shows "scan_loop L str i j args p = None"
proof -
  have "width_loop (um p) (str + of_nat (Suc i)) 0 = None"
    using width_loop_hangs assms(3) by (metis option.exhaust)
  moreover have "um p (str + of_nat (Suc i)) \<notin> {99, 100, 120}"
    using assms(3) by (auto simp: u_isCharNum_def isCharNum_def)
  ultimately show ?thesis
    using assms by (subst scan_loop.simps) (simp del: of_nat_Suc)
qed

lemma scanf_width_hangs_witness:
  "scan_loop demo_frame 0x100 0 0 [0x500]
     \<lparr>um = tbl 0 [(0x100, 37), (0x101, 57), (0x102, 115), (0x10000, 104)], replies = [], calls = []\<rparr> = None"
  by (rule scanf_width_hangs) (simp_all add: tbl_eval demo_frame_def u_isCharNum_def isCharNum_def)

end
