(* ===== verification/ProgramsProps.thy ===== *)
theory ProgramsProps
  imports Programs UStdioProps
begin

text \<open>
  What the programs do with what they are given: the filters on a stream of characters, the
  numbers of a command line, and the routine of the kernel behind each system call.
\<close>

section \<open>The interface to the kernel\<close>

text \<open>
  The registers of the calling convention when a program raises \<^verbatim>\<open>int 80h\<close>.  A stub loads
  \<open>rax\<close>; the arguments of its C prototype are in the other registers, in order, and a register
  that is no argument holds whatever it held before.
\<close>

record regs =
  r_ax :: u64
  r_di :: u64
  r_si :: u64
  r_dx :: u64
  r_cx :: u64
  r_8 :: u64
  r_9 :: u64

definition nth_or :: "u64 list \<Rightarrow> nat \<Rightarrow> u64 \<Rightarrow> u64" where
  "nth_or args i d = (if i < length args then args ! i else d)"

definition loaded :: "nat \<Rightarrow> u64 list \<Rightarrow> regs \<Rightarrow> regs" where
  "loaded n args R = \<lparr>r_ax = of_nat n, r_di = nth_or args 0 (r_di R), r_si = nth_or args 1 (r_si R),
     r_dx = nth_or args 2 (r_dx R), r_cx = nth_or args 3 (r_cx R), r_8 = nth_or args 4 (r_8 R), r_9 = nth_or args 5 (r_9 R)\<rparr>"

text \<open>
  \<^verbatim>\<open>_syscallsHandler\<close>: it pushes \<open>rsp\<close> and \<open>r9\<close>, which become the last two arguments of the
  dispatcher, moves every register one place up the convention, and calls the dispatcher.
\<close>

definition int80Handler :: "regs \<Rightarrow> ptr \<Rightarrow> machine \<Rightarrow> outcome" where
  "int80Handler R rsp M =
    (let pushed = r_9 R;
         R = R\<lparr>r_9 := r_8 R\<rparr>;
         R = R\<lparr>r_8 := r_cx R\<rparr>;
         R = R\<lparr>r_cx := r_dx R\<rparr>;
         R = R\<lparr>r_dx := r_si R\<rparr>;
         R = R\<lparr>r_si := r_di R\<rparr>;
         R = R\<lparr>r_di := r_ax R\<rparr>
     in syscallsDispatcher (r_di R) (r_si R) (r_dx R) (r_cx R) (r_8 R) (r_9 R) pushed rsp M)"

text \<open>How the kernel handles a call with a number and arguments, whatever the other registers hold.\<close>

definition handled :: "nat \<Rightarrow> u64 list \<Rightarrow> regs \<Rightarrow> ptr \<Rightarrow> machine \<Rightarrow> outcome" where
  "handled n args R = int80Handler (loaded n args R)"

text \<open>
  The request a program records is that of call \<open>n\<close> with \<open>args\<close>; the one for a write is recorded with
  the bytes that are at the buffer when the call is made.
\<close>

definition request_is :: "ucall \<Rightarrow> nat \<Rightarrow> u64 list \<Rightarrow> proc \<Rightarrow> bool" where
  "request_is c n args p \<longleftrightarrow> (case c of Call k as \<Rightarrow> k = n \<and> as = args
     | Written fd bs \<Rightarrow> n = 1 \<and> (case args of [fd', b, k] \<Rightarrow> fd' = fd \<and> bs = bytes_at (um p) b (unat k) | _ \<Rightarrow> False))"

definition reaches :: "(proc \<Rightarrow> (u64 \<times> proc) option) \<Rightarrow> (ptr \<Rightarrow> machine \<Rightarrow> outcome) \<Rightarrow> bool" where
  "reaches w h \<longleftrightarrow> (\<exists>n args. (\<forall>p. \<exists>c. w p = trap c p \<and> request_is c n args p) \<and> (\<forall>R. handled n args R = h))"

lemma reachesI: "(\<And>R. handled n args R = h) \<Longrightarrow> reaches (trap (Call n args)) h"
  unfolding reaches_def by (intro exI [of _ n] exI [of _ args] conjI allI exI [of _ "Call n args"]) (simp_all add: request_is_def)

lemma reaches_write: "(\<And>R. handled 1 [fd, b, n] R = h) \<Longrightarrow> reaches (u_write fd b n) h"
  unfolding reaches_def u_write_def
  by (intro exI [of _ 1] exI [of _ "[fd, b, n]"] conjI allI exI [of _ "Written fd (bytes_at (um p) b (unat n))" for p])
    (simp_all add: request_is_def)

lemma reaches_read: "u_read fd b n = trap (Call 0 [fd, b, n])"
  by (simp add: fun_eq_iff u_read_def)

lemmas stubs = reaches_read u_clear_def u_beep_def u_sleep_def u_clock_def u_getScreenH_def u_getScreenW_def
  u_getPtrToPixel_def u_gameRead_def u_getPenX_def u_getPenY_def u_changeFont_def u_drawLine_def u_memoryDump_def
  u_getRegs_def u_sysBlock_def u_sysUnblock_def u_sysKill_def u_sysExecve_def u_sysFork_def u_idle_def u_sysPs_def
  u_sysPriority_def u_sysChangeState_def u_wait_def u_sysExit_def u_sysSemOpen_def u_sysSemUp_def u_sysSemDown_def
  u_sysSemClose_def u_pipe_def u_close_def u_sysMalloc_def u_sysFree_def u_sysRealloc_def u_setToForeground_def
  u_setToBackground_def u_dup2_def u_yield_def u_getPid_def u_getFreeMemory_def u_getUsedMemory_def

lemmas table = loaded_def nth_or_def int80Handler_def Let_def syscallsDispatcher_def setSyscalls_def TOTAL_SYSCALLS_def

text \<open> (C17)
  Every system call stub of the programs, all 43 of them, reaches the routine of the kernel that its
  name says, with its arguments in their places and whatever is in the registers that hold no
  argument: the numbers of the assembly stubs, the moves of the interrupt handler and the order of
  the kernel's table agree.
\<close>

theorem system_calls_agree:
  "reaches (u_read fd b n) (\<lambda>rsp. arqSysRead fd b n) \<and> reaches (u_write fd b n) (\<lambda>rsp. arqSysWrite fd b n) \<and>
   reaches u_clear (\<lambda>rsp. arqSysClear) \<and>
   reaches (u_beep n) (\<lambda>rsp. arqSysBeep n) \<and> reaches (u_sleep n) (\<lambda>rsp. arqSysSleep n) \<and>
   reaches (u_clock a b c) (\<lambda>rsp. arqSysClock a b c) \<and> reaches (u_getScreenH a) (\<lambda>rsp. arqSysScreenHeight a) \<and>
   reaches (u_getScreenW a) (\<lambda>rsp. arqSysScreenWidth a) \<and>
   reaches (u_getPtrToPixel a b c) (\<lambda>rsp. arqSysgetPtrToPixel a b c) \<and>
   reaches (u_gameRead a) (\<lambda>rsp. arqSysGameRead a) \<and> reaches (u_getPenX a) (\<lambda>rsp. arqSysGetPenX a) \<and>
   reaches (u_getPenY a) (\<lambda>rsp. arqSysGetPenY a) \<and> reaches (u_changeFont n) (\<lambda>rsp. arqSysChangeFontSize n) \<and>
   reaches (u_drawLine x0 y0 x1 y1 c) (\<lambda>rsp. arqSysDrawLine (ucast x0) (ucast y0) (ucast x1) (ucast y1) c) \<and>
   reaches (u_memoryDump a b) (\<lambda>rsp. arqSysMemoryDump a b) \<and> reaches (u_getRegs a) (\<lambda>rsp. arqSysGetRegistersInfo a) \<and>
   reaches (u_sysBlock n) (\<lambda>rsp. arqSysBlock n) \<and> reaches (u_sysUnblock n) (\<lambda>rsp. arqSysUnblock n) \<and>
   reaches (u_sysKill pid) (\<lambda>rsp. arqSysKill (ucast pid)) \<and> reaches (u_sysExecve a b c) (arqSysExecve a b c) \<and>
   reaches u_sysFork arqSysFork \<and> reaches u_idle (\<lambda>rsp. arqSysIdle) \<and> reaches (u_sysPs a) (\<lambda>rsp. arqSysPs a) \<and>
   reaches (u_sysPriority pid pr) (\<lambda>rsp. arqSysPriority (ucast pid) (ucast pr)) \<and>
   reaches (u_sysChangeState pid) (\<lambda>rsp. arqSysChangeState (ucast pid)) \<and>
   reaches u_wait (\<lambda>rsp. arqSysWait) \<and> reaches u_sysExit (\<lambda>rsp. arqSysExit) \<and>
   reaches (u_sysSemOpen a n) (\<lambda>rsp. arqSysSemOpen a n) \<and> reaches (u_sysSemUp a) (\<lambda>rsp. arqSysSemPost a) \<and>
   reaches (u_sysSemDown a) (\<lambda>rsp. arqSysSemWait a) \<and> reaches (u_sysSemClose a) (\<lambda>rsp. arqSysSemClose a) \<and>
   reaches (u_pipe a) (\<lambda>rsp. arqSysPipe a) \<and> reaches (u_close n) (\<lambda>rsp. arqSysClosePd n) \<and>
   reaches (u_sysMalloc n) (\<lambda>rsp. arqSysMalloc n) \<and> reaches (u_sysFree a) (\<lambda>rsp. arqSysFree a) \<and>
   reaches (u_sysRealloc a n) (\<lambda>rsp. arqSysRealloc a n) \<and> reaches u_setToForeground (\<lambda>rsp. arqSysSetToForeground) \<and>
   reaches u_setToBackground (\<lambda>rsp. arqSysSetToBackground) \<and> reaches (u_dup2 a b) (\<lambda>rsp. arqSysDup a b) \<and>
   reaches u_yield (\<lambda>rsp. arqSysYield) \<and> reaches u_getPid (\<lambda>rsp. arqSysGetPid) \<and>
   reaches u_getFreeMemory (\<lambda>rsp. arqSysGetFreeMemory) \<and> reaches u_getUsedMemory (\<lambda>rsp. arqSysGetUsedMemory)"
  unfolding stubs by (intro conjI; rule reachesI reaches_write, simp add: fun_eq_iff handled_def table)

section \<open>Streams of characters\<close>

text \<open>
  What a program may rely on when it talks to its terminal: a character that comes in, the end of
  the input, and a character that is accepted.  \<open>script s es\<close> says that the next answers are \<open>es\<close>,
  \<open>sent s\<close> is what was written so far.
\<close>

datatype io = In u8 | End | Out | Other reply

locale terminal =
  fixes get :: "'s \<Rightarrow> (u8 \<times> 's) option"
    and put :: "u8 \<Rightarrow> 's \<Rightarrow> (int \<times> 's) option"
    and script :: "'s \<Rightarrow> io list \<Rightarrow> bool"
    and sent :: "'s \<Rightarrow> u8 list"
  assumes get_in: "script s (In c # es) \<Longrightarrow> \<exists>s'. get s = Some (c, s') \<and> script s' es \<and> sent s' = sent s"
    and get_end: "script s (End # es) \<Longrightarrow> \<exists>s'. get s = Some (- 1, s') \<and> script s' es \<and> sent s' = sent s"
    and put_out: "script s (Out # es) \<Longrightarrow> \<exists>s'. put c s = Some (1, s') \<and> script s' es \<and> sent s' = sent s @ [c]"

text \<open>A session: the characters of the input, each followed by its echo if it has one, and the end.\<close>

fun session :: "(u8 \<Rightarrow> bool) \<Rightarrow> u8 list \<Rightarrow> io list" where
  "session echoed [] = [End]"
| "session echoed (c # cs) = In c # (if echoed c then [Out] else []) @ session echoed cs"

context terminal
begin

text \<open>Any loop that reads to the end and echoes what it keeps is a filter.\<close>

lemma copies:
  assumes F: "\<And>s. F s = do { (c, s1) \<leftarrow> get s;
      if c \<noteq> - 1 then if keep c then do { (_, s2) \<leftarrow> put c s1; F s2 } else F s1 else Some s1 }"
  shows "- 1 \<notin> set cs \<Longrightarrow> script s (session keep cs @ es) \<Longrightarrow>
    \<exists>s'. F s = Some s' \<and> script s' es \<and> sent s' = sent s @ filter keep cs"
proof (induction cs arbitrary: s)
  case Nil
  then show ?case using get_end [of s es] by (subst F) auto
next
  case (Cons c cs)
  have c: "c \<noteq> - 1" "- 1 \<notin> set cs" using Cons.prems(1) by auto
  obtain s1 where s1: "get s = Some (c, s1)" "script s1 ((if keep c then [Out] else []) @ session keep cs @ es)" "sent s1 = sent s"
    using get_in [of s c] Cons.prems(2) by auto
  show ?case
  proof (cases "keep c")
    case True
    then obtain s2 where "put c s1 = Some (1, s2)" "script s2 (session keep cs @ es)" "sent s2 = sent s1 @ [c]"
      using put_out [of s1 "session keep cs @ es" c] s1(2) by auto
    then show ?thesis using Cons.IH [OF c(2), of s2] s1 c True by (subst F) auto
  next
    case False
    then show ?thesis using Cons.IH [OF c(2), of s1] s1 c by (subst F) auto
  qed
qed

text \<open>A loop that counts newlines and echoes nothing.\<close>

lemma counts:
  assumes F: "\<And>k s. F k s = do { (c, s1) \<leftarrow> get s;
      if c \<noteq> - 1 then if c = 10 then do { k1 \<leftarrow> int32 (k + 1); F k1 s1 } else F k s1 else Some (k, s1) }"
  shows "- 1 \<notin> set cs \<Longrightarrow> script s (session (\<lambda>_. False) cs @ es) \<Longrightarrow> - (2 ^ 31) \<le> k \<Longrightarrow>
    k + int (count_list cs 10) < 2 ^ 31 \<Longrightarrow>
    \<exists>s'. F k s = Some (k + int (count_list cs 10), s') \<and> script s' es \<and> sent s' = sent s"
proof (induction cs arbitrary: s k)
  case Nil
  then show ?case using get_end [of s es] by (subst F) auto
next
  case (Cons c cs)
  have c: "c \<noteq> - 1" "- 1 \<notin> set cs" using Cons.prems(1) by auto
  obtain s1 where s1: "get s = Some (c, s1)" "script s1 (session (\<lambda>_. False) cs @ es)" "sent s1 = sent s"
    using get_in [of s c] Cons.prems(2) by auto
  show ?case
  proof (cases "c = 10")
    case True
    then have "int32 (k + 1) = Some (k + 1)" using Cons.prems(3,4) by (simp add: int32_def)
    then show ?thesis
      using Cons.IH [OF c(2) s1(2), of "k + 1"] s1 c True Cons.prems(3,4) by (subst F) (auto simp: algebra_simps)
  next
    case False
    then show ?thesis using Cons.IH [OF c(2) s1(2), of k] s1 c Cons.prems(3,4) by (subst F) auto
  qed
qed

end

text \<open>The terminal of a process: its next replies, and the bytes it wrote to standard output.\<close>

fun answer :: "ptr \<Rightarrow> io \<Rightarrow> reply" where
  "answer slot (In c) = (1, [(slot, c)])"
| "answer slot End = (0, [])"
| "answer slot Out = (1, [])"
| "answer slot (Other r) = r"

fun sent_by :: "ucall \<Rightarrow> u8 list" where
  "sent_by (Written fd bs) = (if fd = STDOUT_FD then bs else [])"
| "sent_by (Call n args) = []"

definition sent_of :: "proc \<Rightarrow> u8 list" where "sent_of p = concat (map sent_by (calls p))"

definition answers :: "frame \<Rightarrow> proc \<Rightarrow> io list \<Rightarrow> bool" where
  "answers L p es \<longleftrightarrow> replies p = map (answer (L_c L)) es"

interpretation tty: terminal "getChar L" "putChar L" "answers L" sent_of for L
  by unfold_locales
    (auto simp: answers_def getChar_def putChar_def u_read_def u_write_def trap_def store_all_def bytes_at_def sent_of_def)

text \<open>
  \<^verbatim>\<open>cat\<close> without arguments writes its whole input, character by character, and ends with it.
\<close>

theorem cat_echoes:
  assumes "- 1 \<notin> set cs" "answers (fr A) p (session (\<lambda>_. True) cs @ es)" "argsc \<le> 1"
  shows "\<exists>p'. cat A argsc argsv p = Some (0, p') \<and> answers (fr A) p' es \<and> sent_of p' = sent_of p @ cs"
proof -
  have "\<exists>p'. cat_loop A p = Some p' \<and> answers (fr A) p' es \<and> sent_of p' = sent_of p @ filter (\<lambda>_. True) cs"
    by (rule tty.copies [OF _ assms(1,2)], subst cat_loop.simps) (simp cong: if_cong)
  then show ?thesis using assms(3) by (auto simp: cat_def)
qed

text \<open>
  \<^verbatim>\<open>filter\<close> without arguments writes exactly the characters of its input that are no vowels, in
  their order, and ends with its input.
\<close>

theorem filter_drops_vowels:
  assumes "- 1 \<notin> set cs" "answers (fr A) p (session (\<lambda>c. \<not> isVocal c) cs @ es)" "argsc \<le> 1"
  shows "\<exists>p'. filter_program A argsc argsv p = Some (0, p') \<and> answers (fr A) p' es \<and>
    sent_of p' = sent_of p @ filter (\<lambda>c. c \<notin> set (map of_char ''AEIOUaeiou'')) cs"
proof -
  have "\<exists>p'. filter_loop A p = Some p' \<and> answers (fr A) p' es \<and> sent_of p' = sent_of p @ filter (\<lambda>c. \<not> isVocal c) cs"
    by (rule tty.copies [OF _ assms(1,2)], subst filter_loop.simps) simp
  moreover have "(\<lambda>c. \<not> isVocal c) = (\<lambda>c. c \<notin> set (map of_char ''AEIOUaeiou''))"
    by (auto simp: fun_eq_iff isVocal_def vocals_def)
  ultimately have "\<exists>p'. filter_loop A p = Some p' \<and> answers (fr A) p' es \<and>
      sent_of p' = sent_of p @ filter (\<lambda>c. c \<notin> set (map of_char ''AEIOUaeiou'')) cs"
    by simp
  then show ?thesis using assms(3) unfolding filter_program_def by (elim exE) (simp del: set_map)
qed

definition demo_image :: image where
  "demo_image = \<lparr>fr = demo_frame, lit = (\<lambda>_. 0x100), loc = (\<lambda>i. 0x40000)\<rparr>"

lemma cat_echoes_witness:
  "\<exists>p'. cat demo_image 1 0 (demo_proc [(1, [(0x30000, 104)]), (1, []), (0, [])]) = Some (0, p') \<and> sent_of p' = [104]"
  using cat_echoes [of "[104]" demo_image "demo_proc [(1, [(0x30000, 104)]), (1, []), (0, [])]" "[]" 1 0]
  by (auto simp: demo_proc_def demo_image_def demo_frame_def answers_def sent_of_def)

lemma filter_drops_vowels_witness:
  "\<exists>p'. filter_program demo_image 1 0 (demo_proc [(1, [(0x30000, 104)]), (1, []), (1, [(0x30000, 111)]), (0, [])]) = Some (0, p') \<and>
     sent_of p' = [104]"
proof -
  let ?rs = "[(1, [(0x30000, 104)]), (1, []), (1, [(0x30000, 111)]), (0, [])]"
  have "isVocal 111" "\<not> isVocal 104" by (simp_all add: isVocal_def vocals_def)
  then show ?thesis
    using filter_drops_vowels [of "[104, 111]" demo_image "demo_proc ?rs" "[]" 1 0]
    by (auto simp: demo_proc_def demo_image_def demo_frame_def answers_def sent_of_def)
qed

text \<open>Counting lines.\<close>

lemma lits [simp]:
  "concat (map (template \<circ> Lit) xs) = xs" "concat (map (shown \<circ> Lit) xs) = xs" "concat (map (args_of \<circ> Lit) xs) = []"
  by (induction xs) auto

lemma decimal_int_lit: "c \<in> set (decimal_int n) \<Longrightarrow> c \<noteq> 0 \<and> c \<noteq> 37"
  using decimal_chars [of c "nat n"] decimal_chars [of c "nat (- n)"]
  by (auto simp: decimal_int_def isCharNum_def split: if_splits)

text \<open>
  \<^verbatim>\<open>wc\<close> without arguments prints, in decimal and in one call, one more than the number of
  newlines of its input.
\<close>

theorem wc_counts_lines:
  assumes "- 1 \<notin> set cs" "answers (fr A) p (session (\<lambda>_. False) cs @ Other (r, ws) # es)" "argsc \<le> 1"
    and n: "int (count_list cs 10) < 2 ^ 31 - 1"
    and f: "frame_ok (fr A)" "region (loc A 0) 12 \<inter> arrays (fr A) = {}"
  shows "\<exists>p'. wc A argsc argsv p = Some (0, p') \<and> answers (fr A) p' es \<and>
    sent_of p' = sent_of p @ decimal_int (1 + int (count_list cs 10))"
proof -
  let ?n = "1 + int (count_list cs 10)"
  have "\<exists>p1. count_loop A 1 p = Some (?n, p1) \<and> answers (fr A) p1 (Other (r, ws) # es) \<and> sent_of p1 = sent_of p"
    by (rule tty.counts [OF _ assms(1,2)], subst count_loop.simps) (use n in simp_all)
  then obtain p1 where p1: "count_loop A 1 p = Some (?n, p1)" "answers (fr A) p1 (Other (r, ws) # es)" "sent_of p1 = sent_of p"
    by blast
  then have r: "replies p1 = (r, ws) # map (answer (L_c (fr A))) es" by (simp add: answers_def)
  obtain k m where m: "u_numToString ?n (loc A 0) 12 (um p1) = Some (k, m)" "cstr m (loc A 0) (decimal_int ?n)"
    using u_numToString_ok [of ?n "loc A 0" 12 "um p1"] n by auto
  have l: "length (decimal_int ?n) \<le> 11" using n by (intro decimal_int_length) auto
  let ?p = "on_um (\<lambda>_. m) p1"
  have "region (loc A 0) (Suc (length (decimal_int ?n))) \<inter> arrays (fr A) = {}"
    using f(2) region_mono [of "Suc (length (decimal_int ?n))" 12 "loc A 0"] l by auto
  moreover have "list_all (piece_ok (fr A) (um ?p)) (map Lit (decimal_int ?n))"
    using decimal_int_lit by (auto simp: list_all_iff)
  ultimately obtain p2 where "printf (fr A) (loc A 0) [] ?p = Some (count_or_eof r, p2)"
    "calls p2 = calls ?p @ [Written 1 (decimal_int ?n)]" "replies p2 = map (answer (L_c (fr A))) es"
    using printf_ok [OF f(1), of ?p "loc A 0" "map Lit (decimal_int ?n)" r ws] m(2) l r by auto
  then show ?thesis using p1 m(1) assms(3) by (simp add: wc_def answers_def sent_of_def)
qed

lemma wc_counts_lines_witness:
  "\<exists>p'. wc demo_image 1 0 (demo_proc [(1, [(0x30000, 104)]), (1, [(0x30000, 10)]), (0, []), (1, [])]) = Some (0, p') \<and> sent_of p' = [50]"
proof -
  let ?rs = "[(1, [(0x30000, 104)]), (1, [(0x30000, 10)]), (0, []), (1, [])]"
  have "region (loc demo_image 0) 12 \<inter> arrays (fr demo_image) = {}"
    using region_apart [of "0x10000" 250 "0x40000" 12] region_apart [of "0x20000" 150 "0x40000" 12]
    by (auto simp: arrays_def demo_frame_def demo_image_def)
  moreover have "frame_ok (fr demo_image)" using demo_frame_ok by (simp add: demo_image_def)
  moreover have "decimal_int 2 = [50]" by (simp add: decimal_int_def decimal.simps)
  ultimately show ?thesis
    using wc_counts_lines [of "[104, 10]" demo_image "demo_proc ?rs" 1 "[]" "[]" 1 0]
    by (auto simp: demo_proc_def demo_image_def demo_frame_def answers_def sent_of_def)
qed

section \<open>Numbers of a command line\<close>

lemma int_loop_value:
  "\<forall>c\<in>set ds. isCharNum c \<Longrightarrow> cstr m a ds \<Longrightarrow> 0 \<le> v \<Longrightarrow> foldl (\<lambda>v c. v * 10 + charToNum c) v ds < 2 ^ 31 \<Longrightarrow>
     int_loop m a v = Some (foldl (\<lambda>v c. v * 10 + charToNum c) v ds)"
proof (induction ds arbitrary: a v)
  case Nil
  then show ?case by (subst int_loop.simps) (simp add: word_le_nat_alt)
next
  case (Cons c ds)
  have c: "m a = c" "isCharNum c" "cstr m (a + 1) ds" using Cons.prems(1,2) by auto
  let ?w = "v * 10 + charToNum c"
  have k: "0 \<le> charToNum c" by (rule charToNum_ge)
  have w: "?w < 2 ^ 31" using foldl_value_ge [of ?w ds] Cons.prems(3,4) k by simp
  have "int_loop m a v = int_loop m (a + 1) ?w"
    using c w k Cons.prems(3) by (subst int_loop.simps) (simp add: isCharNum_def charToNum_def int32_def)
  then show ?case using Cons.IH [of "a + 1" ?w] c(3) Cons.prems(1,3,4) k by simp
qed

lemma stringToInt_decimal:
  assumes "- (2 ^ 31) < n" "n < 2 ^ 31" "cstr m a (decimal_int n)"
  shows "stringToInt m a = Some n"
proof (cases "n < 0")
  case True
  then have c: "cstr m (a + 1) (decimal (nat (- n)))" "m a = 45" using assms(3) by (auto simp: decimal_int_def)
  have "int_loop m (a + 1) 0 = Some (- n)"
    using int_loop_value [OF _ c(1), of 0] value_decimal [of "nat (- n)"] decimal_chars True assms(1) by auto
  then show ?thesis using c(2) by (simp add: stringToInt_def)
next
  case False
  then have c: "cstr m a (decimal (nat n))" using assms(3) by (simp add: decimal_int_def)
  obtain d ds where d: "decimal (nat n) = d # ds" using decimal_nonempty [of "nat n"] by (cases "decimal (nat n)") auto
  then have "m a \<noteq> 45" using c decimal_chars [of d "nat n"] by auto
  moreover have "int_loop m a 0 = Some n"
    using int_loop_value [OF _ c, of 0] value_decimal [of "nat n"] decimal_chars False assms(2) by auto
  ultimately show ?thesis by (simp add: stringToInt_def)
qed

text \<open>
  \<^verbatim>\<open>kill\<close> with a number as its argument makes one system call: the kernel's kill of the process
  with that number.
\<close>

theorem kill_names_process:
  assumes "2 \<le> argsc" "- (2 ^ 31) < n" "n < 2 ^ 31" "cstr (um p) (arg argsv 1 p) (decimal_int n)" "replies p = (r, ws) # rs"
  shows "\<exists>p'. kill argsc argsv p = Some (0, p') \<and> calls p' = calls p @ [Call 17 [ucast (of_int n :: u32)]] \<and>
    handled 17 [ucast (of_int n :: u32)] R = (\<lambda>rsp. arqSysKill (ucast (of_int n :: u32)))"
proof -
  have "stringToInt (um p) (arg argsv 1 p) = Some n" by (rule stringToInt_decimal [OF assms(2,3,4)])
  then show ?thesis
    using assms(1,5) by (simp add: kill_def u_sysKill_def trap_def fun_eq_iff handled_def table)
qed

definition kill_proc :: proc where
  "kill_proc = \<lparr>um = tbl 0 [(0x209, 3), (0x300, 52), (0x301, 50)], replies = [(1, [])], calls = []\<rparr>"

lemma kill_names_process_witness:
  "\<exists>p'. kill 2 0x200 kill_proc = Some (0, p') \<and> calls p' = [Call 17 [42]]"
proof -
  have "load64 (um kill_proc) 0x208 = 0x300" by (simp add: load64_def kill_proc_def tbl_eval upt_rec)
  then have "arg 0x200 1 kill_proc = 0x300" by (simp add: arg_def)
  moreover have "decimal_int 42 = [52, 50]" by (simp add: decimal_int_def decimal.simps)
  ultimately show ?thesis
    using kill_names_process [of 2 42 kill_proc "0x200" 1 "[]" "[]"] by (auto simp: kill_proc_def tbl_eval)
qed

end
