(* ===== verification/ShellProps.thy ===== *)
theory ShellProps
  imports Shell ProgramsProps
begin

text \<open>
  The shell as its user sees it: how a typed line is edited, which command it names, into which
  arguments it is cut, and what is asked of the kernel to run it.
\<close>

section \<open>Finding the command\<close>

abbreviation codes :: "string \<Rightarrow> u8 list" where "codes t \<equiv> map of_char t"

definition has_text :: "image \<Rightarrow> bytes \<Rightarrow> string \<Rightarrow> bool" where
  "has_text A m t \<longleftrightarrow> cstr m (lit A t) (codes t)"

definition names :: "string list" where "names = map fst loadCommands"

lemma names_count [simp]: "length names = CMDS_COUNT" "length loadCommands = CMDS_COUNT"
  by (simp_all add: names_def loadCommands_def CMDS_COUNT_def)

lemma command_name_nth: "i < CMDS_COUNT \<Longrightarrow> command_name i = names ! i"
  by (simp add: command_name_def names_def)

text \<open>The index of the first name equal to a word, and -1 without one.\<close>

definition word_index :: "u8 list \<Rightarrow> int" where
  "word_index w =
    (case find (\<lambda>i. codes (command_name i) = w) [0..<CMDS_COUNT] of None \<Rightarrow> - 1 | Some i \<Rightarrow> int i)"

abbreviation word_of :: "u8 list \<Rightarrow> u8 list" where "word_of \<equiv> takeWhile (\<lambda>c. c \<noteq> 32)"

lemma names_plain: "list_all (\<lambda>t. 32 \<notin> set (codes t) \<and> length t < 32) names"
  by (simp add: names_def loadCommands_def)

lemma check_from_ok:
  assumes "cstr m line xs" "\<And>i. i \<in> set is \<Longrightarrow> has_text (im A) m (command_name i) \<and> i < CMDS_COUNT"
  shows "check_from A m line is =
    Some (case find (\<lambda>i. codes (command_name i) = word_of xs) is of None \<Rightarrow> - 1 | Some i \<Rightarrow> int i)"
  using assms(2)
proof (induction "is")
  case (Cons i "is")
  let ?n = "lit (im A) (command_name i)" and ?ns = "codes (command_name i)"
  have n: "cstr m ?n ?ns" "i < CMDS_COUNT" using Cons.prems [of i] by (simp_all add: has_text_def)
  have pl: "32 \<notin> set ?ns" "length ?ns < 2 ^ 64"
    using names_plain n(2) by (auto simp: command_name_nth list_all_length)
  have "u_stringLength m ?n = Some (of_nat (length ?ns))" by (rule stringLength_ok [OF n(1)])
  moreover have "u_stringnCompare m ?n line (of_nat (length ?ns)) = 0 \<and>
      (m (line + of_nat (length ?ns)) = 32 \<or> m (line + of_nat (length ?ns)) = 0) \<longleftrightarrow> ?ns = word_of xs"
    using is_first_word [OF n(1) assms(1) pl] by metis
  ultimately have "check_from A m line (i # is) = (if ?ns = word_of xs then Some (int i) else check_from A m line is)"
    by (simp del: length_map)
  then show ?case using Cons.IH Cons.prems by simp
qed simp

lemma checkCommand_ok:
  assumes "list_all (has_text (im A) m) names" "cstr m line xs"
  shows "checkCommand A m line = Some (word_index (word_of xs))"
  unfolding checkCommand_def word_index_def
  by (rule check_from_ok [OF assms(2)]) (use assms(1) in \<open>auto simp: list_all_length command_name_nth\<close>)

text \<open> (C25)
  The shell runs the command that the first word of the line names: with the names in memory,
  \<open>checkCommand\<close> returns the index of the name that equals the line up to its first space, and
  -1 if there is none.
\<close>

theorem checkCommand_finds_word:
  assumes "list_all (has_text (im A) m) names" "cstr m line xs"
  shows "checkCommand A m line = Some (word_index (word_of xs))"
  using assms by (rule checkCommand_ok)

text \<open>Texts in memory, one every 32 bytes.\<close>

definition text_index :: "string list \<Rightarrow> string \<Rightarrow> nat" where
  "text_index ts t = length (takeWhile (\<lambda>u. u \<noteq> t) ts)"

definition rom :: "string list \<Rightarrow> bytes" where
  "rom ts a = (let i = unat a div 32; j = unat a mod 32
     in if 0 < i \<and> i \<le> length ts \<and> j < length (ts ! (i - 1)) then of_char (ts ! (i - 1) ! j) else 0)"

definition rom_lit :: "string list \<Rightarrow> string \<Rightarrow> ptr" where
  "rom_lit ts t = of_nat (32 + 32 * text_index ts t)"

lemma text_index_ok: "t \<in> set ts \<Longrightarrow> text_index ts t < length ts \<and> ts ! text_index ts t = t"
  unfolding text_index_def
proof
  assume "t \<in> set ts"
  then show *: "length (takeWhile (\<lambda>u. u \<noteq> t) ts) < length ts"
    by (induction ts) auto
  then show "ts ! length (takeWhile (\<lambda>u. u \<noteq> t) ts) = t" using nth_length_takeWhile by fastforce
qed

lemma rom_text:
  assumes "t \<in> set ts" "length ts < 1000" "length t < 32" "0 \<notin> set (codes t)"
  shows "cstr (rom ts) (rom_lit ts t) (codes t)"
proof -
  let ?i = "text_index ts t"
  have i: "?i < length ts" "ts ! ?i = t" using text_index_ok [OF assms(1)] by auto
  have a: "unat (rom_lit ts t + of_nat j) = 32 + 32 * ?i + j" if "j < 32" for j
  proof -
    have "rom_lit ts t + of_nat j = of_nat (32 + 32 * ?i + j)" by (simp add: rom_lit_def)
    then show ?thesis using unat_of_nat64 [of "32 + 32 * ?i + j"] that i(1) assms(2) by simp
  qed
  have b: "rom ts (rom_lit ts t + of_nat j) = (if j < length t then of_char (t ! j) else 0)" if "j < 32" for j
  proof -
    have "(32 + 32 * ?i + j) div 32 = Suc ?i" "(32 + 32 * ?i + j) mod 32 = j" 
    proof -
      have e: "32 + 32 * ?i + j = j + 32 * Suc ?i" by simp
      show "(32 + 32 * ?i + j) div 32 = Suc ?i" "(32 + 32 * ?i + j) mod 32 = j"
        unfolding e using that by (simp_all del: mult_Suc_right)
    qed
    then show ?thesis using i by (simp add: rom_def a [OF that] Let_def)
  qed
  show ?thesis using b assms(3,4) unfolding cstr_iff by auto
qed

text \<open>A shell whose constants lie in such a memory, with a line at \<open>0x8000\<close>.\<close>

definition demo_texts :: "string list" where "demo_texts = names @ [PROMPT, '' '']"

definition demo_shell_image :: sh_image where
  "demo_shell_image = \<lparr>im = demo_image\<lparr>lit := rom_lit demo_texts\<rparr>, lastCommand = 0x8000, lastArguments = 0x50000,
     lines_at = 0x60000, commandsFunction = (\<lambda>i. 0x400000 + of_nat i)\<rparr>"

definition demo_rom :: bytes where "demo_rom = rom demo_texts"

lemma demo_texts_ok: "list_all (\<lambda>t. length t < 32 \<and> 0 \<notin> set (codes t)) demo_texts" "length demo_texts = 29"
  by (simp_all add: demo_texts_def names_def loadCommands_def PROMPT_def)

lemma demo_has_text: "t \<in> set demo_texts \<Longrightarrow> has_text (im demo_shell_image) demo_rom t"
  using rom_text [of t demo_texts] demo_texts_ok by (simp add: has_text_def demo_shell_image_def demo_rom_def list_all_iff)

lemma demo_rom_low: "0x1000 \<le> unat a \<Longrightarrow> demo_rom a = 0"
proof -
  assume "0x1000 \<le> unat a"
  then have "\<not> unat a div 32 \<le> length demo_texts" using demo_texts_ok(2) div_le_mono [of "0x1000" "unat a" 32] by simp
  then show "demo_rom a = 0" by (simp add: demo_rom_def rom_def Let_def)
qed

lemma lit_low: "t \<in> set demo_texts \<Longrightarrow> unat (rom_lit demo_texts t) + 32 \<le> 0x1000"
  using text_index_ok [of t demo_texts] demo_texts_ok(2) unat_of_nat64 [of "32 + 32 * text_index demo_texts t"]
  by (simp add: rom_lit_def)

lemma checkCommand_finds_word_witness:
  "checkCommand demo_shell_image (demo_rom(0x8000 := 119, 0x8001 := 99, 0x8002 := 32, 0x8003 := 120)) 0x8000 = Some 19"
proof -
  let ?m = "demo_rom(0x8000 := 119, 0x8001 := 99, 0x8002 := 32, 0x8003 := 120)"
  have "list_all (has_text (im demo_shell_image) ?m) names"
    unfolding list_all_iff
  proof
    fix t assume t: "t \<in> set names"
    then have tt: "t \<in> set demo_texts" by (simp add: demo_texts_def)
    have "length (codes t) < 32" using demo_texts_ok(1) tt by (simp add: list_all_iff)
    then have "region (rom_lit demo_texts t) (Suc (length (codes t))) \<inter> region 0x8000 4 = {}"
      using lit_low [OF tt] by (intro region_apart) auto
    then have "cstr ?m (rom_lit demo_texts t) (codes t) = cstr demo_rom (rom_lit demo_texts t) (codes t)"
      by (intro cstr_region) (auto simp: region_Suc eval_nat_numeral)
    then show "has_text (im demo_shell_image) ?m t" using demo_has_text [OF tt] by (simp add: has_text_def demo_shell_image_def)
  qed
  moreover have "cstr ?m 0x8000 [119, 99, 32, 120]" using demo_rom_low [of "0x8004"] by simp
  moreover have "word_index [119, 99] = 19"
    by (simp add: word_index_def command_name_def loadCommands_def CMDS_COUNT_def upt_rec)
  ultimately show ?thesis using checkCommand_finds_word by fastforce
qed

section \<open>Cutting a line into arguments\<close>

text \<open>The words of a line.\<close>

function fields :: "u8 list \<Rightarrow> u8 list list" where
  "fields xs =
    (let ys = dropWhile (\<lambda>c. c = 32) xs
     in if ys = [] then [] else word_of ys # fields (tl (dropWhile (\<lambda>c. c \<noteq> 32) ys)))"
  by auto
termination
proof (relation "measure length")
  fix xs ys :: "u8 list"
  assume ys: "ys = dropWhile (\<lambda>c. c = 32) xs" "ys \<noteq> []"
  have "length (tl (dropWhile (\<lambda>c. c \<noteq> 32) ys)) < length ys"
    using length_dropWhile_le [of "\<lambda>c. c \<noteq> 32" ys] ys(2) by (cases ys) (auto simp: less_Suc_eq_le)
  also have "length ys \<le> length xs" unfolding ys(1) by (rule length_dropWhile_le)
  finally show "(tl (dropWhile (\<lambda>c. c \<noteq> 32) ys), xs) \<in> measure length" by simp
qed simp

declare fields.simps [simp del]

text \<open>Where the arguments go, and a word of the line with what follows it.\<close>

definition slots :: "sh_image \<Rightarrow> ptr set" where
  "slots A = region (lastArguments A) (BUFFER_MAX_LENGTH * MAX_ARGS_COUNT)"

definition at_word :: "ptr set \<Rightarrow> bytes \<Rightarrow> ptr \<Rightarrow> u8 list \<Rightarrow> ptr \<Rightarrow> u8 list \<Rightarrow> bool" where
  "at_word R m tok w t xs \<longleftrightarrow> cstr m tok w \<and> w \<noteq> [] \<and> cstr m t xs \<and> length xs + 2 \<le> 2 ^ 64 \<and>
     region tok (Suc (length w)) \<subseteq> R \<and> region t (Suc (length xs)) \<subseteq> R"

lemma at_word_nonnull: "NULL \<notin> R \<Longrightarrow> at_word R m tok w t xs \<Longrightarrow> tok \<noteq> NULL \<and> t \<noteq> NULL"
  unfolding at_word_def using region_start by blast

lemma at_word_same: "at_word R m tok w t xs \<Longrightarrow> (\<And>x. x \<in> R \<Longrightarrow> m' x = m x) \<Longrightarrow> at_word R m' tok w t xs"
  unfolding at_word_def using cstr_region [of tok w m' m] cstr_region [of t xs m' m] by blast

definition token_state :: "ptr set \<Rightarrow> bytes \<Rightarrow> ptr \<Rightarrow> ptr \<Rightarrow> u8 list list \<Rightarrow> bool" where
  "token_state R m tok t ws \<longleftrightarrow>
     tok = NULL \<and> ws = [] \<or> (\<exists>w xs. ws = w # fields xs \<and> at_word R m tok w t xs)"

text \<open>One call of \<^verbatim>\<open>strtok\<close> goes from one word to the next.\<close>

lemma strtok_step:
  assumes "cstr m d [32]" "cstr m p xs" "p \<noteq> NULL" "length xs + 2 \<le> 2 ^ 64" "q = NULL \<and> t = p \<or> q = p"
    and R: "region p (Suc (length xs)) \<subseteq> R"
  shows "\<exists>tok t' m'. strtok q d t m = Some (tok, t', m') \<and> token_state R m' tok t' (fields xs) \<and>
    (\<forall>x. x \<notin> R \<longrightarrow> m' x = m x)"
proof (cases "dropWhile (\<lambda>c. c = 32) xs = []")
  case True
  then have "fields xs = []" by (subst fields.simps) simp
  then show ?thesis using strtok_next(1) [OF assms(1-5) refl True] by (auto simp: token_state_def)
next
  case False
  let ?ys = "dropWhile (\<lambda>c. c = 32) xs"
  let ?rest = "tl (dropWhile (\<lambda>c. c \<noteq> 32) ?ys)"
  obtain b t' m' k where s: "strtok q d t m = Some (b, t', m')" "cstr m' b (word_of ?ys)" "cstr m' t' ?rest"
    "b = p + of_nat (length xs - length ?ys)" "t' = p + of_nat k" "k + length ?rest = length xs"
    "\<forall>x. x \<notin> region p (length xs) \<longrightarrow> m' x = m x"
    using strtok_next(2) [OF assms(1-5) refl False] by blast
  have f: "fields xs = word_of ?ys # fields ?rest" using False by (subst fields.simps) (simp add: Let_def)
  have ne: "word_of ?ys \<noteq> []" using False hd_dropWhile [OF False] by (cases ?ys) auto
  have l: "length (word_of ?ys) \<le> length ?ys" "length ?ys \<le> length xs"
    by (rule length_takeWhile_le, rule length_dropWhile_le)
  have "region b (Suc (length (word_of ?ys))) \<subseteq> R" "region t' (Suc (length ?rest)) \<subseteq> R"
    unfolding s(4,5) using l s(6) by (intro subset_trans [OF region_sub R]; simp)+
  then have "at_word R m' b (word_of ?ys) t' ?rest"
    using s(2,3,6) ne assms(4) by (auto simp: at_word_def)
  moreover have "region p (length xs) \<subseteq> R" using R region_mono [of "length xs" "Suc (length xs)" p] by auto
  ultimately show ?thesis using s(1,7) f by (auto simp: token_state_def)
qed

lemma delimiter_same: "(\<And>x. x \<in> region d 2 \<Longrightarrow> m' x = m x) \<Longrightarrow> cstr m d [32] \<Longrightarrow> cstr m' d [32]"
  using region_mem [of 0 2 d] region_mem [of 1 2 d] by simp

lemma argument_next: "argument A (Suc n) = argument A n + of_nat BUFFER_MAX_LENGTH"
  by (simp add: argument_def)

abbreviation upto_bar :: "u8 list list \<Rightarrow> u8 list list" where "upto_bar \<equiv> takeWhile (\<lambda>w. hd w \<noteq> 124)"

lemma take_args_ok:
  assumes areas: "NULL \<notin> R" "R \<inter> slots A = {}" "region d 2 \<inter> (R \<union> slots A) = {}" "d = lit (im A) '' ''"
  shows "token_state R m tok t ws \<Longrightarrow> list_all (\<lambda>w. length w \<le> 248) ws \<Longrightarrow> cstr m d [32] \<Longrightarrow> n + k \<le> MAX_ARGS_COUNT \<Longrightarrow>
    \<exists>t' m'. take_args A k n tok t m = Some (n + length (take k (upto_bar ws)), t', m') \<and>
      (\<forall>i<length (take k (upto_bar ws)). cstr m' (argument A (n + i)) (take k (upto_bar ws) ! i)) \<and>
      (\<forall>x. x \<notin> R \<union> region (argument A n) (BUFFER_MAX_LENGTH * k) \<longrightarrow> m' x = m x)"
proof (induction k arbitrary: n tok t m ws)
  case 0
  then show ?case by simp
next
  case (Suc k)
  show ?case
  proof (cases "tok = NULL \<or> m tok = 124")
    case True
    have "upto_bar ws = []"
    proof (cases ws)
      case (Cons w ws')
      then obtain xs where w: "at_word R m tok w t xs" using Suc.prems(1) by (auto simp: token_state_def)
      then have "m tok = hd w" by (cases w) (auto simp: at_word_def)
      then show ?thesis using True at_word_nonnull [OF areas(1) w] Cons by simp
    qed simp
    then show ?thesis using True by auto
  next
    case False
    then obtain w xs where w: "ws = w # fields xs" "at_word R m tok w t xs" using Suc.prems(1) by (auto simp: token_state_def)
    have hd: "hd w \<noteq> 124" using False w(2) by (cases w) (auto simp: at_word_def)
    have lw: "length w \<le> 248" using Suc.prems(2) w(1) by simp
    let ?a = "argument A n"
    have slot: "region ?a (BUFFER_MAX_LENGTH * Suc k) \<subseteq> slots A"
      unfolding slots_def argument_def using Suc.prems(4) by (intro region_sub) simp
    have sa: "region ?a (length w + 2) \<subseteq> region ?a BUFFER_MAX_LENGTH" using lw by (intro region_mono) simp
    have sb: "region ?a BUFFER_MAX_LENGTH \<subseteq> region ?a (BUFFER_MAX_LENGTH * Suc k)" by (intro region_mono) simp
    have sep: "region tok (Suc (length w)) \<inter> region ?a (length w + 2) = {}"
      using w(2) areas(2) slot sa sb unfolding at_word_def by blast
    let ?m1 = "snd (u_stringCopy m ?a (int BUFFER_MAX_LENGTH) tok)"
    have c: "cstr ?m1 ?a w" "\<And>x. x \<notin> region ?a (length w + 2) \<Longrightarrow> ?m1 x = m x"
      using u_stringCopy_ok [OF _ _ _ sep, of m "int BUFFER_MAX_LENGTH"] w(2) lw by (auto simp: at_word_def)
    have inR: "\<And>x. x \<in> R \<Longrightarrow> ?m1 x = m x" using c(2) areas(2) slot sa sb by blast
    have w1: "at_word R ?m1 tok w t xs" by (rule at_word_same [OF w(2) inR])
    have "\<And>x. x \<in> region d 2 \<Longrightarrow> ?m1 x = m x" using c(2) areas(3) slot sa sb by blast
    then have d1: "cstr ?m1 d [32]" using Suc.prems(3) by (rule delimiter_same)
    obtain tok1 t1 m2 where s: "strtok NULL d t ?m1 = Some (tok1, t1, m2)" "token_state R m2 tok1 t1 (fields xs)"
      "\<forall>x. x \<notin> R \<longrightarrow> m2 x = ?m1 x"
      using strtok_step [OF d1, of t xs NULL t R] w1 at_word_nonnull [OF areas(1) w1] by (auto simp: at_word_def)
    have "\<And>x. x \<in> region d 2 \<Longrightarrow> m2 x = ?m1 x" using s(3) areas(3) by blast
    then have d2: "cstr m2 d [32]" using d1 by (rule delimiter_same)
    have fs: "list_all (\<lambda>w. length w \<le> 248) (fields xs)" "Suc n + k \<le> MAX_ARGS_COUNT" using Suc.prems(2,4) w(1) by auto
    let ?ws = "take k (upto_bar (fields xs))"
    obtain t' m' where r: "take_args A k (Suc n) tok1 t1 m2 = Some (Suc n + length ?ws, t', m')"
      "\<forall>i<length ?ws. cstr m' (argument A (Suc n + i)) (?ws ! i)"
      "\<forall>x. x \<notin> R \<union> region (argument A (Suc n)) (BUFFER_MAX_LENGTH * k) \<longrightarrow> m' x = m2 x"
      using Suc.IH [OF s(2) fs(1) d2 fs(2)] by blast
    have run: "take_args A (Suc k) n tok t m = Some (Suc n + length ?ws, t', m')"
      using False s(1) r(1) areas(4) by (simp add: Let_def)
    have later: "region (argument A (Suc n)) (BUFFER_MAX_LENGTH * k) \<inter> region ?a BUFFER_MAX_LENGTH = {}"
      unfolding argument_next using Suc.prems(4) by (intro region_next) simp
    have tw: "region ?a (Suc (length w)) \<subseteq> region ?a BUFFER_MAX_LENGTH" using lw by (intro region_mono) simp
    have "m' x = ?m1 x" if "x \<in> region ?a (Suc (length w))" for x
    proof -
      have "x \<in> region ?a BUFFER_MAX_LENGTH" using that tw by blast
      then have "x \<notin> region (argument A (Suc n)) (BUFFER_MAX_LENGTH * k)" "x \<notin> R"
        using later areas(2) slot sb by blast+
      then show ?thesis using r(3) s(3) by simp
    qed
    then have "cstr m' ?a w = cstr ?m1 ?a w" by (rule cstr_region)
    then have first: "cstr m' ?a w" using c(1) by simp
    have ws: "take (Suc k) (upto_bar ws) = w # ?ws" using w(1) hd by simp
    have "cstr m' (argument A (n + i)) ((w # ?ws) ! i)" if "i < length (w # ?ws)" for i
      using first r(2) that by (cases i) auto
    moreover have sub: "region (argument A (Suc n)) (BUFFER_MAX_LENGTH * k) \<subseteq> region ?a (BUFFER_MAX_LENGTH * Suc k)"
      unfolding argument_next by (intro region_sub) simp
    moreover have "m' x = m x" if "x \<notin> R \<union> region ?a (BUFFER_MAX_LENGTH * Suc k)" for x
    proof -
      have "x \<notin> R" "x \<notin> region (argument A (Suc n)) (BUFFER_MAX_LENGTH * k)" "x \<notin> region ?a (length w + 2)"
        using that sub sa sb by blast+
      then show ?thesis using r(3) s(3) c(2) by simp
    qed
    moreover have "Suc n + length ?ws = n + length (w # ?ws)" by simp
    ultimately show ?thesis unfolding ws using run by metis
  qed
qed

lemma skip_spaces_ok: "cstr m p xs \<Longrightarrow> skip_spaces m p = Some (p + of_nat (length (takeWhile (\<lambda>c. c = 32) xs)))"
proof (induction xs arbitrary: p)
  case Nil
  then show ?case by (subst skip_spaces.simps) simp
next
  case (Cons x xs)
  then show ?case using Cons.IH [of "p + 1"] by (subst skip_spaces.simps) (simp add: ac_simps)
qed

lemma fields_skip: "fields (dropWhile (\<lambda>c. c = 32) xs) = fields xs"
  by (subst (1 2) fields.simps) (simp add: dropWhile_idem)

text \<open> (C24)
  The arguments of a program are the words of its line: \<^verbatim>\<open>getArguments\<close> returns how many words
  there are, at most five and none from the first word that starts with a bar, and leaves each of
  them as a string in its slot of the argument array, for words of at most 248 characters.
\<close>

theorem getArguments_words:
  assumes "cstr (sh_mem S) line xs" "length xs < 2 ^ 63" "list_all (\<lambda>w. length w \<le> 248) (fields xs)"
    and "has_text (im A) (sh_mem S) '' ''" "NULL \<notin> region line (Suc (length xs))" "region line (Suc (length xs)) \<inter> slots A = {}"
    and "region (lit (im A) '' '') 2 \<inter> (region line (Suc (length xs)) \<union> slots A) = {}"
    and "ws = take MAX_ARGS_COUNT (upto_bar (fields xs))"
  shows "\<exists>S'. getArguments A line S = Some (length ws, S') \<and> calls (pr S') = calls (pr S) \<and>
    (\<forall>i<length ws. cstr (sh_mem S') (argument A i) (ws ! i))"
proof -
  let ?R = "region line (Suc (length xs))" and ?d = "lit (im A) '' ''" and ?m = "sh_mem S"
  let ?s = "length (takeWhile (\<lambda>c. c = 32) xs)" and ?ys = "dropWhile (\<lambda>c. c = 32) xs"
  let ?b = "line + of_nat ?s"
  have d: "cstr ?m ?d [32]" using assms(4) by (simp add: has_text_def)
  have sk: "skip_spaces ?m line = Some ?b" by (rule skip_spaces_ok [OF assms(1)])
  have split: "xs = takeWhile (\<lambda>c. c = 32) xs @ ?ys" by simp
  have len: "?s + length ?ys = length xs" by (metis length_append takeWhile_dropWhile_id)
  have b: "cstr ?m ?b ?ys" using cstr_drop [of ?m line "takeWhile (\<lambda>c. c = 32) xs" ?ys] split assms(1) by simp
  have R: "region ?b (Suc (length ?ys)) \<subseteq> ?R" using len by (intro region_sub) simp
  then have nb: "?b \<noteq> NULL" using assms(5) region_start [of "Suc (length ?ys)" ?b] by (metis subsetD zero_less_Suc)
  show ?thesis
  proof (cases "?ys = []")
    case True
    then have "ws = []" using assms(8) by (subst (asm) fields.simps) simp
    moreover have "?m ?b = 0" using b unfolding True by simp
    ultimately show ?thesis using sk by (simp add: getArguments_def)
  next
    case False
    then have nz: "?m ?b \<noteq> 0" using b by (cases ?ys) auto
    obtain tok t m where s: "strtok ?b ?d (token S) ?m = Some (tok, t, m)" "token_state ?R m tok t (fields ?ys)"
      "\<forall>x. x \<notin> ?R \<longrightarrow> m x = ?m x"
      using strtok_step [OF d b nb _ _ R, of ?b "token S"] len assms(2) by auto
    have "\<And>x. x \<in> region ?d 2 \<Longrightarrow> m x = ?m x" using s(3) assms(7) by blast
    then have d1: "cstr m ?d [32]" using d by (rule delimiter_same)
    have ws: "take MAX_ARGS_COUNT (upto_bar (fields ?ys)) = ws" "list_all (\<lambda>w. length w \<le> 248) (fields ?ys)"
      using assms(3,8) by (simp_all only: fields_skip)
    note take_args_ok [OF assms(5,6,7) refl s(2) ws(2) d1, where n = 0 and k = MAX_ARGS_COUNT]
    then obtain t' m' where r: "take_args A MAX_ARGS_COUNT 0 tok t m = Some (length ws, t', m')"
      "\<forall>i<length ws. cstr m' (argument A i) (ws ! i)"
      unfolding ws(1) by auto
    then show ?thesis using sk nz s(1) by (simp add: getArguments_def)
  qed
qed

text \<open>A text written into memory.\<close>

definition with_text :: "ptr \<Rightarrow> string \<Rightarrow> bytes \<Rightarrow> bytes" where
  "with_text a t m x = (if x \<in> region a (length t) then of_char (t ! (unat x - unat a)) else m x)"

lemma with_text_cstr:
  assumes "unat a + length t < 2 ^ 64" "m (a + of_nat (length t)) = 0" "0 \<notin> set (codes t)"
  shows "cstr (with_text a t m) a (codes t)"
proof -
  have u: "unat (a + of_nat i) = unat a + i" if "i \<le> length t" for i
    using unat_plus_fits64 [of a "of_nat i"] unat_of_nat64 [of i] that assms(1) by simp
  have "a + of_nat (length t) \<notin> region a (length t)"
    using region_inj [of "Suc (length t)" "length t" _ a] assms(1) by (auto simp: region_def)
  then show ?thesis using u assms(2,3) unfolding cstr_iff with_text_def by auto
qed

definition demo_shell :: "string \<Rightarrow> reply list \<Rightarrow> shell" where
  "demo_shell t rs = \<lparr>pr = \<lparr>um = with_text 0x8000 t demo_rom, replies = rs, calls = []\<rparr>, bufferCount = 0, secondCommand = NULL,
     lineCount = 0, fontSize = 1, isBackground = False, token = NULL\<rparr>"

lemma demo_with_text: "t \<in> set demo_texts \<Longrightarrow> length u < 0x100 \<Longrightarrow> has_text (im demo_shell_image) (with_text 0x8000 u demo_rom) t"
proof -
  assume t: "t \<in> set demo_texts" and u: "length u < 0x100"
  have "length (codes t) < 32" using demo_texts_ok(1) t by (simp add: list_all_iff)
  then have "region (rom_lit demo_texts t) (Suc (length (codes t))) \<inter> region 0x8000 (length u) = {}"
    using lit_low [OF t] u by (intro region_apart) auto
  then have "cstr (with_text 0x8000 u demo_rom) (rom_lit demo_texts t) (codes t) = cstr demo_rom (rom_lit demo_texts t) (codes t)"
    by (intro cstr_region) (auto simp: with_text_def)
  then show ?thesis using demo_has_text [OF t] by (simp add: has_text_def demo_shell_image_def)
qed

lemma getArguments_words_witness:
  "\<exists>S'. getArguments demo_shell_image 0x8000 (demo_shell ''wc ab | cat'' []) = Some (2, S') \<and>
     cstr (sh_mem S') 0x50000 (codes ''wc'') \<and> cstr (sh_mem S') 0x500FA (codes ''ab'')"
proof -
  let ?t = "''wc ab | cat''" and ?R = "region 0x8000 (Suc (length (codes ''wc ab | cat'')))"
  let ?A = demo_shell_image
  have m: "sh_mem (demo_shell ?t []) = with_text 0x8000 ?t demo_rom" by (simp add: demo_shell_def)
  have c: "cstr (with_text 0x8000 ?t demo_rom) 0x8000 (codes ?t)"
    using demo_rom_low [of "0x800B"] by (intro with_text_cstr) simp_all
  have f: "fields (codes ?t) = [codes ''wc'', codes ''ab'', codes ''|'', codes ''cat'']"
    by (simp add: fields.simps)
  have s: "slots ?A = region 0x50000 1250" by (simp add: slots_def demo_shell_image_def)
  have sp: "'' '' \<in> set demo_texts" by (simp add: demo_texts_def)
  then have l: "unat (lit (im ?A) '' '') + 32 \<le> 0x1000" using lit_low by (simp add: demo_shell_image_def)
  have "NULL \<notin> ?R"
    using region_apart(1) [of 0 1 "0x8000" "Suc (length (codes ?t))"] region_start [of 1 0] by auto
  moreover have "?R \<inter> slots ?A = {}" unfolding s by (intro region_apart) simp_all
  moreover have "region (lit (im ?A) '' '') 2 \<inter> ?R = {}" "region (lit (im ?A) '' '') 2 \<inter> region 0x50000 1250 = {}"
    using l by (intro region_apart; simp)+
  then have "region (lit (im ?A) '' '') 2 \<inter> (?R \<union> slots ?A) = {}" unfolding s by blast
  ultimately obtain S' where "getArguments ?A 0x8000 (demo_shell ?t []) = Some (length [codes ''wc'', codes ''ab''], S')"
    "\<forall>i<length [codes ''wc'', codes ''ab'']. cstr (sh_mem S') (argument ?A i) ([codes ''wc'', codes ''ab''] ! i)"
    using getArguments_words [of "demo_shell ?t []" "0x8000" "codes ?t" ?A "[codes ''wc'', codes ''ab'']"]
      c f m demo_with_text [OF sp, of ?t] by auto
  moreover have "argument ?A 0 = 0x50000" "argument ?A 1 = 0x500FA" by (simp_all add: argument_def demo_shell_image_def)
  ultimately show ?thesis by (auto simp: All_less_Suc)
qed

end
