(* ===== verification/ShellEdit.thy ===== *)
theory ShellEdit
  imports ShellProps
begin

text \<open>
  Typing a line: the keys of a line as operations on a list of characters, and the shell's buffer
  as their implementation.
\<close>

section \<open>Editing a list\<close>

text \<open>
  Backspace takes the last character away, the end of the input and the ampersand leave the line
  as it is, a tab stands for three spaces.
\<close>

definition edit :: "u8 \<Rightarrow> u8 list \<Rightarrow> u8 list" where
  "edit c xs =
    (if c = - 1 \<or> c = 38 then xs
     else if c = 8 then butlast xs
     else if c = 9 then xs @ [32, 32, 32]
     else xs @ [c])"

text \<open>How often a key is echoed, and the terminal's side of a line that ends with a newline.\<close>

definition echoes :: "u8 \<Rightarrow> u8 list \<Rightarrow> nat" where
  "echoes c xs =
    (if c = - 1 \<or> c = 8 \<and> xs = [] then 0 else if c = 9 then 3 else 1)"

fun typing :: "u8 list \<Rightarrow> u8 list \<Rightarrow> io list" where
  "typing xs [] = [In 10]"
| "typing xs (c # cs) = In c # replicate (echoes c xs) Out @ typing (edit c xs) cs"

lemma edit_length: "length (edit c xs) \<le> length xs + 3"
  by (auto simp: edit_def)

lemma edit_chars: "0 \<notin> set xs \<Longrightarrow> c \<noteq> 0 \<Longrightarrow> 0 \<notin> set (edit c xs)"
  by (auto simp: edit_def dest: in_set_butlastD)

section \<open>The buffer of the shell\<close>

text \<open>The line typed so far is in the buffer, which has room for 500 characters.\<close>

definition buffer_at :: "sh_image \<Rightarrow> ptr set" where "buffer_at A = region (lastCommand A) 500"

definition held :: "sh_image \<Rightarrow> shell \<Rightarrow> u8 list \<Rightarrow> bool" where
  "held A S xs \<longleftrightarrow> bytes_at (sh_mem S) (lastCommand A) (length xs) = xs \<and> unat (bufferCount S) = length xs"

definition key_cell :: "sh_image \<Rightarrow> ptr" where "key_cell A = L_c (fr (im A))"

text \<open>What editing leaves alone.\<close>

definition only_edits :: "sh_image \<Rightarrow> shell \<Rightarrow> shell \<Rightarrow> bool" where
  "only_edits A S S' \<longleftrightarrow> lineCount S' = lineCount S \<and> fontSize S' = fontSize S \<and> token S' = token S \<and>
     (\<forall>x. x \<notin> insert (key_cell A) (buffer_at A) \<longrightarrow> sh_mem S' x = sh_mem S x)"

lemma only_edits_refl [simp]: "only_edits A S S" by (simp add: only_edits_def)

lemma only_edits_trans: "only_edits A S S1 \<Longrightarrow> only_edits A S1 S2 \<Longrightarrow> only_edits A S S2"
  by (simp add: only_edits_def)

lemma bytes_at_butlast: "bytes_at m a (n - 1) = butlast (bytes_at m a n)"
proof (cases n)
  case (Suc k)
  then show ?thesis by (simp add: bytes_at_snoc)
qed (simp add: bytes_at_def)

abbreviation sh_answers :: "sh_image \<Rightarrow> shell \<Rightarrow> io list \<Rightarrow> bool" where
  "sh_answers A S es \<equiv> answers (fr (im A)) (pr S) es"

lemma echo_ok:
  assumes "sh_answers A S (Out # es)" "held A S xs" "key_cell A \<notin> buffer_at A" "length xs < 500"
  shows "\<exists>S'. echo A c S = Some S' \<and> sh_answers A S' es \<and> held A S' xs \<and> only_edits A S S' \<and>
    isBackground S' = isBackground S \<and> sent_of (pr S') = sent_of (pr S) @ [c]"
proof -
  have "replies (pr S) = (1, []) # map (answer (L_c (fr (im A)))) es" using assms(1) by (simp add: answers_def)
  then obtain p' where p': "putChar (fr (im A)) c (pr S) = Some (1, p')" "replies p' = map (answer (L_c (fr (im A)))) es"
    "um p' = (um (pr S))(key_cell A := c)" "sent_of p' = sent_of (pr S) @ [c]"
    by (auto simp: putChar_def u_write_def trap_def store_all_def bytes_at_def sent_of_def key_cell_def)
  have "bytes_at (um p') (lastCommand A) (length xs) = bytes_at (sh_mem S) (lastCommand A) (length xs)"
  proof (rule bytes_at_eqI)
    fix i assume "i < length xs"
    then have "lastCommand A + of_nat i \<in> buffer_at A" using assms(4) by (auto simp: buffer_at_def)
    then show "um p' (lastCommand A + of_nat i) = sh_mem S (lastCommand A + of_nat i)" using assms(3) p'(3) by auto
  qed
  then have "held A (S\<lparr>pr := p'\<rparr>) xs" using assms(2) by (simp add: held_def)
  moreover have "echo A c S = Some (S\<lparr>pr := p'\<rparr>)" using p'(1) by (simp add: echo_def via_def)
  ultimately show ?thesis using p' by (simp add: answers_def only_edits_def)
qed

lemma push_char_ok:
  assumes "held A S xs" "length xs < 499"
  shows "held A (push_char A c S) (xs @ [c])" "only_edits A S (push_char A c S)"
    "sh_answers A (push_char A c S) es = sh_answers A S es" "isBackground (push_char A c S) = isBackground S"
    "sent_of (pr (push_char A c S)) = sent_of (pr S)"
proof -
  let ?n = "length xs"
  have n: "(ucast (bufferCount S) :: u64) = of_nat ?n"
    using assms(1) by (metis held_def of_nat_unat)
  have "unat (bufferCount S + 1) = Suc ?n"
    using assms unat_plus_fits [of "bufferCount S" 1] by (simp add: held_def)
  moreover have "bytes_at ((sh_mem S)(lastCommand A + of_nat ?n := c)) (lastCommand A) ?n = xs"
  proof -
    have "bytes_at ((sh_mem S)(lastCommand A + of_nat ?n := c)) (lastCommand A) ?n = bytes_at (sh_mem S) (lastCommand A) ?n"
      using region_inj [of 500 _ ?n "lastCommand A"] assms(2) by (intro bytes_at_eqI) auto
    then show ?thesis using assms(1) by (simp add: held_def)
  qed
  ultimately show "held A (push_char A c S) (xs @ [c])" by (simp add: held_def push_char_def n bytes_at_snoc)
  have "lastCommand A + of_nat ?n \<in> buffer_at A" using assms(2) by (auto simp: buffer_at_def)
  then show "only_edits A S (push_char A c S)" by (auto simp: only_edits_def push_char_def n)
qed (simp_all add: push_char_def answers_def sent_of_def)

lemma get_key:
  assumes "sh_answers A S (In c # es)" "held A S xs" "key_cell A \<notin> buffer_at A" "length xs < 500"
  shows "\<exists>S'. via (getChar (fr (im A))) S = Some (c, S') \<and> sh_answers A S' es \<and> held A S' xs \<and> only_edits A S S' \<and>
    isBackground S' = isBackground S \<and> sent_of (pr S') = sent_of (pr S)"
proof -
  have "replies (pr S) = (1, [(L_c (fr (im A)), c)]) # map (answer (L_c (fr (im A)))) es" using assms(1) by (simp add: answers_def)
  then obtain p' where p': "getChar (fr (im A)) (pr S) = Some (c, p')" "replies p' = map (answer (L_c (fr (im A)))) es"
    "um p' = (um (pr S))(key_cell A := c)" "sent_of p' = sent_of (pr S)"
    by (auto simp: getChar_def u_read_def trap_def store_all_def sent_of_def key_cell_def)
  have "bytes_at (um p') (lastCommand A) (length xs) = bytes_at (sh_mem S) (lastCommand A) (length xs)"
  proof (rule bytes_at_eqI)
    fix i assume "i < length xs"
    then have "lastCommand A + of_nat i \<in> buffer_at A" using assms(4) by (auto simp: buffer_at_def)
    then show "um p' (lastCommand A + of_nat i) = sh_mem S (lastCommand A + of_nat i)" using assms(3) p'(3) by auto
  qed
  then have "held A (S\<lparr>pr := p'\<rparr>) xs" using assms(2) by (simp add: held_def)
  moreover have "via (getChar (fr (im A))) S = Some (c, S\<lparr>pr := p'\<rparr>)" using p'(1) by (simp add: via_def)
  ultimately show ?thesis using p' by (simp add: answers_def only_edits_def)
qed

lemma push_echo:
  assumes "sh_answers A S (Out # es)" "held A S xs" "key_cell A \<notin> buffer_at A" "length xs < 499"
  shows "\<exists>S'. echo A c (push_char A c S) = Some S' \<and> sh_answers A S' es \<and> held A S' (xs @ [c]) \<and> only_edits A S S' \<and>
    isBackground S' = isBackground S \<and> sent_of (pr S') = sent_of (pr S) @ [c]"
proof -
  note P = push_char_ok [OF assms(2,4), of c]
  obtain S' where S': "echo A c (push_char A c S) = Some S'" "sh_answers A S' es" "held A S' (xs @ [c])"
    "only_edits A (push_char A c S) S'" "isBackground S' = isBackground S" "sent_of (pr S') = sent_of (pr S) @ [c]"
    using echo_ok [of A "push_char A c S" es "xs @ [c]" c] assms P by auto
  then show ?thesis using only_edits_trans [OF P(2) S'(4)] by blast
qed

lemma held_empty: "held A S xs \<Longrightarrow> 0 < bufferCount S \<longleftrightarrow> xs \<noteq> []"
  by (auto simp: held_def word_less_nat_alt)

lemma erase_ok:
  assumes "held A S xs" "xs \<noteq> []" "length xs < 500"
  shows "held A (on_sh (\<lambda>m. m(lastCommand A + ucast (bufferCount S) := 0)) (S\<lparr>bufferCount := bufferCount S - 1\<rparr>)) (butlast xs)"
    "only_edits A S (on_sh (\<lambda>m. m(lastCommand A + ucast (bufferCount S) := 0)) (S\<lparr>bufferCount := bufferCount S - 1\<rparr>))"
proof -
  let ?n = "length xs"
  have n: "(ucast (bufferCount S) :: u64) = of_nat ?n" using assms(1) by (metis held_def of_nat_unat)
  let ?m = "(sh_mem S)(lastCommand A + of_nat ?n := 0)"
  have "unat (bufferCount S - 1) = ?n - 1"
    using assms(1,2) unat_minus_fits [of 1 "bufferCount S"] by (cases xs) (auto simp: held_def word_le_nat_alt)
  moreover have "bytes_at ?m (lastCommand A) ?n = bytes_at (sh_mem S) (lastCommand A) ?n"
    using region_inj [of 500 _ ?n "lastCommand A"] assms(3) by (intro bytes_at_eqI) auto
  then have "bytes_at ?m (lastCommand A) (?n - 1) = butlast xs"
    using bytes_at_butlast [of ?m "lastCommand A" ?n] assms(1) by (simp add: held_def)
  ultimately show "held A (on_sh (\<lambda>m. m(lastCommand A + ucast (bufferCount S) := 0)) (S\<lparr>bufferCount := bufferCount S - 1\<rparr>)) (butlast xs)"
    by (simp add: held_def n)
  have "lastCommand A + of_nat ?n \<in> buffer_at A" using assms(3) by (auto simp: buffer_at_def)
  then show "only_edits A S (on_sh (\<lambda>m. m(lastCommand A + ucast (bufferCount S) := 0)) (S\<lparr>bufferCount := bufferCount S - 1\<rparr>))"
    by (auto simp: only_edits_def n)
qed

lemma key_typed_ok:
  assumes "sh_answers A S (replicate (echoes c xs) Out @ es)" "held A S xs" "key_cell A \<notin> buffer_at A" "length xs \<le> 496"
  shows "\<exists>S'. key_typed A c S = Some S' \<and> sh_answers A S' es \<and> held A S' (edit c xs) \<and> only_edits A S S' \<and>
    (isBackground S' \<longleftrightarrow> isBackground S \<or> c = 38)"
proof -
  note ne = held_empty [OF assms(2)]
  consider "c = - 1" | "c = 8" "xs \<noteq> []" | "c = 8" "xs = []" | "c = 38" | "c = 9" | "c \<notin> {- 1, 8, 38, 9}" by blast
  then show ?thesis
  proof cases
    case 1
    then show ?thesis using assms by (simp add: key_typed_def edit_def echoes_def)
  next
    case 2
    let ?S = "on_sh (\<lambda>m. m(lastCommand A + ucast (bufferCount S) := 0)) (S\<lparr>bufferCount := bufferCount S - 1\<rparr>)"
    have a: "sh_answers A ?S (Out # es)" using assms(1) 2 by (simp add: echoes_def answers_def)
    note E = erase_ok [OF assms(2) 2(2)]
    have l: "length (butlast xs) < 500" "length xs < 500" using assms(4) by auto
    obtain S' where S': "echo A 8 ?S = Some S'" "sh_answers A S' es" "held A S' (butlast xs)" "only_edits A ?S S'"
      "isBackground S' = isBackground S"
      using echo_ok [OF a E(1) [OF l(2)] assms(3) l(1), of 8] by auto
    then show ?thesis using only_edits_trans [OF E(2) [OF l(2)] S'(4)] 2 ne by (simp add: key_typed_def edit_def)
  next
    case 3
    then show ?thesis using assms ne by (simp add: key_typed_def edit_def echoes_def)
  next
    case 4
    then have a: "sh_answers A S (Out # es)" using assms(1) by (simp add: echoes_def)
    obtain S' where "echo A c S = Some S'" "sh_answers A S' es" "held A S' xs" "only_edits A S S'"
      using echo_ok [OF a assms(2,3), of c] assms(4) by auto
    then show ?thesis using 4 by (simp add: key_typed_def edit_def held_def only_edits_def)
  next
    case 5
    then have "echoes c xs = 3" by (simp add: echoes_def)
    then have a: "sh_answers A S (Out # Out # Out # es)" using assms(1) by (simp add: numeral_3_eq_3)
    obtain S1 where S1: "echo A 32 (push_char A 32 S) = Some S1" "sh_answers A S1 (Out # Out # es)" "held A S1 (xs @ [32])"
      "only_edits A S S1" "isBackground S1 = isBackground S"
      using push_echo [OF a assms(2,3), of 32] assms(4) by auto
    obtain S2 where S2: "echo A 32 (push_char A 32 S1) = Some S2" "sh_answers A S2 (Out # es)" "held A S2 (xs @ [32, 32])"
      "only_edits A S1 S2" "isBackground S2 = isBackground S"
      using push_echo [OF S1(2,3) assms(3), of 32] assms(4) S1(5) by auto
    obtain S3 where S3: "echo A 32 (push_char A 32 S2) = Some S3" "sh_answers A S3 es" "held A S3 (xs @ [32, 32, 32])"
      "only_edits A S2 S3" "isBackground S3 = isBackground S"
      using push_echo [OF S2(2,3) assms(3), of 32] assms(4) S2(5) by auto
    have "only_edits A S S3" using only_edits_trans S1(4) S2(4) S3(4) by blast
    then show ?thesis using 5 S1(1) S2(1) S3 by (simp add: key_typed_def edit_def)
  next
    case 6
    then have a: "sh_answers A S (Out # es)" using assms(1) by (simp add: echoes_def)
    show ?thesis using push_echo [OF a assms(2,3), of c] assms(4) 6 by (auto simp: key_typed_def edit_def)
  qed
qed

lemma edit_loop_ok:
  assumes "key_cell A \<notin> buffer_at A"
  shows "sh_answers A S (typing xs cs @ es) \<Longrightarrow> held A S xs \<Longrightarrow> 10 \<notin> set cs \<Longrightarrow> length xs + 3 * length cs < 500 \<Longrightarrow>
    \<exists>S'. edit_loop A S = Some S' \<and> sh_answers A S' es \<and> held A S' (fold edit cs xs) \<and> only_edits A S S' \<and>
      (isBackground S' \<longleftrightarrow> isBackground S \<or> 38 \<in> set cs)"
proof (induction cs arbitrary: S xs)
  case Nil
  then obtain S' where "via (getChar (fr (im A))) S = Some (10, S')" "sh_answers A S' es" "held A S' xs" "only_edits A S S'"
    "isBackground S' = isBackground S"
    using get_key [of A S 10 es xs] assms by auto
  then show ?case by (subst edit_loop.simps) simp
next
  case (Cons c cs)
  obtain S1 where S1: "via (getChar (fr (im A))) S = Some (c, S1)" "sh_answers A S1 (replicate (echoes c xs) Out @ typing (edit c xs) cs @ es)"
    "held A S1 xs" "only_edits A S S1" "isBackground S1 = isBackground S"
    using get_key [of A S c _ xs] Cons.prems assms by auto
  obtain S2 where S2: "key_typed A c S1 = Some S2" "sh_answers A S2 (typing (edit c xs) cs @ es)" "held A S2 (edit c xs)"
    "only_edits A S1 S2" "isBackground S2 \<longleftrightarrow> isBackground S \<or> c = 38"
    using key_typed_ok [OF S1(2,3) assms] Cons.prems(4) S1(5) by auto
  have l: "length (edit c xs) + 3 * length cs < 500" using edit_length [of c xs] Cons.prems(4) by simp
  obtain S3 where S3: "edit_loop A S2 = Some S3" "sh_answers A S3 es" "held A S3 (fold edit cs (edit c xs))" "only_edits A S2 S3"
    "isBackground S3 \<longleftrightarrow> isBackground S2 \<or> 38 \<in> set cs"
    using Cons.IH [OF S2(2,3) _ l] Cons.prems(3) by auto
  have "only_edits A S S3" using only_edits_trans S1(4) S2(4) S3(4) by blast
  then show ?case using S1(1) S2(1,5) S3 Cons.prems(3) by (subst edit_loop.simps) auto
qed

section \<open>The line and its command\<close>

definition history :: "sh_image \<Rightarrow> ptr set" where
  "history A = region (lines_at A) (BUFFER_MAX_LENGTH * MAX_LINES + 2)"

text \<open>The key, the line and the history are apart from each other and from the constants.\<close>

definition layout_ok :: "sh_image \<Rightarrow> bool" where
  "layout_ok A \<longleftrightarrow> key_cell A \<notin> buffer_at A \<union> history A \<and> buffer_at A \<inter> history A = {} \<and> NULL \<notin> buffer_at A"

definition constants_ok :: "sh_image \<Rightarrow> bytes \<Rightarrow> bool" where
  "constants_ok A m \<longleftrightarrow> list_all (\<lambda>t. has_text (im A) m t \<and>
     region (lit (im A) t) (Suc (length t)) \<inter> insert (key_cell A) (buffer_at A \<union> history A) = {}) (PROMPT # names)"

lemma constants_same:
  assumes "constants_ok A m" "\<And>x. x \<notin> insert (key_cell A) (buffer_at A \<union> history A) \<Longrightarrow> m' x = m x"
  shows "constants_ok A m'"
proof -
  have "has_text (im A) m' t" if "has_text (im A) m t" "region (lit (im A) t) (Suc (length t)) \<inter> insert (key_cell A) (buffer_at A \<union> history A) = {}" for t
  proof -
    have "cstr m' (lit (im A) t) (codes t) = cstr m (lit (im A) t) (codes t)"
    proof (rule cstr_region)
      fix x assume "x \<in> region (lit (im A) t) (Suc (length (codes t)))"
      then have "x \<notin> insert (key_cell A) (buffer_at A \<union> history A)" using that(2) by auto
      then show "m' x = m x" by (rule assms(2))
    qed
    then show ?thesis using that(1) by (simp add: has_text_def)
  qed
  then show ?thesis using assms(1) unfolding constants_ok_def list_all_iff by blast
qed

lemma line_in_history:
  assumes "n \<le> BUFFER_MAX_LENGTH + 2"
  shows "region (line_at A k) n \<subseteq> history A"
proof -
  have "unat k mod MAX_LINES \<le> 49" by simp
  then have "BUFFER_MAX_LENGTH * (unat k mod MAX_LINES) + n \<le> BUFFER_MAX_LENGTH * MAX_LINES + 2"
    using assms mult_le_mono2 [of "unat k mod MAX_LINES" 49 BUFFER_MAX_LENGTH] by simp
  then show ?thesis unfolding line_at_def history_def by (rule region_sub)
qed

lemma codes_PROMPT: "codes PROMPT = [117, 115, 101, 114, 36, 32]" by (simp add: PROMPT_def)

lemma store_line_ok:
  assumes lay: "layout_ok A" and con: "constants_ok A (sh_mem S)" and xs: "held A S xs" "length xs < 500" "0 \<notin> set xs"
  shows "\<exists>S'. store_line A S = Some S' \<and> cstr (sh_mem S') (lastCommand A) xs \<and> replies (pr S') = replies (pr S) \<and>
    isBackground S' = isBackground S \<and> constants_ok A (sh_mem S')"
proof -
  let ?n = "length xs" and ?m = "sh_mem S"
  have n: "(ucast (bufferCount S) :: u64) = of_nat ?n" using xs(1) by (metis held_def of_nat_unat)
  let ?m1 = "?m(lastCommand A + of_nat ?n := 0)"
  have b1: "lastCommand A + of_nat ?n \<in> buffer_at A" using xs(2) by (auto simp: buffer_at_def)
  have "\<forall>i<?n. ?m1 (lastCommand A + of_nat i) = xs ! i"
  proof (intro allI impI)
    fix i assume i: "i < ?n"
    then have "lastCommand A + of_nat i \<noteq> lastCommand A + of_nat ?n" using region_inj [of 500 i ?n "lastCommand A"] xs(2) by simp
    moreover have "bytes_at ?m (lastCommand A) ?n ! i = xs ! i" using xs(1) by (simp add: held_def)
    ultimately show "?m1 (lastCommand A + of_nat i) = xs ! i" using i by simp
  qed
  then have c1: "cstr ?m1 (lastCommand A) xs" using xs(3) unfolding cstr_iff by simp
  let ?l = "line_at A (lineCount S)" and ?p = "lit (im A) PROMPT"
  let ?z = "clearLine ?l ?m1"
  let ?m2 = "snd (u_stringCopy ?z ?l (int BUFFER_MAX_LENGTH) ?p)"
  have z: "?z x = ?m1 x" if "x \<notin> history A" for x
  proof -
    have "x \<notin> region ?l BUFFER_MAX_LENGTH" using line_in_history [of BUFFER_MAX_LENGTH A "lineCount S"] that by auto
    then show ?thesis unfolding clearLine_def by (rule zeroed_out)
  qed
  have m2: "?m2 x = ?m1 x" if "x \<notin> history A" for x
  proof -
    have "x \<notin> region ?l (nat (int BUFFER_MAX_LENGTH) + 2)" using line_in_history [of "BUFFER_MAX_LENGTH + 2" A "lineCount S"] that by auto
    from u_stringCopy_out [OF this, of ?z ?p] z [OF that] show ?thesis by (rule trans)
  qed
  have con2: "constants_ok A ?m2" using m2 b1 by (intro constants_same [OF con]) auto
  then have "cstr ?m2 ?p (codes PROMPT)" by (simp add: constants_ok_def has_text_def)
  then have n6: "u_stringLength ?m2 ?p = Some 6" using stringLength_ok [of ?m2 ?p "codes PROMPT"] by (simp add: codes_PROMPT)
  let ?m3 = "snd (u_stringCopy ?m2 (?l + 6) 244 (lastCommand A))"
  have m3: "?m3 x = ?m2 x" if "x \<notin> history A" for x
  proof -
    have "region (?l + of_nat 6) 246 \<subseteq> region ?l (BUFFER_MAX_LENGTH + 2)" by (intro region_sub) simp
    then have "x \<notin> region (?l + 6) (nat 244 + 2)" using line_in_history [of "BUFFER_MAX_LENGTH + 2" A "lineCount S"] that by auto
    then show ?thesis by (rule u_stringCopy_out)
  qed
  have run: "store_line A S = Some (on_sh (\<lambda>_. ?m3) (S\<lparr>lineCount := lineCount S + 1\<rparr>))"
    unfolding store_line_def Let_def n using n6 by simp
  have "cstr ?m3 (lastCommand A) xs = cstr ?m1 (lastCommand A) xs"
  proof (rule cstr_region)
    fix x assume "x \<in> region (lastCommand A) (Suc ?n)"
    moreover have "region (lastCommand A) (Suc ?n) \<subseteq> buffer_at A" unfolding buffer_at_def using xs(2) by (intro region_mono) simp
    ultimately have "x \<notin> history A" using lay unfolding layout_ok_def by blast
    then show "?m3 x = ?m1 x" using m2 m3 by simp
  qed
  moreover have "constants_ok A ?m3" using m3 by (intro constants_same [OF con2]) auto
  ultimately show ?thesis using run c1 by simp
qed

lemma typed_chars:
  "length (fold edit cs xs) \<le> length xs + 3 * length cs" "0 \<notin> set xs \<Longrightarrow> 0 \<notin> set cs \<Longrightarrow> 0 \<notin> set (fold edit cs xs)"
proof (induction cs arbitrary: xs)
  case (Cons c cs)
  case 1
  have "length (fold edit cs (edit c xs)) \<le> length (edit c xs) + 3 * length cs" by (rule Cons.IH)
  then show ?case using edit_length [of c xs] by simp
  case 2
  then show ?case using Cons.IH(2) [of "edit c xs"] edit_chars by auto
qed auto

text \<open>The line is read, echoed and stored.\<close>

lemma typed_line:
  assumes "layout_ok A" "constants_ok A (sh_mem S)" "bufferCount S = 0"
    and "sh_answers A S (typing [] cs @ Out # es)" "10 \<notin> set cs" "0 \<notin> set cs" "3 * length cs < 500"
  shows "\<exists>S1 S2 S3. edit_loop A (on_sh (clearLine (lastCommand A)) S) = Some S1 \<and> echo A 10 S1 = Some S2 \<and>
    store_line A S2 = Some S3 \<and> cstr (sh_mem S3) (lastCommand A) (fold edit cs []) \<and> answers (fr (im A)) (pr S3) es \<and>
    (isBackground S3 \<longleftrightarrow> isBackground S \<or> 38 \<in> set cs) \<and> list_all (has_text (im A) (sh_mem S3)) names"
proof -
  let ?line = "fold edit cs []"
  have key: "key_cell A \<notin> buffer_at A" using assms(1) by (simp add: layout_ok_def)
  let ?S0 = "on_sh (clearLine (lastCommand A)) S"
  have cl: "region (lastCommand A) BUFFER_MAX_LENGTH \<subseteq> buffer_at A" unfolding buffer_at_def by (intro region_mono) simp
  have h0: "held A ?S0 []" "sh_answers A ?S0 (typing [] cs @ Out # es)" "isBackground ?S0 = isBackground S"
    using assms(3,4) by (simp_all add: held_def bytes_at_def answers_def)
  have con0: "constants_ok A (sh_mem ?S0)"
  proof (rule constants_same [OF assms(2)])
    fix x assume "x \<notin> insert (key_cell A) (buffer_at A \<union> history A)"
    then have "x \<notin> region (lastCommand A) BUFFER_MAX_LENGTH" using cl by blast
    then show "sh_mem ?S0 x = sh_mem S x" by (simp add: clearLine_def zeroed_out)
  qed
  obtain S1 where S1: "edit_loop A ?S0 = Some S1" "sh_answers A S1 (Out # es)" "held A S1 ?line" "only_edits A ?S0 S1"
    "isBackground S1 \<longleftrightarrow> isBackground S \<or> 38 \<in> set cs"
    using edit_loop_ok [OF key h0(2,1) assms(5)] assms(7) h0(3) by auto
  have line: "length ?line < 500" "0 \<notin> set ?line"
    using typed_chars(1) [of cs "[]"] typed_chars(2) [of "[]" cs] assms(6,7) by auto
  obtain S2 where S2: "echo A 10 S1 = Some S2" "sh_answers A S2 es" "held A S2 ?line" "only_edits A S1 S2" "isBackground S2 = isBackground S1"
    using echo_ok [OF S1(2,3) key line(1), of 10] by auto
  have con2: "constants_ok A (sh_mem S2)"
    using only_edits_trans [OF S1(4) S2(4)] by (intro constants_same [OF con0]) (auto simp: only_edits_def)
  obtain S3 where S3: "store_line A S2 = Some S3" "cstr (sh_mem S3) (lastCommand A) ?line" "replies (pr S3) = replies (pr S2)"
    "isBackground S3 = isBackground S2" "constants_ok A (sh_mem S3)"
    using store_line_ok [OF assms(1) con2 S2(3) line] by auto
  have names: "list_all (has_text (im A) (sh_mem S3)) names" using S3(5) by (simp add: constants_ok_def list_all_iff)
  moreover have "answers (fr (im A)) (pr S3) es" using S2(2) S3(3) by (simp add: answers_def)
  ultimately show ?thesis using S1(1,5) S2(1,5) S3(1,2,4) by blast
qed

text \<open> (C12)
  The shell reads the line its user sees: after any keys without a newline, edited as described
  (backspace, tab, and the ampersand that asks for the background), the newline makes
  \<^verbatim>\<open>awaitCommand\<close> return with that line in the buffer, the index of the command it names, and the
  index of the command behind its first bar if it has one; the ampersand is remembered.
\<close>

theorem awaitCommand_reads_line:
  assumes "layout_ok A" "constants_ok A (sh_mem S)" "bufferCount S = 0"
    and "sh_answers A S (typing [] cs @ Out # es)" "10 \<notin> set cs" "0 \<notin> set cs" "3 * length cs < 500"
    and "line = fold edit cs []" "bar = dropWhile (\<lambda>c. c \<noteq> 124) line" "length bar \<noteq> 1"
  shows "\<exists>S'. awaitCommand A S = Some (word_index (word_of line),
      if bar = [] then - 1 else word_index (word_of (drop 2 bar)), S') \<and>
    cstr (sh_mem S') (lastCommand A) line \<and> sh_answers A S' es \<and>
    (isBackground S' \<longleftrightarrow> isBackground S \<or> 38 \<in> set cs)"
proof -
  obtain S1 S2 S3 where S: "edit_loop A (on_sh (clearLine (lastCommand A)) S) = Some S1" "echo A 10 S1 = Some S2"
    "store_line A S2 = Some S3" "cstr (sh_mem S3) (lastCommand A) line" "answers (fr (im A)) (pr S3) es"
    "isBackground S3 \<longleftrightarrow> isBackground S \<or> 38 \<in> set cs" and names: "list_all (has_text (im A) (sh_mem S3)) names"
    using typed_line [OF assms(1-7)] assms(8) by auto
  have line: "length line < 500" using typed_chars(1) [of cs "[]"] assms(7,8) by simp
  note idx = checkCommand_ok [OF names S(4)]
  let ?k = "length (takeWhile (\<lambda>c. c \<noteq> 124) line)"
  have occ: "u_firstOcurrence (sh_mem S3) (lastCommand A) 124 =
      Some (if 124 \<in> set line then lastCommand A + of_nat ?k else NULL)"
    using firstOcurrence_ok [OF S(4), of 124] by simp
  have "?k < 500" using line length_takeWhile_le [of "\<lambda>c. c \<noteq> 124" line] by simp
  then have nn: "lastCommand A + of_nat ?k \<noteq> NULL" using assms(1) unfolding layout_ok_def buffer_at_def by (metis region_mem)
  show ?thesis
  proof (cases "124 \<in> set line")
    case False
    then have "bar = []" using assms(9) by auto
    then show ?thesis using S idx occ False by (simp add: awaitCommand_def)
  next
    case True
    then have ne: "bar \<noteq> []" using assms(9) by auto
    have split: "line = (takeWhile (\<lambda>c. c \<noteq> 124) line @ take 2 bar) @ drop 2 bar" using assms(9) by simp
    have "length (take 2 bar) = 2" using ne assms(10) by (cases bar; cases "tl bar") auto
    then have "cstr (sh_mem S3) (lastCommand A + of_nat (?k + 2)) (drop 2 bar)"
      using cstr_drop [of "sh_mem S3" "lastCommand A" "takeWhile (\<lambda>c. c \<noteq> 124) line @ take 2 bar" "drop 2 bar"] split S(4) by simp
    then have "cstr (sh_mem S3) (lastCommand A + of_nat ?k + 2) (drop 2 bar)" by (simp add: ac_simps)
    note jdx = checkCommand_ok [OF names this]
    show ?thesis using S idx jdx occ True nn ne by (simp add: awaitCommand_def)
  qed
qed

text \<open>The keys of \<open>wd\<close>, a backspace, \<open>c\<close> and an ampersand.\<close>

definition demo_keys :: "u8 list" where "demo_keys = codes ''wd'' @ [8] @ codes ''c&''"

lemma apart_insert: "X \<inter> {a} = {} \<Longrightarrow> X \<inter> B = {} \<Longrightarrow> X \<inter> H = {} \<Longrightarrow> X \<inter> insert a (B \<union> H) = {}"
  by auto

lemma demo_layout: "layout_ok demo_shell_image" "constants_ok demo_shell_image demo_rom"
proof -
  let ?A = demo_shell_image
  have s: "key_cell ?A = 0x30000" "buffer_at ?A = region 0x8000 500" "history ?A = region 0x60000 12502"
    by (simp_all add: key_cell_def buffer_at_def history_def demo_shell_image_def demo_image_def demo_frame_def)
  have one: "region a 1 = {a}" for a unfolding One_nat_def region_Suc by (simp add: region_def)
  have k: "region 0x30000 1 = {0x30000}" by (rule one)
  have "region 0x30000 1 \<inter> region 0x8000 500 = {}" "region 0x30000 1 \<inter> region 0x60000 12502 = {}"
    "region NULL 1 \<inter> region 0x8000 500 = {}"
    by (rule region_apart; simp)+
  then have "0x30000 \<notin> region 0x8000 500" "0x30000 \<notin> region 0x60000 12502" "NULL \<notin> region 0x8000 500"
    unfolding one by simp_all
  moreover have "region 0x8000 500 \<inter> region 0x60000 12502 = {}" by (rule region_apart; simp)
  ultimately show "layout_ok ?A" unfolding layout_ok_def s by simp
  have "has_text (im ?A) demo_rom t \<and>
      region (lit (im ?A) t) (Suc (length t)) \<inter> insert (key_cell ?A) (buffer_at ?A \<union> history ?A) = {}"
    if "t \<in> set (PROMPT # names)" for t
  proof -
    have t: "t \<in> set demo_texts" using that by (auto simp: demo_texts_def)
    then have l: "unat (lit (im ?A) t) + Suc (length t) \<le> 0x1000"
      using lit_low [OF t] demo_texts_ok(1) by (auto simp: demo_shell_image_def list_all_iff)
    have r: "region (lit (im ?A) t) (Suc (length t)) \<inter> region 0x30000 1 = {}"
      "region (lit (im ?A) t) (Suc (length t)) \<inter> region 0x8000 500 = {}"
      "region (lit (im ?A) t) (Suc (length t)) \<inter> region 0x60000 12502 = {}"
      using l by (intro region_apart; simp)+
    show ?thesis unfolding s using demo_has_text [OF t] apart_insert [OF r [unfolded k]] by (rule conjI)
  qed
  then show "constants_ok ?A demo_rom" unfolding constants_ok_def list_all_iff by blast
qed

lemma awaitCommand_reads_line_witness:
  "\<exists>S'. awaitCommand demo_shell_image (demo_shell [] (map (answer 0x30000) (typing [] demo_keys @ [Out]))) = Some (19, - 1, S') \<and>
     isBackground S' \<and> cstr (sh_mem S') 0x8000 (codes ''wc'')"
proof -
  let ?S = "demo_shell [] (map (answer 0x30000) (typing [] demo_keys @ [Out]))"
  have e: "fold edit demo_keys [] = codes ''wc''" by (simp add: demo_keys_def edit_def)
  have "with_text 0x8000 [] demo_rom = demo_rom" by (simp add: fun_eq_iff with_text_def region_def)
  then have "constants_ok demo_shell_image (sh_mem ?S)" using demo_layout(2) by (simp add: demo_shell_def)
  moreover have "sh_answers demo_shell_image ?S (typing [] demo_keys @ [Out])"
    by (simp add: answers_def demo_shell_def demo_shell_image_def demo_image_def demo_frame_def)
  moreover have "word_index (word_of (codes ''wc'')) = 19"
    by (simp add: word_index_def command_name_def loadCommands_def CMDS_COUNT_def upt_rec)
  moreover have "10 \<notin> set demo_keys" "0 \<notin> set demo_keys" "3 * length demo_keys < 500" "38 \<in> set demo_keys"
    by (simp_all add: demo_keys_def)
  moreover have "[] = dropWhile (\<lambda>c. c \<noteq> 124) (codes ''wc'')" "bufferCount ?S = 0" "lastCommand demo_shell_image = 0x8000"
    by (simp_all add: demo_shell_def demo_shell_image_def)
  ultimately show ?thesis
    using awaitCommand_reads_line [OF demo_layout(1), of ?S demo_keys "[]" "codes ''wc''" "[]"] e by auto
qed

section \<open>Starting a command\<close>

lemma via_trap:
  assumes "replies (pr S) = (r, []) # rs"
  shows "via (trap c) S = Some (r, S\<lparr>pr := (pr S)\<lparr>replies := rs, calls := calls (pr S) @ [c]\<rparr>\<rparr>)"
  using assms by (simp add: via_def trap_def store_all_def)

text \<open>
  A command without a pipe, seen from the shell: once its child is forked the shell yields the
  processor, and then waits for its children exactly if the line asked for no background; nothing
  else is asked of the kernel and nothing of the shell changes.
\<close>

theorem runProgram_waits_in_foreground:
  assumes "0 \<le> idx" "idx < int CMDS_COUNT" "jdx < 0" "(ucast pid :: u32) \<noteq> 0"
    and "replies (pr S) = (pid, []) # (y, []) # (if isBackground S then rs else (w, []) # rs)"
  shows "\<exists>S'. runProgram A idx jdx S = Some (Goes_on S') \<and>
    S' = S\<lparr>pr := (pr S)\<lparr>replies := rs,
      calls := calls (pr S) @ [Call 19 [], Call 38 []] @ (if isBackground S then [] else [Call 24 []])\<rparr>\<rparr>"
  using assms
  by (simp add: runProgram_def forked_def finish_def u_sysFork_def u_yield_def u_wait_def via_trap)

lemma runProgram_waits_in_foreground_witness:
  "\<exists>S'. runProgram demo_shell_image 19 (- 1) (demo_shell [] [(5, []), (0, []), (0, [])]) = Some (Goes_on S') \<and>
     calls (pr S') = [Call 19 [], Call 38 [], Call 24 []]"
  using runProgram_waits_in_foreground [of 19 "- 1" 5 "demo_shell [] [(5, []), (0, []), (0, [])]" 0 "[]" 0 demo_shell_image]
  by (simp add: demo_shell_def CMDS_COUNT_def)

end
