(* ===== verification/Tron.thy ===== *)
theory Tron
  imports Shell
begin

text \<open>
  The game of \<^verbatim>\<open>Userland/programs/tron.c\<close>: two players leave a line behind them on the screen and
  lose a life when the next pixel is taken.  The colours are in memory, where the kernel reads
  them: the border's, player 1's, player 2's and the one that \<open>validate\<close> reads are at \<open>loc 0\<close> to
  \<open>loc 3\<close>, the key is at \<open>loc 4\<close>, the width and the height of the screen at \<open>loc 5\<close> and \<open>loc 6\<close>.
\<close>

section \<open>Players\<close>

record player =
  p_no :: int
  HP :: int
  xAxis :: u64
  yAxis :: u64
  heading :: int
  col :: ptr

definition DOT :: u64 where "DOT = 1"
definition DEF_HEIGHT :: int where "DEF_HEIGHT = 16"
definition DEF_WIDTH :: int where "DEF_WIDTH = 9"

definition player1 :: "u8 list" where "player1 = [0x48, 0x4B, 0x4D, 0x50]"
definition player2 :: "u8 list" where "player2 = [0x11, 0x1E, 0x20, 0x1F]"

definition load16 :: "bytes \<Rightarrow> ptr \<Rightarrow> u16" where
  "load16 m a = or (ucast (m a)) (push_bit 8 (ucast (m (a + 1))))"

definition set_colour :: "ptr \<Rightarrow> u8 \<Rightarrow> u8 \<Rightarrow> u8 \<Rightarrow> bytes \<Rightarrow> bytes" where
  "set_colour a cr cg cb m = m(a := cr, a + 1 := cg, a + 2 := cb)"

section \<open>The board\<close>

definition screen_size :: "image \<Rightarrow> proc \<Rightarrow> (u16 \<times> u16 \<times> proc) option" where
  "screen_size A p = do {
     (_, p1) \<leftarrow> u_getScreenW (loc A 5) p;
     (_, p2) \<leftarrow> u_getScreenH (loc A 6) p1;
     Some (load16 (um p2) (loc A 5), load16 (um p2) (loc A 6), p2)
   }"

definition borders :: "image \<Rightarrow> proc \<Rightarrow> proc option" where
  "borders A p = do {
     (scrW, scrY, p1) \<leftarrow> screen_size A p;
     let xLimit = of_int (uint scrW - DEF_WIDTH);
     let yLimit = of_int (uint scrY - DEF_HEIGHT);
     let x = of_int DEF_WIDTH;
     let y = of_int DEF_HEIGHT;
     let p2 = on_um (set_colour (loc A 0) 0x7F 0x7F 0x7F) p1;
     (_, p3) \<leftarrow> u_drawLine x y xLimit y (loc A 0) p2;
     (_, p4) \<leftarrow> u_drawLine x y x yLimit (loc A 0) p3;
     (_, p5) \<leftarrow> u_drawLine x yLimit xLimit yLimit (loc A 0) p4;
     (_, p6) \<leftarrow> u_drawLine xLimit y xLimit yLimit (loc A 0) p5;
     Some p6
   }"

text \<open>The division of C rounds towards zero.\<close>

definition halve :: "int \<Rightarrow> int" where "halve n = sgn n * (\<bar>n\<bar> div 2)"

definition set_up :: "image \<Rightarrow> proc \<Rightarrow> (player \<times> player \<times> proc) option" where
  "set_up A p = do {
     (_, p1) \<leftarrow> u_clear p;
     (_, p2) \<leftarrow> u_changeFont 1 p1;
     (scrW, scrY, p3) \<leftarrow> screen_size A p2;
     let xPoint = (of_int (halve (uint scrW)) :: u64);
     let yPoint = (of_int (halve (uint scrY - DEF_HEIGHT)) :: u64);
     p4 \<leftarrow> borders A p3;
     let p5 = on_um (set_colour (loc A 2) 0xAA 0 0 \<circ> set_colour (loc A 1) 0 0 0xAA) p4;
     Some (\<lparr>p_no = 1, HP = 2, xAxis = xPoint - DOT, yAxis = yPoint, heading = 3, col = loc A 1\<rparr>,
           \<lparr>p_no = 2, HP = 2, xAxis = xPoint + DOT, yAxis = yPoint + of_int DEF_HEIGHT, heading = 2, col = loc A 2\<rparr>,
           p5)
   }"

section \<open>Moves\<close>

definition looseHP :: "player \<Rightarrow> player" where "looseHP P = P\<lparr>HP := HP P - 1\<rparr>"

text \<open>\<open>validate\<close> and \<open>check\<close>: is the pixel black?\<close>

definition validate :: "image \<Rightarrow> u64 \<Rightarrow> u64 \<Rightarrow> proc \<Rightarrow> ((u8 \<times> u8 \<times> u8) \<times> proc) option" where
  "validate A x y p = do {
     (_, p1) \<leftarrow> u_getPtrToPixel x y (loc A 3) p;
     Some ((um p1 (loc A 3), um p1 (loc A 3 + 1), um p1 (loc A 3 + 2)), p1)
   }"

definition check :: "u8 \<times> u8 \<times> u8 \<Rightarrow> bool" where
  "check c = (case c of (cr, cg, cb) \<Rightarrow> if cr \<noteq> 0 \<or> cg \<noteq> 0 \<or> cb \<noteq> 0 then False else True)"

text \<open>The four moves are the same but for the pixel they go to.\<close>

definition move_to :: "image \<Rightarrow> u64 \<Rightarrow> u64 \<Rightarrow> player \<Rightarrow> proc \<Rightarrow> (player \<times> proc) option" where
  "move_to A x y P p = do {
     (c, p1) \<leftarrow> validate A x y p;
     if check c then do {
       (_, p2) \<leftarrow> u_drawLine (ucast x) (ucast y) (ucast (xAxis P)) (ucast (yAxis P)) (col P) p1;
       Some (P\<lparr>xAxis := x, yAxis := y\<rparr>, p2)
     }
     else Some (looseHP P, p1)
   }"

definition moveUp :: "image \<Rightarrow> player \<Rightarrow> proc \<Rightarrow> (player \<times> proc) option" where
  "moveUp A P = move_to A (xAxis P) (yAxis P + DOT) P"
definition moveDown :: "image \<Rightarrow> player \<Rightarrow> proc \<Rightarrow> (player \<times> proc) option" where
  "moveDown A P = move_to A (xAxis P) (yAxis P - DOT) P"
definition moveLeft :: "image \<Rightarrow> player \<Rightarrow> proc \<Rightarrow> (player \<times> proc) option" where
  "moveLeft A P = move_to A (xAxis P - DOT) (yAxis P) P"
definition moveRight :: "image \<Rightarrow> player \<Rightarrow> proc \<Rightarrow> (player \<times> proc) option" where
  "moveRight A P = move_to A (xAxis P + DOT) (yAxis P) P"

definition move_player :: "image \<Rightarrow> int \<Rightarrow> player \<Rightarrow> proc \<Rightarrow> (player \<times> proc) option" where
  "move_player A i P p =
    (if i = 4 then moveUp A P p
     else if i = 2 then moveLeft A P p
     else if i = 3 then moveRight A P p
     else if i = 1 then moveDown A P p
     else Some (P, p))"

definition movePlayers :: "image \<Rightarrow> player \<Rightarrow> player \<Rightarrow> proc \<Rightarrow> (player \<times> player \<times> proc) option" where
  "movePlayers A P1 P2 p = do {
     (Q1, p1) \<leftarrow> move_player A (heading P1) P1 p;
     (Q2, p2) \<leftarrow> move_player A (heading P2) P2 p1;
     Some (Q1, Q2, p2)
   }"

section \<open>Keys\<close>

definition checkDir :: "int \<Rightarrow> int \<Rightarrow> int" where
  "checkDir move1 move2 =
    (if move1 = 1 then of_bool (move2 \<noteq> 4)
     else if move1 = 2 then of_bool (move2 \<noteq> 3)
     else if move1 = 3 then of_bool (move2 \<noteq> 2)
     else if move1 = 4 then of_bool (move2 \<noteq> 1)
     else - 1)"

definition turn :: "int \<Rightarrow> player \<Rightarrow> player" where
  "turn d P = (if checkDir (heading P) d \<noteq> 0 then P\<lparr>heading := d\<rparr> else P)"

fun change_from :: "nat list \<Rightarrow> u8 \<Rightarrow> player \<Rightarrow> player \<Rightarrow> player \<times> player" where
  "change_from [] key P1 P2 = (P1, P2)"
| "change_from (i # is) key P1 P2 =
    (if key = player1 ! i then (turn (int i + 1) P1, P2)
     else if key = player2 ! i then (P1, turn (int i + 1) P2)
     else change_from is key P1 P2)"

definition changeMove :: "u8 \<Rightarrow> player \<Rightarrow> player \<Rightarrow> player \<times> player" where
  "changeMove = change_from [0..<4]"

definition findKey :: "u8 \<Rightarrow> int" where
  "findKey key = (if list_ex (\<lambda>i. player1 ! i = key \<or> player2 ! i = key) [0..<4] then 0 else 1)"

section \<open>The game\<close>

definition who :: "player \<Rightarrow> player \<Rightarrow> int" where "who P1 P2 = (if HP P1 = 0 then 2 else 1)"

definition finished :: string where "finished = ''GAME FINISHED: WINNER IS PLAYER %d''"

text \<open>One round of the loop of \<open>play\<close>.\<close>

definition play_round :: "image \<Rightarrow> player \<Rightarrow> player \<Rightarrow> proc \<Rightarrow> (player \<times> player \<times> proc) option" where
  "play_round A P1 P2 p = do {
     (_, p1) \<leftarrow> u_sleep 80 p;
     (_, p2) \<leftarrow> u_gameRead (loc A 4) p1;
     let toDo = um p2 (loc A 4);
     let (Q1, Q2) = (if findKey toDo = 0 then changeMove toDo P1 P2 else (P1, P2));
     movePlayers A Q1 Q2 p2
   }"

partial_function (option) play_loop :: "image \<Rightarrow> player \<Rightarrow> player \<Rightarrow> proc \<Rightarrow> (player \<times> player \<times> proc) option" where
  "play_loop A P1 P2 p =
    (if 0 < HP P1 \<and> 0 < HP P2 then do { (Q1, Q2, p1) \<leftarrow> play_round A P1 P2 p; play_loop A Q1 Q2 p1 }
     else Some (P1, P2, p))"

definition play :: "image \<Rightarrow> player \<Rightarrow> player \<Rightarrow> proc \<Rightarrow> proc option" where
  "play A P1 P2 p = do {
     (Q1, Q2, p1) \<leftarrow> play_loop A P1 P2 p;
     (_, p2) \<leftarrow> printf (fr A) (lit A finished) [of_int (who Q1 Q2)] p1;
     (_, p3) \<leftarrow> u_beep 2000 p2;
     (_, p4) \<leftarrow> u_clear p3;
     Some p4
   }"

definition tron :: "image \<Rightarrow> proc \<Rightarrow> proc option" where
  "tron A p = do { (P1, P2, p1) \<leftarrow> set_up A p; play A P1 P2 p1 }"

text \<open>The shell's command.\<close>

definition playTron :: "sh_image \<Rightarrow> shell \<Rightarrow> (int \<times> shell) option" where
  "playTron A S = do {
     p \<leftarrow> tron (im A) (pr S);
     (_, S1) \<leftarrow> via (u_changeFont (of_int (fontSize S))) (S\<lparr>pr := p\<rparr>);
     S2 \<leftarrow> refresh A S1;
     Some (0, S2)
   }"

end
