(* ===== verification/TronProps.thy ===== *)
theory TronProps
  imports Tron ProgramsProps
begin

text \<open>
  The rules of the game: what a round does to the two players, given what the kernel answers, and
  the calls it makes.
\<close>

section \<open>The rules\<close>

text \<open>Directions are 1 to 4; the opposite of \<open>d\<close> is \<open>5 - d\<close>.\<close>

definition facing :: "player \<Rightarrow> bool" where "facing P \<longleftrightarrow> heading P \<in> {1, 2, 3, 4}"

text \<open>The keys: the arrows steer player 1, the keys w, a, d, s steer player 2.\<close>

definition steers :: "u8 \<Rightarrow> (int \<times> int) option" where
  "steers = map_of [(0x48, (1, 1)), (0x4B, (1, 2)), (0x4D, (1, 3)), (0x50, (1, 4)),
     (0x11, (2, 1)), (0x1E, (2, 2)), (0x20, (2, 3)), (0x1F, (2, 4))]"

text \<open>A player takes the direction of its key unless that is straight back.\<close>

definition steered :: "int \<Rightarrow> u8 \<Rightarrow> player \<Rightarrow> player" where
  "steered n key P =
    (case steers key of
       Some (k, d) \<Rightarrow> if k = n \<and> d \<noteq> 5 - heading P then P\<lparr>heading := d\<rparr> else P
     | None \<Rightarrow> P)"

text \<open>The pixel ahead: 4 goes to the next row, 1 to the one before, 2 to the left, 3 to the right.\<close>

definition ahead :: "player \<Rightarrow> u64 \<times> u64" where
  "ahead P = (if heading P = 4 then (xAxis P, yAxis P + 1) else if heading P = 2 then (xAxis P - 1, yAxis P)
     else if heading P = 3 then (xAxis P + 1, yAxis P) else (xAxis P, yAxis P - 1))"

text \<open>A player moves there if the pixel is free, and loses a life if it is not.\<close>

definition stepped :: "bool \<Rightarrow> player \<Rightarrow> player" where
  "stepped free P = (if free then P\<lparr>xAxis := fst (ahead P), yAxis := snd (ahead P)\<rparr> else P\<lparr>HP := HP P - 1\<rparr>)"

text \<open>The calls of a move: the pixel is asked for, and the line is drawn if it is free.\<close>

definition step_calls :: "image \<Rightarrow> bool \<Rightarrow> player \<Rightarrow> ucall list" where
  "step_calls A free P = Call 8 [fst (ahead P), snd (ahead P), loc A 3] #
     (if free then [Call 10 [ucast (ucast (fst (ahead P)) :: u16), ucast (ucast (snd (ahead P)) :: u16),
        ucast (ucast (xAxis P) :: u16), ucast (ucast (yAxis P) :: u16), col P]] else [])"

section \<open>A program after some calls\<close>

text \<open>The memory of a program after \<open>k\<close> answers, and the program after the calls \<open>cs\<close>.\<close>

definition um_after :: "nat \<Rightarrow> proc \<Rightarrow> bytes" where
  "um_after k p = fold (\<lambda>(r, ws). store_all ws) (take k (replies p)) (um p)"

definition after :: "ucall list \<Rightarrow> proc \<Rightarrow> proc" where
  "after cs p = p\<lparr>um := um_after (length cs) p, replies := drop (length cs) (replies p), calls := calls p @ cs\<rparr>"

lemma after_Nil: "after [] p = p"
  by (simp add: after_def um_after_def)

lemma um_after_simp [simp]: "um (after cs p) = um_after (length cs) p"
  by (simp add: after_def)

lemma trap_after:
  assumes "length cs < length (replies p)"
  shows "\<exists>r. trap c (after cs p) = Some (r, after (cs @ [c]) p)"
proof -
  obtain r ws where r: "replies p ! length cs = (r, ws)" by fastforce
  have "drop (length cs) (replies p) = (r, ws) # drop (Suc (length cs)) (replies p)"
    using Cons_nth_drop_Suc [OF assms] r by simp
  moreover have "um_after (Suc (length cs)) p = store_all ws (um_after (length cs) p)"
    using assms r by (simp add: um_after_def take_Suc_conv_app_nth)
  ultimately show ?thesis by (simp add: trap_def after_def)
qed

text \<open>Is the pixel that was asked for black?\<close>

definition free_at :: "bytes \<Rightarrow> ptr \<Rightarrow> bool" where
  "free_at m c \<longleftrightarrow> m c = 0 \<and> m (c + 1) = 0 \<and> m (c + 2) = 0"

lemma check_iff: "check (a, b, c) \<longleftrightarrow> a = 0 \<and> b = 0 \<and> c = 0"
  by (simp add: check_def)

lemma move_to_step:
  assumes "length cs + 2 \<le> length (replies p)" "f = free_at (um_after (Suc (length cs)) p) (loc A 3)"
  shows "move_to A (fst (ahead P)) (snd (ahead P)) P (after cs p) = Some (stepped f P, after (cs @ step_calls A f P) p)"
proof -
  let ?x = "fst (ahead P)" and ?y = "snd (ahead P)"
  let ?c = "Call 8 [?x, ?y, loc A 3]"
  obtain r where r: "trap ?c (after cs p) = Some (r, after (cs @ [?c]) p)"
    using trap_after [of cs p ?c] assms(1) by auto
  let ?d = "Call 10 [ucast (ucast ?x :: u16), ucast (ucast ?y :: u16), ucast (ucast (xAxis P) :: u16),
    ucast (ucast (yAxis P) :: u16), col P]"
  obtain r' where r': "trap ?d (after (cs @ [?c]) p) = Some (r', after ((cs @ [?c]) @ [?d]) p)"
    using trap_after [of "cs @ [?c]" p ?d] assms(1) by auto
  have v: "validate A ?x ?y (after cs p) = Some ((um_after (Suc (length cs)) p (loc A 3),
      um_after (Suc (length cs)) p (loc A 3 + 1), um_after (Suc (length cs)) p (loc A 3 + 2)), after (cs @ [?c]) p)"
    using r by (simp add: validate_def u_getPtrToPixel_def)
  have f: "check (um_after (Suc (length cs)) p (loc A 3), um_after (Suc (length cs)) p (loc A 3 + 1),
      um_after (Suc (length cs)) p (loc A 3 + 2)) = f"
    using assms(2) unfolding check_iff free_at_def by simp
  show ?thesis
    using v r' f
    by (cases f) (simp_all add: move_to_def looseHP_def u_drawLine_def stepped_def step_calls_def)
qed

lemma move_player_step:
  assumes "facing P" "length cs + 2 \<le> length (replies p)" "f = free_at (um_after (Suc (length cs)) p) (loc A 3)"
  shows "move_player A (heading P) P (after cs p) = Some (stepped f P, after (cs @ step_calls A f P) p)"
proof -
  have "move_player A (heading P) P (after cs p) = move_to A (fst (ahead P)) (snd (ahead P)) P (after cs p)"
    using assms(1) by (auto simp: move_player_def moveUp_def moveDown_def moveLeft_def moveRight_def facing_def
        ahead_def DOT_def)
  then show ?thesis using move_to_step [OF assms(2,3)] by simp
qed

section \<open>Steering\<close>

lemma turn_eq: "facing P \<Longrightarrow> turn d P = (if d \<noteq> 5 - heading P then P\<lparr>heading := d\<rparr> else P)"
  by (auto simp: facing_def turn_def checkDir_def)

lemma steer_keys:
  assumes "facing P1" "facing P2"
  shows "(if findKey key = 0 then changeMove key P1 P2 else (P1, P2)) = (steered 1 key P1, steered 2 key P2)"
proof -
  have u: "[0..<4] = [0, 1, 2, 3]" by (simp add: upt_rec)
  consider "key = 0x48" | "key = 0x4B" | "key = 0x4D" | "key = 0x50" | "key = 0x11" | "key = 0x1E" | "key = 0x20" | "key = 0x1F"
    | "key \<notin> {0x48, 0x4B, 0x4D, 0x50, 0x11, 0x1E, 0x20, 0x1F}" by blast
  then show ?thesis
    using turn_eq [OF assms(1)] turn_eq [OF assms(2)]
    by cases (simp_all add: steered_def steers_def findKey_def changeMove_def u player1_def player2_def)
qed

lemma facing_steered: "facing P \<Longrightarrow> facing (steered n key P)"
  by (auto simp: steered_def steers_def facing_def split: option.splits if_splits)

section \<open>A round\<close>

text \<open> (C31)
  A round of the game is always played, by these rules.  The key that the kernel answers turns the
  player whose key it is, never straight back, and the other one keeps its direction.  Then player 1
  and after it player 2 asks for the pixel ahead: if it is black the player moves there and its line
  is drawn, and if it is not the player stays and loses a life.  The round makes these calls and no
  others, in this order.
\<close>

theorem play_round_rules:
  assumes "facing P1" "facing P2" "6 \<le> length (replies p)"
    and "key = um_after 2 p (loc A 4)" "T1 = steered 1 key P1" "T2 = steered 2 key P2"
    and "f1 = free_at (um_after 3 p) (loc A 3)" "f2 = free_at (um_after (if f1 then 5 else 4) p) (loc A 3)"
  shows "play_round A P1 P2 p = Some (stepped f1 T1, stepped f2 T2,
    after ([Call 4 [80], Call 9 [loc A 4]] @ step_calls A f1 T1 @ step_calls A f2 T2) p)"
proof -
  let ?c0 = "Call 4 [80]" and ?c1 = "Call 9 [loc A 4]"
  have l0: "length [] < length (replies p)" using assms(3) by (cases "replies p") simp_all
  obtain r0 where r0: "u_sleep 80 p = Some (r0, after [?c0] p)"
    using trap_after [OF l0, of ?c0] by (auto simp: after_Nil u_sleep_def)
  obtain r1 where r1: "u_gameRead (loc A 4) (after [?c0] p) = Some (r1, after [?c0, ?c1] p)"
    using trap_after [of "[?c0]" p ?c1] assms(3) by (auto simp: u_gameRead_def)
  have k: "um (after [?c0, ?c1] p) (loc A 4) = key" using assms(4) by (simp add: numeral_2_eq_2)
  have m1: "move_player A (heading T1) T1 (after [?c0, ?c1] p) =
      Some (stepped f1 T1, after ([?c0, ?c1] @ step_calls A f1 T1) p)"
    using assms(3,7) facing_steered [OF assms(1)] assms(5)
    by (intro move_player_step) (simp_all add: numeral_3_eq_3)
  have m2: "move_player A (heading T2) T2 (after ([?c0, ?c1] @ step_calls A f1 T1) p) =
      Some (stepped f2 T2, after (([?c0, ?c1] @ step_calls A f1 T1) @ step_calls A f2 T2) p)"
    using assms(3,8) facing_steered [OF assms(2)] assms(6)
    by (intro move_player_step) (simp_all add: step_calls_def eval_nat_numeral)
  have st: "(if findKey key = 0 then changeMove key P1 P2 else (P1, P2)) = (T1, T2)"
    using steer_keys [OF assms(1,2)] assms(5,6) by simp
  show ?thesis
    using m1 m2 by (simp add: play_round_def movePlayers_def Let_def r0 r1 k st split del: if_split del: um_after_simp cong: if_cong)
qed

text \<open>The players face each other's side when the game starts.\<close>

lemma set_up_facing: "set_up A p = Some (P1, P2, q) \<Longrightarrow> facing P1 \<and> facing P2 \<and> HP P1 = 2 \<and> HP P2 = 2"
  by (auto simp: set_up_def Let_def facing_def split: bind_splits)

definition demo_player :: "int \<Rightarrow> u64 \<Rightarrow> player" where
  "demo_player d x = \<lparr>p_no = 1, HP = 2, xAxis = x, yAxis = 100, heading = d, col = 0\<rparr>"

definition tron_image :: image where
  "tron_image = demo_image\<lparr>loc := \<lambda>i. 0x40000 + 16 * of_nat i\<rparr>"

text \<open>Player 1 turns with the arrow key and moves on; player 2 runs into a red pixel.\<close>

theorem play_round_rules_witness:
  "\<exists>q. play_round tron_image (demo_player 3 99) (demo_player 2 101)
      (demo_proc [(0, []), (0, [(0x40040, 0x48)]), (0, []), (0, []), (0, [(0x40032, 0xAA)]), (0, [])]) =
    Some ((demo_player 1 99)\<lparr>yAxis := 99\<rparr>, (demo_player 2 101)\<lparr>HP := 1\<rparr>, q)"
proof -
  let ?p = "demo_proc [(0, []), (0, [(0x40040, 0x48)]), (0, []), (0, []), (0, [(0x40032, 0xAA)]), (0, [])]"
  have h: "facing (demo_player 3 99)" "facing (demo_player 2 101)" "6 \<le> length (replies ?p)"
    by (simp_all add: facing_def demo_player_def demo_proc_def)
  have l: "loc tron_image 3 = 0x40030" "loc tron_image 4 = 0x40040" by (simp_all add: tron_image_def)
  have k: "um_after 2 ?p 0x40040 = 0x48" by (simp add: um_after_def demo_proc_def store_all_def)
  have f: "free_at (um_after 3 ?p) 0x40030" "\<not> free_at (um_after 5 ?p) 0x40030"
    by (simp_all add: free_at_def um_after_def demo_proc_def store_all_def tbl_eval)
  have s: "steered 1 0x48 (demo_player 3 99) = demo_player 1 99" "steered 2 0x48 (demo_player 2 101) = demo_player 2 101"
    by (simp_all add: steered_def steers_def demo_player_def)
  have t: "stepped True (demo_player 1 99) = (demo_player 1 99)\<lparr>yAxis := 99\<rparr>"
    "stepped False (demo_player 2 101) = (demo_player 2 101)\<lparr>HP := 1\<rparr>"
    by (simp_all add: stepped_def ahead_def demo_player_def)
  show ?thesis
    using play_round_rules [OF h refl refl refl refl refl, of tron_image] by (simp add: l k f s t)
qed

end
