(* ===== verification/Tests.thy ===== *)
theory Tests
  imports Programs
begin

text \<open>
  The test programs of \<^verbatim>\<open>Userland/programs\<close>: \<^verbatim>\<open>test_mm.c\<close>, \<^verbatim>\<open>test_prio.c\<close>, \<^verbatim>\<open>test_processes.c\<close> and
  \<^verbatim>\<open>test_sync.c\<close>, with the waits of \<^verbatim>\<open>test_utils.c\<close>.  The state of the random numbers is passed; what
  an uninitialised local holds is an argument.
\<close>

section \<open>Waits\<close>

text \<open>\<^verbatim>\<open>for (i = 0; i < n; i++) ;\<close>\<close>

fun bussy_wait :: "nat \<Rightarrow> proc \<Rightarrow> proc" where
  "bussy_wait 0 p = p"
| "bussy_wait (Suc n) p = bussy_wait n p"

partial_function (option) endless_loop :: "proc \<Rightarrow> proc option" where
  "endless_loop p = endless_loop p"

partial_function (option) print_for_ever :: "image \<Rightarrow> u64 \<Rightarrow> u64 \<Rightarrow> proc \<Rightarrow> proc option" where
  "print_for_ever A wait pid p = do {
     (_, p1) \<leftarrow> printf (fr A) (lit A ''%d '') [pid] p;
     print_for_ever A wait pid (bussy_wait (unat wait) p1)
   }"

definition endless_loop_print :: "image \<Rightarrow> u64 \<Rightarrow> proc \<Rightarrow> proc option" where
  "endless_loop_print A wait p = do { (pid, p1) \<leftarrow> u_getPid p; print_for_ever A wait pid p1 }"

definition say :: "image \<Rightarrow> string \<Rightarrow> proc \<Rightarrow> proc option" where
  "say A t p = map_option snd (printf (fr A) (lit A t) [] p)"

section \<open>The memory manager\<close>

definition MAX_BLOCKS :: nat where "MAX_BLOCKS = 128"
definition max_memory :: u64 where "max_memory = 5000"

type_synonym rand = "u32 \<times> u32"

text \<open>The blocks requested so far, in order, as addresses and sizes.\<close>

partial_function (option) request_loop ::
    "(u32 \<Rightarrow> u32 \<Rightarrow> u32) \<Rightarrow> (ptr \<times> u32) list \<Rightarrow> u32 \<Rightarrow> rand \<Rightarrow> proc \<Rightarrow> ((ptr \<times> u32) list \<times> rand \<times> proc) option" where
  "request_loop scale rqs tot g p =
    (if length rqs < MAX_BLOCKS \<and> ucast tot < max_memory
     then do {
       let (u, g1) = GetUniform scale (ucast (max_memory - ucast tot - 1)) g;
       let n = u + 1;
       (a, p1) \<leftarrow> malloc (ucast n) p;
       if a \<noteq> NULL then request_loop scale (rqs @ [(a, n)]) (tot + n) g1 p1
       else request_loop scale rqs tot g1 p1
     }
     else Some (rqs, g, p))"

fun set_blocks :: "nat \<Rightarrow> (ptr \<times> u32) list \<Rightarrow> bytes \<Rightarrow> bytes" where
  "set_blocks i [] m = m"
| "set_blocks i ((a, n) # rqs) m =
    set_blocks (Suc i) rqs (if a \<noteq> NULL then u_memset a (int i) (unat n) m else m)"

fun check_blocks :: "nat \<Rightarrow> (ptr \<times> u32) list \<Rightarrow> bytes \<Rightarrow> bool" where
  "check_blocks i [] m = True"
| "check_blocks i ((a, n) # rqs) m =
    (if a \<noteq> NULL \<and> \<not> memcheck m a (of_nat i) (unat n) then False else check_blocks (Suc i) rqs m)"

fun free_blocks :: "(ptr \<times> u32) list \<Rightarrow> proc \<Rightarrow> proc option" where
  "free_blocks [] p = Some p"
| "free_blocks ((a, n) # rqs) p = do { p1 \<leftarrow> (if a \<noteq> NULL then u_free a p else Some p); free_blocks rqs p1 }"

partial_function (option) test_mm :: "image \<Rightarrow> (u32 \<Rightarrow> u32 \<Rightarrow> u32) \<Rightarrow> rand \<Rightarrow> proc \<Rightarrow> (int \<times> proc) option" where
  "test_mm A scale g p = do {
     (rqs, g1, p1) \<leftarrow> request_loop scale [] 0 g p;
     let p2 = on_um (set_blocks 0 rqs) p1;
     if \<not> check_blocks 0 rqs (um p2)
     then do { p3 \<leftarrow> say A (''test_mm ERROR'' @ eol) p2; Some (- 1, p3) }
     else do { p3 \<leftarrow> free_blocks rqs p2; test_mm A scale g1 p3 }
   }"

section \<open>Priorities\<close>

abbreviation TOTAL_PROCESSES :: nat where "TOTAL_PROCESSES \<equiv> 6"
definition WAIT :: nat where "WAIT = 100000000"
definition prio :: "u64 list" where "prio = [0, 1, 2, 3, 4, 5]"

definition as_int :: "u64 \<Rightarrow> int" where "as_int r = sint (ucast r :: u32)"

text \<open>The local \<open>argv\<close> is at \<open>loc 0\<close>; \<open>code\<close> is the address of the program to start.\<close>

fun fork_loop :: "image \<Rightarrow> ptr \<Rightarrow> nat list \<Rightarrow> u64 list \<Rightarrow> proc \<Rightarrow> (u64 list \<times> proc) option" where
  "fork_loop A code [] ids p = Some (ids, p)"
| "fork_loop A code (i # is) ids p = do {
     (r, p1) \<leftarrow> u_sysFork p;
     let j = as_int r;
     let pids1 = (if j \<noteq> 0 then ids[i := of_int j] else ids);
     p2 \<leftarrow> (if j = 0 then map_option snd (u_sysExecve code 0 (loc A 0) p1) else Some p1);
     fork_loop A code is pids1 p2
   }"

text \<open>A call for each process.\<close>

fun each :: "(nat \<Rightarrow> u64 \<Rightarrow> proc \<Rightarrow> (u64 \<times> proc) option) \<Rightarrow> nat list \<Rightarrow> u64 list \<Rightarrow> proc \<Rightarrow> proc option" where
  "each f [] ids p = Some p"
| "each f (i # is) ids p = do { (_, p1) \<leftarrow> f i (ids ! i) p; each f is ids p1 }"

definition test_prio :: "image \<Rightarrow> ptr \<Rightarrow> u64 list \<Rightarrow> proc \<Rightarrow> (int \<times> proc) option" where
  "test_prio A code pids0 p = do {
     let all = [0..<TOTAL_PROCESSES];
     (ids, p1) \<leftarrow> fork_loop A code all pids0 (on_um (store64 (loc A 0) 0) p);
     p2 \<leftarrow> say A (eol @ ''CHANGING PRIORITIES...'' @ eol) (bussy_wait WAIT p1);
     p3 \<leftarrow> each (\<lambda>i pid. u_sysPriority (ucast pid) (ucast (prio ! i))) all ids p2;
     p4 \<leftarrow> say A (eol @ ''BLOCKING...'' @ eol) (bussy_wait WAIT p3);
     p5 \<leftarrow> each (\<lambda>i. u_sysBlock) all ids p4;
     p6 \<leftarrow> say A (''CHANGING PRIORITIES WHILE BLOCKED...'' @ eol) p5;
     p7 \<leftarrow> each (\<lambda>i pid. u_sysPriority (ucast pid) 2) all ids p6;
     p8 \<leftarrow> say A (''UNBLOCKING...'' @ eol) p7;
     p9 \<leftarrow> each (\<lambda>i. u_sysUnblock) all ids p8;
     p10 \<leftarrow> say A (eol @ ''KILLING...'' @ eol) (bussy_wait WAIT p9);
     p11 \<leftarrow> each (\<lambda>i pid. u_sysKill (ucast pid)) all ids p10;
     Some (0, p11)
   }"

section \<open>Processes\<close>

datatype p_state = RQ_RUNNING | RQ_BLOCKED | RQ_KILLED

record rqs =
  rq_pids :: "int list"
  rq_states :: "p_state list"
  alive :: u8
  rnd :: rand
  tp :: proc

definition max_processes :: nat where "max_processes = 5"

definition failed :: "image \<Rightarrow> string \<Rightarrow> rqs \<Rightarrow> (rqs + int \<times> proc) option" where
  "failed A t R = do { p \<leftarrow> say A (''test_processes: ERROR '' @ t @ eol) (tp R); Some (Inr (- 1, p)) }"

text \<open>A step that may end the program with its result.\<close>

definition go_on :: "(rqs + int \<times> proc) option \<Rightarrow> (rqs \<Rightarrow> (rqs + int \<times> proc) option) \<Rightarrow> (rqs + int \<times> proc) option" where
  "go_on r f = do { v \<leftarrow> r; (case v of Inl R \<Rightarrow> f R | Inr e \<Rightarrow> Some (Inr e)) }"

fun create_loop :: "image \<Rightarrow> ptr \<Rightarrow> nat list \<Rightarrow> rqs \<Rightarrow> (rqs + int \<times> proc) option" where
  "create_loop A code [] R = Some (Inl R)"
| "create_loop A code (q # qs) R = do {
     (r, p1) \<leftarrow> u_sysFork (tp R);
     let i = as_int r;
     p2 \<leftarrow> (if i = 0 then map_option snd (u_sysExecve code 0 (loc A 0) p1) else Some p1);
     let R1 = R\<lparr>tp := p2, rq_pids := (if i \<noteq> 0 then (rq_pids R)[q := i] else rq_pids R)\<rparr>;
     if rq_pids R1 ! q = - 1 then failed A ''creating process'' R1
     else create_loop A code qs (R1\<lparr>rq_states := (rq_states R1)[q := RQ_RUNNING], alive := alive R1 + 1\<rparr>)
   }"

text \<open>\<^verbatim>\<open>GetUniform(100) % 2\<close>.\<close>

definition coin :: "(u32 \<Rightarrow> u32 \<Rightarrow> u32) \<Rightarrow> rqs \<Rightarrow> u32 \<times> rqs" where
  "coin scale R = (let (u, g) = GetUniform scale 100 (rnd R) in (u mod 2, R\<lparr>rnd := g\<rparr>))"

definition kill_or_block :: "image \<Rightarrow> u32 \<Rightarrow> nat \<Rightarrow> rqs \<Rightarrow> (rqs + int \<times> proc) option" where
  "kill_or_block A action q R =
    (if action = 0 then
       (if rq_states R ! q = RQ_RUNNING \<or> rq_states R ! q = RQ_BLOCKED then do {
          (r, p) \<leftarrow> u_sysKill (of_int (rq_pids R ! q)) (tp R);
          let R1 = R\<lparr>tp := p\<rparr>;
          if as_int r = - 1 then failed A ''killing process'' R1
          else Some (Inl (R1\<lparr>rq_states := (rq_states R)[q := RQ_KILLED], alive := alive R - 1\<rparr>))
        }
        else Some (Inl R))
     else if action = 1 then
       (if rq_states R ! q = RQ_RUNNING then do {
          (r, p) \<leftarrow> u_sysBlock (of_int (rq_pids R ! q)) (tp R);
          let R1 = R\<lparr>tp := p\<rparr>;
          if as_int r = - 1 then failed A ''blocking process'' R1
          else Some (Inl (R1\<lparr>rq_states := (rq_states R)[q := RQ_BLOCKED]\<rparr>))
        }
        else Some (Inl R))
     else Some (Inl R))"

fun hit_loop :: "image \<Rightarrow> (u32 \<Rightarrow> u32 \<Rightarrow> u32) \<Rightarrow> nat list \<Rightarrow> rqs \<Rightarrow> (rqs + int \<times> proc) option" where
  "hit_loop A scale [] R = Some (Inl R)"
| "hit_loop A scale (q # qs) R =
    (let (action, R1) = coin scale R in go_on (kill_or_block A action q R1) (hit_loop A scale qs))"

fun unblock_loop :: "image \<Rightarrow> (u32 \<Rightarrow> u32 \<Rightarrow> u32) \<Rightarrow> nat list \<Rightarrow> rqs \<Rightarrow> (rqs + int \<times> proc) option" where
  "unblock_loop A scale [] R = Some (Inl R)"
| "unblock_loop A scale (q # qs) R =
    (if rq_states R ! q = RQ_BLOCKED then
       (let (toss, R1) = coin scale R in
        if toss \<noteq> 0 then do {
          (r, p) \<leftarrow> u_sysUnblock (of_int (rq_pids R1 ! q)) (tp R1);
          let R2 = R1\<lparr>tp := p\<rparr>;
          if as_int r = - 1 then failed A ''unblocking process'' R2
          else unblock_loop A scale qs (R2\<lparr>rq_states := (rq_states R2)[q := RQ_RUNNING]\<rparr>)
        }
        else unblock_loop A scale qs R1)
     else unblock_loop A scale qs R)"

partial_function (option) alive_loop ::
    "image \<Rightarrow> (u32 \<Rightarrow> u32 \<Rightarrow> u32) \<Rightarrow> rqs \<Rightarrow> (rqs + int \<times> proc) option" where
  "alive_loop A scale R =
    (if 0 < alive R then do {
       v \<leftarrow> go_on (hit_loop A scale [0..<max_processes] R) (unblock_loop A scale [0..<max_processes]);
       (case v of
          Inr e \<Rightarrow> Some (Inr e)
        | Inl R1 \<Rightarrow> do { (_, p) \<leftarrow> u_setToForeground (tp R1); alive_loop A scale (R1\<lparr>tp := p\<rparr>) })
     }
     else Some (Inl R))"

partial_function (option) processes_loop ::
    "image \<Rightarrow> ptr \<Rightarrow> (u32 \<Rightarrow> u32 \<Rightarrow> u32) \<Rightarrow> rqs \<Rightarrow> (int \<times> proc) option" where
  "processes_loop A code scale R = do {
     v \<leftarrow> go_on (create_loop A code [0..<max_processes] R)
       (\<lambda>R1. do {
          (_, p1) \<leftarrow> u_yield (tp R1);
          (_, p2) \<leftarrow> u_setToBackground p1;
          alive_loop A scale (R1\<lparr>tp := p2\<rparr>)
        });
     (case v of Inr e \<Rightarrow> Some e | Inl R2 \<Rightarrow> processes_loop A code scale R2)
   }"

definition test_processes ::
    "image \<Rightarrow> ptr \<Rightarrow> (u32 \<Rightarrow> u32 \<Rightarrow> u32) \<Rightarrow> int list \<Rightarrow> p_state list \<Rightarrow> rand \<Rightarrow> proc \<Rightarrow> (int \<times> proc) option" where
  "test_processes A code scale pids0 states0 g p =
     processes_loop A code scale
       \<lparr>rq_pids = pids0, rq_states = states0, alive = 0, rnd = g, tp = on_um (store64 (loc A 0) 0) p\<rparr>"

section \<open>Synchronisation\<close>

text \<open>The static \<open>global\<close> is at \<open>loc 1\<close>, the semaphore's name at \<open>lit\<close>.\<close>

definition SEM_ID :: "image \<Rightarrow> ptr" where "SEM_ID A = lit A ''sem''"

definition slowInc :: "ptr \<Rightarrow> u64 \<Rightarrow> bytes \<Rightarrow> bytes" where
  "slowInc a inc m = (let aux = load64 m a in store64 a (aux + inc) m)"

definition if_sem :: "bool \<Rightarrow> (proc \<Rightarrow> (u64 \<times> proc) option) \<Rightarrow> proc \<Rightarrow> proc option" where
  "if_sem use f p = (if use then map_option snd (f p) else Some p)"

fun inc_loop :: "image \<Rightarrow> nat \<Rightarrow> u64 \<Rightarrow> bool \<Rightarrow> proc \<Rightarrow> proc option" where
  "inc_loop A 0 inc use p = Some p"
| "inc_loop A (Suc n) inc use p = do {
     p1 \<leftarrow> if_sem use (u_sysSemDown (SEM_ID A)) p;
     p2 \<leftarrow> if_sem use (u_sysSemUp (SEM_ID A)) (on_um (slowInc (loc A 1) inc) p1);
     inc_loop A n inc use p2
   }"

text \<open>\<open>n\<close> is unsigned, so a negative argument counts as a large one; \<open>inc\<close> and \<open>use_sem\<close> are bytes.\<close>

definition my_process_inc :: "image \<Rightarrow> int \<Rightarrow> ptr \<Rightarrow> proc \<Rightarrow> (int \<times> proc) option" where
  "my_process_inc A argc argv p =
    (if argc \<noteq> 3 then Some (- 1, p)
     else do {
       a0 \<leftarrow> satoi (um p) (arg argv 0 p);
       if (of_int a0 :: u64) = 0 then Some (- 1, p) else do {
       a1 \<leftarrow> satoi (um p) (arg argv 1 p);
       let inc = (of_int a1 :: u8);
       if inc = 0 then Some (- 1, p) else do {
       a2 \<leftarrow> satoi (um p) (arg argv 2 p);
       let use_sem = (of_int a2 :: u8);
       if sint use_sem \<le> 0 then Some (- 1, p) else do {
       let use = (use_sem \<noteq> 0);
       (r, p1) \<leftarrow> (if use then u_sysSemOpen (SEM_ID A) 1 p else Some (0, p));
       if use \<and> r = - 1 then do { p2 \<leftarrow> say A (''test_sync: ERROR opening semaphore'' @ eol) p1; Some (- 1, p2) }
       else do {
         p2 \<leftarrow> inc_loop A (unat (of_int a0 :: u64)) (scast inc) use p1;
         p3 \<leftarrow> if_sem use (u_sysSemClose (SEM_ID A)) p2;
         Some (0, p3)
       }}}}
     })"

definition slot :: "ptr \<Rightarrow> nat \<Rightarrow> bytes \<Rightarrow> ptr" where "slot v i m = load64 m (v + 8 * of_nat i)"

text \<open>Three buffers into the slots of the vector \<open>v\<close>.\<close>

fun give_slots :: "ptr \<Rightarrow> nat list \<Rightarrow> proc \<Rightarrow> proc option" where
  "give_slots v [] p = Some p"
| "give_slots v (i # is) p = do {
     (a, p1) \<leftarrow> malloc (of_nat BUFFER_MAX_LENGTH) p;
     give_slots v is (on_um (store64 (v + 8 * of_nat i) a) p1)
   }"

definition fill_slots :: "image \<Rightarrow> ptr \<Rightarrow> ptr \<Rightarrow> bytes \<Rightarrow> bytes" where
  "fill_slots A argv v m =
    (let m1 = snd (u_stringCopy m (slot v 0 m) (int BUFFER_MAX_LENGTH) (slot argv 0 m));
         m2 = snd (u_stringCopy m1 (slot v 1 m1) (int BUFFER_MAX_LENGTH) (lit A ''-1''));
         m3 = snd (u_stringCopy m2 (slot v 2 m2) (int BUFFER_MAX_LENGTH) (slot argv 2 m2))
     in store64 (v + 24) NULL m3)"

text \<open>
  A new argument vector.  The buffers go into the slots of \<open>given\<close>, or into its own: for the second
  vector they go into the first.
\<close>

definition make_args :: "image \<Rightarrow> ptr \<Rightarrow> ptr option \<Rightarrow> proc \<Rightarrow> (ptr \<times> proc) option" where
  "make_args A argv given p = do {
     (v, p1) \<leftarrow> malloc (8 * 4) p;
     p2 \<leftarrow> give_slots (case given of None \<Rightarrow> v | Some w \<Rightarrow> w) [0..<3] p1;
     Some (v, on_um (fill_slots A argv v) p2)
   }"

definition fork_inc :: "ptr \<Rightarrow> ptr \<Rightarrow> proc \<Rightarrow> proc option" where
  "fork_inc code v p = do {
     (r, p1) \<leftarrow> u_sysFork p;
     if as_int r = 0 then map_option snd (u_sysExecve code 3 v p1) else Some p1
   }"

definition test_sync :: "image \<Rightarrow> ptr \<Rightarrow> int \<Rightarrow> ptr \<Rightarrow> proc \<Rightarrow> (int \<times> proc) option" where
  "test_sync A code argc argv p =
    (if argc \<noteq> 3 then Some (- 1, p)
     else do {
       (v1, p1) \<leftarrow> make_args A argv None p;
       (v2, p2) \<leftarrow> make_args A argv (Some v1) p1;
       (v3, p3) \<leftarrow> make_args A argv None p2;
       (v4, p4) \<leftarrow> make_args A argv None p3;
       q1 \<leftarrow> fork_inc code v1 (on_um (store64 (loc A 1) 0) p4);
       q2 \<leftarrow> fork_inc code v2 q1;
       q3 \<leftarrow> fork_inc code v3 q2;
       q4 \<leftarrow> fork_inc code v4 q3;
       (_, q5) \<leftarrow> u_wait q4;
       (_, q6) \<leftarrow> printf (fr A) (lit A (''Final value: %d'' @ eol)) [load64 (um q5) (loc A 1)] q5;
       Some (0, q6)
     })"

end
