(* ===== verification/Philosophers.thy ===== *)
theory Philosophers
  imports Programs
begin

text \<open>
  The dining philosophers of \<^verbatim>\<open>Userland/programs/filosopher.c\<close> and \<^verbatim>\<open>phylo.c\<close>.  The globals of
  \<^verbatim>\<open>phylo.c\<close> are in memory that all philosophers share, at \<open>loc 0\<close> to \<open>loc 6\<close>: \<open>state\<close>, \<open>s\<close>,
  \<open>semNames\<close>, \<open>ansiArt\<close>, \<open>filosopherNumber\<close>, \<open>aux\<close> and \<open>newArgsv\<close>, with \<open>argNumber\<close> at \<open>loc 8\<close>.  What the other philosophers write
  while one waits in the kernel is part of the reply to its call.
\<close>

section \<open>The shared arrays\<close>

abbreviation THINKING :: u32 where "THINKING \<equiv> 0"
abbreviation HUNGRY :: u32 where "HUNGRY \<equiv> 1"
abbreviation EATING :: u32 where "EATING \<equiv> 2"

abbreviation FILO_MUTEX :: "image \<Rightarrow> ptr" where "FILO_MUTEX A \<equiv> lit A ''mutex''"

definition state_at :: "image \<Rightarrow> int \<Rightarrow> ptr" where "state_at A i = loc A 0 + 4 * of_int i"
definition s_at :: "image \<Rightarrow> int \<Rightarrow> ptr" where "s_at A i = loc A 1 + 8 * of_int i"
definition semName_at :: "image \<Rightarrow> int \<Rightarrow> ptr" where "semName_at A i = loc A 2 + of_nat BUFFER_MAX_LENGTH * of_int i"
definition art_at :: "image \<Rightarrow> int \<Rightarrow> ptr" where "art_at A i = loc A 3 + of_int i"

definition get_seat :: "image \<Rightarrow> int \<Rightarrow> proc \<Rightarrow> u32" where "get_seat A i p = load32 (um p) (state_at A i)"
definition set_seat :: "image \<Rightarrow> int \<Rightarrow> u32 \<Rightarrow> proc \<Rightarrow> proc" where
  "set_seat A i v p = on_um (store32 (state_at A i) v) p"

text \<open>The remainder of C has the sign of the dividend.\<close>

definition c_rem :: "int \<Rightarrow> int \<Rightarrow> int option" where
  "c_rem a b = (if b = 0 \<or> a = - (2 ^ 31) \<and> b = - 1 then None else Some (sgn a * (\<bar>a\<bar> mod \<bar>b\<bar>)))"

definition LEFT :: "int \<Rightarrow> int \<Rightarrow> int option" where
  "LEFT index n = do { a \<leftarrow> int32 (index + n); b \<leftarrow> int32 (a - 1); c_rem b n }"

definition RIGHT :: "int \<Rightarrow> int \<Rightarrow> int option" where
  "RIGHT index n = do { a \<leftarrow> int32 (index + 1); c_rem a n }"

section \<open>A philosopher\<close>

text \<open>The conjunction is evaluated from the left, so a neighbour is only looked up if need be.\<close>

definition test :: "image \<Rightarrow> int \<Rightarrow> int \<Rightarrow> proc \<Rightarrow> proc option" where
  "test A index n p =
    (if get_seat A index p = HUNGRY then do {
       l \<leftarrow> LEFT index n;
       if get_seat A l p \<noteq> EATING then do {
         r \<leftarrow> RIGHT index n;
         if get_seat A r p \<noteq> EATING then do {
           let p1 = set_seat A index EATING p;
           (_, p2) \<leftarrow> u_sysSemUp (load64 (um p1) (s_at A index)) p1;
           Some p2
         }
         else Some p
       }
       else Some p
     }
     else Some p)"

fun show_art :: "image \<Rightarrow> nat list \<Rightarrow> proc \<Rightarrow> proc option" where
  "show_art A [] p = Some p"
| "show_art A (j # js) p = do { (_, p1) \<leftarrow> putChar (fr A) (um p (art_at A (int j))) p; show_art A js p1 }"

definition redraw :: "image \<Rightarrow> int \<Rightarrow> int \<Rightarrow> proc \<Rightarrow> proc option" where
  "redraw A index n p = do {
     (_, p1) \<leftarrow> u_sysSemDown (FILO_MUTEX A) p;
     let c = (if get_seat A index p1 = EATING then of_char (CHR ''E'') else of_char (CHR ''.''));
     p2 \<leftarrow> show_art A [0..<nat n] (on_um (\<lambda>m. m(art_at A index := c)) p1);
     (_, p3) \<leftarrow> printf (fr A) (lit A eol) [] p2;
     (_, p4) \<leftarrow> u_sysSemUp (FILO_MUTEX A) p3;
     Some p4
   }"

text \<open>What is done between taking the mutex and giving it back.\<close>

definition take_section :: "image \<Rightarrow> int \<Rightarrow> int \<Rightarrow> proc \<Rightarrow> proc option" where
  "take_section A index n p = test A index n (set_seat A index HUNGRY p)"

definition put_section :: "image \<Rightarrow> int \<Rightarrow> int \<Rightarrow> proc \<Rightarrow> proc option" where
  "put_section A index n p = do {
     let p1 = set_seat A index THINKING p;
     l \<leftarrow> LEFT index n;
     p2 \<leftarrow> test A l n p1;
     r \<leftarrow> RIGHT index n;
     test A r n p2
   }"

definition take_forks :: "image \<Rightarrow> int \<Rightarrow> int \<Rightarrow> proc \<Rightarrow> proc option" where
  "take_forks A index n p = do {
     (_, p1) \<leftarrow> u_sysSemDown (FILO_MUTEX A) p;
     p2 \<leftarrow> take_section A index n p1;
     (_, p3) \<leftarrow> u_sysSemUp (FILO_MUTEX A) p2;
     (_, p4) \<leftarrow> u_sysSemDown (load64 (um p3) (s_at A index)) p3;
     Some p4
   }"

definition put_forks :: "image \<Rightarrow> int \<Rightarrow> int \<Rightarrow> proc \<Rightarrow> proc option" where
  "put_forks A index n p = do {
     (_, p1) \<leftarrow> u_sysSemDown (FILO_MUTEX A) p;
     p2 \<leftarrow> put_section A index n p1;
     (_, p3) \<leftarrow> u_sysSemUp (FILO_MUTEX A) p2;
     Some p3
   }"

partial_function (option) filosopher_loop :: "image \<Rightarrow> int \<Rightarrow> int \<Rightarrow> proc \<Rightarrow> (int \<times> proc) option" where
  "filosopher_loop A index n p = do {
     p1 \<leftarrow> take_forks A index n p;
     p2 \<leftarrow> redraw A index n p1;
     p3 \<leftarrow> put_forks A index n p2;
     p4 \<leftarrow> redraw A index n p3;
     filosopher_loop A index n p4
   }"

text \<open>The local array \<open>semName\<close> is at \<open>loc 7\<close>; nothing reads it.\<close>

definition filosopher :: "image \<Rightarrow> int \<Rightarrow> ptr \<Rightarrow> proc \<Rightarrow> (int \<times> proc) option" where
  "filosopher A argsc argsv p = do {
     index \<leftarrow> stringToInt (um p) (arg argsv 1 p);
     n \<leftarrow> stringToInt (um p) (arg argsv 2 p);
     filosopher_loop A index n
       (on_um (\<lambda>m. snd (u_stringCopy m (loc A 7) (int BUFFER_MAX_LENGTH) (load64 m (s_at A index)))) p)
   }"

section \<open>The host\<close>

text \<open>The inner loop clears \<open>s[0]\<close> to \<open>s[249]\<close>: its own \<open>i\<close> hides the outer one.\<close>

definition clear_s :: "image \<Rightarrow> bytes \<Rightarrow> bytes" where
  "clear_s A m = fold (\<lambda>i m. store64 (s_at A (int i)) NULL m) [0..<BUFFER_MAX_LENGTH] m"

fun set_table :: "image \<Rightarrow> nat list \<Rightarrow> proc \<Rightarrow> proc option" where
  "set_table A [] p = Some p"
| "set_table A (k # ks) p = do {
     let i = int k;
     let p1 = on_um (\<lambda>m. m(art_at A i := of_char (CHR ''.''))) (set_seat A i HUNGRY p);
     (a, p2) \<leftarrow> malloc (of_nat BUFFER_MAX_LENGTH) p1;
     let p3 = on_um (\<lambda>m. clear_s A (store64 (s_at A i) a m)) p2;
     p4 \<leftarrow> stringFormat (fr A) (semName_at A i) (of_nat BUFFER_MAX_LENGTH) (lit A ''filoSem_%d'') [of_int i] p3;
     let p5 = on_um (\<lambda>m. snd (u_stringCopy m (load64 m (s_at A i)) (int BUFFER_MAX_LENGTH) (semName_at A i))) p4;
     (_, p6) \<leftarrow> u_sysSemOpen (load64 (um p5) (s_at A i)) 1 p5;
     set_table A ks p6
   }"

definition filosopherNumber :: "image \<Rightarrow> proc \<Rightarrow> int" where
  "filosopherNumber A p = sint (load32 (um p) (loc A 4))"

definition newArgsv :: "image \<Rightarrow> nat \<Rightarrow> proc \<Rightarrow> ptr" where
  "newArgsv A i p = load64 (um p) (loc A 6) + 8 * of_nat i"

definition argNumber :: "image \<Rightarrow> proc \<Rightarrow> int" where
  "argNumber A p = sint (load32 (um p) (loc A 8))"

partial_function (option) new_args :: "image \<Rightarrow> proc \<Rightarrow> proc option" where
  "new_args A p =
    (if argNumber A p < 3 then do {
       (a, p1) \<leftarrow> malloc (of_nat BUFFER_MAX_LENGTH) p;
       let p2 = on_um (store64 (load64 (um p1) (loc A 6) + 8 * of_int (argNumber A p1)) a) p1;
       nxt \<leftarrow> int32 (argNumber A p2 + 1);
       new_args A (on_um (store32 (loc A 8) (of_int nxt)) p2)
     }
     else Some p)"

definition copy_arg :: "image \<Rightarrow> nat \<Rightarrow> ptr \<Rightarrow> proc \<Rightarrow> proc" where
  "copy_arg A i source p =
     on_um (\<lambda>m. snd (u_stringCopy m (load64 m (newArgsv A i p)) (int BUFFER_MAX_LENGTH) source)) p"

text \<open>The child of a fork; \<open>code\<close> is the address of the philosopher's function.\<close>

definition start_filosopher :: "image \<Rightarrow> ptr \<Rightarrow> int \<Rightarrow> ptr \<Rightarrow> proc \<Rightarrow> proc option" where
  "start_filosopher A code argsc argsv p = do {
     (a, p1) \<leftarrow> malloc (8 * 3) p;
     p2 \<leftarrow> new_args A (on_um (store32 (loc A 8) 0 \<circ> store64 (loc A 6) a) p1);
     let p3 = copy_arg A 0 (lit A ''philosopher'') p2;
     let p4 = copy_arg A 2 (arg argsv 1 p3) p3;
     p5 \<leftarrow> stringFormat (fr A) (loc A 5) (of_nat BUFFER_MAX_LENGTH) (lit A ''%d'') [of_int (filosopherNumber A p4)] p4;
     let p6 = copy_arg A 1 (loc A 5) p5;
     (_, p7) \<leftarrow> u_sysExecve code (of_int argsc) (load64 (um p6) (loc A 6)) p6;
     Some p7
   }"

partial_function (option) seat_loop :: "image \<Rightarrow> ptr \<Rightarrow> int \<Rightarrow> int \<Rightarrow> ptr \<Rightarrow> proc \<Rightarrow> proc option" where
  "seat_loop A code n argsc argsv p =
    (if filosopherNumber A p < n then do {
       (r, p1) \<leftarrow> u_sysFork p;
       p2 \<leftarrow> (if (ucast r :: u32) = 0 then start_filosopher A code argsc argsv p1 else Some p1);
       (_, p3) \<leftarrow> u_yield p2;
       nxt \<leftarrow> int32 (filosopherNumber A p3 + 1);
       seat_loop A code n argsc argsv (on_um (store32 (loc A 4) (of_int nxt)) p3)
     }
     else Some p)"

definition phylo :: "image \<Rightarrow> ptr \<Rightarrow> int \<Rightarrow> ptr \<Rightarrow> proc \<Rightarrow> (int \<times> proc) option" where
  "phylo A code argsc argsv p =
    (if argsc \<le> 1 then do {
       (_, p1) \<leftarrow> printf (fr A) (lit A (''Hay menos de un argv'' @ eol)) [] p;
       Some (1, p1)
     }
     else do {
       n \<leftarrow> stringToInt (um p) (arg argsv 1 p);
       p1 \<leftarrow> set_table A [0..<nat n] p;
       (_, p2) \<leftarrow> u_sysSemOpen (FILO_MUTEX A) 0 p1;
       p3 \<leftarrow> seat_loop A code n argsc argsv (on_um (store32 (loc A 4) 0) p2);
       (_, p4) \<leftarrow> u_wait p3;
       Some (0, p4)
     })"

end
