(* ===== verification/PhilosophersProps.thy ===== *)
theory PhilosophersProps
  imports Philosophers ProgramsProps BootProps
begin

text \<open>
  The protocol of the philosophers: the critical sections over the shared array of states implement
  operations on a list of states, and however the sections follow each other no two neighbours eat
  and nobody who asked for the forks waits without a neighbour who eats.
\<close>

section \<open>The protocol on lists\<close>

definition left_of :: "nat \<Rightarrow> nat \<Rightarrow> nat" where "left_of n i = (i + n - 1) mod n"
definition right_of :: "nat \<Rightarrow> nat \<Rightarrow> nat" where "right_of n i = (i + 1) mod n"

definition try_eat :: "nat \<Rightarrow> nat \<Rightarrow> u32 list \<Rightarrow> u32 list" where
  "try_eat n i st =
    (if st ! i = HUNGRY \<and> st ! left_of n i \<noteq> EATING \<and> st ! right_of n i \<noteq> EATING then st[i := EATING] else st)"

definition ask :: "nat \<Rightarrow> nat \<Rightarrow> u32 list \<Rightarrow> u32 list" where
  "ask n i st = try_eat n i (st[i := HUNGRY])"

definition give_back :: "nat \<Rightarrow> nat \<Rightarrow> u32 list \<Rightarrow> u32 list" where
  "give_back n i st = try_eat n (right_of n i) (try_eat n (left_of n i) (st[i := THINKING]))"

text \<open>No two neighbours eat; the members of \<open>W\<close> who are hungry have a neighbour who eats.\<close>

definition apart :: "nat \<Rightarrow> u32 list \<Rightarrow> bool" where
  "apart n st \<longleftrightarrow> (\<forall>i<n. \<not> (st ! i = EATING \<and> st ! right_of n i = EATING))"

definition served :: "nat \<Rightarrow> nat set \<Rightarrow> u32 list \<Rightarrow> bool" where
  "served n W st \<longleftrightarrow>
    (\<forall>i<n. i \<in> W \<longrightarrow> st ! i = HUNGRY \<longrightarrow> st ! left_of n i = EATING \<or> st ! right_of n i = EATING)"

lemma left_of_eq: "i < n \<Longrightarrow> left_of n i = (if i = 0 then n - 1 else i - 1)"
proof (cases i)
  case (Suc k)
  then have "i + n - 1 = k + n" by simp
  then show "i < n \<Longrightarrow> ?thesis" using Suc by (simp add: left_of_def)
qed (simp add: left_of_def)

lemma right_of_eq: "i < n \<Longrightarrow> right_of n i = (if i = n - 1 then 0 else i + 1)"
  by (auto simp: right_of_def)

lemma around:
  assumes "i < n" "2 \<le> n"
  shows "left_of n i < n" "right_of n i < n" "left_of n i \<noteq> i" "right_of n i \<noteq> i"
    "right_of n (left_of n i) = i" "left_of n (right_of n i) = i"
proof -
  show l: "left_of n i < n" and r: "right_of n i < n" and "left_of n i \<noteq> i" "right_of n i \<noteq> i"
    using assms by (auto simp: left_of_eq right_of_eq)
  show "right_of n (left_of n i) = i" using assms unfolding right_of_eq [OF l] by (auto simp: left_of_eq)
  show "left_of n (right_of n i) = i" using assms unfolding left_of_eq [OF r] by (auto simp: right_of_eq)
qed

lemma length_try_eat [simp]: "length (try_eat n i st) = length st"
  by (simp add: try_eat_def)

lemma apart_try_eat:
  assumes "apart n st" "i < n" "2 \<le> n" "length st = n"
  shows "apart n (try_eat n i st)"
proof (cases "try_eat n i st = st")
  case False
  then have i: "st ! left_of n i \<noteq> EATING" "st ! right_of n i \<noteq> EATING" "try_eat n i st = st[i := EATING]"
    by (auto simp: try_eat_def split: if_splits)
  have "\<not> (st[i := EATING] ! j = EATING \<and> st[i := EATING] ! right_of n j = EATING)" if j: "j < n" for j
  proof (cases "j = i")
    case True
    then show ?thesis using i assms around [OF assms(2,3)] by simp
  next
    case False
    then show ?thesis
      using i(1) assms j around(6) [OF j assms(3)] by (cases "right_of n j = i") (auto simp: apart_def)
  qed
  then show ?thesis unfolding i(3) apart_def by blast
qed (use assms in simp)

lemma apart_set: "apart n st \<Longrightarrow> v \<noteq> EATING \<Longrightarrow> length st = n \<Longrightarrow> i < n \<Longrightarrow> 2 \<le> n \<Longrightarrow> apart n (st[i := v])"
  using around(2) by (auto simp: apart_def nth_list_update)

lemma served_try_eat:
  assumes "served n W st" "i < n" "2 \<le> n" "length st = n"
  shows "served n (insert i W) (try_eat n i st)"
  unfolding served_def
proof (intro allI impI)
  fix j assume j: "j < n" "j \<in> insert i W" "try_eat n i st ! j = HUNGRY"
  have grow: "st ! k = EATING \<Longrightarrow> try_eat n i st ! k = EATING" if "k < n" for k
    using that assms by (auto simp: try_eat_def nth_list_update)
  have "st ! j = HUNGRY" using j assms by (auto simp: try_eat_def nth_list_update split: if_splits)
  moreover have "j \<in> W \<or> st ! left_of n j = EATING \<or> st ! right_of n j = EATING"
    using j assms calculation by (auto simp: try_eat_def split: if_splits)
  ultimately have "st ! left_of n j = EATING \<or> st ! right_of n j = EATING" using assms(1) j(1) by (auto simp: served_def)
  then show "try_eat n i st ! left_of n j = EATING \<or> try_eat n i st ! right_of n j = EATING"
    using grow around [OF j(1) assms(3)] by auto
qed

lemma length_sections [simp]: "length (ask n i st) = length st" "length (give_back n i st) = length st"
  by (simp_all add: ask_def give_back_def)

lemma apart_sections:
  assumes "apart n st" "i < n" "2 \<le> n" "length st = n"
  shows "apart n (ask n i st)" "apart n (give_back n i st)"
  unfolding ask_def give_back_def
  using assms around [of i n] by (auto intro!: apart_try_eat apart_set)

lemma served_ask:
  assumes "served n W st" "apart n st" "i < n" "2 \<le> n" "length st = n"
  shows "served n (insert i W) (ask n i st)"
proof (cases "st ! i = EATING")
  case True
  then have "st ! right_of n i \<noteq> EATING" "st ! left_of n i \<noteq> EATING"
    using assms(2,3) around [OF assms(3,4)] unfolding apart_def by metis+
  then have "ask n i st = st"
    using True assms(3,5) around [OF assms(3,4)] by (auto simp: ask_def try_eat_def list_update_same_conv)
  then show ?thesis using assms(1) True by (auto simp: served_def)
next
  case False
  have "served n (W - {i}) (st[i := HUNGRY])"
    unfolding served_def
  proof (intro allI impI)
    fix j assume j: "j < n" "j \<in> W - {i}" "st[i := HUNGRY] ! j = HUNGRY"
    then have "st ! left_of n j = EATING \<or> st ! right_of n j = EATING" using assms(1) by (auto simp: served_def)
    then show "st[i := HUNGRY] ! left_of n j = EATING \<or> st[i := HUNGRY] ! right_of n j = EATING"
      using False by (metis nth_list_update_neq)
  qed
  then have "served n (insert i (W - {i})) (ask n i st)"
    unfolding ask_def by (rule served_try_eat) (use assms in auto)
  then show ?thesis by simp
qed

lemma served_give_back:
  assumes "served n W st" "i < n" "2 \<le> n" "length st = n"
  shows "served n W (give_back n i st)"
proof -
  note a = around [OF assms(2,3)]
  have "served n (W - {left_of n i, right_of n i}) (st[i := THINKING])"
    unfolding served_def
  proof (intro allI impI)
    fix j assume j: "j < n" "j \<in> W - {left_of n i, right_of n i}" "st[i := THINKING] ! j = HUNGRY"
    have "j \<noteq> i" using j assms by (auto simp: nth_list_update)
    moreover have "left_of n j \<noteq> i" "right_of n j \<noteq> i" using j around [OF j(1) assms(3)] a by auto
    ultimately show "st[i := THINKING] ! left_of n j = EATING \<or> st[i := THINKING] ! right_of n j = EATING"
      using j assms(1) by (auto simp: served_def)
  qed
  then have "served n (insert (left_of n i) (W - {left_of n i, right_of n i})) (try_eat n (left_of n i) (st[i := THINKING]))"
    by (rule served_try_eat) (use a assms in auto)
  then have "served n (insert (right_of n i) (insert (left_of n i) (W - {left_of n i, right_of n i}))) (give_back n i st)"
    unfolding give_back_def by (rule served_try_eat) (use a assms in auto)
  then show ?thesis by (auto simp: served_def)
qed

section \<open>The sections implement it\<close>

definition seats :: "image \<Rightarrow> nat \<Rightarrow> bytes \<Rightarrow> u32 list" where
  "seats A n m = map (\<lambda>i. load32 m (state_at A (int i))) [0..<n]"

text \<open>No reply writes to the states: no other section runs meanwhile.\<close>

definition calm :: "image \<Rightarrow> nat \<Rightarrow> proc \<Rightarrow> bool" where
  "calm A n p \<longleftrightarrow> (\<forall>(r, ws) \<in> set (replies p). fst ` set ws \<inter> region (loc A 0) (4 * n) = {})"

lemma store_all_other: "a \<notin> fst ` set ws \<Longrightarrow> store_all ws m a = m a"
  unfolding store_all_def by (induction ws arbitrary: m) auto

lemma upt4: "[0..<4] = [0, 1, 2, 3 :: nat]" by (simp add: upt_rec)

lemma state_at_nat: "state_at A (int i) = loc A 0 + of_nat (4 * i)"
  by (simp add: state_at_def)

lemma seats_cong:
  assumes "\<And>x. x \<in> region (loc A 0) (4 * n) \<Longrightarrow> m' x = m x"
  shows "seats A n m' = seats A n m"
proof -
  have "load32 m' (state_at A (int i)) = load32 m (state_at A (int i))" if "i < n" for i
  proof -
    have "m' (loc A 0 + of_nat (4 * i) + of_nat k) = m (loc A 0 + of_nat (4 * i) + of_nat k)" if "k < 4" for k
      using assms region_mem [of "4 * i + k" "4 * n" "loc A 0"] \<open>i < n\<close> that by (simp add: add.assoc)
    from this [of 0] this [of 1] this [of 2] this [of 3] show ?thesis
      by (simp add: load32_def state_at_nat upt4)
  qed
  then show ?thesis by (simp add: seats_def)
qed

lemma store32_other: "x \<notin> region a 4 \<Longrightarrow> store32 a v m x = m x"
  unfolding store32_def region_def upt4 by (auto simp: lessThan_nat_numeral lessThan_Suc)

lemma load32_store32: "load32 (store32 a v m) a = v"
proof (rule load32_le32)
  have "(a :: ptr) + of_nat i = a + of_nat j \<longleftrightarrow> i = j" if "i < 4" "j < 4" for i j
    using region_inj [of 4 i j a] that by simp
  from this [of 0 1] this [of 0 2] this [of 0 3] this [of 1 2] this [of 1 3] this [of 2 3]
  show "bytes_at (store32 a v m) a 4 = le32 v"
    by (simp add: bytes_at_def le32_def store32_def upt4)
qed

lemma seats_store:
  assumes "i < n" "n \<le> 12"
  shows "seats A n (store32 (state_at A (int i)) v m) = (seats A n m)[i := v]"
proof (rule nth_equalityI)
  fix j assume "j < length (seats A n (store32 (state_at A (int i)) v m))"
  then have j: "j < n" by (simp add: seats_def)
  show "seats A n (store32 (state_at A (int i)) v m) ! j = (seats A n m)[i := v] ! j"
  proof (cases "j = i")
    case False
    have "m' (loc A 0 + of_nat (4 * j) + of_nat k) = m (loc A 0 + of_nat (4 * j) + of_nat k)"
      if "k < 4" "m' = store32 (state_at A (int i)) v m" for k m'
    proof -
      have "(loc A 0 :: ptr) + of_nat (4 * j + k) \<noteq> loc A 0 + of_nat (4 * i + l)" if "l < 4" for l
        using region_inj [of 48 "4 * j + k" "4 * i + l" "loc A 0"] that \<open>k < 4\<close> assms j False by (simp; presburger)
      then show ?thesis unfolding that(2)
        by (intro store32_other) (auto simp: region_def state_at_nat add.assoc)
    qed
    from this [of 0] this [of 1] this [of 2] this [of 3]
    have "load32 (store32 (state_at A (int i)) v m) (state_at A (int j)) = load32 m (state_at A (int j))"
      by (simp add: load32_def state_at_nat upt4)
    then show ?thesis using j False by (simp add: seats_def)
  qed (use assms in \<open>simp add: seats_def load32_store32\<close>)
qed (simp add: seats_def)

lemma length_seats [simp]: "length (seats A n m) = n"
  by (simp add: seats_def)

lemma get_seat_seats: "i < n \<Longrightarrow> get_seat A (int i) p = seats A n (um p) ! i"
  by (simp add: get_seat_def seats_def)

lemma set_seat_seats: "i < n \<Longrightarrow> n \<le> 12 \<Longrightarrow> seats A n (um (set_seat A (int i) v p)) = (seats A n (um p))[i := v]"
  by (simp add: set_seat_def seats_store)

lemma LEFT_left_of: "i < n \<Longrightarrow> n \<le> 12 \<Longrightarrow> LEFT (int i) (int n) = Some (int (left_of n i))"
  by (auto simp: LEFT_def int32_def c_rem_def left_of_def sgn_if of_nat_diff zmod_int)

lemma RIGHT_right_of: "i < n \<Longrightarrow> n \<le> 12 \<Longrightarrow> RIGHT (int i) (int n) = Some (int (right_of n i))"
  by (auto simp: RIGHT_def int32_def c_rem_def right_of_def zmod_int add.commute)

text \<open>A program at the table: its replies leave the states alone, and there are \<open>k\<close> of them left.\<close>

definition seated :: "image \<Rightarrow> nat \<Rightarrow> nat \<Rightarrow> proc \<Rightarrow> bool" where
  "seated A n k p \<longleftrightarrow> calm A n p \<and> k \<le> length (replies p)"

lemma seated_trap:
  assumes "seated A n (Suc k) p"
  shows "\<exists>r p'. trap c p = Some (r, p') \<and> seated A n k p' \<and> seats A n (um p') = seats A n (um p)"
proof -
  obtain r ws rest where r: "replies p = (r, ws) # rest"
    using assms by (cases "replies p") (auto simp: seated_def)
  then have "seats A n (store_all ws (um p)) = seats A n (um p)"
    using assms by (intro seats_cong store_all_other) (auto simp: seated_def calm_def)
  then show ?thesis using r assms by (auto simp: trap_def seated_def calm_def)
qed

lemma seated_set_seat [simp]: "seated A n k (set_seat A i v p) = seated A n k p"
  by (simp add: seated_def calm_def set_seat_def)

lemma seated_mono: "seated A n k p \<Longrightarrow> j \<le> k \<Longrightarrow> seated A n j p"
  by (simp add: seated_def)

lemma test_implements:
  assumes "i < n" "n \<le> 12" "seated A n (Suc k) p"
  shows "\<exists>p'. test A (int i) (int n) p = Some p' \<and> seated A n k p' \<and> seats A n (um p') = try_eat n i (seats A n (um p))"
proof -
  let ?p = "set_seat A (int i) EATING p"
  have lr: "left_of n i < n" "right_of n i < n" using assms(1) by (auto simp: left_of_def right_of_def)
  note g = get_seat_seats [OF assms(1), of A p] get_seat_seats [OF lr(1), of A p] get_seat_seats [OF lr(2), of A p]
  obtain r p' where "u_sysSemUp (load64 (um ?p) (s_at A (int i))) ?p = Some (r, p')" "seated A n k p'"
    "seats A n (um p') = seats A n (um ?p)"
    using seated_trap [of A n k ?p "Call 27 [load64 (um ?p) (s_at A (int i))]"] assms(3)
    unfolding u_sysSemUp_def by auto
  then show ?thesis
    using seated_mono [OF assms(3), of k] LEFT_left_of [OF assms(1,2)] RIGHT_right_of [OF assms(1,2)]
    by (simp add: test_def g try_eat_def set_seat_seats assms(1,2) Let_def)
qed

lemma take_implements:
  assumes "i < n" "n \<le> 12" "seated A n (k + 2) p"
  shows "\<exists>p'. take_section A (int i) (int n) p = Some p' \<and> seated A n k p' \<and>
    seats A n (um p') = ask n i (seats A n (um p))"
  using test_implements [OF assms(1,2), of A k "set_seat A (int i) HUNGRY p"] assms seated_mono [OF assms(3), of "Suc k"]
  by (simp add: take_section_def ask_def set_seat_seats)

lemma put_implements:
  assumes "i < n" "2 \<le> n" "n \<le> 12" "seated A n (k + 2) p"
  shows "\<exists>p'. put_section A (int i) (int n) p = Some p' \<and> seated A n k p' \<and>
    seats A n (um p') = give_back n i (seats A n (um p))"
proof -
  let ?p = "set_seat A (int i) THINKING p"
  obtain p1 where p1: "test A (int (left_of n i)) (int n) ?p = Some p1" "seated A n (Suc k) p1"
    "seats A n (um p1) = try_eat n (left_of n i) (seats A n (um ?p))"
    using test_implements [OF around(1) [OF assms(1,2)] assms(3), of A "Suc k" ?p] assms(4) by auto
  then show ?thesis
    using test_implements [OF around(2) [OF assms(1,2)] assms(3) p1(2)] assms
    by (simp add: put_section_def give_back_def set_seat_seats LEFT_left_of RIGHT_right_of Let_def)
qed

text \<open> (C19)
  The critical sections of a philosopher implement the protocol on the list of states: asking makes
  him hungry and lets him eat if no neighbour does, giving back lets each hungry neighbour eat who
  now can.  They always complete.
\<close>

theorem sections_implement_protocol:
  assumes "i < n" "2 \<le> n" "n \<le> 12" "seated A n (k + 2) p"
  shows "(\<exists>p'. take_section A (int i) (int n) p = Some p' \<and> seated A n k p' \<and>
           seats A n (um p') = ask n i (seats A n (um p))) \<and>
         (\<exists>p'. put_section A (int i) (int n) p = Some p' \<and> seated A n k p' \<and>
           seats A n (um p') = give_back n i (seats A n (um p)))"
  using take_implements [OF assms(1,3,4)] put_implements [OF assms] by blast

text \<open>Two philosophers who think: the first one asks and eats.\<close>

definition at_table :: "bytes \<Rightarrow> proc" where
  "at_table m = \<lparr>um = m, replies = [(0, []), (0, [])], calls = []\<rparr>"

definition table_image :: image where
  "table_image = demo_image\<lparr>loc := \<lambda>i. 0x40000 + 0x1000 * of_nat i\<rparr>"

lemma seated_at_table [simp]: "seated A n 2 (at_table m)" "seated A n (Suc (Suc 0)) (at_table m)" "um (at_table m) = m"
  by (simp_all add: at_table_def seated_def calm_def)

lemma two_thinkers: "seats A 2 (\<lambda>_. 0) = [THINKING, THINKING]"
  by (simp add: seats_def load32_def upt_rec)

lemma asks: "ask 2 0 [THINKING, THINKING] = [EATING, THINKING]" "ask 2 1 [EATING, THINKING] = [EATING, HUNGRY]"
  "give_back 2 0 [THINKING, THINKING] = [THINKING, THINKING]"
  by (simp_all add: ask_def give_back_def try_eat_def left_of_def right_of_def)

theorem sections_implement_protocol_witness:
  "(\<exists>p'. take_section table_image 0 2 (at_table (\<lambda>_. 0)) = Some p' \<and> seats table_image 2 (um p') = [EATING, THINKING]) \<and>
   (\<exists>p'. put_section table_image 0 2 (at_table (\<lambda>_. 0)) = Some p' \<and> seats table_image 2 (um p') = [THINKING, THINKING])"
  using sections_implement_protocol [of 0 2 table_image 0 "at_table (\<lambda>_. 0)"]
  by (auto simp: two_thinkers asks)

section \<open>The names of the semaphores\<close>

text \<open>
  The loop that is meant to clear a new name clears the array of pointers to the names: every
  philosopher's name is at address 0.
\<close>

lemma names_lost:
  assumes "i < BUFFER_MAX_LENGTH"
  shows "load64 (clear_s A m) (s_at A (int i)) = NULL"
proof -
  have zero: "fold (\<lambda>i m. store64 (s_at A (int i)) NULL m) js m' x = 0"
    if "m' x = 0 \<or> (\<exists>j \<in> set js. \<exists>k < 8. x = s_at A (int j) + of_nat k)" for js m' x
    using that
  proof (induction js arbitrary: m')
    case (Cons j js)
    have "m' x = 0 \<Longrightarrow> store64 (s_at A (int j)) NULL m' x = 0"
      by (cases "\<exists>k < 8. x = s_at A (int j) + of_nat k") (auto simp: store64_in store64_other)
    moreover have "\<exists>k < 8. x = s_at A (int j) + of_nat k \<Longrightarrow> store64 (s_at A (int j)) NULL m' x = 0"
      by (auto simp: store64_in)
    ultimately show ?case using Cons by auto
  qed simp
  have "clear_s A m (s_at A (int i) + of_nat k) = 0" if "k < 8" for k
    unfolding clear_s_def by (rule zero) (use that assms in auto)
  then show ?thesis by (intro bit_word_eqI) (simp add: load64_bit)
qed

section \<open>The table\<close>

text \<open>
  The philosophers take turns in their critical sections; whatever else happens leaves the states
  alone.  The set holds those who have asked for the forks.
\<close>

inductive table_step :: "image \<Rightarrow> nat \<Rightarrow> nat set \<times> bytes \<Rightarrow> nat set \<times> bytes \<Rightarrow> bool" for A n where
  takes: "\<lbrakk> i < n; seated A n 2 p; take_section A (int i) (int n) p = Some p' \<rbrakk>
    \<Longrightarrow> table_step A n (W, um p) (insert i W, um p')"
| puts: "\<lbrakk> i < n; seated A n 2 p; put_section A (int i) (int n) p = Some p' \<rbrakk>
    \<Longrightarrow> table_step A n (W, um p) (W, um p')"
| elsewhere: "(\<And>x. x \<in> region (loc A 0) (4 * n) \<Longrightarrow> m' x = m x) \<Longrightarrow> table_step A n (W, m) (W, m')"

definition good_table :: "image \<Rightarrow> nat \<Rightarrow> nat set \<times> bytes \<Rightarrow> bool" where
  "good_table A n T \<longleftrightarrow> apart n (seats A n (snd T)) \<and> served n (fst T) (seats A n (snd T))"

lemma good_step:
  assumes "table_step A n T T'" "good_table A n T" "2 \<le> n" "n \<le> 12"
  shows "good_table A n T'"
  using assms(1,2)
proof cases
  case (takes i p p' W)
  then have "seats A n (um p') = ask n i (seats A n (um p))"
    using take_implements [of i n A 0 p] assms(4) by (auto simp: numeral_2_eq_2)
  then show ?thesis using takes assms
    by (auto simp: good_table_def intro!: served_ask apart_sections)
next
  case (puts i p p' W)
  then have "seats A n (um p') = give_back n i (seats A n (um p))"
    using put_implements [of i n A 0 p] assms(3,4) by (auto simp: numeral_2_eq_2)
  then show ?thesis using puts assms
    by (auto simp: good_table_def intro!: served_give_back apart_sections)
next
  case (elsewhere m' m W)
  then show ?thesis using assms(2) seats_cong [of A n m' m] by (simp add: good_table_def)
qed

text \<open> (C13)
  As long as their critical sections exclude each other, the philosophers never eat next to each
  other, and one who asked for the forks and is still hungry sits next to one who eats: if nobody
  eats, nobody who asked is kept waiting.
\<close>

theorem philosophers_share_forks:
  assumes "(table_step A n)\<^sup>*\<^sup>* ({}, m) (W, m')" "2 \<le> n" "n \<le> 12" "EATING \<notin> set (seats A n m)" "i < n"
  shows "\<not> (seats A n m' ! i = EATING \<and> seats A n m' ! right_of n i = EATING) \<and>
    (i \<in> W \<and> seats A n m' ! i = HUNGRY \<longrightarrow>
      seats A n m' ! left_of n i = EATING \<or> seats A n m' ! right_of n i = EATING)"
proof -
  have "good_table A n T'" if "(table_step A n)\<^sup>*\<^sup>* T T'" "good_table A n T" for T T'
    using that by (induction rule: rtranclp_induct) (auto intro: good_step assms(2,3))
  moreover have "good_table A n ({}, m)"
    using assms(4) by (auto simp: good_table_def apart_def served_def in_set_conv_nth)
  ultimately have "good_table A n (W, m')" using assms(1) by blast
  then show ?thesis using assms(5) by (auto simp: good_table_def apart_def served_def)
qed

theorem philosophers_share_forks_witness:
  "\<exists>m. (table_step table_image 2)\<^sup>*\<^sup>* ({}, \<lambda>_. 0) ({1, 0}, m) \<and> seats table_image 2 m = [EATING, HUNGRY] \<and>
     (seats table_image 2 m ! left_of 2 1 = EATING \<or> seats table_image 2 m ! right_of 2 1 = EATING)"
proof -
  obtain p where p: "take_section table_image 0 2 (at_table (\<lambda>_. 0)) = Some p" "seats table_image 2 (um p) = [EATING, THINKING]"
    using take_implements [of 0 2 table_image 0 "at_table (\<lambda>_. 0)"] by (auto simp: two_thinkers asks)
  obtain q where q: "take_section table_image 1 2 (at_table (um p)) = Some q" "seats table_image 2 (um q) = [EATING, HUNGRY]"
    using take_implements [of 1 2 table_image 0 "at_table (um p)"] p(2) by (auto simp: asks [unfolded One_nat_def])
  have "table_step table_image 2 ({}, \<lambda>_. 0) ({0}, um p)" "table_step table_image 2 ({0}, um p) ({1, 0}, um q)"
    using table_step.takes [of 0 2 table_image "at_table (\<lambda>_. 0)" p "{}"] p(1)
      table_step.takes [of 1 2 table_image "at_table (um p)" q "{0}"] q(1) by simp_all
  then have r: "(table_step table_image 2)\<^sup>*\<^sup>* ({}, \<lambda>_. 0) ({1, 0}, um q)" by auto
  have "EATING \<notin> set (seats table_image 2 (\<lambda>_. 0))" by (simp add: two_thinkers)
  then have "seats table_image 2 (um q) ! left_of 2 1 = EATING \<or> seats table_image 2 (um q) ! right_of 2 1 = EATING"
    using philosophers_share_forks [OF r, of 1] q(2) by simp
  then show ?thesis using r q(2) by blast
qed

end
