(* ===== verification/TestsProps.thy ===== *)
theory TestsProps
  imports Tests PhilosophersProps
begin

text \<open>
  What the test programs find out: the test of the memory manager reports an error exactly if two
  blocks overlap, and an increment of \<^verbatim>\<open>test_sync\<close> that is left alone adds what it should.
\<close>

section \<open>The test of the memory manager\<close>

definition covers :: "ptr \<times> u32 \<Rightarrow> ptr set" where "covers b = region (fst b) (unat (snd b))"

lemma region_Suc_end: "region a (Suc n) = insert (a + of_nat n) (region a n)"
  by (simp add: region_def lessThan_Suc)

lemma u_memset_apply: "u_memset a c n m x = (if x \<in> region a n then of_int c else m x)"
proof (induction n arbitrary: m)
  case (Suc n)
  then show ?case by (simp add: region_Suc_end)
qed (simp add: region_def)

lemma memcheck_region: "memcheck m a v n \<longleftrightarrow> (\<forall>x \<in> region a n. m x = v)"
proof (induction n arbitrary: a)
  case (Suc n)
  then show ?case by (simp add: region_Suc)
qed (simp add: region_def)

lemma set_blocks_outside: "x \<notin> \<Union> (covers ` set rqs) \<Longrightarrow> set_blocks i rqs m x = m x"
  by (induction rqs arbitrary: i m) (auto simp: u_memset_apply covers_def)

lemma set_blocks_inside:
  "x \<in> \<Union> (covers ` set rqs) \<Longrightarrow> NULL \<notin> fst ` set rqs \<Longrightarrow>
    \<exists>k. i \<le> k \<and> k < i + length rqs \<and> set_blocks i rqs m x = of_nat k"
proof (induction rqs arbitrary: i m)
  case (Cons b rqs)
  show ?case
  proof (cases "x \<in> \<Union> (covers ` set rqs)")
    case True
    obtain k where "Suc i \<le> k" "k < Suc i + length rqs" "set_blocks i (b # rqs) m x = of_nat k"
      using Cons.IH [OF True, of "Suc i"] Cons.prems(2) by (cases b) auto
    then show ?thesis by (intro exI [of _ k]) auto
  next
    case False
    then have "x \<in> covers b" using Cons.prems(1) by auto
    then show ?thesis using set_blocks_outside [OF False] Cons.prems(2)
      by (intro exI [of _ i]) (cases b; auto simp: u_memset_apply covers_def)
  qed
qed simp

lemma check_blocks_set_blocks:
  "NULL \<notin> fst ` set rqs \<Longrightarrow> i + length rqs \<le> 256 \<Longrightarrow>
    check_blocks i rqs (set_blocks i rqs m) \<longleftrightarrow> sorted_wrt (\<lambda>b c. covers b \<inter> covers c = {}) rqs"
proof (induction rqs arbitrary: i m)
  case (Cons b rqs)
  obtain a n where b: "b = (a, n)" by (cases b)
  let ?m = "u_memset a (int i) (unat n) m"
  let ?M = "set_blocks (Suc i) rqs ?m"
  have "?M x = of_nat i \<longleftrightarrow> x \<notin> \<Union> (covers ` set rqs)" if x: "x \<in> region a (unat n)" for x
  proof (cases "x \<in> \<Union> (covers ` set rqs)")
    case True
    obtain k where k: "Suc i \<le> k" "k < Suc i + length rqs" "?M x = of_nat k"
      using set_blocks_inside [OF True, of "Suc i" ?m] Cons.prems(1) by auto
    have "(of_nat k :: u8) \<noteq> of_nat i"
      using k Cons.prems(2) by (simp add: word_of_nat_eq_iff take_bit_eq_mod)
    then show ?thesis using True k(3) by simp
  next
    case False
    then show ?thesis using x by (simp add: set_blocks_outside u_memset_apply)
  qed
  then have "memcheck ?M a (of_nat i) (unat n) \<longleftrightarrow> (\<forall>c \<in> set rqs. covers b \<inter> covers c = {})"
    by (auto simp: memcheck_region b covers_def)
  then show ?case using Cons.IH [of "Suc i" ?m] Cons.prems b by auto
qed simp

text \<open> (C28)
  The test of the memory manager reports an error exactly if two of the blocks it was given overlap:
  the byte it fills a block with is still there everywhere if and only if no two blocks share one.
\<close>

theorem test_mm_detects_overlap:
  assumes "NULL \<notin> fst ` set rqs" "length rqs \<le> MAX_BLOCKS"
  shows "check_blocks 0 rqs (set_blocks 0 rqs m) \<longleftrightarrow> sorted_wrt (\<lambda>b c. covers b \<inter> covers c = {}) rqs"
  using check_blocks_set_blocks [OF assms(1), of 0 m] assms(2) by (simp add: MAX_BLOCKS_def)

theorem test_mm_detects_overlap_witness:
  "check_blocks 0 [(0x1000, 16), (0x2000, 8)] (set_blocks 0 [(0x1000, 16), (0x2000, 8)] (\<lambda>_. 0)) \<and>
   \<not> check_blocks 0 [(0x1000, 16), (0x1000, 8)] (set_blocks 0 [(0x1000, 16), (0x1000, 8)] (\<lambda>_. 0))"
proof
  have "covers (0x1000, 16) \<inter> covers (0x2000, 8) = {}"
    using region_apart [of "0x1000" 16 "0x2000" 8] by (simp add: covers_def)
  then show "check_blocks 0 [(0x1000, 16), (0x2000, 8)] (set_blocks 0 [(0x1000, 16), (0x2000, 8)] (\<lambda>_. 0))"
    using test_mm_detects_overlap [of "[(0x1000, 16), (0x2000, 8)]" "\<lambda>_. 0"] by (simp add: MAX_BLOCKS_def)
  have "0x1000 \<in> covers (0x1000, 16) \<inter> covers (0x1000, 8)" by (simp add: covers_def)
  then have "\<not> sorted_wrt (\<lambda>b c. covers b \<inter> covers c = {}) [(0x1000, 16), (0x1000, 8)]" by (simp; blast)
  then show "\<not> check_blocks 0 [(0x1000, 16), (0x1000, 8)] (set_blocks 0 [(0x1000, 16), (0x1000, 8)] (\<lambda>_. 0))"
    using test_mm_detects_overlap [of "[(0x1000, 16), (0x1000, 8)]" "\<lambda>_. 0"] by (simp only: MAX_BLOCKS_def) simp
qed

section \<open>Increments\<close>

text \<open>Replies that leave the shared counter alone, at least \<open>k\<close> of them.\<close>

definition alone :: "image \<Rightarrow> nat \<Rightarrow> proc \<Rightarrow> bool" where
  "alone A k p \<longleftrightarrow> k \<le> length (replies p) \<and>
    (\<forall>(r, ws) \<in> set (replies p). fst ` set ws \<inter> region (loc A 1) 8 = {})"

abbreviation counter :: "image \<Rightarrow> proc \<Rightarrow> u64" where "counter A p \<equiv> load64 (um p) (loc A 1)"

lemma alone_trap:
  assumes "alone A (Suc k) p"
  shows "\<exists>r p'. trap c p = Some (r, p') \<and> alone A k p' \<and> counter A p' = counter A p"
proof -
  obtain r ws rest where r: "replies p = (r, ws) # rest"
    using assms by (cases "replies p") (auto simp: alone_def)
  have "store_all ws (um p) (loc A 1 + of_nat i) = um p (loc A 1 + of_nat i)" if "i < 8" for i
    using r assms region_mem [OF that, of "loc A 1"] by (intro store_all_other) (auto simp: alone_def)
  then have "load64 (store_all ws (um p)) (loc A 1) = load64 (um p) (loc A 1)"
    by (intro bit_word_eqI) (simp add: load64_bit)
  then show ?thesis using r assms by (auto simp: trap_def alone_def)
qed

lemma alone_on_um [simp]: "alone A k (on_um f p) = alone A k p"
  by (simp add: alone_def)

lemma inc_loop_adds:
  "alone A (2 * n + k) p \<Longrightarrow>
    \<exists>p'. inc_loop A n inc use p = Some p' \<and> alone A k p' \<and> counter A p' = counter A p + of_nat n * inc"
proof (induction n arbitrary: p)
  case (Suc n)
  have step: "\<exists>q'. if_sem use (trap c) q = Some q' \<and> alone A j q' \<and> counter A q' = counter A q"
    if "alone A (Suc j) q" for q j c
    using alone_trap [OF that, of c] that by (cases use) (auto simp: if_sem_def alone_def)
  have "alone A (Suc (Suc (2 * n + k))) p" using Suc.prems by simp
  then obtain p1 where p1: "if_sem use (u_sysSemDown (SEM_ID A)) p = Some p1" "alone A (Suc (2 * n + k)) p1"
    "counter A p1 = counter A p"
    using step unfolding u_sysSemDown_def by blast
  let ?p = "on_um (slowInc (loc A 1) inc) p1"
  have "alone A (Suc (2 * n + k)) ?p" "counter A ?p = counter A p + inc"
    using p1 by (simp_all add: slowInc_def)
  then obtain p2 where p2: "if_sem use (u_sysSemUp (SEM_ID A)) ?p = Some p2" "alone A (2 * n + k) p2"
    "counter A p2 = counter A p + inc"
    using step [of "2 * n + k" ?p] unfolding u_sysSemUp_def by metis
  show ?case using Suc.IH [OF p2(2)] p1(1) p2(1,3) by (auto simp: algebra_simps)
qed auto

text \<open>
  An incrementing process of \<^verbatim>\<open>test_sync\<close> that nobody disturbs ends with 0 and has added its
  increment, cut to a byte and extended with its sign, as often as its first argument says.
\<close>

theorem my_process_inc_adds:
  assumes "satoi (um p) (arg argv 0 p) = Some a" "0 < a" "a < 2 ^ 63"
    and "satoi (um p) (arg argv 1 p) = Some d" "(of_int d :: u8) \<noteq> 0"
    and "satoi (um p) (arg argv 2 p) = Some s" "0 < sint (of_int s :: u8)"
    and "alone A (2 * nat a + 2) p" "fst (hd (replies p)) \<noteq> - 1"
  shows "\<exists>p'. my_process_inc A 3 argv p = Some (0, p') \<and>
    counter A p' = counter A p + of_int a * scast (of_int d :: u8)"
proof -
  have a: "unat (of_int a :: u64) = nat a" using assms(2,3) by (simp add: unsigned_of_int take_bit_int_eq_self)
  then have a0: "(of_int a :: u64) \<noteq> 0" using assms(2) by auto
  have s: "\<not> sint (of_int s :: u8) \<le> 0" "(of_int s :: u8) \<noteq> 0" using assms(7) by auto
  obtain r p1 where p1: "u_sysSemOpen (SEM_ID A) 1 p = Some (r, p1)" "alone A (2 * nat a + 1) p1" "counter A p1 = counter A p"
    using alone_trap [of A "2 * nat a + 1" p "Call 26 [SEM_ID A, 1]"] assms(8) unfolding u_sysSemOpen_def by auto
  have r: "r \<noteq> - 1" using p1(1) assms(9) by (auto simp: u_sysSemOpen_def trap_def split: list.splits)
  obtain p2 where p2: "inc_loop A (nat a) (scast (of_int d :: u8)) True p1 = Some p2" "alone A 1 p2"
    "counter A p2 = counter A p1 + of_nat (nat a) * scast (of_int d :: u8)"
    using inc_loop_adds [OF p1(2)] by blast
  obtain r' p3 where p3: "u_sysSemClose (SEM_ID A) p2 = Some (r', p3)" "counter A p3 = counter A p2"
    using alone_trap [of A 0 p2 "Call 29 [SEM_ID A]"] p2(2) unfolding u_sysSemClose_def by auto
  have "my_process_inc A 3 argv p = Some (0, p3)"
    using assms(1,4,5,6) a a0 s p1(1) p2(1) p3(1) r by (simp add: my_process_inc_def if_sem_def)
  moreover have "counter A p3 = counter A p + of_int a * scast (of_int d :: u8)"
    using p1(3) p2(3) p3(2) assms(2) by simp
  ultimately show ?thesis by blast
qed

definition demo_args :: bytes where
  "demo_args = (\<lambda>_. 0)(0x100 := 50, 0x200 := 49, 0x501 := 1, 0x509 := 2, 0x511 := 2)"

definition demo_inc :: proc where
  "demo_inc = \<lparr>um = demo_args, replies = [(0, []), (0, []), (0, []), (0, []), (0, []), (0, [])], calls = []\<rparr>"

lemma demo_inc_args: "arg 0x500 0 demo_inc = 0x100" "arg 0x500 1 demo_inc = 0x200" "arg 0x500 2 demo_inc = 0x200"
  by (simp_all add: arg_def demo_inc_def demo_args_def load64_def upt_rec)

lemma demo_inc_numbers: "satoi (um demo_inc) 0x100 = Some 2" "satoi (um demo_inc) 0x200 = Some 1"
  by (simp_all add: satoi_def satoi_loop.simps int64_def demo_inc_def demo_args_def)

lemma demo_inc_alone: "alone table_image 6 demo_inc" "counter table_image demo_inc = 0" "fst (hd (replies demo_inc)) = 0"
  by (simp_all add: alone_def demo_inc_def demo_args_def load64_def upt_rec table_image_def demo_image_def)

theorem my_process_inc_adds_witness:
  "\<exists>p'. my_process_inc table_image 3 0x500 demo_inc = Some (0, p') \<and> counter table_image p' = 2"
  using my_process_inc_adds [of demo_inc "0x500" 2 1 1 table_image] demo_inc_alone
  by (simp add: demo_inc_args [unfolded One_nat_def] demo_inc_numbers)

end
