(* ===== verification/Typing.thy ===== *)
theory Typing
  imports SyscallProps
begin

text \<open>
  From the keyboard to the process that reads it: what a sequence of scan codes types, and that the
  reader of standard input is woken and gets it.
\<close>

section \<open>What keys type\<close>

text \<open>The effect of a key on the driver, and the characters it types, while the control key is up.\<close>

definition stroke :: "u8 \<Rightarrow> keyboard \<Rightarrow> keyboard \<times> u8 list" where
  "stroke key k =
    (if key \<in> {R_SHIFT, L_SHIFT, R_SHIFT + 0x80, L_SHIFT + 0x80} then (shift k, [])
     else if 0x80 < key then (k, [])
     else case isMapped key of
            None \<Rightarrow> (k, [])
          | Some idx \<Rightarrow> if isCapslock idx then (capsLock k, [])
                        else if shiftKey k \<and> idx = 51 then (k, [])
                        else (k, [typed idx k]))"

fun strokes :: "u8 list \<Rightarrow> keyboard \<Rightarrow> u8 list" where
  "strokes [] k = []"
| "strokes (key # keys) k = snd (stroke key k) @ strokes keys (fst (stroke key k))"

text \<open>The keys one after the other, through the interrupt handler.\<close>

fun press_keys :: "u8 list \<Rightarrow> keyboard \<Rightarrow> kernel \<Rightarrow> (keyboard \<times> kernel) option" where
  "press_keys [] k s = Some (k, s)"
| "press_keys (key # keys) k s = do { (y, k1, s1) \<leftarrow> addKey key k s; press_keys keys k1 s1 }"

lemma index_of_less: "index_of key cs i = Some j \<Longrightarrow> i \<le> j \<and> j < i + length cs"
  by (induction cs arbitrary: i) (fastforce split: if_splits)+

lemma isMapped_less: "isMapped key = Some idx \<Longrightarrow> idx < 56"
  using index_of_less [of key SCAN_CODES 0 idx] by (simp add: isMapped_def SCAN_CODES_def)

lemma tables:
  "list_all (\<lambda>i. (column l (SHIFTED ! i) = 9 \<longleftrightarrow> i = 51) \<and> column l (SHIFTED ! i) \<noteq> 0 \<and> column l (KEYS ! i) \<noteq> 0) [0..<56]"
  by (cases "l = 0") (simp_all add: column_def SHIFTED_def KEYS_def letters_def upt_rec)

lemma typed_nonzero: "isMapped key = Some idx \<Longrightarrow> typed idx k \<noteq> 0"
  using tables [of "kb_lock k"] isMapped_less [of key idx] by (auto simp: typed_def isArrow_def list_all_iff)

lemma strokes_nonzero: "0 \<notin> set (strokes keys k)"
  by (induction keys arbitrary: k) (auto simp: stroke_def typed_nonzero split: option.splits if_splits)

section \<open>One key\<close>

text \<open>
  \<open>cs\<close> was appended to standard input, and the readers of standard input were woken if it was empty;
  nothing else that matters to a reader has changed.
\<close>

definition grows :: "(nat \<Rightarrow> ptr list) \<Rightarrow> u8 list \<Rightarrow> kernel \<Rightarrow> kernel \<Rightarrow> bool" where
  "grows Q cs s s' \<longleftrightarrow>
    (let b = bufs s (stdinAt s); b' = bufs s' (stdinAt s) in
     queues s' Q \<and> stdinAt s' = stdinAt s \<and> pids s' Q = pids s Q \<and> unwrapped b' \<and> same_ends b b' \<and>
     contents b' = contents b @ cs \<and> headroom b' = headroom b - length cs \<and>
     (\<forall>a. p_id (nodes s' a) = p_id (nodes s a) \<and> p_foreground (nodes s' a) = p_foreground (nodes s a) \<and>
       p_state (nodes s' a) = (if cs \<noteq> [] \<and> contents b = [] \<and> a \<in> readers s Q (stdinAt s) then READY else p_state (nodes s a))))"

lemma grows_refl: "queues s Q \<Longrightarrow> unwrapped (bufs s (stdinAt s)) \<Longrightarrow> grows Q [] s s"
  by (simp add: grows_def Let_def)

lemma grows_readers: "grows Q cs s s' \<Longrightarrow> readers s' Q (stdinAt s) = readers s Q (stdinAt s)"
  by (auto simp: grows_def Let_def readers_def woken_refs_def same_ends_def)

lemma grows_trans:
  assumes "grows Q cs s s1" "grows Q ds s1 s2"
  shows "grows Q (cs @ ds) s s2"
  using assms grows_readers [OF assms(1)]
  by (auto simp: grows_def Let_def same_ends_def)

lemma toBuff_grows:
  assumes q: "queues s Q" and b: "unwrapped (bufs s (stdinAt s))" "0 < headroom (bufs s (stdinAt s))"
  shows "\<exists>s'. toBuff c s = Some s' \<and> grows Q [c] s s'"
proof -
  let ?in = "stdinAt s"
  have "unat (1::u64) \<le> headroom (bufs s ?in)" using b(2) by simp
  moreover have "auxBuff \<noteq> NULL" by (simp add: auxBuff_def)
  ultimately obtain b' where b': "copyToBuffer (\<lambda>_. c) (Some (bufs s ?in)) auxBuff 1 = Some (1, Some b')" "unwrapped b'"
    "contents b' = contents (bufs s ?in) @ [c]" "headroom b' = headroom (bufs s ?in) - 1" "same_ends (bufs s ?in) b'"
    using copyToBuffer_ok [OF b(1), of 1 auxBuff "\<lambda>_. c"] by (auto simp: bytes_at_def)
  let ?s1 = "upd_buf ?in (\<lambda>_. b') s"
  have q1: "queues ?s1 Q" using q by simp
  have rd: "readers ?s1 Q ?in = readers s Q ?in"
    using b'(5) by (simp add: readers_def same_ends_def woken_refs_def)
  have "toBuff c s = Some (if bufferDim (bufs s ?in) = 0 then wake_all (readers s Q ?in) ?s1 else ?s1)"
    using b'(1) setBufferReferencesReady_ok [OF q1, of ?in] rd by (simp add: toBuff_def buf_result_def Let_def)
  moreover have "bufferDim (bufs s ?in) = 0 \<longleftrightarrow> contents (bufs s ?in) = []"
    by (metis contents_length length_0_conv unat_eq_0)
  ultimately show ?thesis using b' q by (simp add: grows_def Let_def wake_all_state)
qed

lemma addKey_grows:
  assumes "queues s Q" "unwrapped (bufs s (stdinAt s))" "length (snd (stroke key k)) \<le> headroom (bufs s (stdinAt s))"
    and "\<not> leftCntrl k" "key \<notin> {L_CNTRL, L_CNTRL + 0x80}"
  shows "\<exists>s'. addKey key k s = Some (False, fst (stroke key k), s') \<and> grows Q (snd (stroke key k)) s s'"
proof (cases "key \<in> {R_SHIFT, L_SHIFT, R_SHIFT + 0x80, L_SHIFT + 0x80} \<or> 0x80 < key \<or> isMapped key = None")
  case True
  then show ?thesis using grows_refl [OF assms(1,2)] assms(5)
    by (auto simp: stroke_def addKey_def R_SHIFT_def L_SHIFT_def L_CNTRL_def)
next
  case False
  then obtain idx where idx: "isMapped key = Some idx" by auto
  note st = stroke_def [of key k] addKey_def [of key k s] press_def [of key idx k s]
  have tab: "column (kb_lock k) (SHIFTED ! idx) = 9 \<longleftrightarrow> idx = 51"
    using tables [of "kb_lock k"] isMapped_less [OF idx] by (simp add: list_all_iff)
  show ?thesis
  proof (cases "isCapslock idx \<or> shiftKey k \<and> idx = 51")
    case True
    then show ?thesis using grows_refl [OF assms(1,2)] assms(4,5) False idx tab
      by (auto simp: st Let_def)
  next
    case F: False
    then have s: "stroke key k = (k, [typed idx k])" using False idx by (auto simp: stroke_def)
    then obtain s' where "toBuff (typed idx k) s = Some s'" "grows Q [typed idx k] s s'"
      using toBuff_grows [OF assms(1,2), of "typed idx k"] assms(3) by auto
    then show ?thesis using s F False idx tab assms(4,5) by (auto simp: st Let_def)
  qed
qed

section \<open>A text\<close>

lemma press_keys_grow:
  "queues s Q \<Longrightarrow> unwrapped (bufs s (stdinAt s)) \<Longrightarrow> length (strokes keys k) \<le> headroom (bufs s (stdinAt s)) \<Longrightarrow>
    \<not> leftCntrl k \<Longrightarrow> set keys \<inter> {L_CNTRL, L_CNTRL + 0x80} = {} \<Longrightarrow>
    \<exists>k' s'. press_keys keys k s = Some (k', s') \<and> grows Q (strokes keys k) s s'"
proof (induction keys arbitrary: k s)
  case Nil
  then show ?case by (simp add: grows_refl)
next
  case (Cons key keys)
  let ?k = "fst (stroke key k)"
  obtain s1 where s1: "addKey key k s = Some (False, ?k, s1)" "grows Q (snd (stroke key k)) s s1"
    using addKey_grows [of s Q key k] Cons.prems by auto
  have k: "\<not> leftCntrl ?k" using Cons.prems(4) by (auto simp: stroke_def shift_def capsLock_def split: option.splits)
  have g: "queues s1 Q" "unwrapped (bufs s1 (stdinAt s1))" "length (strokes keys ?k) \<le> headroom (bufs s1 (stdinAt s1))"
    using s1(2) Cons.prems(3) by (auto simp: grows_def Let_def)
  obtain k' s' where "press_keys keys ?k s1 = Some (k', s')" "grows Q (strokes keys ?k) s1 s'"
    using Cons.IH [OF g k] Cons.prems(5) by auto
  then show ?case using s1 grows_trans [OF s1(2)] by auto
qed

text \<open> (C9)
  What is typed is read: the scan codes of any keys but control, typed while standard input is empty,
  go through the interrupt handler; the foreground process that waits for standard input is READY
  afterwards, and when it goes on it gets the text the keys stand for (with shift and caps lock as
  they are pressed), up to the number of characters it asked for.
\<close>

theorem typed_text_is_read:
  assumes q: "queues (kern M) Q" and i: "i = stdinAt (kern M)" "b = bufs (kern M) i"
    and b: "unwrapped b" "contents b = []" "bufState b = READ \<or> bufState b = READ_WRITE" "buffId b \<noteq> PIPE"
    and keys: "\<not> leftCntrl k" "set keys \<inter> {L_CNTRL, L_CNTRL + 0x80} = {}"
    and some: "strokes keys k \<noteq> []" "length (strokes keys k) \<le> headroom b"
    and rd: "rd \<in> readers (kern M) Q i" and dst: "dst \<noteq> NULL" "0 < count"
  shows "\<exists>k' s' M'. press_keys keys k (kern M) = Some (k', s') \<and> p_state (nodes s' rd) = READY \<and>
    resumed (ReadOn rd i dst count) (put_kern s' M) = Some (Ret (of_nat (length (take (unat count) (strokes keys k)))), M') \<and>
    bytes_at (mem (kern M')) dst (length (take (unat count) (strokes keys k))) = take (unat count) (strokes keys k)"
proof -
  obtain k' s' where s': "press_keys keys k (kern M) = Some (k', s')" "grows Q (strokes keys k) (kern M) s'"
    using press_keys_grow [OF q _ _ keys] b(1) some(2) i by blast
  let ?b = "bufs s' i"
  have g: "unwrapped ?b" "same_ends b ?b" "contents ?b = strokes keys k" "p_state (nodes s' rd) = READY"
    using s'(2) i b(2) some(1) rd by (auto simp: grows_def Let_def)
  have "takeWhile (\<lambda>c. c \<noteq> 0) (strokes keys k) = strokes keys k"
    using strokes_nonzero [of keys k] by (subst takeWhile_eq_all_conv) auto
  then have tx: "text_of (unat count) ?b = take (unat count) (strokes keys k)" unfolding text_of_def g(3) by (rule arg_cong)
  have d: "0 < bufferDim ?b"
    using g(3) some(1) by (metis contents_length length_0_conv unat_eq_0 word_gt_0)
  obtain m' b' where r: "readBuffer (Some ?b) dst count (mem s') =
      (of_nat (length (take (unat count) (strokes keys k))), m', Some b')"
    "bytes_at m' dst (length (take (unat count) (strokes keys k))) = take (unat count) (strokes keys k)"
    using readBuffer_ok [OF _ _ dst d, of "mem s'"] g(1,2) b(3) tx by (auto simp: unwrapped_def same_ends_def)
  have "bufState ?b \<noteq> CLOSED" "buffId ?b \<noteq> PIPE" using g(2) b(3,4) by (auto simp: same_ends_def)
  then have "resumed (ReadOn rd i dst count) (put_kern s' M) = Some (Ret (of_nat (length (take (unat count) (strokes keys k)))),
      put_kern ((buf_result i (Some b') s')\<lparr>mem := m'\<rparr>) M)"
    using d r(1) by (auto simp: read_pass_def Let_def)
  then show ?thesis using s'(1) g(4) r(2) by (auto simp: buf_result_def)
qed

text \<open>Shift, A, the release of shift, and B.\<close>

lemma typed_text_is_read_witness:
  "\<exists>k' s' M'. press_keys [0x2A, 0x1E, 0xAA, 0x30] keyboard0 typing_kernel = Some (k', s') \<and> p_state (nodes s' 0x4000) = READY \<and>
    resumed (ReadOn 0x4000 0x9000 0x900 5) (put_kern s' demo_machine) = Some (Ret 2, M') \<and>
    bytes_at (mem (kern M')) 0x900 2 = [65, 98]"
proof -
  let ?b = "(clearBuffer demo_buffer)\<lparr>buffId := STDIN, ib_references := 0x4000 # replicate 31 NULL\<rparr>"
  have i: "stdinAt typing_kernel = 0x9000" "bufs typing_kernel 0x9000 = ?b"
    by (simp_all add: typing_kernel_def) (simp add: demo_kernel_def)
  have q: "queues typing_kernel demo_Q" using demo_queues by (simp add: typing_kernel_def)
  have c: "unwrapped ?b" "headroom ?b = 1023" "contents ?b = []" "bufState ?b = READ \<or> bufState ?b = READ_WRITE" "buffId ?b \<noteq> PIPE"
    by (simp_all add: unwrapped_def buf_ok_def clearBuffer_def contents_def headroom_def BUFF_SIZE_def PD_SIZE_def demo_buffer_def)
  have k: "strokes [0x2A, 0x1E, 0xAA, 0x30] keyboard0 = [65, 98]" "\<not> leftCntrl keyboard0"
    by (simp_all add: stroke_def R_SHIFT_def L_SHIFT_def isMapped_def SCAN_CODES_def typed_def isArrow_def isCapslock_def
        keyboard0_def shift_def KEYS_def SHIFTED_def letters_def upt_rec column_def)
  have rd: "0x4000 \<in> readers typing_kernel demo_Q 0x9000"
    unfolding readers_def i by (auto simp: woken_refs_def typing_kernel_def pids_def)
  have l: "take (unat (5 :: u64)) [65, 98 :: u8] = [65, 98]" "length [65, 98 :: u8] = 2" by simp_all
  have kern: "kern (put_kern typing_kernel demo_machine) = typing_kernel" by simp
  have set: "set [0x2A, 0x1E, 0xAA, 0x30] \<inter> {L_CNTRL, L_CNTRL + 0x80} = {}" by (simp add: L_CNTRL_def)
  show ?thesis
    using typed_text_is_read [of "put_kern typing_kernel demo_machine" demo_Q "0x9000" ?b keyboard0 "[0x2A, 0x1E, 0xAA, 0x30]" "0x4000" "0x900" 5]
    unfolding kern k(1) l using q i c k(2) rd set by simp
qed

end
