(* ===== verification/Bmfs.thy ===== *)
theory Bmfs
  imports CStringProps Stacks
begin

text \<open>
  The file system tool of the boot loader, \<^verbatim>\<open>Bootloader/BMFS/bmfs.c\<close>, which makes the disk image:
  a directory of 64 entries of 64 bytes, and files in blocks of 2 MiB that are reserved when a file
  is created.  A stream of the C library is its bytes with a length, a position, the length the
  host has room for, and the error mark.  What is printed is kept; the files of the host, and
  whether it opens and allocates what is asked for, are given by a record.
\<close>

section \<open>Streams\<close>

record stream =
  s_data :: "nat \<Rightarrow> u8"
  s_len :: nat
  s_pos :: nat
  s_room :: nat
  s_error :: bool

definition s_byte :: "stream \<Rightarrow> nat \<Rightarrow> u8" where "s_byte f i = (if i < s_len f then s_data f i else 0)"

text \<open>The offset is a signed number: \<open>fseek\<close> fails and moves nothing if it is negative.\<close>

definition seek :: "u64 \<Rightarrow> stream \<Rightarrow> stream" where
  "seek n f = (if sint n < 0 then f else f\<lparr>s_pos := unat n\<rparr>)"

definition get_bytes :: "nat \<Rightarrow> stream \<Rightarrow> u8 list \<times> stream" where
  "get_bytes n f =
    (let k = min n (s_len f - s_pos f) in (map (\<lambda>i. s_data f (s_pos f + i)) [0..<k], f\<lparr>s_pos := s_pos f + k\<rparr>))"

text \<open>Space between the end and the position is filled with zeros.\<close>

definition put_bytes :: "u8 list \<Rightarrow> stream \<Rightarrow> bool \<times> stream" where
  "put_bytes xs f =
    (if s_pos f + length xs \<le> s_room f
     then (True, f\<lparr>s_data := (\<lambda>i. if s_pos f \<le> i \<and> i < s_pos f + length xs then xs ! (i - s_pos f) else s_byte f i),
             s_len := max (s_len f) (s_pos f + length xs), s_pos := s_pos f + length xs\<rparr>)
     else (False, f\<lparr>s_error := True\<rparr>))"

text \<open>\<^verbatim>\<open>putc\<close> whose result is not looked at, and \<^verbatim>\<open>getc\<close>, whose end of file is stored as 0xFF.\<close>

definition put1 :: "u8 \<Rightarrow> stream \<Rightarrow> stream" where "put1 c f = snd (put_bytes [c] f)"

definition get1 :: "stream \<Rightarrow> u8 \<times> stream" where
  "get1 f = (case get_bytes 1 f of (xs, f1) \<Rightarrow> (if xs = [] then 0xFF else hd xs, f1))"

section \<open>State\<close>

type_synonym name = "u8 list"

record host_env =
  e_file :: "name \<Rightarrow> u8 list option"
  e_writable :: "name \<Rightarrow> bool"
  e_room :: nat
  e_malloc :: bool
  e_line :: name
  e_percent :: "u64 \<Rightarrow> u64 \<Rightarrow> u8 list"

record bmfs =
  b_disk :: stream
  disksize :: u32
  DiskInfo :: bytes
  Directory :: bytes
  made :: "name \<Rightarrow> u8 list option"
  printed :: "u8 list"

record BMFSEntry =
  FileName :: "u8 list"
  StartingBlock :: u64
  ReservedBlocks :: u64
  FileSize :: u64

definition chars :: "string \<Rightarrow> u8 list" where "chars = map of_char"

definition newline :: "u8 list" where "newline = [10]"

definition tell :: "u8 list \<Rightarrow> bmfs \<Rightarrow> bmfs" where "tell t B = B\<lparr>printed := printed B @ t\<rparr>"

definition quote :: "name \<Rightarrow> u8 list" where "quote n = [39] @ n @ [39]"

section \<open>The directory\<close>

definition slot_at :: "nat \<Rightarrow> ptr" where "slot_at i = of_nat (64 * i)"

definition entry_at :: "bytes \<Rightarrow> nat \<Rightarrow> BMFSEntry" where
  "entry_at d i = \<lparr>FileName = bytes_at d (slot_at i) 32, StartingBlock = load64 d (slot_at i + 32),
     ReservedBlocks = load64 d (slot_at i + 40), FileSize = load64 d (slot_at i + 48)\<rparr>"

fun store_list :: "ptr \<Rightarrow> u8 list \<Rightarrow> bytes \<Rightarrow> bytes" where
  "store_list a [] d = d"
| "store_list a (c # cs) d = store_list (a + 1) cs (d(a := c))"

definition mark :: "bytes \<Rightarrow> nat \<Rightarrow> u8" where "mark d i = d (slot_at i)"

text \<open>The name as \<^verbatim>\<open>strcmp\<close> reads it: up to the first zero, past the field if it is full.\<close>

definition stored_name :: "bytes \<Rightarrow> nat \<Rightarrow> name" where
  "stored_name d i = takeWhile (\<lambda>c. c \<noteq> 0) (bytes_at d (slot_at i) 64)"

fun find_from :: "bytes \<Rightarrow> name \<Rightarrow> nat list \<Rightarrow> nat option" where
  "find_from d filename [] = None"
| "find_from d filename (i # is) =
    (if mark d i = 0 then None
     else if mark d i = 1 then find_from d filename is
     else if filename = stored_name d i then Some i
     else find_from d filename is)"

definition findfile :: "name \<Rightarrow> bmfs \<Rightarrow> nat option" where
  "findfile filename B = find_from (Directory B) filename [0..<64]"

definition flush_directory :: "bmfs \<Rightarrow> bmfs" where
  "flush_directory B = B\<lparr>b_disk := snd (put_bytes (bytes_at (Directory B) 0 4096) (seek 4096 (b_disk B)))\<rparr>"

definition pad_right :: "nat \<Rightarrow> u8 list \<Rightarrow> u8 list" where "pad_right n t = t @ replicate (n - length t) 32"
definition pad_left :: "nat \<Rightarrow> u8 list \<Rightarrow> u8 list" where "pad_left n t = replicate (n - length t) 32 @ t"

fun list_from :: "nat list \<Rightarrow> bmfs \<Rightarrow> bmfs" where
  "list_from [] B = B"
| "list_from (i # is) B =
    (if mark (Directory B) i = 0 then B
     else if mark (Directory B) i = 1 then list_from is B
     else let e = entry_at (Directory B) i in
       list_from is (tell (pad_right 32 (stored_name (Directory B) i) @ [32] @ pad_left 20 (decimal_int (sint (FileSize e))) @
         [32] @ pad_left 20 (decimal_int (sint (ReservedBlocks e * 2))) @ newline) B))"

definition bm_list :: "name \<Rightarrow> bmfs \<Rightarrow> bmfs" where
  "bm_list diskname B =
     list_from [0..<64] (tell (diskname @ newline @ chars ''Disk Size: '' @ decimal_int (sint (disksize B)) @ chars '' MiB'' @ newline @
       chars ''Name                            |            Size (B)|      Reserved (MiB)'' @ newline @
       replicate 74 61 @ newline) B)"

definition fs_tag :: "u8 list" where "fs_tag = chars ''BMFS''"

definition bm_format :: "bmfs \<Rightarrow> bmfs" where
  "bm_format B =
    (let info = store_list 0 fs_tag (\<lambda>_. 0);
         f1 = snd (put_bytes (bytes_at info 0 512) (seek 1024 (b_disk B)));
         B1 = flush_directory (B\<lparr>DiskInfo := info, Directory := (\<lambda>_. 0), b_disk := f1\<rparr>)
     in tell (chars ''Format complete.'' @ newline) B1)"

section \<open>Creating a file\<close>

text \<open>
  The comparison of \<^verbatim>\<open>qsort\<close>, whose difference is cut to an \<^verbatim>\<open>int\<close>.  The C library leaves the order of
  records that compare equal open; here the sort is stable.
\<close>

definition unused :: "BMFSEntry \<Rightarrow> bool" where "unused e \<longleftrightarrow> FileName e ! 0 = 1"

definition StartingBlockCmp :: "BMFSEntry \<Rightarrow> BMFSEntry \<Rightarrow> int" where
  "StartingBlockCmp ea eb =
    (if unused ea then 1 else if unused eb then - 1
     else sint (ucast (StartingBlock ea - StartingBlock eb) :: u32))"

fun qsort_insert :: "BMFSEntry \<Rightarrow> BMFSEntry list \<Rightarrow> BMFSEntry list" where
  "qsort_insert e [] = [e]"
| "qsort_insert e (x # xs) = (if StartingBlockCmp e x \<le> 0 then e # x # xs else x # qsort_insert e xs)"

definition qsort :: "BMFSEntry list \<Rightarrow> BMFSEntry list" where "qsort es = foldr qsort_insert es []"

text \<open>The number of entries in front of the end mark, 0 if there is none, and the first free slot.\<close>

fun scan_slots :: "bytes \<Rightarrow> nat list \<Rightarrow> nat option \<Rightarrow> nat \<times> nat option" where
  "scan_slots d [] free = (0, free)"
| "scan_slots d (i # is) free =
    (if mark d i = 0 then (i, if free = None then Some i else free)
     else if mark d i = 1 then scan_slots d is (if free = None then Some i else free)
     else scan_slots d is free)"

text \<open>The search for a gap: the start of the new file, 0 if there is none.\<close>

fun fit :: "u64 \<Rightarrow> u64 \<Rightarrow> BMFSEntry list \<Rightarrow> u64 \<Rightarrow> u64" where
  "fit num_blocks requested [] prev_end = (if requested \<le> num_blocks - 1 - prev_end then prev_end else 0)"
| "fit num_blocks requested (e # es) prev_end =
    (let this = (if unused e then num_blocks - 1 else StartingBlock e) in
     if requested \<le> this - prev_end then prev_end
     else fit num_blocks requested es (StartingBlock e + ReservedBlocks e))"

definition add_entry :: "nat \<Rightarrow> name \<Rightarrow> u64 \<Rightarrow> u64 \<Rightarrow> bytes \<Rightarrow> bytes" where
  "add_entry i filename start reserved d =
    (let d1 = store64 (slot_at i + 32) start d;
         d2 = store64 (slot_at i + 40) reserved d1;
         d3 = store64 (slot_at i + 48) 0 d2
     in store_list (slot_at i) (filename @ [0]) d3)"

definition bm_create :: "name \<Rightarrow> u64 \<Rightarrow> bmfs \<Rightarrow> bmfs" where
  "bm_create filename maxsize B =
    (let size2 = (if maxsize mod 2 \<noteq> 0 then maxsize + 1 else maxsize) in
     if findfile filename B \<noteq> None then tell (chars ''Error: File already exists.'' @ newline) B
     else
       let requested = size2 div 2;
           num_blocks = ucast (disksize B div 2);
           B1 = tell (chars ''Creating new file...'' @ newline) B;
           d = Directory B1
       in (case scan_slots d [0..<64] None of
             (used, None) \<Rightarrow> tell (chars ''Cannot create file: no free directory entries.'' @ newline) B1
           | (used, Some i) \<Rightarrow>
               let start = fit num_blocks requested (qsort (map (entry_at d) [0..<used])) 1 in
               if start = 0
               then tell (chars ''Cannot create file of size '' @ decimal_int (sint size2) @ chars '' MiB.'' @ newline) B1
               else
                 let d1 = add_entry i filename start requested d;
                     d2 = (if i = used \<and> used + 1 < 64 then d1(slot_at (used + 1) := 0) else d1)
                 in tell (chars ''Complete'' @ newline) (flush_directory (B1\<lparr>Directory := d2\<rparr>))))"

section \<open>Copying files and deleting\<close>

definition stream_of :: "nat \<Rightarrow> u8 list \<Rightarrow> stream" where
  "stream_of room xs = \<lparr>s_data = (\<lambda>i. if i < length xs then xs ! i else 0), s_len = length xs, s_pos = 0, s_room = room,
     s_error = False\<rparr>"

definition content :: "stream \<Rightarrow> u8 list" where "content f = map (s_byte f) [0..<s_len f]"

text \<open>The loop over \<^verbatim>\<open>putc(getc(src), dst)\<close>.\<close>

fun copy_chars :: "nat \<Rightarrow> stream \<Rightarrow> stream \<Rightarrow> stream \<times> stream" where
  "copy_chars 0 src dst = (src, dst)"
| "copy_chars (Suc n) src dst = (let (c, src1) = get1 src in copy_chars n src1 (put1 c dst))"

definition file_of :: "host_env \<Rightarrow> bmfs \<Rightarrow> name \<Rightarrow> u8 list option" where
  "file_of E B n = (case made B n of None \<Rightarrow> e_file E n | Some xs \<Rightarrow> Some xs)"

definition block_offset :: "BMFSEntry \<Rightarrow> u64" where "block_offset e = StartingBlock e * 2097152"

text \<open>The counter of the loop is an \<^verbatim>\<open>int\<close>: a larger size overflows it.\<close>

definition bm_read :: "host_env \<Rightarrow> name \<Rightarrow> bmfs \<Rightarrow> bmfs option" where
  "bm_read E filename B =
    (case findfile filename B of
       None \<Rightarrow> Some (tell (chars ''Error: File not found in BMFS.'' @ newline) B)
     | Some i \<Rightarrow>
         let e = entry_at (Directory B) i; n = stored_name (Directory B) i;
             B1 = tell (chars ''Reading '' @ quote filename @ chars '' from BMFS to local file... '') B
         in if \<not> e_writable E n
            then Some (tell (chars ''Error: Could not open local file '' @ quote n @ newline) B1)
            else if 2 ^ 31 \<le> unat (FileSize e) then None
            else
              let (src, dst) = copy_chars (unat (FileSize e)) (seek (block_offset e) (b_disk B1)) (stream_of (e_room E) [])
              in Some (tell (chars ''Complete'' @ newline) (B1\<lparr>b_disk := src, made := (made B1)(n \<mapsto> content dst)\<rparr>)))"

definition bm_write :: "host_env \<Rightarrow> name \<Rightarrow> bmfs \<Rightarrow> bmfs option" where
  "bm_write E filename B =
    (case findfile filename B of
       None \<Rightarrow> Some (tell (chars ''Error: File not found in BMFS. A file entry must first be created.'' @ newline) B)
     | Some i \<Rightarrow>
         let e = entry_at (Directory B) i;
             B1 = tell (chars ''Writing local file '' @ quote filename @ chars '' to BMFS... '') B
         in (case file_of E B filename of
               None \<Rightarrow> Some (tell (chars ''Error: Could not open local file '' @ quote (stored_name (Directory B) i) @ newline) B1)
             | Some xs \<Rightarrow>
                 let tempfilesize = of_nat (length xs) in
                 if ReservedBlocks e * 2097152 < tempfilesize
                 then Some (tell (chars ''Not enough reserved space in BMFS.'' @ newline) B1)
                 else if 2 ^ 31 \<le> unat tempfilesize then None
                 else
                   let (src, dst) = copy_chars (unat tempfilesize) (stream_of 0 xs) (seek (block_offset e) (b_disk B1));
                       d = store64 (slot_at i + 48) tempfilesize (Directory B1)
                   in Some (tell (chars ''Complete'' @ newline) (flush_directory (B1\<lparr>b_disk := dst, Directory := d\<rparr>)))))"

definition bm_delete :: "name \<Rightarrow> bmfs \<Rightarrow> bmfs" where
  "bm_delete filename B =
    (case findfile filename B of
       None \<Rightarrow> tell (chars ''Error: File not found in BMFS.'' @ newline) B
     | Some i \<Rightarrow>
         let B1 = tell (chars ''Deleting file '' @ quote filename @ chars '' from BMFS... '') B
         in tell (chars ''Complete'' @ newline) (flush_directory (B1\<lparr>Directory := (Directory B1)(slot_at i := 1)\<rparr>)))"

section \<open>Making a disk\<close>

definition minimumDiskSize :: u64 where "minimumDiskSize = 6 * 1024 * 1024"
definition bufferSize :: nat where "bufferSize = 50 * 1024"

definition is_digit :: "u8 \<Rightarrow> bool" where "is_digit c \<longleftrightarrow> 48 \<le> c \<and> c \<le> 57"
definition upper :: "u8 \<Rightarrow> u8" where "upper c = (if 97 \<le> c \<and> c \<le> 122 then c - 32 else c)"
definition lower :: "u8 \<Rightarrow> u8" where "lower c = (if 65 \<le> c \<and> c \<le> 90 then c + 32 else c)"

definition unit_factor :: "u8 \<Rightarrow> nat option" where
  "unit_factor c = map_of [(of_char CHR ''K'', 1), (of_char CHR ''M'', 2), (of_char CHR ''G'', 3), (of_char CHR ''T'', 4),
     (of_char CHR ''P'', 5)] (upper c)"

definition invalid_size :: "name \<Rightarrow> bmfs \<Rightarrow> bmfs" where
  "invalid_size sz = tell (chars ''Error: Invalid disk size string: '' @ quote sz @ newline)"

definition too_large :: "bmfs \<Rightarrow> bmfs" where "too_large = tell (chars ''Error: Disk size is too large'' @ newline)"

text \<open>The size, the factor of the unit, and whether there was no error so far.\<close>

fun parse_size :: "name \<Rightarrow> bool \<Rightarrow> name \<Rightarrow> u64 \<Rightarrow> bmfs \<Rightarrow> u64 \<times> nat \<times> bool \<times> bmfs" where
  "parse_size sz first [] diskSize B = (diskSize, 0, True, B)"
| "parse_size sz first (ch # cs) diskSize B =
    (if is_digit ch then
       (let n = ucast (ch - 48) in
        if diskSize < diskSize * 10 then parse_size sz False cs (diskSize * 10 + n) B
        else if diskSize = 0 then parse_size sz False cs (diskSize + n) B
        else (diskSize, 0, False, too_large B))
     else if first
     then (diskSize, 0, False, tell (chars ''Error: A numeric disk size must be specified'' @ newline) B)
     else (case unit_factor ch of
             None \<Rightarrow> (diskSize, 0, False, invalid_size sz B)
           | Some k \<Rightarrow> if cs \<noteq> [] then (diskSize, k, False, invalid_size sz B) else (diskSize, k, True, B)))"

text \<open>The loop goes on after an error.\<close>

fun scale_size :: "nat \<Rightarrow> u64 \<Rightarrow> bool \<Rightarrow> bmfs \<Rightarrow> u64 \<times> bool \<times> bmfs" where
  "scale_size 0 diskSize ok B = (diskSize, ok, B)"
| "scale_size (Suc k) diskSize ok B =
    (if diskSize < diskSize * 1024 then scale_size k (diskSize * 1024) ok B else scale_size k diskSize False (too_large B))"

definition disk_size :: "name \<Rightarrow> bmfs \<Rightarrow> u64 \<times> bool \<times> bmfs" where
  "disk_size sz B =
    (let (diskSize, k, ok, B1) = parse_size sz True sz 0 B;
         (size2, ok2, B2) = (if ok \<and> 0 < diskSize \<and> 0 < k then scale_size k diskSize ok B1 else (diskSize, ok, B1))
     in if ok2 \<and> size2 < minimumDiskSize
        then (size2, False, tell (chars ''Error: Disk size must be at least 6291456 bytes (6MiB)'' @ newline) B2)
        else (size2, ok2, B2))"

text \<open>A file that is opened only if its name is given and there was no error.\<close>

definition open_input :: "host_env \<Rightarrow> u8 list \<Rightarrow> name option \<Rightarrow> bool \<times> bmfs \<Rightarrow> u8 list option \<times> bool \<times> bmfs" where
  "open_input E kind path r =
    (case r of (ok, B) \<Rightarrow>
       (case path of
          None \<Rightarrow> (None, ok, B)
        | Some n \<Rightarrow>
            if \<not> ok then (None, ok, B)
            else (case file_of E B n of
                    None \<Rightarrow> (None, False, tell (chars ''Error: Unable to open '' @ kind @ chars '' file '' @ quote n @ newline) B)
                  | Some xs \<Rightarrow> (Some xs, True, B))))"

definition write_failed :: "name \<Rightarrow> bmfs \<Rightarrow> bmfs" where
  "write_failed diskname = tell (chars ''Error: Failed to write disk '' @ quote diskname @ newline)"

definition read_failed :: "name \<Rightarrow> bmfs \<Rightarrow> bmfs" where
  "read_failed path = tell (chars ''Error: Failed to read file '' @ quote path @ newline)"

definition put_disk :: "u8 list \<Rightarrow> bmfs \<Rightarrow> bool \<times> bmfs" where
  "put_disk xs B = (case put_bytes xs (b_disk B) of (ok, f) \<Rightarrow> (ok, B\<lparr>b_disk := f\<rparr>))"

definition progress :: "u64 \<Rightarrow> u64 \<Rightarrow> u8 list \<Rightarrow> u8 list" where
  "progress writeSize diskSize pct =
     chars ''Formatting disk: '' @ decimal (unat writeSize) @ chars '' of '' @ decimal (unat diskSize) @ chars '' bytes ('' @ pct"

function fill_disk :: "host_env \<Rightarrow> name \<Rightarrow> u64 \<Rightarrow> u64 \<Rightarrow> bmfs \<Rightarrow> bool \<times> bmfs" where
  "fill_disk E diskname diskSize writeSize B =
    (if writeSize < diskSize then
       (let B1 = tell (progress writeSize diskSize (e_percent E writeSize diskSize) @ chars ''%)...'' @ [13]) B;
            chunkSize = min (of_nat bufferSize) (diskSize - writeSize);
            (ok, B2) = put_disk (replicate (unat chunkSize) 0) B1
        in if ok then fill_disk E diskname diskSize (writeSize + chunkSize) B2 else (False, write_failed diskname B2))
     else (True, tell (progress writeSize diskSize (chars ''100%)'') @ replicate 9 32 @ newline) B))"
  by auto
termination
proof (relation "measure (\<lambda>(E, diskname, diskSize, writeSize, B). unat (diskSize - writeSize))")
  fix E :: host_env and diskname diskSize writeSize and B B1 B2 :: bmfs and chunkSize :: u64 and r :: "bool \<times> bmfs" and ok
  assume w: "writeSize < diskSize" and c: "chunkSize = min (of_nat bufferSize) (diskSize - writeSize)"
  have "unat (diskSize - writeSize) = unat diskSize - unat writeSize" using w by (simp add: unat_minus_fits)
  then have d: "0 < diskSize - writeSize" using w by (simp add: word_less_nat_alt)
  have "0 < chunkSize" "chunkSize \<le> diskSize - writeSize" using d by (simp_all add: c bufferSize_def)
  then have "unat (diskSize - writeSize - chunkSize) < unat (diskSize - writeSize)"
    by (simp add: unat_minus_fits word_le_nat_alt word_less_nat_alt)
  then show "((E, diskname, diskSize, writeSize + chunkSize, B2), E, diskname, diskSize, writeSize, B)
      \<in> measure (\<lambda>(E, diskname, diskSize, writeSize, B). unat (diskSize - writeSize))"
    by (simp add: diff_diff_eq)
qed simp

declare fill_disk.simps [simp del]

text \<open>
  The loop that copies a file goes on after a write that failed, and at the end asks the disk, not
  the file, whether there was an error.
\<close>

function copy_file :: "name \<Rightarrow> name \<Rightarrow> u8 list \<Rightarrow> bool \<times> bmfs \<Rightarrow> bool \<times> bmfs" where
  "copy_file diskname path source r =
    (if source = [] then (if s_error (b_disk (snd r)) then (False, read_failed path (snd r)) else r)
     else
       (let (ok, B1) = put_disk (take bufferSize source) (snd r)
        in copy_file diskname path (drop bufferSize source) (if ok then (fst r, B1) else (False, write_failed diskname B1))))"
  by auto
termination
  by (relation "measure (\<lambda>(diskname, path, source, r). length source)") (auto simp: bufferSize_def)

declare copy_file.simps [simp del]

definition write_mbr :: "name \<Rightarrow> name \<Rightarrow> u8 list \<Rightarrow> bmfs \<Rightarrow> bool \<times> bmfs" where
  "write_mbr diskname mbr xs B =
    (let B1 = tell (chars ''Writing master boot record.'' @ newline) B;
         B2 = B1\<lparr>b_disk := seek 0 (b_disk B1)\<rparr>
     in if 512 \<le> length xs
        then (let (ok, B3) = put_disk (take 512 xs) B2 in if ok then (True, B3) else (False, write_failed diskname B3))
        else (False, read_failed mbr B2))"

definition if_given :: "u8 list option \<Rightarrow> (u8 list \<Rightarrow> bmfs \<Rightarrow> bool \<times> bmfs) \<Rightarrow> bool \<times> bmfs \<Rightarrow> bool \<times> bmfs" where
  "if_given file f r =
    (case file of None \<Rightarrow> r | Some xs \<Rightarrow> if fst r then f xs (snd r) else r)"

definition bm_initialize ::
    "host_env \<Rightarrow> name \<Rightarrow> name \<Rightarrow> name option \<Rightarrow> name option \<Rightarrow> name option \<Rightarrow> bmfs \<Rightarrow> int \<times> bmfs" where
  "bm_initialize E diskname sz mbr boot kern B =
    (let kind = chars (if kern = None then ''system'' else ''boot loader'');
         (diskSize, r1) = disk_size sz B;
         (mbrFile, r2) = open_input E (chars ''MBR'') mbr r1;
         (bootFile, r3) = open_input E kind boot r2;
         (kernelFile, ok4, B4) = open_input E (chars ''kernel'') kern r3;
         r5 = (if ok4 \<and> \<not> e_malloc E then (False, tell (chars ''Error: Failed to allocate buffer'' @ newline) B4) else (ok4, B4));
         r6 = (if \<not> fst r5 then r5
               else if e_writable E diskname then (True, (snd r5)\<lparr>b_disk := stream_of (e_room E) []\<rparr>)
               else (False, tell (chars ''Error: Unable to open disk '' @ quote diskname @ newline) (snd r5)));
         r7 = (if fst r6 then fill_disk E diskname diskSize 0 (snd r6) else r6);
         r8 = (if fst r7 then (True, bm_format ((snd r7)\<lparr>b_disk := seek 0 (b_disk (snd r7))\<rparr>)) else r7);
         r9 = if_given mbrFile (write_mbr diskname (the mbr)) r8;
         r10 = if_given bootFile (\<lambda>xs B. let B1 = tell (chars ''Writing '' @ kind @ chars '' file.'' @ newline) B in
                 copy_file diskname (the boot) xs (True, B1\<lparr>b_disk := seek 8192 (b_disk B1)\<rparr>)) r9;
         r11 = if_given kernelFile (\<lambda>xs B. copy_file diskname (the kern) xs (True, tell (chars ''Writing kernel.'' @ newline) B)) r10
     in if fst r11 then (0, tell (chars ''Disk initialization complete.'' @ newline) (snd r11)) else (1, snd r11))"

section \<open>The commands\<close>

definition strcasecmp :: "u8 list \<Rightarrow> u8 list \<Rightarrow> bool" where
  "strcasecmp xs ys \<longleftrightarrow> map lower xs = map lower ys"

definition is_space :: "u8 \<Rightarrow> bool" where "is_space c \<longleftrightarrow> c = 32 \<or> 9 \<le> c \<and> c \<le> 13"

definition fits_int :: "int \<Rightarrow> int option" where
  "fits_int x = (if - (2 ^ 31) \<le> x \<and> x < 2 ^ 31 then Some x else None)"

text \<open>\<^verbatim>\<open>atoi\<close>; a number that does not fit has no result.\<close>

definition atoi :: "u8 list \<Rightarrow> int option" where
  "atoi xs =
    (let ys = dropWhile is_space xs;
         neg = (ys \<noteq> [] \<and> hd ys = 45);
         zs = (if ys \<noteq> [] \<and> (hd ys = 45 \<or> hd ys = 43) then tl ys else ys);
         v = foldl (\<lambda>n c. n * 10 + (uint c - 48)) 0 (takeWhile is_digit zs)
     in fits_int (if neg then - v else v))"

definition usage :: "name \<Rightarrow> u8 list" where
  "usage prog =
     chars ''BareMetal File System Utility v1.0 (2013 04 10)'' @ newline @
     chars ''Written by Ian Seyler @ Return Infinity (ian.seyler@returninfinity.com)'' @ newline @ newline @
     chars ''Usage: '' @ prog @ chars '' disk function file'' @ newline @
     chars ''Disk: the name of the disk file'' @ newline @
     chars ''Function: list, read, write, create, delete, format, initialize'' @ newline @
     chars ''File: (if applicable)'' @ newline"

text \<open>Whether a search would look at a name; without a file name that reads through a null pointer.\<close>

fun looks_at_name :: "bytes \<Rightarrow> nat list \<Rightarrow> bool" where
  "looks_at_name d [] = False"
| "looks_at_name d (i # is) = (if mark d i = 0 then False else if mark d i = 1 then looks_at_name d is else True)"

definition named :: "name option \<Rightarrow> (name \<Rightarrow> bmfs \<Rightarrow> bmfs option) \<Rightarrow> bmfs \<Rightarrow> bmfs option" where
  "named filename f B =
    (case filename of
       Some n \<Rightarrow> f n B
     | None \<Rightarrow> if looks_at_name (Directory B) [0..<64] then None else f [] B)"

definition invalid_file_size :: "bmfs \<Rightarrow> bmfs" where
  "invalid_file_size = tell (chars ''Error: Invalid file size.'' @ newline)"

definition create_command :: "host_env \<Rightarrow> u8 list list \<Rightarrow> bmfs \<Rightarrow> bmfs option" where
  "create_command E argv B =
    (if length argv \<le> 3 then Some (tell (chars ''Error: File name not specified.'' @ newline) B)
     else if 4 < length argv then do {
       n \<leftarrow> atoi (argv ! 4);
       Some (if 1 \<le> n then bm_create (argv ! 3) (of_int n) B else invalid_file_size B)
     }
     else do {
       n \<leftarrow> atoi (take 31 (e_line E));
       let B1 = tell (chars ''Maximum file size in MiB: '') B;
       let filesize = (of_int n :: u32);
       Some (if 1 \<le> filesize then bm_create (argv ! 3) (ucast filesize) B1 else invalid_file_size B1)
     })"

definition run_command :: "host_env \<Rightarrow> u8 list list \<Rightarrow> bmfs \<Rightarrow> bmfs option" where
  "run_command E argv B =
    (let diskname = argv ! 1; command = argv ! 2;
         filename = (if 3 < length argv then Some (argv ! 3) else None)
     in if strcasecmp (chars ''list'') command then Some (bm_list diskname B)
        else if strcasecmp (chars ''format'') command
        then Some (if 3 < length argv \<and> strcasecmp (argv ! 3) (chars ''/FORCE'') then bm_format B
                   else tell (chars ''Format aborted!'' @ newline) B)
        else if strcasecmp (chars ''create'') command then create_command E argv B
        else if strcasecmp (chars ''read'') command then named filename (bm_read E) B
        else if strcasecmp (chars ''write'') command then named filename (bm_write E) B
        else if strcasecmp (chars ''delete'') command then named filename (\<lambda>n B. Some (bm_delete n B)) B
        else Some (tell (chars ''Unknown command'' @ newline) B))"

definition bmfs0 :: bmfs where
  "bmfs0 = \<lparr>b_disk = stream_of 0 [], disksize = 0, DiskInfo = (\<lambda>_. 0), Directory = (\<lambda>_. 0), made = (\<lambda>_. None), printed = []\<rparr>"

text \<open>An open disk: its size in MiB, the information block and the directory are read.\<close>

definition load_disk :: "stream \<Rightarrow> bmfs \<Rightarrow> bmfs" where
  "load_disk f B =
    (let (info, f1) = get_bytes 512 (seek 1024 f);
         (dir, f2) = get_bytes 4096 (seek 4096 f1)
     in B\<lparr>b_disk := seek 0 f2, disksize := of_nat (s_len f div 1048576), DiskInfo := store_list 0 info (DiskInfo B),
          Directory := store_list 0 dir (Directory B)\<rparr>)"

text \<open>The arguments of the command line, and the disk if the host can open it; the exit code and the final state.\<close>

definition bm_main :: "host_env \<Rightarrow> u8 list list \<Rightarrow> stream option \<Rightarrow> (int \<times> bmfs) option" where
  "bm_main E argv opened =
    (if length argv < 3 then Some (0, tell (usage (argv ! 0)) bmfs0)
     else if strcasecmp (chars ''initialize'') (argv ! 2) then
       (let opt = (\<lambda>i. if i < length argv then Some (argv ! i) else None) in
        if 4 \<le> length argv then Some (bm_initialize E (argv ! 1) (argv ! 3) (opt 4) (opt 5) (opt 6) bmfs0)
        else Some (1, tell (chars ''Usage: '' @ argv ! 0 @ chars '' disk '' @ argv ! 2 @ chars '' size [mbr_file] '' @
               chars ''[bootloader_file] [kernel_file]'' @ newline) bmfs0))
     else case opened of
            None \<Rightarrow> Some (0, tell (chars ''Error: Unable to open disk '' @ quote (argv ! 1) @ newline) bmfs0)
          | Some f \<Rightarrow>
              (let B = load_disk f bmfs0 in
               if \<not> strcasecmp (takeWhile (\<lambda>c. c \<noteq> 0) (bytes_at (DiskInfo B) 0 512)) fs_tag
               then Some (0, if strcasecmp (chars ''format'') (argv ! 2) then bm_format B
                      else tell (chars ''Error: Not a valid BMFS drive (Disk is not BMFS formatted).'' @ newline) B)
               else map_option (Pair 0) (run_command E argv B)))"

end
