(* ===== verification/BmfsProps.thy ===== *)
theory BmfsProps
  imports Bmfs
begin

text \<open>
  The file system tool: a directory entry can be read as it was written, a new file lies in blocks
  that no other file has as long as nothing was deleted, the gap search fails after a deletion, and
  a file that is written to the disk is read back.
\<close>

section \<open>Directory entries\<close>

lemma store_list_at:
  "a + length xs \<le> 2 ^ 64 \<Longrightarrow> x < 2 ^ 64 \<Longrightarrow>
     store_list (of_nat a) xs d (of_nat x) = (if a \<le> x \<and> x < a + length xs then xs ! (x - a) else d (of_nat x))"
proof (induction xs arbitrary: a d)
  case (Cons c cs)
  have "of_nat a + 1 = (of_nat (Suc a) :: ptr)" by simp
  then have step: "store_list (of_nat a) (c # cs) d (of_nat x) = store_list (of_nat (Suc a)) cs (d(of_nat a := c)) (of_nat x)"
    by (simp only: store_list.simps)
  have "(d(of_nat a := c)) (of_nat x) = (if x = a then c else d (of_nat x))"
    using Cons.prems of_nat_u64_inj [of x a] by simp
  then show ?case
    using Cons.IH [of "Suc a" "d(of_nat a := c)"] Cons.prems unfolding step
    by (auto simp: nth_Cons' simp del: of_nat_Suc fun_upd_apply)
qed auto

lemma store64_at:
  assumes "a + 8 \<le> 2 ^ 64" "x < 2 ^ 64" "x < a \<or> a + 8 \<le> x"
  shows "store64 (of_nat a) v d (of_nat x) = d (of_nat x)"
proof (rule store64_other)
  fix i :: nat assume "i < 8"
  then show "of_nat x \<noteq> of_nat a + (of_nat i :: ptr)"
    using assms of_nat_u64_inj [of x "a + i"] by auto
qed

lemma load64_cong: "(\<And>j. j < 8 \<Longrightarrow> d (a + of_nat j) = d' (a + of_nat j)) \<Longrightarrow> load64 d a = load64 d' a"
  by (rule bit_word_eqI) (simp add: load64_bit)

text \<open>Two directories with the same bytes in a slot.\<close>

definition same_slot :: "bytes \<Rightarrow> bytes \<Rightarrow> nat \<Rightarrow> bool" where
  "same_slot d d' i \<longleftrightarrow> (\<forall>k<64. d (of_nat (64 * i + k)) = d' (of_nat (64 * i + k)))"

lemma slot_plus: "slot_at i + of_nat k = of_nat (64 * i + k)" by (simp add: slot_at_def)

lemma slot_at_zero: "d (slot_at i) = d (of_nat (64 * i + 0))" by (simp add: slot_at_def)

lemma slot_fields: "slot_at i + 32 = of_nat (64 * i + 32)" "slot_at i + 40 = of_nat (64 * i + 40)"
    "slot_at i + 48 = of_nat (64 * i + 48)"
  using slot_plus [of i 32] slot_plus [of i 40] slot_plus [of i 48] by simp_all

lemma slot_field_byte: "(of_nat (64 * i + n) :: ptr) + of_nat j = of_nat (64 * i + (n + j))" by simp

lemma same_slot_reads:
  assumes "same_slot d d' i"
  shows "entry_at d i = entry_at d' i" "mark d i = mark d' i" "stored_name d i = stored_name d' i"
proof -
  have b: "bytes_at d (slot_at i) n = bytes_at d' (slot_at i) n" if "n \<le> 64" for n
    using assms that by (intro bytes_at_eqI) (simp add: slot_plus same_slot_def del: of_nat_add)
  have w: "load64 d (of_nat (64 * i + n)) = load64 d' (of_nat (64 * i + n))" if "n \<le> 56" for n
    using assms that by (intro load64_cong) (simp add: slot_field_byte same_slot_def del: of_nat_add)
  show "entry_at d i = entry_at d' i" unfolding entry_at_def slot_fields using b [of 32] w [of 32] w [of 40] w [of 48]
    by (simp del: of_nat_add of_nat_mult)
  show "mark d i = mark d' i"
    using assms unfolding mark_def slot_at_zero same_slot_def by (metis zero_less_numeral)
  show "stored_name d i = stored_name d' i" unfolding stored_name_def using b by simp
qed

lemma find_from_cong:
  "\<forall>i\<in>set is. mark d i = mark d' i \<and> stored_name d i = stored_name d' i \<Longrightarrow> find_from d n is = find_from d' n is"
  by (induction "is") auto

lemma find_from_Some:
  "find_from d n is = Some i \<Longrightarrow> i \<in> set is \<and> stored_name d i = n \<and> mark d i \<noteq> 0 \<and> mark d i \<noteq> 1"
  by (induction "is") (auto split: if_splits)

section \<open>A new entry\<close>

lemma add_entry_other:
  assumes "length filename < 64" "i < 64" "j < 64" "i \<noteq> j"
  shows "same_slot (add_entry i filename start reserved d) d j"
proof -
  have "add_entry i filename start reserved d (of_nat (64 * j + k)) = d (of_nat (64 * j + k))" if k: "k < 64" for k
  proof -
    have far: "64 * j + k < 64 * i \<or> 64 * i + 64 \<le> 64 * j + k" "64 * j + k < 2 ^ 64" "64 * i + 64 \<le> 2 ^ 64"
      using k assms by auto
    then show ?thesis
      using assms(1) unfolding add_entry_def Let_def slot_fields unfolding slot_at_def
      by (subst store_list_at) (auto simp: store64_at simp del: of_nat_add of_nat_mult)
  qed
  then show ?thesis by (simp add: same_slot_def del: of_nat_add of_nat_mult)
qed

lemma add_entry_fields:
  assumes "length filename < 32" "i < 64"
  shows "StartingBlock (entry_at (add_entry i filename start reserved d) i) = start"
    and "ReservedBlocks (entry_at (add_entry i filename start reserved d) i) = reserved"
proof -
  let ?d = "store64 (of_nat (64 * i + 48)) 0 (store64 (of_nat (64 * i + 40)) reserved (store64 (of_nat (64 * i + 32)) start d))"
  have e: "add_entry i filename start reserved d = store_list (of_nat (64 * i)) (filename @ [0]) ?d"
    unfolding add_entry_def Let_def slot_fields unfolding slot_at_def ..
  have a: "64 * i + 64 \<le> 2 ^ 64" using assms(2) by simp
  have high: "load64 (store_list (of_nat (64 * i)) (filename @ [0]) m) (of_nat (64 * i + k)) = load64 m (of_nat (64 * i + k))"
    if "32 \<le> k" "k < 56" for m k
    using that assms(1) a unfolding slot_field_byte
    by (intro load64_cong) (subst slot_field_byte, subst store_list_at, auto simp: slot_field_byte simp del: of_nat_add of_nat_mult)
  have apart: "load64 (store64 (of_nat (64 * i + p)) v m) (of_nat (64 * i + q)) = load64 m (of_nat (64 * i + q))"
    if "p + 8 \<le> q \<or> q + 8 \<le> p" "p < 56" "q < 56" for p q v m
    using that a by (intro load64_cong) (subst slot_field_byte, subst store64_at, auto simp: slot_field_byte simp del: of_nat_add of_nat_mult)
  show "StartingBlock (entry_at (add_entry i filename start reserved d) i) = start"
    unfolding e entry_at_def slot_fields by (simp add: high apart del: of_nat_add of_nat_mult)
  show "ReservedBlocks (entry_at (add_entry i filename start reserved d) i) = reserved"
    unfolding e entry_at_def slot_fields by (simp add: high apart del: of_nat_add of_nat_mult)
qed

lemma add_entry_name:
  assumes "length filename < 32" "i < 64" "0 \<notin> set filename"
  shows "mark (add_entry i filename start reserved d) i = (filename @ [0]) ! 0"
    and "stored_name (add_entry i filename start reserved d) i = filename"
proof -
  have b: "add_entry i filename start reserved d (of_nat (64 * i + k)) = (filename @ [0]) ! k" if "k \<le> length filename" for k
    using that assms(1,2) unfolding add_entry_def Let_def slot_at_def
    by (subst store_list_at) (auto simp del: of_nat_add of_nat_mult)
  show "mark (add_entry i filename start reserved d) i = (filename @ [0]) ! 0"
    unfolding mark_def slot_at_zero using b [of 0] by simp
  let ?xs = "bytes_at (add_entry i filename start reserved d) (slot_at i) 64"
  have "take (Suc (length filename)) ?xs = filename @ [0]"
    using assms(1) b by (intro nth_equalityI) (auto simp: slot_plus nth_append simp del: of_nat_add of_nat_mult)
  then obtain ys where "?xs = filename @ 0 # ys"
    by (metis append.assoc append_Cons append_Nil append_take_drop_id)
  then show "stored_name (add_entry i filename start reserved d) i = filename"
    using assms(3) unfolding stored_name_def by (auto simp: takeWhile_append)
qed

section \<open>The sort\<close>

lemma set_qsort: "set (qsort es) = set es"
proof -
  have "set (qsort_insert e xs) = insert e (set xs)" for e xs by (induction xs) auto
  then show ?thesis unfolding qsort_def by (induction es) auto
qed

text \<open>On a disk of fewer than \<open>2 ^ 31\<close> blocks the difference of two starts fits an \<^verbatim>\<open>int\<close>.\<close>

lemma cmp_le:
  assumes "\<not> unused a" "\<not> unused b" "unat (StartingBlock a) < 2 ^ 31" "unat (StartingBlock b) < 2 ^ 31"
  shows "StartingBlockCmp a b \<le> 0 \<longleftrightarrow> unat (StartingBlock a) \<le> unat (StartingBlock b)"
proof -
  let ?x = "int (unat (StartingBlock a))" and ?y = "int (unat (StartingBlock b))"
  have d: "StartingBlock a - StartingBlock b = of_int (?x - ?y)" by simp
  have "sint (ucast (StartingBlock a - StartingBlock b) :: u32) = signed_take_bit 31 (?x - ?y)"
    unfolding d by (simp add: signed_ucast_eq unsigned_of_int signed_of_int signed_take_bit_take_bit del: of_int_diff)
  also have "\<dots> = ?x - ?y" using assms(3,4) by (intro signed_take_bit_int_eq_self) (simp_all del: of_nat_unat)
  finally show ?thesis using assms(1,2) by (simp add: StartingBlockCmp_def del: of_nat_unat)
qed

section \<open>The search for a gap\<close>

definition first_block :: "BMFSEntry \<Rightarrow> nat" where "first_block e = unat (StartingBlock e)"

definition end_block :: "BMFSEntry \<Rightarrow> nat" where "end_block e = unat (StartingBlock e) + unat (ReservedBlocks e)"

text \<open>A file has blocks, all between the first one, which holds the directory, and the last one.\<close>

definition in_range :: "nat \<Rightarrow> BMFSEntry \<Rightarrow> bool" where
  "in_range n e \<longleftrightarrow> \<not> unused e \<and> 1 \<le> first_block e \<and> first_block e < end_block e \<and> end_block e \<le> n - 1"

definition apart_files :: "BMFSEntry \<Rightarrow> BMFSEntry \<Rightarrow> bool" where
  "apart_files a b \<longleftrightarrow> end_block a \<le> first_block b \<or> end_block b \<le> first_block a"

abbreviation in_order :: "BMFSEntry list \<Rightarrow> bool" where
  "in_order \<equiv> sorted_wrt (\<lambda>a b. end_block a \<le> first_block b)"

lemma cmp_in_range:
  assumes "in_range n a" "in_range n b" "n < 2 ^ 31"
  shows "StartingBlockCmp a b \<le> 0 \<longleftrightarrow> first_block a \<le> first_block b"
  using assms unfolding in_range_def first_block_def by (intro cmp_le) auto

lemma qsort_insert_in_order:
  assumes "in_order xs" "in_range n e" "\<forall>x\<in>set xs. in_range n x \<and> apart_files e x" "n < 2 ^ 31"
  shows "in_order (qsort_insert e xs) \<and> set (qsort_insert e xs) = insert e (set xs)"
  using assms(1,3)
proof (induction xs)
  case (Cons x xs)
  have c: "StartingBlockCmp e x \<le> 0 \<longleftrightarrow> first_block e \<le> first_block x"
    using Cons.prems assms by (intro cmp_in_range [of n]) auto
  have r: "first_block y < end_block y" if "y \<in> insert e (set (x # xs))" for y
    using Cons.prems(2) assms(2) that by (auto simp: in_range_def)
  have x: "end_block x \<le> first_block y" if "y \<in> set xs" for y using Cons.prems(1) that by simp
  show ?case
  proof (cases "first_block e \<le> first_block x")
    case True
    then have "end_block e \<le> first_block x" using Cons.prems(2) r [of x] by (simp add: apart_files_def)
    moreover then have "end_block e \<le> first_block y" if "y \<in> set xs" for y
      using x [OF that] r [of x] by (meson le_trans less_imp_le list.set_intros(1) insertI2)
    ultimately show ?thesis using Cons.prems(1) True c by simp
  next
    case False
    then have "end_block x \<le> first_block e" using Cons.prems(2) r [of e] by (auto simp: apart_files_def)
    then show ?thesis using Cons False c x by auto
  qed
qed simp

lemma qsort_in_order:
  assumes "n < 2 ^ 31"
  shows "\<forall>e\<in>set es. in_range n e \<Longrightarrow> sorted_wrt apart_files es \<Longrightarrow> in_order (qsort es)"
proof (induction es)
  case (Cons e es)
  have "qsort (e # es) = qsort_insert e (qsort es)" by (simp add: qsort_def)
  then show ?case using Cons qsort_insert_in_order [of "qsort es" n e] assms by (simp add: set_qsort)
qed (simp add: qsort_def)

lemma fit_gap:
  assumes "in_order es" "\<forall>e\<in>set es. in_range (unat num_blocks) e \<and> unat prev_end \<le> first_block e"
    and "2 \<le> unat num_blocks" "unat num_blocks < 2 ^ 31" "1 \<le> unat prev_end" "unat prev_end \<le> unat num_blocks - 1"
    and "fit num_blocks requested es prev_end = start" "start \<noteq> 0"
  shows "unat prev_end \<le> unat start \<and> unat start + unat requested \<le> unat num_blocks - 1 \<and>
    (\<forall>e\<in>set es. unat start + unat requested \<le> first_block e \<or> end_block e \<le> unat start)"
  using assms(1,2,5-8)
proof (induction es arbitrary: prev_end)
  case Nil
  have "unat (num_blocks - 1) = unat num_blocks - 1" using assms(3) by (simp add: unat_minus_fits word_le_nat_alt)
  then have "unat (num_blocks - 1 - prev_end) = unat num_blocks - 1 - unat prev_end"
    using Nil.prems by (simp add: unat_minus_fits word_le_nat_alt)
  then show ?case using Nil.prems by (auto simp: word_le_nat_alt split: if_splits)
next
  case (Cons e es)
  have e: "in_range (unat num_blocks) e" "unat prev_end \<le> unat (StartingBlock e)"
    using Cons.prems by (auto simp: first_block_def)
  have gap: "unat (StartingBlock e - prev_end) = unat (StartingBlock e) - unat prev_end"
    using e by (simp add: unat_minus_fits word_le_nat_alt)
  have after: "\<forall>x\<in>set es. end_block e \<le> first_block x" using Cons.prems by simp
  have nxt: "unat (StartingBlock e + ReservedBlocks e) = end_block e"
    using e assms(4) unfolding in_range_def end_block_def by (intro unat_plus_fits) auto
  show ?case
  proof (cases "requested \<le> StartingBlock e - prev_end")
    case True
    then have "start = prev_end" "unat prev_end + unat requested \<le> first_block e"
      using Cons.prems e gap by (auto simp: in_range_def word_le_nat_alt first_block_def)
    then show ?thesis using after e by (force simp: in_range_def)
  next
    case False
    then have "fit num_blocks requested es (StartingBlock e + ReservedBlocks e) = start"
      using Cons.prems e by (simp add: in_range_def)
    then have "end_block e \<le> unat start \<and> unat start + unat requested \<le> unat num_blocks - 1 \<and>
        (\<forall>x\<in>set es. unat start + unat requested \<le> first_block x \<or> end_block x \<le> unat start)"
      using Cons.IH [of "StartingBlock e + ReservedBlocks e"] Cons.prems after e
      unfolding nxt by (auto simp: in_range_def)
    then show ?thesis using e by (auto simp: in_range_def first_block_def)
  qed
qed

section \<open>Files on a disk from which nothing was deleted\<close>

definition files :: "bytes \<Rightarrow> BMFSEntry list" where
  "files d = map (entry_at d) (takeWhile (\<lambda>i. mark d i \<noteq> 0) [0..<64])"

definition disk_ok :: "bmfs \<Rightarrow> bool" where
  "disk_ok B \<longleftrightarrow> 4 \<le> disksize B \<and> (\<forall>e\<in>set (files (Directory B)). in_range (unat (disksize B) div 2) e) \<and>
     sorted_wrt apart_files (files (Directory B))"

lemma bmfs_simps [simp]:
  "Directory (tell t B) = Directory B" "disksize (tell t B) = disksize B" "b_disk (tell t B) = b_disk B" "made (tell t B) = made B"
  "Directory (flush_directory B) = Directory B" "disksize (flush_directory B) = disksize B" "made (flush_directory B) = made B"
  by (simp_all add: tell_def flush_directory_def)

lemma unused_mark: "unused (entry_at d i) \<longleftrightarrow> mark d i = 1"
  by (simp add: unused_def entry_at_def mark_def)

lemma slots_upto: "m \<le> 64 \<Longrightarrow> [0..<64] = [0..<m] @ [m..<64]"
  using upt_add_eq_append [of 0 m "64 - m"] by simp

lemma slots_at: "m < 64 \<Longrightarrow> [0..<64] = [0..<m] @ m # [Suc m..<64]"
  using slots_upto [of m] by (simp add: upt_conv_Cons)

lemma takeWhile_marks:
  assumes "\<forall>i<m. mark d i \<noteq> 0" "m = 64 \<or> m < 64 \<and> mark d m = 0"
  shows "takeWhile (\<lambda>i. mark d i \<noteq> 0) [0..<64] = [0..<m]"
proof -
  have "[0..<64] = [0..<m] @ [m..<64]" using assms(2) by (intro slots_upto) auto
  moreover have "takeWhile (\<lambda>i. mark d i \<noteq> 0) [m..<64] = []" using assms(2) by (auto simp: upt_rec)
  ultimately show ?thesis using assms(1) by (simp add: takeWhile_append)
qed

text \<open>The number of entries in front of the end mark.\<close>

lemma end_mark:
  obtains m where "\<forall>i<m. mark d i \<noteq> 0" "m = 64 \<or> m < 64 \<and> mark d m = 0" "files d = map (entry_at d) [0..<m]"
proof (cases "\<exists>i<64. mark d i = 0")
  case True
  define m where "m = (LEAST i. mark d i = 0)"
  have "mark d m = 0" "\<forall>i<m. mark d i \<noteq> 0" "m < 64"
    using True unfolding m_def by (auto intro: LeastI dest: not_less_Least) (meson Least_le le_less_trans)
  then show ?thesis using that [of m] takeWhile_marks [of m d] by (simp add: files_def)
next
  case False
  then show ?thesis using that [of 64] takeWhile_marks [of 64 d] by (simp add: files_def)
qed

lemma scan_skips:
  "\<forall>i\<in>set xs. mark d i \<noteq> 0 \<and> mark d i \<noteq> 1 \<Longrightarrow> scan_slots d (xs @ ys) None = scan_slots d ys None"
  by (induction xs) auto

lemma scan_no_deleted:
  assumes "\<forall>i<m. mark d i \<noteq> 0 \<and> mark d i \<noteq> 1" "m = 64 \<or> m < 64 \<and> mark d m = 0"
  shows "scan_slots d [0..<64] None = (if m = 64 then (0, None) else (m, Some m))"
proof (cases "m = 64")
  case True
  then show ?thesis using scan_skips [of "[0..<64]" d "[]"] assms(1) by simp
next
  case False
  then have "[0..<64] = [0..<m] @ m # [Suc m..<64]" using assms(2) by (intro slots_at) auto
  then show ?thesis using scan_skips [of "[0..<m]" d "m # [Suc m..<64]"] assms False by simp
qed

lemma find_skips:
  "\<forall>i\<in>set xs. mark d i \<noteq> 0 \<and> (mark d i = 1 \<or> stored_name d i \<noteq> n) \<Longrightarrow> find_from d n (xs @ ys) = find_from d n ys"
  by (induction xs) auto

lemma find_hit:
  assumes "\<forall>i<m. mark d i \<noteq> 0 \<and> (mark d i = 1 \<or> stored_name d i \<noteq> n)" "m < 64" "mark d m \<noteq> 0" "mark d m \<noteq> 1" "stored_name d m = n"
  shows "find_from d n [0..<64] = Some m"
proof -
  have "[0..<64] = [0..<m] @ m # [Suc m..<64]" using assms(2) by (intro slots_at) auto
  then show ?thesis using find_skips [of "[0..<m]" d n "m # [Suc m..<64]"] assms by simp
qed

lemma find_None:
  "find_from d n (xs @ ys) = None \<Longrightarrow> \<forall>i\<in>set xs. mark d i \<noteq> 0 \<Longrightarrow> \<forall>i\<in>set xs. mark d i \<noteq> 0 \<and> (mark d i = 1 \<or> stored_name d i \<noteq> n)"
  by (induction xs) (auto split: if_splits)

text \<open>The directory with a new entry behind the \<open>m\<close> there are, and with the end mark moved.\<close>

definition append_entry :: "nat \<Rightarrow> name \<Rightarrow> u64 \<Rightarrow> u64 \<Rightarrow> bytes \<Rightarrow> bytes" where
  "append_entry m filename start reserved d =
    (let d1 = add_entry m filename start reserved d in if m + 1 < 64 then d1(slot_at (m + 1) := 0) else d1)"

lemma append_entry_slots:
  assumes "filename \<noteq> []" "length filename < 32" "0 \<notin> set filename" "m < 64"
  shows "j < m \<Longrightarrow> same_slot (append_entry m filename start reserved d) d j"
    and "mark (append_entry m filename start reserved d) m = hd filename"
    and "stored_name (append_entry m filename start reserved d) m = filename"
    and "StartingBlock (entry_at (append_entry m filename start reserved d) m) = start"
    and "ReservedBlocks (entry_at (append_entry m filename start reserved d) m) = reserved"
    and "m + 1 < 64 \<Longrightarrow> mark (append_entry m filename start reserved d) (m + 1) = 0"
proof -
  let ?d1 = "add_entry m filename start reserved d" and ?d2 = "append_entry m filename start reserved d"
  have old: "same_slot ?d2 ?d1 j" if "j \<le> m" for j
  proof -
    have "(of_nat (64 * j + k) :: ptr) \<noteq> of_nat (64 * (m + 1))" if "k < 64" for k
      using that \<open>j \<le> m\<close> assms(4) of_nat_u64_inj [of "64 * j + k" "64 * (m + 1)"] by simp
    then show ?thesis by (simp add: append_entry_def same_slot_def slot_at_def Let_def del: of_nat_add of_nat_mult)
  qed
  show "same_slot ?d2 d j" if "j < m"
    using old [of j] add_entry_other [of filename m j start reserved d] that assms by (auto simp: same_slot_def)
  note new = same_slot_reads [OF old [of m]]
  show "mark ?d2 m = hd filename" "stored_name ?d2 m = filename"
    using new add_entry_name [OF assms(2,4,3)] assms(1) by (simp_all add: hd_conv_nth nth_append)
  show "StartingBlock (entry_at ?d2 m) = start" "ReservedBlocks (entry_at ?d2 m) = reserved"
    using new add_entry_fields [OF assms(2,4)] by simp_all
  show "mark ?d2 (m + 1) = 0" if "m + 1 < 64" using that by (simp add: append_entry_def mark_def Let_def)
qed

lemma files_append_entry:
  assumes "filename \<noteq> []" "length filename < 32" "0 \<notin> set filename" "m < 64" "\<forall>i<m. mark d i \<noteq> 0"
  shows "files (append_entry m filename start reserved d) =
    map (entry_at d) [0..<m] @ [entry_at (append_entry m filename start reserved d) m]"
proof -
  let ?d2 = "append_entry m filename start reserved d"
  note slots = append_entry_slots [where start = start and reserved = reserved and d = d, OF assms(1-4)]
  have old: "entry_at ?d2 j = entry_at d j" "mark ?d2 j \<noteq> 0" if "j < m" for j
    using same_slot_reads [OF slots(1) [OF that]] that assms(5) by simp_all
  have "mark ?d2 m \<noteq> 0" using slots(2) assms(1,3) by (metis hd_in_set)
  then have "\<forall>i<Suc m. mark ?d2 i \<noteq> 0" using old by (auto simp: less_Suc_eq)
  moreover have "Suc m = 64 \<or> Suc m < 64 \<and> mark ?d2 (Suc m) = 0" using slots(6) assms(4) by auto
  ultimately have "files ?d2 = map (entry_at ?d2) [0..<Suc m]" unfolding files_def by (simp only: takeWhile_marks)
  then show ?thesis using old by simp
qed

lemma unat_less_32: "unat (a::u32) < 2 ^ 32"
  by (rule order_less_le_trans [OF unsigned_less]) simp

text \<open>What a call on a disk in order does to the directory.\<close>

lemma bm_create_cases:
  assumes ok: "disk_ok B" and m: "\<forall>i<m. mark (Directory B) i \<noteq> 0" "m = 64 \<or> m < 64 \<and> mark (Directory B) m = 0"
    and f: "files (Directory B) = map (entry_at (Directory B)) [0..<m]"
    and s: "1 \<le> maxsize" "maxsize < 2 ^ 63"
  obtains "Directory (bm_create filename maxsize B) = Directory B" "disksize (bm_create filename maxsize B) = disksize B"
  | start reserved where "Directory (bm_create filename maxsize B) = append_entry m filename start reserved (Directory B)"
      "disksize (bm_create filename maxsize B) = disksize B" "findfile filename B = None" "m < 64"
      "1 \<le> unat start" "1 \<le> unat reserved" "unat start + unat reserved \<le> unat (disksize B) div 2 - 1"
      "\<forall>e\<in>set (files (Directory B)). unat start + unat reserved \<le> first_block e \<or> end_block e \<le> unat start"
proof -
  define blocks where "blocks = (ucast (disksize B div 2) :: u64)"
  define reserved where "reserved = (if maxsize mod 2 \<noteq> 0 then maxsize + 1 else maxsize) div 2"
  define start where "start = fit blocks reserved (qsort (files (Directory B))) 1"
  have "unat (disksize B) div 2 < 2 ^ 64" using unat_less_32 [of "disksize B"] by simp
  then have nb: "unat blocks = unat (disksize B) div 2"
    by (simp add: blocks_def unsigned_ucast_eq unat_div_distrib take_bit_nat_eq_self)
  have small: "unat blocks < 2 ^ 31" unfolding nb using unat_less_32 [of "disksize B"] by simp
  have "unat (4::u32) \<le> unat (disksize B)" using ok unfolding disk_ok_def word_le_nat_alt by blast
  then have two: "2 \<le> unat blocks" unfolding nb by simp
  have res: "1 \<le> unat reserved"
  proof -
    have "unat maxsize + unat (1::u64) < 2 ^ 64" using s(2) by (simp add: word_less_nat_alt)
    then have "unat (maxsize + 1) = unat maxsize + 1" using unat_plus_fits64 [of maxsize 1] by simp
    moreover have "1 \<le> unat maxsize" using s(1) unfolding word_le_nat_alt by simp
    moreover have "maxsize mod 2 = 0 \<longleftrightarrow> unat maxsize mod 2 = 0" by (simp add: word_unat_eq_iff unat_mod_distrib)
    ultimately show ?thesis unfolding reserved_def by (simp add: unat_div_distrib) presburger
  qed
  have nodel: "mark (Directory B) i \<noteq> 0 \<and> mark (Directory B) i \<noteq> 1" if "i < m" for i
    using ok m(1) that unfolding disk_ok_def f in_range_def by (auto simp: unused_mark)
  show thesis
  proof (cases "findfile filename B = None \<and> m < 64 \<and> start \<noteq> 0")
    case True
    then have scan: "scan_slots (Directory B) [0..<64] None = (m, Some m)"
      using scan_no_deleted [of m "Directory B"] nodel m(2) by simp
    have "in_order (qsort (files (Directory B)))"
      using ok small unfolding disk_ok_def nb [symmetric] by (intro qsort_in_order) auto
    then have "unat (1::u64) \<le> unat start \<and> unat start + unat reserved \<le> unat blocks - 1 \<and>
        (\<forall>e\<in>set (qsort (files (Directory B))). unat start + unat reserved \<le> first_block e \<or> end_block e \<le> unat start)"
      using ok two small True unfolding disk_ok_def nb [symmetric]
      by (intro fit_gap) (auto simp: set_qsort start_def in_range_def)
    moreover have "Directory (bm_create filename maxsize B) = append_entry m filename start reserved (Directory B)"
      "disksize (bm_create filename maxsize B) = disksize B"
      using True scan unfolding bm_create_def Let_def f start_def reserved_def blocks_def
      by (simp_all add: append_entry_def)
    ultimately show thesis using that(2) True res nb by (simp add: set_qsort)
  next
    case False
    have scan: "scan_slots (Directory B) [0..<64] None = (if m = 64 then (0, None) else (m, Some m))"
      using scan_no_deleted [of m "Directory B"] nodel m(2) by simp
    have "Directory (bm_create filename maxsize B) = Directory B \<and> disksize (bm_create filename maxsize B) = disksize B"
      using False m(2) unfolding bm_create_def Let_def start_def reserved_def blocks_def f
      by (cases "findfile filename B"; cases "m = 64") (simp_all add: scan)
    then show thesis using that(1) by simp
  qed
qed

text \<open> (C14)
  Creating a file keeps the disk in order: when no entry was deleted and every file has blocks of its
  own between the directory and the last block, then this still holds afterwards.  Either the
  directory is as it was, or one entry is added behind the others, which are as they were, and the
  new file is found under its name.
\<close>

theorem bm_create_keeps_files_apart:
  assumes "disk_ok B" "filename \<noteq> []" "length filename < 32" "0 \<notin> set filename" "hd filename \<noteq> 1"
    and "1 \<le> maxsize" "maxsize < 2 ^ 63"
  shows "disk_ok (bm_create filename maxsize B) \<and>
    (Directory (bm_create filename maxsize B) = Directory B \<or>
     (\<exists>e. files (Directory (bm_create filename maxsize B)) = files (Directory B) @ [e]) \<and>
     findfile filename (bm_create filename maxsize B) = Some (length (files (Directory B))))"
proof -
  let ?B = "bm_create filename maxsize B"
  obtain m where m: "\<forall>i<m. mark (Directory B) i \<noteq> 0" "m = 64 \<or> m < 64 \<and> mark (Directory B) m = 0"
      "files (Directory B) = map (entry_at (Directory B)) [0..<m]"
    using end_mark by blast
  from bm_create_cases [OF assms(1) m assms(6,7), of filename] show ?thesis
  proof cases
    case 1
    then show ?thesis using assms(1) by (simp add: disk_ok_def)
  next
    case (2 start reserved)
    let ?d = "append_entry m filename start reserved (Directory B)"
    let ?e = "entry_at ?d m"
    note slots = append_entry_slots [where start = start and reserved = reserved and d = "Directory B", OF assms(2-4) 2(4)]
    have fs: "files ?d = files (Directory B) @ [?e]" using files_append_entry [OF assms(2-4) 2(4) m(1)] m(3) by simp
    have mk: "mark ?d m \<noteq> 0" "mark ?d m \<noteq> 1" using slots(2) assms(2,4,5) by (metis hd_in_set, simp)
    have e: "first_block ?e = unat start" "end_block ?e = unat start + unat reserved"
      using slots(4,5) by (simp_all add: first_block_def end_block_def)
    have "in_range (unat (disksize B) div 2) ?e" using e mk 2 by (simp add: in_range_def unused_mark)
    moreover have "\<forall>x\<in>set (files (Directory B)). apart_files x ?e" using e 2 by (auto simp: apart_files_def)
    ultimately have "disk_ok ?B" using assms(1) 2(1,2) fs by (simp add: disk_ok_def sorted_wrt_append)
    moreover have "mark ?d i \<noteq> 0 \<and> (mark ?d i = 1 \<or> stored_name ?d i \<noteq> filename)" if "i < m" for i
      using find_None [of "Directory B" filename "[0..<m]" "[m..<64]"] slots_upto [of m] 2(3,4) m(1) that
        same_slot_reads [OF slots(1) [OF that]] by (simp add: findfile_def)
    then have "findfile filename ?B = Some m"
      unfolding findfile_def 2(1) using mk slots(3) 2(4) by (intro find_hit) auto
    ultimately show ?thesis using fs m(3) 2(1) by simp
  qed
qed

lemma empty_disk_ok: "disk_ok (bmfs0\<lparr>disksize := 16\<rparr>)"
  using takeWhile_marks [of 0 "\<lambda>_. 0"] by (simp add: disk_ok_def files_def bmfs0_def mark_def word_le_nat_alt)

theorem bm_create_keeps_files_apart_witness: "disk_ok (bm_create [98, 111] 7 (bmfs0\<lparr>disksize := 16\<rparr>))"
  using bm_create_keeps_files_apart [OF empty_disk_ok, of "[98, 111]" 7] by (simp add: word_le_nat_alt word_less_nat_alt)

section \<open>After a deletion\<close>

lemma bm_create_makes:
  assumes "findfile filename B = None" "scan_slots (Directory B) [0..<64] None = (u, Some i)" "maxsize mod 2 = 0"
    and "fit (ucast (disksize B div 2)) (maxsize div 2) (qsort (map (entry_at (Directory B)) [0..<u])) 1 = start" "start \<noteq> 0"
  shows "Directory (bm_create filename maxsize B) =
      (let d1 = add_entry i filename start (maxsize div 2) (Directory B) in
       if i = u \<and> u + 1 < 64 then d1(slot_at (u + 1) := 0) else d1)"
    and "disksize (bm_create filename maxsize B) = disksize B"
  using assms by (simp_all add: bm_create_def Let_def)

lemma slots3: "[0..<64] = 0 # 1 # 2 # [3..<64::nat]" by (simp add: upt_rec)

lemma mark_deleted:
  assumes "i < 64"
  shows "mark (d(slot_at i := c)) i = c" "j < 64 \<Longrightarrow> j \<noteq> i \<Longrightarrow> same_slot (d(slot_at i := c)) d j"
    and "StartingBlock (entry_at (d(slot_at i := c)) i) = StartingBlock (entry_at d i)"
    and "ReservedBlocks (entry_at (d(slot_at i := c)) i) = ReservedBlocks (entry_at d i)"
proof -
  have far: "(of_nat (64 * j + k) :: ptr) \<noteq> of_nat (64 * i)" if "j < 64" "k < 64" "j \<noteq> i \<or> k \<noteq> 0" for j k
  proof -
    have "(64 * j + k) div 64 = j" "(64 * j + k) mod 64 = k" using that(2) by simp_all
    then have "64 * j + k \<noteq> 64 * i"
      using that(3) by (metis nonzero_mult_div_cancel_left mod_mult_self1_is_0 zero_neq_numeral)
    then show ?thesis using that assms of_nat_u64_inj [of "64 * j + k" "64 * i"] by simp
  qed
  show "mark (d(slot_at i := c)) i = c" by (simp add: mark_def)
  show "same_slot (d(slot_at i := c)) d j" if "j < 64" "j \<noteq> i"
    using far [of j] that by (simp add: same_slot_def slot_at_def del: of_nat_add of_nat_mult)
  have "load64 (d(slot_at i := c)) (of_nat (64 * i + k)) = load64 d (of_nat (64 * i + k))" if "0 < k" "k \<le> 56" for k
    using far [of i] assms that
    by (intro load64_cong) (simp add: slot_field_byte slot_at_def del: of_nat_add of_nat_mult)
  then show "StartingBlock (entry_at (d(slot_at i := c)) i) = StartingBlock (entry_at d i)"
    "ReservedBlocks (entry_at (d(slot_at i := c)) i) = ReservedBlocks (entry_at d i)"
    unfolding entry_at_def slot_fields by (simp_all del: of_nat_add of_nat_mult)
qed

text \<open>Two files on a disk of 16 MiB: the first in block 1, the second in blocks 2 to 5.\<close>

definition two_files :: bmfs where
  "two_files = bm_create [98] 8 (bm_create [97] 2 (bmfs0\<lparr>disksize := 16\<rparr>))"

lemma two_files_facts:
  shows "disksize two_files = 16"
    and "mark (Directory two_files) 0 = 97" "mark (Directory two_files) 1 = 98" "mark (Directory two_files) 2 = 0"
    and "stored_name (Directory two_files) 0 = [97]" "stored_name (Directory two_files) 1 = [98]"
    and "StartingBlock (entry_at (Directory two_files) 0) = 1" "ReservedBlocks (entry_at (Directory two_files) 0) = 1"
    and "StartingBlock (entry_at (Directory two_files) 1) = 2" "ReservedBlocks (entry_at (Directory two_files) 1) = 4"
proof -
  let ?B0 = "bmfs0\<lparr>disksize := 16\<rparr>"
  let ?B1 = "bm_create [97] 2 ?B0"
  have z: "mark (\<lambda>_. 0) i = 0" for i by (simp add: mark_def)
  have d1: "Directory ?B1 = append_entry 0 [97] 1 1 (\<lambda>_. 0)" "disksize ?B1 = 16"
    using bm_create_makes [of "[97]" ?B0 0 0 2 1]
    by (simp_all add: findfile_def slots3 bmfs0_def z qsort_def append_entry_def)
  note s1 = append_entry_slots(2-6) [where filename = "[97]" and m = 0 and start = 1 and reserved = 1 and d = "\<lambda>_. 0", simplified]
  have f: "StartingBlock (entry_at (Directory ?B1) 0) = 1" "ReservedBlocks (entry_at (Directory ?B1) 0) = 1"
      "\<not> unused (entry_at (Directory ?B1) 0)" "mark (Directory ?B1) 0 = 97" "mark (Directory ?B1) 1 = 0"
      "stored_name (Directory ?B1) 0 = [97]"
    using s1 by (simp_all add: d1 unused_mark)
  have d2: "Directory two_files = append_entry 1 [98] 2 4 (Directory ?B1)" "disksize two_files = 16"
    using bm_create_makes [of "[98]" ?B1 1 1 8 2] f d1(2)
    by (simp_all add: two_files_def findfile_def slots3 qsort_def append_entry_def)
  note s2 = append_entry_slots [where filename = "[98]" and m = 1 and start = 2 and reserved = 4 and d = "Directory ?B1", simplified]
  show "disksize two_files = 16" by (rule d2(2))
  show "mark (Directory two_files) 0 = 97" "stored_name (Directory two_files) 0 = [97]"
    "StartingBlock (entry_at (Directory two_files) 0) = 1" "ReservedBlocks (entry_at (Directory two_files) 0) = 1"
    using same_slot_reads [OF s2(1)] f by (simp_all add: d2)
  show "mark (Directory two_files) 1 = 98" "stored_name (Directory two_files) 1 = [98]" "mark (Directory two_files) 2 = 0"
    "StartingBlock (entry_at (Directory two_files) 1) = 2" "ReservedBlocks (entry_at (Directory two_files) 1) = 4"
    using s2 by (simp_all add: d2 numeral_2_eq_2)
qed

text \<open> (C40)
  After a deletion a new file can be given blocks of another one.  On a disk of 16 MiB with a file of
  one block and one of four, the first is deleted and a file of two blocks is created: the search
  takes the end of the deleted entry for the end of the last file, and the new file starts where the
  second one does.
\<close>

theorem create_overlaps_after_delete:
  "let d = Directory (bm_create [99] 4 (bm_delete [97] two_files)) in
     map (mark d) [0, 1] = [99, 98] \<and>
     map (\<lambda>i. (first_block (entry_at d i), end_block (entry_at d i))) [0, 1] = [(2, 4), (2, 6)]"
proof -
  note T = two_files_facts
  have del: "Directory (bm_delete [97] two_files) = (Directory two_files)(slot_at 0 := 1)"
      "disksize (bm_delete [97] two_files) = 16"
    using T by (simp_all add: bm_delete_def findfile_def slots3)
  let ?d = "(Directory two_files)(slot_at 0 := 1)"
  have d: "mark ?d 0 = 1" "mark ?d 1 = 98" "mark ?d 2 = 0" "stored_name ?d 1 = [98]"
      "StartingBlock (entry_at ?d 0) = 1" "ReservedBlocks (entry_at ?d 0) = 1"
      "StartingBlock (entry_at ?d 1) = 2" "ReservedBlocks (entry_at ?d 1) = 4"
    using mark_deleted(1,3,4) [where i = 0 and d = "Directory two_files" and c = 1] T
      same_slot_reads [OF mark_deleted(2) [of 0 1 "Directory two_files" 1]]
      same_slot_reads [OF mark_deleted(2) [of 0 2 "Directory two_files" 1]] by simp_all
  have u: "unused (entry_at ?d 0)" "\<not> unused (entry_at ?d 1)" using d by (simp_all add: unused_mark)
  have "qsort (map (entry_at ?d) [0..<2]) = [entry_at ?d 1, entry_at ?d 0]"
    using u by (simp add: qsort_def StartingBlockCmp_def upt_rec)
  moreover have "fit 8 2 [entry_at ?d 1, entry_at ?d 0] 1 = 2"
    using d u by (simp add: word_le_nat_alt)
  moreover have "findfile [99] (bm_delete [97] two_files) = None" "scan_slots ?d [0..<64] None = (2, Some 0)"
    using d by (simp_all add: del findfile_def slots3)
  ultimately have new: "Directory (bm_create [99] 4 (bm_delete [97] two_files)) = add_entry 0 [99] 2 2 ?d"
    using bm_create_makes(1) [of "[99]" "bm_delete [97] two_files" 2 0 4 2] by (simp add: del)
  have "mark (add_entry 0 [99] 2 2 ?d) 0 = 99" "StartingBlock (entry_at (add_entry 0 [99] 2 2 ?d) 0) = 2"
      "ReservedBlocks (entry_at (add_entry 0 [99] 2 2 ?d) 0) = 2"
    using add_entry_name [of "[99]" 0] add_entry_fields [of "[99]" 0] by simp_all
  moreover have "mark (add_entry 0 [99] 2 2 ?d) 1 = 98" "entry_at (add_entry 0 [99] 2 2 ?d) 1 = entry_at ?d 1"
    using same_slot_reads [OF add_entry_other [of "[99]" 0 1 2 2 ?d]] d by simp_all
  ultimately show ?thesis using d by (simp add: new first_block_def end_block_def)
qed

section \<open>Writing a file to the disk and reading it back\<close>

lemma sint_small: "unat (n::u64) < 2 ^ 63 \<Longrightarrow> \<not> sint n < 0"
proof -
  assume "unat n < 2 ^ 63"
  then have "uint n < 2 ^ 63" unfolding uint_nat by (simp del: of_nat_unat)
  then have "signed_take_bit 63 (uint n) = uint n" 
    by (intro signed_take_bit_int_eq_self) (use uint_ge_0 [of n] in linarith)+
  then show ?thesis by (simp add: sint_uint)
qed

lemma put_bytes_fits:
  assumes "s_pos f + length xs \<le> s_room f"
  shows "s_byte (snd (put_bytes xs f)) k = (if s_pos f \<le> k \<and> k < s_pos f + length xs then xs ! (k - s_pos f) else s_byte f k)"
    and "s_len (snd (put_bytes xs f)) = max (s_len f) (s_pos f + length xs)"
    and "s_pos (snd (put_bytes xs f)) = s_pos f + length xs" "s_room (snd (put_bytes xs f)) = s_room f"
  using assms by (auto simp: put_bytes_def s_byte_def)

lemma get1_inside: "s_pos f < s_len f \<Longrightarrow> get1 f = (s_byte f (s_pos f), f\<lparr>s_pos := Suc (s_pos f)\<rparr>)"
  by (simp add: get1_def get_bytes_def s_byte_def)

text \<open>The loop takes the bytes at the position of one stream to the position of the other.\<close>

lemma copy_chars_copies:
  assumes "s_pos src + n \<le> s_len src" "s_pos dst + n \<le> s_room dst"
  shows "\<exists>dst'. copy_chars n src dst = (src\<lparr>s_pos := s_pos src + n\<rparr>, dst') \<and> s_room dst' = s_room dst \<and>
    s_len dst' = (if n = 0 then s_len dst else max (s_len dst) (s_pos dst + n)) \<and>
    (\<forall>k. s_byte dst' k = (if s_pos dst \<le> k \<and> k < s_pos dst + n then s_byte src (s_pos src + (k - s_pos dst)) else s_byte dst k))"
  using assms
proof (induction n arbitrary: src dst)
  case 0
  then show ?case by auto
next
  case (Suc n)
  let ?c = "s_byte src (s_pos src)" and ?src = "src\<lparr>s_pos := Suc (s_pos src)\<rparr>"
  note put = put_bytes_fits [of dst "[?c]", folded put1_def]
  have g: "get1 src = (?c, ?src)" using Suc.prems by (intro get1_inside) simp
  obtain dst' where d: "copy_chars n ?src (put1 ?c dst) = (?src\<lparr>s_pos := s_pos ?src + n\<rparr>, dst')"
      "s_room dst' = s_room (put1 ?c dst)"
      "s_len dst' = (if n = 0 then s_len (put1 ?c dst) else max (s_len (put1 ?c dst)) (s_pos (put1 ?c dst) + n))"
      "\<forall>k. s_byte dst' k = (if s_pos (put1 ?c dst) \<le> k \<and> k < s_pos (put1 ?c dst) + n
         then s_byte ?src (s_pos ?src + (k - s_pos (put1 ?c dst))) else s_byte (put1 ?c dst) k)"
    using Suc.IH [of ?src "put1 ?c dst"] Suc.prems put by auto
  have b: "s_byte ?src j = s_byte src j" for j by (simp add: s_byte_def)
  have "s_byte dst' k = (if s_pos dst \<le> k \<and> k < s_pos dst + Suc n then s_byte src (s_pos src + (k - s_pos dst)) else s_byte dst k)" for k
  proof (cases "k = s_pos dst")
    case True
    then show ?thesis using d(4) put Suc.prems by simp
  next
    case False
    then show ?thesis using d(4) put Suc.prems by (auto simp: b Suc_diff_Suc)
  qed
  then show ?case using d(1-3) put Suc.prems by (auto simp: g)
qed

lemma takeWhile_take: "length (takeWhile P xs) < n \<Longrightarrow> takeWhile P (take n xs) = takeWhile P xs"
proof (induction xs arbitrary: n)
  case (Cons x xs)
  then show ?case by (cases n) auto
qed simp

lemma takeWhile_stops: "length (takeWhile P (take n xs)) < n \<Longrightarrow> n \<le> length xs \<Longrightarrow> takeWhile P xs = takeWhile P (take n xs)"
proof (induction xs arbitrary: n)
  case (Cons x xs)
  then show ?case by (cases n) auto
qed simp

text \<open>Storing the size of a file leaves every name and the other fields alone.\<close>

lemma store_size:
  fixes d v i
  defines "d' \<equiv> store64 (slot_at i + 48) v d"
  assumes "i < 64" "length (stored_name d i) < 32"
  shows "j < 64 \<Longrightarrow> mark d' j = mark d j" "j < 64 \<Longrightarrow> stored_name d' j = stored_name d j"
    and "StartingBlock (entry_at d' i) = StartingBlock (entry_at d i)"
    and "ReservedBlocks (entry_at d' i) = ReservedBlocks (entry_at d i)" "FileSize (entry_at d' i) = v"
proof -
  have far: "d' (of_nat (64 * j + k)) = d (of_nat (64 * j + k))" if "j < 64" "k < 64" "j \<noteq> i \<or> k < 48" for j k
  proof -
    have "64 * j + k < 64 * i + 48 \<or> 64 * i + 48 + 8 \<le> 64 * j + k" using that by (cases j i rule: linorder_cases) auto
    then show ?thesis using that assms(2) unfolding d'_def slot_fields by (intro store64_at) auto
  qed
  have other: "same_slot d' d j" if "j < 64" "j \<noteq> i" for j
    using far that by (simp add: same_slot_def del: of_nat_add of_nat_mult)
  have "bytes_at d' (slot_at i) 32 = bytes_at d (slot_at i) 32"
    using far [of i] assms(2) by (intro bytes_at_eqI) (simp add: slot_plus del: of_nat_add)
  moreover have "take 32 (bytes_at m (slot_at i) 64) = bytes_at m (slot_at i) 32" for m
    by (simp add: bytes_at_def take_map)
  ultimately have "take 32 (bytes_at d' (slot_at i) 64) = take 32 (bytes_at d (slot_at i) 64)" by simp
  then have same: "stored_name d' i = stored_name d i"
    using takeWhile_stops [of "\<lambda>c. c \<noteq> 0" 32 "bytes_at d' (slot_at i) 64"] takeWhile_take [of "\<lambda>c. c \<noteq> 0" "bytes_at d (slot_at i) 64" 32]
      assms(3) unfolding stored_name_def by simp
  show "mark d' j = mark d j" if "j < 64"
    using far [of j 0] that unfolding mark_def slot_at_zero by simp
  show "stored_name d' j = stored_name d j" if "j < 64"
    using same same_slot_reads(3) [OF other] that by (cases "j = i") auto
  have "load64 d' (of_nat (64 * i + k)) = load64 d (of_nat (64 * i + k))" if "k \<le> 40" for k
    using far [of i] assms(2) that
    by (intro load64_cong) (simp add: slot_field_byte del: of_nat_add of_nat_mult)
  then show "StartingBlock (entry_at d' i) = StartingBlock (entry_at d i)"
    "ReservedBlocks (entry_at d' i) = ReservedBlocks (entry_at d i)"
    unfolding entry_at_def slot_fields by (simp_all del: of_nat_add of_nat_mult)
  show "FileSize (entry_at d' i) = v" by (simp add: entry_at_def d'_def)
qed

lemma stream_of_simps [simp]:
  "s_pos (stream_of r xs) = 0" "s_len (stream_of r xs) = length xs" "s_room (stream_of r xs) = r"
  "s_byte (stream_of r xs) k = (if k < length xs then xs ! k else 0)"
  by (simp_all add: stream_of_def s_byte_def)

lemma s_byte_moved [simp]: "s_byte (f\<lparr>s_pos := p\<rparr>) k = s_byte f k"
  by (simp add: s_byte_def)

lemma find_from_upto: "find_from d n [0..<64] = Some i \<Longrightarrow> i < 64 \<and> stored_name d i = n"
  using find_from_Some [of d n "[0..<64]"] by simp

text \<open>What a write that has room does: the file in its blocks, and the directory with its size.\<close>

lemma bm_write_runs:
  assumes found: "findfile filename B = Some i" "length filename < 32" and xs: "file_of E B filename = Some xs"
    and e: "e = entry_at (Directory B) i" "1 \<le> first_block e" "end_block e * 2097152 \<le> s_room (b_disk B)"
    and room: "s_room (b_disk B) < 2 ^ 63" and fit: "length xs \<le> unat (ReservedBlocks e) * 2097152" "length xs < 2 ^ 31"
  shows "\<exists>B1. bm_write E filename B = Some B1 \<and> made B1 = made B \<and>
    Directory B1 = store64 (slot_at i + 48) (of_nat (length xs)) (Directory B) \<and>
    (xs \<noteq> [] \<longrightarrow> first_block e * 2097152 + length xs \<le> s_len (b_disk B1)) \<and>
    (\<forall>k\<ge>8192. s_byte (b_disk B1) k = (if first_block e * 2097152 \<le> k \<and> k < first_block e * 2097152 + length xs
       then xs ! (k - first_block e * 2097152) else s_byte (b_disk B) k))"
proof -
  let ?off = "first_block e * 2097152" and ?n = "length xs"
  have ends: "?off + unat (ReservedBlocks e) * 2097152 \<le> s_room (b_disk B)"
    using e(3) by (simp add: end_block_def first_block_def algebra_simps)
  have off: "unat (block_offset e) = ?off"
    using ends room by (simp add: block_offset_def first_block_def unat_word_ariths)
  have res: "unat (ReservedBlocks e * 2097152) = unat (ReservedBlocks e) * 2097152"
    using ends room by (simp add: unat_word_ariths)
  have n: "unat (of_nat ?n :: u64) = ?n" using fit(2) by (intro unat_of_nat64) simp
  have seek: "seek (block_offset e) f = f\<lparr>s_pos := ?off\<rparr>" for f
    using ends room off by (simp add: seek_def sint_small)
  obtain dst where c: "copy_chars ?n (stream_of 0 xs) ((b_disk B)\<lparr>s_pos := ?off\<rparr>) = ((stream_of 0 xs)\<lparr>s_pos := ?n\<rparr>, dst)"
      "s_room dst = s_room (b_disk B)" "s_len dst = (if ?n = 0 then s_len (b_disk B) else max (s_len (b_disk B)) (?off + ?n))"
      "\<forall>k. s_byte dst k = (if ?off \<le> k \<and> k < ?off + ?n then s_byte (stream_of 0 xs) (k - ?off) else s_byte (b_disk B) k)"
    using copy_chars_copies [of "stream_of 0 xs" ?n "(b_disk B)\<lparr>s_pos := ?off\<rparr>"] ends fit(1) by auto
  let ?d = "store64 (slot_at i + 48) (of_nat ?n) (Directory B)"
  let ?dst2 = "snd (put_bytes (bytes_at ?d 0 4096) (seek 4096 dst))"
  have at: "seek 4096 dst = dst\<lparr>s_pos := 4096\<rparr>" by (simp add: seek_def)
  have "8192 \<le> s_room dst" using e(2) ends c(2) by linarith
  then have put: "s_byte ?dst2 k = s_byte dst k" "s_len dst \<le> s_len ?dst2" if "8192 \<le> k" for k
    using put_bytes_fits(1,2) [of "dst\<lparr>s_pos := 4096\<rparr>" "bytes_at ?d 0 4096"] that unfolding at by (simp_all add: s_byte_def)
  have "\<not> ReservedBlocks e * 2097152 < of_nat ?n" using fit(1) res n by (simp add: word_less_nat_alt)
  then have "\<exists>B1. bm_write E filename B = Some B1 \<and> made B1 = made B \<and> Directory B1 = ?d \<and> b_disk B1 = ?dst2"
    using found(1) xs fit(2) n c(1)
    by (simp add: bm_write_def e(1) [symmetric] Let_def tell_def seek flush_directory_def)
  moreover have "s_byte ?dst2 k = (if ?off \<le> k \<and> k < ?off + ?n then xs ! (k - ?off) else s_byte (b_disk B) k)" if "8192 \<le> k" for k
    using put(1) [OF that] c(4) by auto
  moreover have "xs \<noteq> [] \<Longrightarrow> ?off + ?n \<le> s_len ?dst2" using put(2) [of 8192] c(3) by auto
  ultimately show ?thesis by metis
qed

lemma content_eqI:
  assumes "s_len f = length xs" "\<And>k. k < length xs \<Longrightarrow> s_byte f k = xs ! k"
  shows "content f = xs"
  using assms by (intro nth_equalityI) (simp_all add: content_def)

lemma bm_read_runs:
  assumes found: "findfile filename B = Some i" and e: "e = entry_at (Directory B) i" "FileSize e = of_nat (length xs)"
    and on_disk: "xs \<noteq> [] \<longrightarrow> first_block e * 2097152 + length xs \<le> s_len (b_disk B)" "first_block e * 2097152 < 2 ^ 63"
      "\<forall>k<length xs. s_byte (b_disk B) (first_block e * 2097152 + k) = xs ! k"
    and host: "e_writable E filename" "length xs \<le> e_room E" "length xs < 2 ^ 31"
  shows "\<exists>B1. bm_read E filename B = Some B1 \<and> made B1 filename = Some xs"
proof -
  let ?off = "first_block e * 2097152" and ?n = "length xs"
  have name: "stored_name (Directory B) i = filename" using found find_from_upto by (simp add: findfile_def)
  have n: "unat (of_nat ?n :: u64) = ?n" using host(3) by (intro unat_of_nat64) simp
  have "unat (block_offset e) = ?off"
    using on_disk(2) by (simp add: block_offset_def first_block_def unat_word_ariths)
  then have seek: "seek (block_offset e) f = f\<lparr>s_pos := ?off\<rparr>" for f
    using on_disk(2) by (simp add: seek_def sint_small)
  have "\<exists>src dst. copy_chars ?n ((b_disk B)\<lparr>s_pos := ?off\<rparr>) (stream_of (e_room E) []) = (src, dst) \<and> content dst = xs"
  proof (cases "xs = []")
    case True
    then show ?thesis by (simp add: content_def)
  next
    case False
    then obtain dst where "copy_chars ?n ((b_disk B)\<lparr>s_pos := ?off\<rparr>) (stream_of (e_room E) []) =
        ((b_disk B)\<lparr>s_pos := ?off + ?n\<rparr>, dst)" "s_len dst = ?n"
        "\<forall>k. s_byte dst k = (if k < ?n then s_byte (b_disk B) (?off + k) else 0)"
      using copy_chars_copies [of "(b_disk B)\<lparr>s_pos := ?off\<rparr>" ?n "stream_of (e_room E) []"] on_disk(1) host(2) by auto
    then show ?thesis using content_eqI [of dst xs] on_disk(3) by auto
  qed
  then show ?thesis
    using found e(2) n name host(1,3) by (auto simp: bm_read_def e(1) [symmetric] Let_def seek)
qed

text \<open> (C20)
  A file of the host that is written to the disk is read back byte for byte, when its entry has room
  for it, lies behind the directory and inside the disk, and the host lets the result be written; and
  no byte behind the directory changes but those of the file.
\<close>

theorem written_file_reads_back:
  assumes "findfile filename B = Some i" "length filename < 32" "file_of E B filename = Some xs"
    and "e = entry_at (Directory B) i" "1 \<le> first_block e" "end_block e * 2097152 \<le> s_room (b_disk B)"
    and "s_room (b_disk B) < 2 ^ 63" "length xs \<le> unat (ReservedBlocks e) * 2097152" "length xs < 2 ^ 31"
    and "e_writable E filename" "length xs \<le> e_room E"
  shows "\<exists>B1 B2. bm_write E filename B = Some B1 \<and> bm_read E filename B1 = Some B2 \<and> made B2 filename = Some xs \<and>
    (\<forall>k\<ge>8192. k < first_block e * 2097152 \<or> first_block e * 2097152 + length xs \<le> k \<longrightarrow>
       s_byte (b_disk B1) k = s_byte (b_disk B) k)"
proof -
  let ?off = "first_block e * 2097152"
  have i: "i < 64" "stored_name (Directory B) i = filename"
    using find_from_upto assms(1) by (auto simp: findfile_def)
  obtain B1 where B1: "bm_write E filename B = Some B1"
      "Directory B1 = store64 (slot_at i + 48) (of_nat (length xs)) (Directory B)"
      "xs \<noteq> [] \<longrightarrow> ?off + length xs \<le> s_len (b_disk B1)"
      "\<forall>k\<ge>8192. s_byte (b_disk B1) k = (if ?off \<le> k \<and> k < ?off + length xs then xs ! (k - ?off) else s_byte (b_disk B) k)"
    using bm_write_runs [OF assms(1-9)] by blast
  note size = store_size [where d = "Directory B" and v = "of_nat (length xs)", OF i(1)]
  have "find_from (Directory B1) filename [0..<64] = find_from (Directory B) filename [0..<64]"
    using size(1,2) i(2) assms(2) by (intro find_from_cong) (simp add: B1(2))
  then have f: "findfile filename B1 = Some i" using assms(1) by (simp add: findfile_def)
  have e: "first_block (entry_at (Directory B1) i) = first_block e" "FileSize (entry_at (Directory B1) i) = of_nat (length xs)"
    using size(3,5) i(2) assms(2) by (simp_all add: B1(2) assms(4) first_block_def)
  have off: "8192 \<le> ?off" "?off < 2 ^ 63" using assms(5-7) by (simp_all add: end_block_def first_block_def)
  then have "\<forall>k<length xs. s_byte (b_disk B1) (?off + k) = xs ! k" using B1(4) by simp
  then obtain B2 where "bm_read E filename B1 = Some B2" "made B2 filename = Some xs"
    using bm_read_runs [OF f refl, of xs E] e off B1(3) assms(9-11) by auto
  then show ?thesis using B1(1,4) by auto
qed

definition demo_host :: host_env where
  "demo_host = \<lparr>e_file = [[97] \<mapsto> [1, 2, 3]], e_writable = (\<lambda>_. True), e_room = 100, e_malloc = True, e_line = [],
     e_percent = (\<lambda>_ _. [])\<rparr>"

theorem written_file_reads_back_witness:
  "\<exists>B1 B2. bm_write demo_host [97] (two_files\<lparr>b_disk := stream_of 16777216 [], made := (\<lambda>_. None)\<rparr>) = Some B1 \<and>
     bm_read demo_host [97] B1 = Some B2 \<and> made B2 [97] = Some [1, 2, 3]"
  using written_file_reads_back [where B = "two_files\<lparr>b_disk := stream_of 16777216 [], made := (\<lambda>_. None)\<rparr>"
      and filename = "[97]" and i = 0 and E = demo_host and xs = "[1, 2, 3]" and e = "entry_at (Directory two_files) 0"]
    two_files_facts
  by (auto simp: findfile_def slots3 file_of_def demo_host_def first_block_def end_block_def)

section \<open>From one run of the tool to the next\<close>

text \<open>The directory on the disk is the one in memory.\<close>

definition synced :: "bmfs \<Rightarrow> bool" where
  "synced B \<longleftrightarrow> 8192 \<le> s_room (b_disk B) \<and> 8192 \<le> s_len (b_disk B) \<and>
     (\<forall>k<4096. s_byte (b_disk B) (4096 + k) = Directory B (of_nat k))"

lemma synced_tell [simp]: "synced (tell t B) = synced B"
  by (simp add: synced_def)

lemma synced_flush: "8192 \<le> s_room (b_disk B) \<Longrightarrow> synced (flush_directory B)"
proof -
  assume room: "8192 \<le> s_room (b_disk B)"
  have at: "seek 4096 f = f\<lparr>s_pos := 4096\<rparr>" for f by (simp add: seek_def)
  show ?thesis
    using put_bytes_fits [of "(b_disk B)\<lparr>s_pos := 4096\<rparr>" "bytes_at (Directory B) 0 4096"] room
    by (simp add: synced_def flush_directory_def at)
qed

lemma synced_room: "synced B \<Longrightarrow> 8192 \<le> s_room (b_disk B)"
  by (simp add: synced_def)

lemma synced_create: "synced B \<Longrightarrow> synced (bm_create n m B)"
  by (auto simp: bm_create_def Let_def synced_room intro!: synced_flush split: prod.splits option.splits)

lemma synced_delete: "synced B \<Longrightarrow> synced (bm_delete n B)"
  by (auto simp: bm_delete_def Let_def synced_room intro!: synced_flush split: option.splits)

lemma put1_room [simp]: "s_room (put1 c f) = s_room f"
  by (simp add: put1_def put_bytes_def)

lemma get1_keeps: "get1 f = (c, f') \<Longrightarrow> s_room f' = s_room f \<and> s_len f' = s_len f \<and> s_byte f' k = s_byte f k"
  by (auto simp: get1_def get_bytes_def Let_def)

lemma copy_chars_room: "copy_chars n src dst = (src', dst') \<Longrightarrow>
    s_room dst' = s_room dst \<and> s_room src' = s_room src \<and> s_len src' = s_len src \<and> (\<forall>k. s_byte src' k = s_byte src k)"
  by (induction n arbitrary: src dst) (auto simp: get1_keeps split: prod.splits)

lemma seek_keeps [simp]: "s_room (seek n f) = s_room f" "s_len (seek n f) = s_len f" "s_byte (seek n f) k = s_byte f k"
  by (simp_all add: seek_def s_byte_def)

lemma synced_write: "bm_write E n B = Some B1 \<Longrightarrow> synced B \<Longrightarrow> synced B1"
  by (auto simp: bm_write_def Let_def synced_room dest!: copy_chars_room intro!: synced_flush
      split: option.splits if_splits prod.splits)

lemma synced_read: "bm_read E n B = Some B1 \<Longrightarrow> synced B \<Longrightarrow> synced B1"
  by (auto simp: bm_read_def Let_def tell_def synced_def dest!: copy_chars_room split: option.splits if_splits prod.splits)

lemma synced_format: "synced B \<Longrightarrow> synced (bm_format B)"
  by (auto simp: bm_format_def Let_def synced_room put_bytes_def intro!: synced_flush)

lemma synced_list: "synced B \<Longrightarrow> synced (list_from is B)"
  by (induction "is" arbitrary: B) (auto simp: Let_def)

lemma synced_command: "run_command E argv B = Some B1 \<Longrightarrow> synced B \<Longrightarrow> synced B1"
  by (auto simp: run_command_def create_command_def named_def invalid_file_size_def bm_list_def Let_def
      intro: synced_create synced_delete synced_format synced_list
      dest: synced_read synced_write split: if_splits option.splits bind_splits)

lemma load_disk_fields:
  assumes "8192 \<le> s_len f"
  shows "k < 4096 \<Longrightarrow> Directory (load_disk f bmfs0) (of_nat k) = s_byte f (4096 + k)"
    and "b_disk (load_disk f bmfs0) = f\<lparr>s_pos := 0\<rparr>"
proof -
  show "Directory (load_disk f bmfs0) (of_nat k) = s_byte f (4096 + k)" if "k < 4096"
    using that assms store_list_at [of 0 "map (\<lambda>i. s_data f (4096 + i)) [0..<4096]" k "\<lambda>_. 0"]
    by (simp add: load_disk_def get_bytes_def seek_def bmfs0_def s_byte_def Let_def del: upt_rec)
  show "b_disk (load_disk f bmfs0) = f\<lparr>s_pos := 0\<rparr>"
    by (simp add: load_disk_def get_bytes_def seek_def Let_def)
qed

lemma same_directory:
  assumes "\<forall>k<4096. d (of_nat k) = d' (of_nat k)"
  shows "files d = files d'" "find_from d n [0..<64] = find_from d' n [0..<64]"
proof -
  have s: "same_slot d d' i" if "i < 64" for i
    using assms that by (simp add: same_slot_def del: of_nat_add of_nat_mult)
  note r = same_slot_reads [OF s]
  show "find_from d n [0..<64] = find_from d' n [0..<64]" using r by (intro find_from_cong) simp
  have "takeWhile (\<lambda>i. mark d i \<noteq> 0) [0..<64] = takeWhile (\<lambda>i. mark d' i \<noteq> 0) [0..<64]"
    using r by (intro takeWhile_cong) simp_all
  then show "files d = files d'" unfolding files_def using r by (auto dest: set_takeWhileD)
qed

text \<open> (C21)
  What one run of the tool leaves, the next one finds: after any command that ends on a disk that
  holds a directory, a run that opens the disk as it is now reads the directory of the first, the same
  files in the same order, and finds every name in the same place.
\<close>

theorem directory_persists:
  assumes "run_command E argv (load_disk f bmfs0) = Some B" "8192 \<le> s_len f" "s_len f \<le> s_room f"
  shows "files (Directory (load_disk (b_disk B) bmfs0)) = files (Directory B) \<and>
    findfile n (load_disk (b_disk B) bmfs0) = findfile n B"
proof -
  have "synced (load_disk f bmfs0)" using assms(2,3) load_disk_fields [OF assms(2)] by (simp add: synced_def)
  then have "synced B" using synced_command [OF assms(1)] by blast
  then have "\<forall>k<4096. Directory (load_disk (b_disk B) bmfs0) (of_nat k) = Directory B (of_nat k)"
    using load_disk_fields(1) [of "b_disk B"] by (simp add: synced_def)
  then show ?thesis using same_directory by (simp add: findfile_def)
qed

theorem directory_persists_witness:
  "\<exists>B. run_command demo_host [[], [], chars ''create'', [97], [50]] (load_disk (stream_of 8388608 (replicate 8192 0)) bmfs0) = Some B \<and>
     findfile [97] (load_disk (b_disk B) bmfs0) = findfile [97] B"
proof -
  let ?D = "load_disk (stream_of 8388608 (replicate 8192 0)) bmfs0"
  obtain B where "run_command demo_host [[], [], chars ''create'', [97], [50]] ?D = Some B"
    by (simp add: run_command_def create_command_def strcasecmp_def chars_def lower_def atoi_def is_space_def is_digit_def fits_int_def)
  then show ?thesis
    using directory_persists [of demo_host "[[], [], chars ''create'', [97], [50]]" "stream_of 8388608 (replicate 8192 0)" B "[97]"] by simp
qed

end
