(* ===== verification/Exits.thy ===== *)
theory Exits
  imports Ticks SyscallProps Exceptions
begin

text \<open>
  The end of a process.  \<^verbatim>\<open>deleteProcess\<close> gives back what the process had and tells its parent; for the
  scheduler it changes nothing but states, and those only to READY.  A tick that finds the running
  process EXITED takes it out of the system, and only it.
\<close>

section \<open>Changes that leave the queues alone\<close>

definition settles :: "kernel \<Rightarrow> kernel \<Rightarrow> bool" where
  "settles s s' \<longleftrightarrow> nxt s' = nxt s \<and> qhead s' = qhead s \<and> k_current s' = k_current s \<and> k_idle s' = k_idle s \<and>
     TSCFrequency s' = TSCFrequency s \<and>
     (\<forall>a. p_id (nodes s' a) = p_id (nodes s a) \<and> p_stack (nodes s' a) = p_stack (nodes s a) \<and>
       (p_state (nodes s' a) = p_state (nodes s a) \<or> p_state (nodes s' a) = READY))"

lemma settles_refl [simp]: "settles s s"
  by (simp add: settles_def)

lemma settles_trans [trans]: "settles s s1 \<Longrightarrow> settles s1 s2 \<Longrightarrow> settles s s2"
  by (simp add: settles_def) metis

lemma settlesD:
  assumes "settles s s'"
  shows "k_current s' = k_current s" "k_idle s' = k_idle s" "TSCFrequency s' = TSCFrequency s"
    and "p_id (nodes s' a) = p_id (nodes s a)" "p_stack (nodes s' a) = p_stack (nodes s a)"
    and "p_state (nodes s' a) = p_state (nodes s a) \<or> p_state (nodes s' a) = READY"
    and "queues s' Q = queues s Q"
  using assms queues_cong [of Q s' s] by (auto simp: settles_def)

lemma settles_fields [simp]:
  "settles s (s1\<lparr>mm := g\<rparr>) = settles s s1" "settles s (s1\<lparr>k_foreground := f\<rparr>) = settles s s1"
  "settles s (s1\<lparr>tscReads := k\<rparr>) = settles s s1" "settles s (upd_buf b u s1) = settles s s1"
  by (simp_all add: settles_def nxt_def [abs_def] upd_buf_def)

lemma settles_upd_node:
  assumes "\<And>n. p_next (f n) = p_next n \<and> p_id (f n) = p_id n \<and> p_stack (f n) = p_stack n \<and>
    (p_state (f n) = p_state n \<or> p_state (f n) = READY)"
  shows "settles s (upd_node a f s)"
  using assms by (auto simp: settles_def upd_node_def nxt_def fun_eq_iff)

lemma settles_wake_all: "settles s (wake_all D s)"
  by (simp add: settles_def) (simp add: wake_all_def)

section \<open>The steps of a deletion\<close>

lemma freeAllocations_ok:
  "llist (\<lambda>a. pa_next (allocs s a)) p as \<Longrightarrow> \<exists>g. freeAllocations_loop p s = Some (s\<lparr>mm := g\<rparr>)"
proof (induction as arbitrary: p s)
  case Nil
  then show ?case by (subst freeAllocations_loop.simps) (auto intro: exI [of _ "mm s"])
next
  case (Cons a as)
  then have p: "p = a" "a \<noteq> NULL" "llist (\<lambda>a. pa_next (allocs s a)) (pa_next (allocs s a)) as" by auto
  have "k_freeMemory a s = s\<lparr>mm := freeMemory a (mm s)\<rparr>" by (simp add: k_freeMemory_def)
  then obtain g where "freeAllocations_loop (pa_next (allocs s a)) (k_freeMemory a s) = Some (s\<lparr>mm := g\<rparr>)"
    using Cons.IH [of "k_freeMemory a s"] p(3) by auto
  then show ?case using p(1,2) by (intro exI [of _ g]) (subst freeAllocations_loop.simps, simp)
qed

text \<open>
  Closing the last descriptor of the write end of a pipe puts a zero byte into the other end.  Every
  pipe has room for \<open>k\<close> bytes, and its other end is a pipe too or null.
\<close>

definition pipes_have_room :: "nat \<Rightarrow> kernel \<Rightarrow> bool" where
  "pipes_have_room k s \<longleftrightarrow> (\<forall>b. buffId (bufs s b) = PIPE \<longrightarrow> unwrapped (bufs s b) \<and> k \<le> headroom (bufs s b) \<and>
     (oppositeEnd (bufs s b) = NULL \<or> buffId (bufs s (oppositeEnd (bufs s b))) = PIPE))"

lemma pipes_have_room_mono: "pipes_have_room k s \<Longrightarrow> j \<le> k \<Longrightarrow> pipes_have_room j s"
  by (auto simp: pipes_have_room_def)

lemma pipes_have_room_cong: "bufs s' = bufs s \<Longrightarrow> pipes_have_room k s' = pipes_have_room k s"
  by (simp add: pipes_have_room_def)

lemma pipes_have_room_upd:
  assumes "pipes_have_room k s" "buffId (u (bufs s b)) = buffId (bufs s b)" "oppositeEnd (u (bufs s b)) = oppositeEnd (bufs s b)"
    and "unwrapped (bufs s b) \<Longrightarrow> j \<le> headroom (bufs s b) \<Longrightarrow> unwrapped (u (bufs s b)) \<and> j \<le> headroom (u (bufs s b))"
    and "j \<le> k"
  shows "pipes_have_room j (upd_buf b u s)"
proof -
  have "unwrapped (bufs s x) \<and> j \<le> headroom (bufs s x) \<and>
      (oppositeEnd (bufs s x) = NULL \<or> buffId (bufs s (oppositeEnd (bufs s x))) = PIPE)" if "buffId (bufs s x) = PIPE" for x
    using pipes_have_room_mono [OF assms(1,5)] that by (auto simp: pipes_have_room_def)
  then show ?thesis using assms(2,3,4) by (auto simp: pipes_have_room_def upd_buf_def)
qed

text \<open>What closing does: states change to READY only, and the pipes still have room.\<close>

definition closes :: "nat \<Rightarrow> kernel \<Rightarrow> kernel \<Rightarrow> bool" where
  "closes k s s' \<longleftrightarrow> settles s s' \<and> pipes_have_room k s'"

lemma wake_refs_ok:
  "queues s Q \<Longrightarrow> \<exists>s'. ready_refs fg rs s = Some s' \<and> settles s s' \<and> bufs s' = bufs s"
proof (induction rs arbitrary: s)
  case Nil
  then show ?case by simp
next
  case (Cons r rs)
  show ?case
  proof (cases "r \<noteq> NULL \<and> (\<not> fg \<or> isInForeground r s)")
    case True
    obtain ok s1 where s1: "setProcessState r READY s = Some (ok, s1)" "settles s s1" "bufs s1 = bufs s"
      using setProcessState_ok [OF Cons.prems, of r READY]
        settles_upd_node [of "\<lambda>n. n\<lparr>p_state := READY, p_manualBlocked := False\<rparr>" s r]
      by (auto simp: upd_node_def split: if_splits)
    obtain s' where "ready_refs fg rs s1 = Some s'" "settles s1 s'" "bufs s' = bufs s1"
      using Cons.IH [of s1] settlesD(7) [OF s1(2)] Cons.prems by blast
    then show ?thesis using True s1 settles_trans by auto
  next
    case False
    then show ?thesis using Cons by auto
  qed
qed

lemma removeFromPDs_ok: "settles s (removeFromPDs p b s) \<and> bufs (removeFromPDs p b s) = bufs s"
  by (simp add: removeFromPDs_def Let_def settles_upd_node) (simp add: upd_node_def)

lemma destroyBuffer_ok: "settles s (destroyBuffer b s) \<and> bufs (destroyBuffer b s) = bufs s"
proof -
  have "settles s (fold (\<lambda>r. removeFromPDs r b) rs s) \<and> bufs (fold (\<lambda>r. removeFromPDs r b) rs s) = bufs s" for rs
  proof (induction rs arbitrary: s)
    case (Cons r rs)
    then show ?case using removeFromPDs_ok [of s r b] settles_trans [of s "removeFromPDs r b s"] by simp
  qed simp
  then show ?thesis by (simp add: destroyBuffer_def Let_def)
qed

lemma closePipe_ok:
  assumes q: "queues s Q" and room: "pipes_have_room (Suc k) s" and b: "buffId (bufs s b) = PIPE"
  shows "\<exists>s'. closePipe b s = Some s' \<and> closes k s s' \<and> ib_references (bufs s' b) = replicate PD_SIZE NULL"
proof -
  let ?s1 = "upd_buf b (\<lambda>b. b\<lparr>ib_references := replicate PD_SIZE NULL\<rparr>) s"
  let ?o = "oppositeEnd (bufs s b)"
  have t1: "settles s ?s1" by simp
  have s1: "pipes_have_room (Suc k) ?s1" "oppositeEnd (bufs ?s1 b) = ?o" "bufState (bufs ?s1 b) = bufState (bufs s b)"
    "ib_references (bufs ?s1 b) = replicate PD_SIZE NULL"
    using pipes_have_room_upd [OF room, of "\<lambda>b. b\<lparr>ib_references := replicate PD_SIZE NULL\<rparr>" b "Suc k"]
    by (auto simp: unwrapped_def buf_ok_def headroom_def upd_buf_def)
  let ?w = "bufState (bufs s b) = WRITE \<or> bufState (bufs s b) = READ_WRITE"
  have "\<exists>s2. (if ?w then do { (_, r) \<leftarrow> copyToBuffer (\<lambda>_. 0) (buf_arg ?s1 ?o) auxBuff 1; Some (buf_result ?o r ?s1) }
      else Some ?s1) = Some s2 \<and> settles ?s1 s2 \<and> pipes_have_room k s2 \<and> ib_references (bufs s2 b) = replicate PD_SIZE NULL"
  proof (cases "?w \<and> ?o \<noteq> NULL")
    case True
    then have o: "buffId (bufs ?s1 ?o) = PIPE" using room b by (auto simp: pipes_have_room_def upd_buf_def)
    then have h: "unwrapped (bufs ?s1 ?o)" "Suc k \<le> headroom (bufs ?s1 ?o)" using s1(1) by (auto simp: pipes_have_room_def)
    obtain b' where b': "copyToBuffer (\<lambda>_. 0) (Some (bufs ?s1 ?o)) auxBuff 1 = Some (1, Some b')" "unwrapped b'"
      "headroom b' = headroom (bufs ?s1 ?o) - 1" "same_ends (bufs ?s1 ?o) b'"
      using copyToBuffer_ok [OF h(1), of 1 auxBuff "\<lambda>_. 0"] h(2) by (auto simp: auxBuff_def)
    have "pipes_have_room k (upd_buf ?o (\<lambda>_. b') ?s1)"
      using b'(2-4) h(2) by (intro pipes_have_room_upd [OF s1(1)]) (auto simp: same_ends_def)
    moreover have "ib_references (bufs (upd_buf ?o (\<lambda>_. b') ?s1) b) = ib_references (bufs ?s1 b)"
      using b'(4) by (auto simp: same_ends_def upd_buf_def)
    ultimately show ?thesis using True b'(1) s1(4) by (simp add: buf_arg_def buf_result_def)
  next
    case False
    then show ?thesis using pipes_have_room_mono [OF s1(1), of k] s1(4) by (auto simp: buf_arg_def copyToBuffer_def buf_result_def)
  qed
  then obtain s2 where s2: "(if ?w then do { (_, r) \<leftarrow> copyToBuffer (\<lambda>_. 0) (buf_arg ?s1 ?o) auxBuff 1; Some (buf_result ?o r ?s1) }
      else Some ?s1) = Some s2" "settles ?s1 s2" "pipes_have_room k s2" "ib_references (bufs s2 b) = replicate PD_SIZE NULL" by blast
  let ?s3 = "upd_buf b (\<lambda>b. setBufferState b CLOSED) s2"
  have s3: "settles s ?s3" "pipes_have_room k ?s3" "ib_references (bufs ?s3 b) = replicate PD_SIZE NULL"
    using settles_trans [OF t1 s2(2)] s2(4)
      pipes_have_room_upd [OF s2(3), of "\<lambda>b. setBufferState b CLOSED" b k]
    by (simp_all add: setBufferState_def unwrapped_def buf_ok_def headroom_def)
  have "queues ?s3 Q" using settlesD(7) [OF s3(1)] q by simp
  then obtain s4 where s4: "setBufferReferencesReady ?o ?s3 = Some s4" "settles ?s3 s4" "bufs s4 = bufs ?s3"
    using wake_refs_ok unfolding setBufferReferencesReady_def by blast
  let ?s' = "if bufState (bufs s4 ?o) = CLOSED then destroyBuffer ?o (destroyBuffer b s4) else s4"
  have s': "settles s4 ?s'" "bufs ?s' = bufs s4"
    using destroyBuffer_ok [of s4 b] destroyBuffer_ok [of "destroyBuffer b s4" ?o] settles_trans by auto
  have "closePipe b s = Some ?s'"
    unfolding closePipe_def Let_def s1(2,3) s2(1) bind.bind_lunit s4(1) by simp
  moreover have "settles s ?s'" using settles_trans [OF s3(1) settles_trans [OF s4(2) s'(1)]] .
  moreover have "pipes_have_room k ?s'" using pipes_have_room_cong s3(2) s'(2) s4(3) by metis
  moreover have "ib_references (bufs ?s' b) = replicate PD_SIZE NULL" using s3(3) s'(2) s4(3) by simp
  ultimately show ?thesis unfolding closes_def by blast
qed

lemma remove_refs_none:
  "\<forall>i\<in>set is. getReferenceByIndex (bufs s b) (of_nat i) = NULL \<Longrightarrow> remove_refs b pid is s = Some s"
  by (induction "is") (simp_all add: Let_def)

lemma closes_trans: "settles s s1 \<Longrightarrow> closes k s1 s2 \<Longrightarrow> closes k s s2"
  using settles_trans by (auto simp: closes_def)

text \<open>Taking the references of one process off one buffer closes a pipe at most once.\<close>

lemma remove_refs_ok:
  assumes "queues s Q" "pipes_have_room (Suc k) s" "\<forall>i\<in>set is. i < PD_SIZE"
  shows "\<exists>s'. remove_refs b pid is s = Some s' \<and> closes k s s'"
  using assms
proof (induction "is" arbitrary: s)
  case Nil
  then show ?case using pipes_have_room_mono [of "Suc k" s k] by (simp add: closes_def)
next
  case (Cons i "is")
  show ?case
  proof (cases "getReferenceByIndex (bufs s b) (of_nat i) \<noteq> NULL \<and>
      p_id (nodes s (getReferenceByIndex (bufs s b) (of_nat i))) = pid")
    case False
    then have "remove_refs b pid (i # is) s = remove_refs b pid is s" by (auto simp: Let_def)
    then show ?thesis using Cons by simp
  next
    case True
    obtain l b1 where sr: "setReferenceByIndex (bufs s b) NULL (of_nat i) = (l, b1)" by fastforce
    let ?s1 = "upd_buf b (\<lambda>_. b1) s"
    have f: "buffId b1 = buffId (bufs s b)" "oppositeEnd b1 = oppositeEnd (bufs s b)" "ib_buffer b1 = ib_buffer (bufs s b)"
      "bufferDim b1 = bufferDim (bufs s b)" "cursor b1 = cursor (bufs s b)"
      "length (ib_references b1) = length (ib_references (bufs s b))"
      using sr by (auto simp: setReferenceByIndex_def Let_def)
    have room1: "pipes_have_room (Suc k) ?s1"
      using f by (intro pipes_have_room_upd [OF Cons.prems(2)]) (simp_all add: unwrapped_def buf_ok_def headroom_def)
    have t1: "settles s ?s1" by simp
    have q1: "queues ?s1 Q" using settlesD(7) [OF t1] Cons.prems(1) by simp
    show ?thesis
    proof (cases "l \<and> buffId (bufs ?s1 b) = PIPE")
      case True
      obtain s2 where s2: "closePipe b ?s1 = Some s2" "closes k ?s1 s2" "ib_references (bufs s2 b) = replicate PD_SIZE NULL"
        using closePipe_ok [OF q1 room1] True by blast
      have "\<forall>j\<in>set is. getReferenceByIndex (bufs s2 b) (of_nat j) = NULL"
        by (simp add: getReferenceByIndex_def s2(3))
      then have "remove_refs b pid is s2 = Some s2" by (rule remove_refs_none)
      then show ?thesis
        using \<open>getReferenceByIndex (bufs s b) (of_nat i) \<noteq> NULL \<and> _\<close> True sr s2(1) closes_trans [OF t1 s2(2)]
        by (auto simp: Let_def)
    next
      case False
      obtain s' where "remove_refs b pid is ?s1 = Some s'" "closes k ?s1 s'"
        using Cons.IH [OF q1 room1] Cons.prems(3) by auto
      then show ?thesis
        using \<open>getReferenceByIndex (bufs s b) (of_nat i) \<noteq> NULL \<and> _\<close> False sr closes_trans [OF t1]
        by (auto simp: Let_def)
    qed
  qed
qed

lemma close_pds_ok:
  assumes "queues s Q" "pipes_have_room (length is) s"
  shows "\<exists>s'. close_pds a is s = Some s' \<and> settles s s'"
  using assms
proof (induction "is" arbitrary: s)
  case Nil
  then show ?case by simp
next
  case (Cons i "is")
  let ?b = "p_pdTable (nodes s a) ! i"
  show ?case
  proof (cases "?b = NULL")
    case True
    then show ?thesis using Cons pipes_have_room_mono [of "length (i # is)" s "length is"] by (simp add: Let_def)
  next
    case False
    let ?s1 = "upd_node a (\<lambda>n. n\<lparr>p_pdTable := (p_pdTable n)[i := NULL]\<rparr>) s"
    have s1: "settles s ?s1" by (rule settles_upd_node) simp
    have q1: "queues ?s1 Q" using settlesD(7) [OF s1] Cons.prems(1) by simp
    have "pipes_have_room (Suc (length is)) ?s1"
      using Cons.prems(2) by (simp add: pipes_have_room_def upd_node_def)
    then obtain s2 where s2: "removeReferences ?b (p_id (nodes s a)) ?s1 = Some s2" "closes (length is) ?s1 s2"
      using remove_refs_ok [OF q1, of "length is" "[0..<PD_SIZE]"] by (auto simp: removeReferences_def)
    then have t2: "settles s s2" "pipes_have_room (length is) s2"
      using settles_trans [OF s1] by (auto simp: closes_def)
    obtain s' where "close_pds a is s2 = Some s'" "settles s2 s'"
      using Cons.IH [of s2] settlesD(7) [OF t2(1)] Cons.prems(1) t2(2) by blast
    then show ?thesis using s2(1) False settles_trans [OF t2(1)] by (auto simp: Let_def)
  qed
qed

lemma getEntry_ok:
  assumes "queues s Q"
  shows "\<exists>p. getEntry pid s = Some p"
proof -
  have "set [0..<7] \<subseteq> {..<7::nat}" by auto
  then show ?thesis using exists_ok [OF assms, of pid] find_in_ok [OF assms] by (auto simp: getEntry_def)
qed

lemma check_childs_ok:
  "queues s Q \<Longrightarrow> \<exists>s'. check_childs parent a is s = Some s' \<and> settles s s'"
proof (induction "is" arbitrary: s)
  case Nil
  then show ?case by simp
next
  case (Cons i "is")
  show ?case
  proof (cases "p_childsIds (nodes s a) ! i = 0")
    case True
    then show ?thesis using Cons by (simp add: Let_def)
  next
    case False
    obtain c where c: "getEntry (p_childsIds (nodes s a) ! i) s = Some c" using getEntry_ok [OF Cons.prems] by blast
    let ?s1 = "upd_node c (\<lambda>n. n\<lparr>p_parentId := p_id (nodes s parent)\<rparr>) s"
    have s1: "settles s ?s1" by (rule settles_upd_node) simp
    obtain s' where "check_childs parent a is ?s1 = Some s'" "settles ?s1 s'"
      using Cons.IH [of ?s1] settlesD(7) [OF s1] Cons.prems by blast
    then show ?thesis using False c settles_trans [OF s1] by (auto simp: Let_def)
  qed
qed

lemma setParentReady_ok:
  assumes "queues s Q"
  shows "\<exists>s'. setParentReady a s = Some s' \<and> settles s s'"
proof -
  obtain p where p: "getEntry (p_parentId (nodes s a)) s = Some p" using getEntry_ok [OF assms] by blast
  let ?s1 = "upd_node p (\<lambda>n. n\<lparr>p_childsIds := map (\<lambda>c. if c = p_id (nodes s a) then 0 else c) (p_childsIds n)\<rparr>) s"
  have s1: "settles s ?s1" by (rule settles_upd_node) simp
  have q1: "queues ?s1 Q" using settlesD(7) [OF s1] assms by simp
  have "settles ?s1 (upd_node p (\<lambda>n. n\<lparr>p_state := READY, p_manualBlocked := False\<rparr>) ?s1)"
    by (rule settles_upd_node) simp
  then have "settles s (upd_node p (\<lambda>n. n\<lparr>p_state := READY, p_manualBlocked := False\<rparr>) ?s1)"
    using settles_trans [OF s1] by blast
  then show ?thesis
    using p s1 by (simp add: setParentReady_def Let_def setProcessState_ok [OF q1] del: upd_node_nodes)
qed

lemma deleteProcess_ok:
  assumes q: "queues s Q" and f: "TSCFrequency s \<noteq> 0" and ts: "llist (tnxt s) (timerList s) ts"
    and live: "\<forall>t\<in>set ts. p_state (nodes s (t_sleepingProcess (timers s t))) \<noteq> EXITED"
    and as: "llist (\<lambda>x. pa_next (allocs s x)) (p_firstAlloc (nodes s a)) as" and np: "pipes_have_room PD_SIZE s"
  shows "\<exists>pid s'. deleteProcess a s = Some (pid, s') \<and> settles s s'"
proof -
  let ?s1 = "if k_foreground s = a then s\<lparr>k_foreground := NULL\<rparr> else s"
  let ?s2 = "?s1\<lparr>tscReads := tscReads ?s1 + 1\<rparr>" and ?ms = "tsc ?s1 (tscReads ?s1) div TSCFrequency s"
  have s2: "settles s ?s2" "queues ?s2 Q" "llist (tnxt ?s2) (timerList ?s2) ts" "timers ?s2 = timers s" "nodes ?s2 = nodes s"
    using q ts by (auto simp: tnxt_def [abs_def] nxt_def [abs_def] queues_def)
  let ?D = "due ?s2 Q ?ms ts"
  let ?s3 = "wake_all ?D ?s2"
  have up: "updateTimers ?ms ?s2 = Some ?s3" using updateTimers_ok [OF s2(2,3)] live s2(4,5) by simp
  have s3: "settles s ?s3" using settles_trans [OF s2(1) settles_wake_all] .
  have keep: "allocs ?s3 = allocs s" "bufs ?s3 = bufs s" "p_firstAlloc (nodes ?s3 a) = p_firstAlloc (nodes s a)"
    by (simp_all add: wake_all_def)
  obtain g where s4: "freeAllocations a ?s3 = Some (?s3\<lparr>mm := g\<rparr>)"
    using freeAllocations_ok [of ?s3 "p_firstAlloc (nodes ?s3 a)" as] as keep by (auto simp: freeAllocations_def)
  let ?s4 = "?s3\<lparr>mm := g\<rparr>"
  have "pipes_have_room PD_SIZE ?s4" using np keep by (simp add: pipes_have_room_def)
  moreover have "settles s ?s4" using s3 by simp
  then have "queues ?s4 Q" using settlesD(7) q by blast
  ultimately obtain s5 where s5: "closePDs a ?s4 = Some s5" "settles ?s4 s5"
    using close_pds_ok [of ?s4 Q "[0..<PD_SIZE]" a] by (auto simp: closePDs_def)
  have t5: "settles s s5" using settles_trans [OF _ s5(2)] s3 by simp
  have q5: "queues s5 Q" using settlesD(7) [OF t5] q by simp
  obtain p where "getEntry (p_parentId (nodes s5 a)) s5 = Some p" using getEntry_ok [OF q5] by blast
  then obtain s6 where s6: "checkChilds a s5 = Some s6" "settles s5 s6"
    using check_childs_ok [OF q5, of p a "[0..<PD_SIZE]"] by (auto simp: checkChilds_def)
  have t6: "settles s s6" using settles_trans [OF t5 s6(2)] .
  obtain s7 where s7: "setParentReady a s6 = Some s7" "settles s6 s7"
    using setParentReady_ok [of s6 Q a] settlesD(7) [OF t6] q by auto
  have t7: "settles s s7" using settles_trans [OF t6 s7(2)] .
  have "TSCFrequency ?s1 = TSCFrequency s" by simp
  then show ?thesis
    using f up s4 s5(1) s6(1) s7(1) t7
    by (simp add: deleteProcess_def readTimeStampCounter_def over_frequency_def k_freeMemory_def Let_def)
qed

section \<open>The tick\<close>

text \<open>The running process has exited, nobody else has, and its lists and buffers are in order.\<close>

definition exiting :: "kernel \<Rightarrow> (nat \<Rightarrow> ptr list) \<Rightarrow> ptr list \<Rightarrow> ptr list \<Rightarrow> bool" where
  "exiting s Q ts as \<longleftrightarrow> sched_ok s Q \<and> TSCFrequency s \<noteq> 0 \<and> k_current s \<noteq> k_idle s \<and>
     p_state (nodes s (k_current s)) = EXITED \<and> (\<forall>a\<in>queued Q. p_state (nodes s a) \<noteq> EXITED) \<and>
     llist (tnxt s) (timerList s) ts \<and> (\<forall>t\<in>set ts. p_state (nodes s (t_sleepingProcess (timers s t))) \<noteq> EXITED) \<and>
     llist (\<lambda>a. pa_next (allocs s a)) (p_firstAlloc (nodes s (k_current s))) as \<and> pipes_have_room PD_SIZE s"

lemma checkExited_current:
  assumes "exiting s Q ts as"
  shows "\<exists>s' Q'. checkExited s = Some s' \<and> sched_ok s' Q' \<and> runnable s' Q' = runnable s Q - {k_current s} \<and>
    p_state (nodes s' (k_current s')) = RUNNING \<and> (\<forall>a. p_stack (nodes s' a) = p_stack (nodes s a))"
proof -
  let ?c = "k_current s" and ?i = "k_idle s"
  have q: "queues s Q" and n: "?c \<noteq> NULL" "?i \<noteq> NULL" and out: "?c \<notin> queued Q" "?i \<notin> queued Q" and ne: "?c \<noteq> ?i"
    and ids: "\<And>a. a \<in> runnable s Q \<Longrightarrow> p_id (nodes s a) = p_id (nodes s ?i) \<Longrightarrow> a = ?i"
    using assms by (auto simp: exiting_def sched_ok_def)
  have "set [0..<7] \<subseteq> {..<7::nat}" by auto
  then have cq: "check_queues [0..<7] s = Some s"
    using assms by (intro check_queues_none [OF q]) (auto simp: exiting_def)
  obtain pid s2 where d: "deleteProcess ?c s = Some (pid, s2)" "settles s s2"
    using deleteProcess_ok [OF q] assms unfolding exiting_def by blast
  have q2: "queues s2 Q" using settlesD(7) [OF d(2)] q by simp
  let ?Q3 = "requeue s2 (filter (\<lambda>a. \<not> blocked s2 a) (Q 6)) (Q(6 := filter (blocked s2) (Q 6)))"
  obtain s3 where s3: "checkBlocked s2 = Some s3" "requeued s2 s3" "queues s3 ?Q3"
    using checkBlocked_ok [OF q2] by blast
  have qd: "queued ?Q3 = queued Q" by (rule queued_requeue)
  have k3: "k_current s3 = ?c" "k_idle s3 = ?i" "p_id (nodes s3 a) = p_id (nodes s a)" for a
    using requeuedD(1,6,7) [OF s3(2)] settlesD(1,2,4) [OF d(2)] by simp_all
  have "p_state (nodes s3 ?c) = EXITED \<or> p_state (nodes s3 ?c) = READY"
    using requeuedD(2) [OF s3(2), of ?c] settlesD(6) [OF d(2), of ?c] assms by (auto simp: exiting_def)
  then have ret: "returned s3 ?Q3 = ?Q3" by (auto simp: returned_def abs_put_back_def k3)
  have idc: "p_id (nodes s3 (k_current s3)) \<noteq> p_id (nodes s3 (k_idle s3))"
    using ids [of ?c] ne k3 by (auto simp: runnable_def)
  obtain s' where s': "nextProcess s3 = Some s'" "queues s' (remaining ?Q3)" "k_current s' = chosen s3 ?Q3"
      "p_state (nodes s' (k_current s')) = RUNNING" "k_idle s' = k_idle s3" "\<And>a. core (nodes s' a) = core (nodes s3 a)"
    using nextProcess_dispatch [OF s3(3) _ _ _ idc, unfolded ret] n out qd k3 by auto
  have "a = k_idle s3" if "a \<in> insert (k_idle s3) (queued ?Q3)" "p_id (nodes s' a) = p_id (nodes s' (k_idle s3))" for a
    using ids [of a] that core_fields(1) [OF s'(6)] k3 unfolding qd by (auto simp: runnable_def)
  then have ok: "sched_ok s' (remaining ?Q3)" "runnable s' (remaining ?Q3) = insert ?i (queued Q)"
    using dispatched_ok [OF s'(2,3,5) s3(3) refl] n(2) out(2) qd k3(2) by simp_all
  have "insert ?i (queued Q) = runnable s Q - {?c}" using out ne by (auto simp: runnable_def)
  moreover have "p_stack (nodes s' a) = p_stack (nodes s a)" for a
    using core_fields(2) [OF s'(6), of a] core_fields(2) [OF requeued_core [OF s3(2)], of a] settlesD(5) [OF d(2), of a] by simp
  moreover have "checkExited s = Some s'" using cq d(1) s3(1) s'(1) assms by (simp add: checkExited_def exiting_def)
  ultimately show ?thesis using ok s'(4) by blast
qed

text \<open>
  A tick that finds the running process EXITED takes that process out of the system and no other:
  it returns, the scheduler's invariant holds again, the processes that exist are the others, the
  stack pointers saved for them are as they were, and it resumes one of them, which is RUNNING (or
  the idle process).  Its descriptors are closed, and a pipe whose last write end is closed that way
  gets its end mark.
\<close>

lemma scheduler_removes:
  assumes "exiting s Q ts as"
  shows "\<exists>s' Q'. scheduler rsp s = Some (p_stack (nodes s' (k_current s')), s') \<and> sched_ok s' Q' \<and>
    runnable s' Q' = runnable s Q - {k_current s} \<and> k_current s' \<noteq> k_current s \<and>
    (\<forall>a. a \<noteq> k_current s \<longrightarrow> p_stack (nodes s' a) = p_stack (nodes s a))"
proof -
  let ?c = "k_current s" and ?D = "due s Q (millis s) ts"
  have ok: "sched_ok s Q" and f: "TSCFrequency s \<noteq> 0" and ts: "llist (tnxt s) (timerList s) ts"
    and live: "\<forall>t\<in>set ts. p_state (nodes s (t_sleepingProcess (timers s t))) \<noteq> EXITED"
    using assms by (simp_all add: exiting_def)
  obtain s5 Q5 where s5: "tick_start rsp s = checkExited s5" "queued Q5 = queued Q" "sched_ok s5 Q5"
    "runnable s5 Q5 = runnable s Q" "k_current s5 = ?c" "k_idle s5 = k_idle s"
    "\<And>a. core (nodes s5 a) = core (nodes (accounted rsp s) a)"
    "\<And>a. p_state (nodes s5 a) = (if a \<in> ?D then READY else p_state (nodes s a))"
    "requeued (wake_all ?D (accounted rsp s)) s5"
    using tick_unblocks [OF ok ts live refl, of rsp] by blast
  note rq = requeuedD [OF s5(9)]
  have cur: "?c \<notin> ?D" using live assms by (auto simp: due_def exiting_def)
  have acc: "bufs (accounted rsp s) = bufs s" "allocs (accounted rsp s) = allocs s" "TSCFrequency (accounted rsp s) = TSCFrequency s"
    by (simp_all add: accounted_def upd_node_def Let_def)
  have wk: "bufs (wake_all D t) = bufs t" "allocs (wake_all D t) = allocs t" "timerList (wake_all D t) = timerList t" for D t by (simp_all add: wake_all_def)
  have "p_firstAlloc (nodes s5 ?c) = p_firstAlloc (nodes s ?c)"
    using core_fields(7) [OF s5(7) [unfolded accounted_core], of ?c] by simp
  moreover have "tnxt s5 = tnxt s" using rq(9) by (simp add: tnxt_def [abs_def])
  ultimately have "exiting s5 Q5 ts as"
    using assms s5 cur rq(9-11,14,15) acc wk unfolding exiting_def pipes_have_room_def by simp
  then obtain s6 Q6 where s6: "checkExited s5 = Some s6" "sched_ok s6 Q6" "runnable s6 Q6 = runnable s5 Q5 - {k_current s5}"
    "p_state (nodes s6 (k_current s6)) = RUNNING" "\<And>a. p_stack (nodes s6 a) = p_stack (nodes s5 a)"
    using checkExited_current by blast
  then obtain s' Q' where r: "tick_end s6 = Some (p_stack (nodes s' (k_current s')), s')" "sched_ok s' Q'"
    "runnable s' Q' = runnable s6 Q6" "\<And>a. core (nodes s' a) = core (nodes s6 a)"
    using tick_end_keeps [OF s6(2)] by blast
  have run: "runnable s' Q' = runnable s Q - {?c}" using r(3) s6(3) s5(4,5) by simp
  then have "k_current s' \<noteq> ?c" by (auto simp: runnable_def)
  moreover have "p_stack (nodes s' a) = p_stack (nodes s a)" if "a \<noteq> ?c" for a
    using core_fields(2) [OF r(4), of a] s6(5) [of a] core_fields(2) [OF s5(7) [unfolded accounted_core], of a] that by simp
  moreover have "scheduler rsp s = tick_end s6"
    using scheduler_eq [of s rsp] f ok s5(1) s6(1) by (simp add: sched_ok_def)
  ultimately show ?thesis using r(1,2) run by metis
qed

section \<open>Ends of a process\<close>

text \<open>
  The running process ends itself by a handler: the handler gives up the processor, and in the tick
  that follows the process leaves the system, alone.
\<close>

definition leaves :: "(machine \<Rightarrow> outcome) \<Rightarrow> machine \<Rightarrow> (nat \<Rightarrow> ptr list) \<Rightarrow> ptr \<Rightarrow> bool" where
  "leaves handler M Q rsp \<longleftrightarrow> (\<exists>M1 s' Q'. handler M = Some (Int20h (AndReturn 0), M1) \<and>
     scheduler rsp (kern M1) = Some (p_stack (nodes s' (k_current s')), s') \<and> sched_ok s' Q' \<and>
     runnable s' Q' = runnable (kern M) Q - {k_current (kern M)})"

lemma exiting_cong:
  assumes "exiting (set_state (k_current s) EXITED s) Q ts as"
  shows "exiting (upd_node (k_current s) (\<lambda>n. n\<lparr>p_state := EXITED, p_manualBlocked := False\<rparr>) (s\<lparr>mem := m\<rparr>)) Q ts as"
    (is "exiting ?s Q ts as")
    and "runnable (upd_node (k_current s) (\<lambda>n. n\<lparr>p_state := EXITED, p_manualBlocked := False\<rparr>) (s\<lparr>mem := m\<rparr>)) Q = runnable s Q"
    and "queues s Q"
proof -
  define t where "t = set_state (k_current s) EXITED s"
  define u where "u = ?s"
  have k: "k_current u = k_current t" "k_idle u = k_idle t" "core (nodes u a) = core (nodes t a)" "nxt u = nxt t" "qhead u = qhead t"
      "nxt s = nxt t" "qhead s = qhead t" "p_state (nodes u a) = p_state (nodes t a)" "timers u = timers t" "timerList u = timerList t"
      "allocs u = allocs t" "bufs u = bufs t" "TSCFrequency u = TSCFrequency t" for a
    by (auto simp: t_def u_def set_state_def upd_node_def nxt_def fun_eq_iff core_def)
  have t: "exiting t Q ts as" using assms by (simp only: t_def)
  then have ok: "sched_ok t Q" by (simp add: exiting_def)
  then have q: "queues u Q" "queues s Q" using k(4-7) by (simp_all add: queues_def sched_ok_def)
  show "queues s Q" by (rule q(2))
  show "runnable ?s Q = runnable s Q" by (simp add: runnable_def upd_node_def)
  have "sched_ok u Q" using sched_ok_cong [OF ok q(1) refl] k(1-3) by simp
  moreover have "tnxt u = tnxt t" using k(9) by (simp add: tnxt_def [abs_def])
  ultimately have "exiting u Q ts as"
    using t k(1,2,8-13) core_fields(7) [OF k(3)] unfolding exiting_def pipes_have_room_def by simp
  then show "exiting ?s Q ts as" by (simp only: u_def)
qed

lemma ends_process:
  assumes "exiting (set_state (k_current (kern M)) EXITED (kern M)) Q ts as"
    and "IDLE_ID < p_id (nodes (kern M) (k_current (kern M)))"
  shows "leaves exception_end M Q rsp" "leaves arqSysExit M Q rsp"
proof -
  let ?c = "k_current (kern M)"
  have tick: "\<exists>s' Q'. scheduler rsp s1 = Some (p_stack (nodes s' (k_current s')), s') \<and> sched_ok s' Q' \<and>
      runnable s' Q' = runnable (kern M) Q - {?c}"
    if "s1 = upd_node ?c (\<lambda>n. n\<lparr>p_state := EXITED, p_manualBlocked := False\<rparr>) ((kern M)\<lparr>mem := m\<rparr>)" for s1 m
  proof -
    have "k_current s1 = ?c" by (simp add: that upd_node_def)
    then show ?thesis using scheduler_removes [OF exiting_cong(1) [OF assms(1), of m], of rsp] exiting_cong(2) [OF assms(1)] that by auto
  qed
  have q: "queues ((kern M)\<lparr>mem := m\<rparr>) Q" for m
    using exiting_cong(3) [OF assms(1)] by (simp add: queues_def nxt_def [abs_def])
  have set: "setProcessState ?c EXITED ((kern M)\<lparr>mem := m\<rparr>) =
      Some (True, upd_node ?c (\<lambda>n. n\<lparr>p_state := EXITED, p_manualBlocked := False\<rparr>) ((kern M)\<lparr>mem := m\<rparr>))" for m
    using assms(2) setProcessState_ok [OF q] by (simp add: pids_def not_le)
  have cleared: "\<exists>m. kern (on_screen scrClear M) = (kern M)\<lparr>mem := m\<rparr>"
    by (rule exI [of _ "vmem (scrClear (screen_view M))"]) (simp add: on_screen_def put_screen_def on_mem_def put_kern_def)
  have same: "kern M = (kern M)\<lparr>mem := mem (kern M)\<rparr>" by simp
  show "leaves exception_end M Q rsp"
    using cleared set tick by (auto simp: leaves_def exception_end_def getCurrentProcessEntry_def put_kern_def Let_def)
  show "leaves arqSysExit M Q rsp"
    using set [of "mem (kern M)"] tick [of _ "mem (kern M)"]
    by (auto simp: leaves_def arqSysExit_def getCurrentProcessEntry_def put_kern_def)
qed


text \<open>
  Process 3 of the demonstration state runs with the write end of a pipe, and ends; the blocked process
  4, which has the read end, and the idle process stay.
\<close>

definition ending_kernel :: kernel where
  "ending_kernel = upd_buf 0xB000 (\<lambda>_. pipe_end READ 0xA000 0x4000) (upd_buf 0xA000 (\<lambda>_. pipe_end WRITE 0xB000 0x3000)
     (upd_node 0x3000 (\<lambda>n. n\<lparr>p_pdTable := [NULL, NULL, NULL, 0xA000] @ replicate 28 NULL\<rparr>)
       (demo_kernel\<lparr>k_current := 0x3000, qhead := (\<lambda>_. NULL)(6 := 0x4000)\<rparr>)))"

lemma ending_room: "pipes_have_room PD_SIZE ending_kernel"
proof -
  have d: "unwrapped demo_buffer" "headroom demo_buffer = 1023" "oppositeEnd demo_buffer = NULL"
    by (simp_all add: demo_buffer_def unwrapped_def buf_ok_def headroom_def BUFF_SIZE_def PD_SIZE_def)
  have "bufs ending_kernel = (\<lambda>_. demo_buffer)(0xA000 := pipe_end WRITE 0xB000 0x3000, 0xB000 := pipe_end READ 0xA000 0x4000)"
    by (simp add: ending_kernel_def upd_buf_def upd_node_def demo_kernel_def)
  then show ?thesis using d by (simp add: pipes_have_room_def PD_SIZE_def)
qed

lemma ending_kernel_ok:
  "exiting (set_state (k_current ending_kernel) EXITED ending_kernel) ((\<lambda>_. [])(6 := [0x4000])) [] []"
  "IDLE_ID < p_id (nodes ending_kernel (k_current ending_kernel))"
  "runnable ending_kernel ((\<lambda>_. [])(6 := [0x4000])) = {0x2000, 0x3000, 0x4000}"
proof -
  have "{..<7::nat} = {0, Suc 0, 2, 3, 4, 5, 6}" by auto
  then have qd: "queued ((\<lambda>_. [])(6 := [0x4000])) = {0x4000}" by (auto simp: queued_def)
  let ?s = "set_state 0x3000 EXITED ending_kernel"
  have k: "nxt ending_kernel = nxt demo_kernel" "qhead ending_kernel = (\<lambda>_. NULL)(6 := 0x4000)"
    "k_current ending_kernel = 0x3000" "k_idle ending_kernel = 0x2000" "timerList ending_kernel = NULL"
    "TSCFrequency ending_kernel = 1000" "p_id (nodes ending_kernel a) = p_id (demo_nodes a)"
    "p_state (nodes ending_kernel a) = p_state (demo_nodes a)" "p_firstAlloc (nodes ending_kernel a) = p_firstAlloc (demo_nodes a)" for a
    by (simp_all add: ending_kernel_def upd_buf_def upd_node_def nxt_def fun_eq_iff)
  have "queues ?s ((\<lambda>_. [])(6 := [0x4000]))"
    unfolding queues_def seven by (simp add: set_state_def upd_node_def nxt_def [of "_ :: kernel"] k)
      (simp add: ending_kernel_def upd_buf_def upd_node_def)
  moreover have "pipes_have_room PD_SIZE ?s" using ending_room by (simp add: pipes_have_room_def set_state_def upd_node_def)
  ultimately show "exiting (set_state (k_current ending_kernel) EXITED ending_kernel) ((\<lambda>_. [])(6 := [0x4000])) [] []"
    unfolding exiting_def sched_ok_def k qd by (simp add: set_state_def upd_node_def runnable_def qd k)
  show "IDLE_ID < p_id (nodes ending_kernel (k_current ending_kernel))" by (simp add: k IDLE_ID_def)
  show "runnable ending_kernel ((\<lambda>_. [])(6 := [0x4000])) = {0x2000, 0x3000, 0x4000}"
    by (simp add: runnable_def qd k insert_commute)
qed


end
