(* ===== verification/Faults.thy ===== *)
theory Faults
  imports Programs Exits
begin

text \<open>
  The programs that raise an exception, \<^verbatim>\<open>div_zero.c\<close>, \<^verbatim>\<open>invalid_op_code.c\<close> and \<^verbatim>\<open>page_fault.c\<close> with
  their instructions in \<^verbatim>\<open>Userland/asm/libasm.asm\<close>.  A routine that does not come back ends in one of
  two ways: the processor raises an exception, or goes on at an address that is no code of the program.
\<close>

section \<open>The instructions\<close>

datatype departure = Comes_back | Raises int | Continues_at ptr

text \<open>\<^verbatim>\<open>div rax\<close> divides by \<open>rax\<close>: exception 0 if that is zero.\<close>

definition runDivzero :: departure where
  "runDivzero = (let rax = (0 :: u64) in if rax = 0 then Raises 0 else Comes_back)"

text \<open>The return address on top of the stack is overwritten, and \<^verbatim>\<open>ret\<close> jumps to it.\<close>

definition runPageFault :: "ptr \<Rightarrow> proc \<Rightarrow> departure \<times> proc" where
  "runPageFault rsp p = (let m = store64 rsp 0 (um p) in (Continues_at (load64 m rsp), on_um (\<lambda>_. m) p))"

definition runInvalidOpcode :: departure where "runInvalidOpcode = Continues_at 0"

section \<open>The programs\<close>

text \<open>A result of the program, or how it left.\<close>

definition divZero :: "int \<Rightarrow> ptr \<Rightarrow> proc \<Rightarrow> (departure + int) \<times> proc" where
  "divZero argsc argsv p = (if runDivzero = Comes_back then Inr (- 1) else Inl runDivzero, p)"

definition invalidOpCode :: "int \<Rightarrow> ptr \<Rightarrow> proc \<Rightarrow> (departure + int) \<times> proc" where
  "invalidOpCode argsc argsv p = (if runInvalidOpcode = Comes_back then Inr (- 1) else Inl runInvalidOpcode, p)"

definition u_pageFault :: "image \<Rightarrow> ptr \<Rightarrow> int \<Rightarrow> ptr \<Rightarrow> proc \<Rightarrow> ((departure + int) \<times> proc) option" where
  "u_pageFault A rsp argsc argsv p = do {
     (_, p1) \<leftarrow> printf (fr A) (lit A ''About to cause an exception...'') [] p;
     let (d, p2) = runPageFault rsp p1;
     Some (if d = Comes_back then Inr (- 1) else Inl d, p2)
   }"

section \<open>What becomes of them\<close>

text \<open>
  The page-fault program never touches an address that is not mapped by its own instruction: like the
  invalid-opcode program it goes on at address 0, where this machine keeps its interrupt table.
\<close>

lemma page_fault_is_invalid_opcode:
  "u_pageFault A rsp argsc argsv p = Some (r, p2) \<Longrightarrow> r = fst (invalidOpCode argsc argsv p)"
  by (auto simp: u_pageFault_def runPageFault_def invalidOpCode_def runInvalidOpcode_def bind_eq_Some_conv Let_def)

text \<open>
  The division by zero raises exception 0; its handler, once a key was pressed, ends the process, which
  leaves the system in the next tick.
\<close>

lemma div_zero_ends:
  assumes "exiting (set_state (k_current (kern M)) EXITED (kern M)) Q ts as"
    and "IDLE_ID < p_id (nodes (kern M) (k_current (kern M)))"
  shows "fst (divZero argsc argsv p) = Inl (Raises 0) \<and> exception_title 0 = zeroDivision \<and> leaves exception_end M Q rsp"
  using ends_process [OF assms] by (simp add: divZero_def runDivzero_def exception_title_def)

end
