(* ===== verification/Packer.thy ===== *)
theory Packer
  imports BootProps
begin

text \<open>
  The command line of the packer, \<^verbatim>\<open>Toolchain/ModulePacker/main.c\<close>.  \<^verbatim>\<open>argp_parse\<close> belongs to the C
  library of the host: what it does with a command line is an argument, the list of the calls it
  makes to \<^verbatim>\<open>parse_opt\<close>, each a key, the text that goes with it, and the number of plain arguments
  before it.
\<close>

section \<open>Arguments\<close>

type_synonym word_text = "u8 list"

datatype argp_key = Key_o | ARGP_KEY_ARG | ARGP_KEY_END | Other_key

record arguments =
  args :: "word_text list"
  output_file :: word_text
  count :: nat

datatype parsed = Goes_on arguments | Usage

definition MAX_FILES :: nat where "MAX_FILES = 128"

definition OUTPUT_FILE :: word_text where "OUTPUT_FILE = map of_char ''packedKernel.bin''"

text \<open>
  \<^verbatim>\<open>argp_usage\<close> ends the program.  A key that is not known is left to the library, and an argument
  beyond the array is written outside it.
\<close>

fun parse_opt :: "argp_key \<Rightarrow> word_text \<Rightarrow> nat \<Rightarrow> arguments \<Rightarrow> parsed option" where
  "parse_opt Key_o arg arg_num a = Some (Goes_on (a\<lparr>output_file := arg\<rparr>))"
| "parse_opt ARGP_KEY_ARG arg arg_num a =
    (if arg_num < MAX_FILES then Some (Goes_on (a\<lparr>args := (args a)[arg_num := arg]\<rparr>)) else None)"
| "parse_opt ARGP_KEY_END arg arg_num a = Some (if arg_num < 1 then Usage else Goes_on (a\<lparr>count := arg_num\<rparr>))"
| "parse_opt Other_key arg arg_num a = Some (Goes_on a)"

type_synonym argp_call = "argp_key \<times> word_text \<times> nat"

fun feed_parser :: "argp_call list \<Rightarrow> arguments \<Rightarrow> parsed option" where
  "feed_parser [] a = Some (Goes_on a)"
| "feed_parser ((key, arg, arg_num) # calls) a =
    (case parse_opt key arg arg_num a of
       None \<Rightarrow> None
     | Some Usage \<Rightarrow> Some Usage
     | Some (Goes_on a1) \<Rightarrow> feed_parser calls a1)"

text \<open>The array is not initialised: \<open>junk\<close> is what it holds.  64 is the exit code of \<^verbatim>\<open>argp_usage\<close>.\<close>

definition start_arguments :: "word_text list \<Rightarrow> arguments" where
  "start_arguments junk = \<lparr>args = junk, output_file = OUTPUT_FILE, count = 0\<rparr>"

text \<open>
  The whole program: its exit code, and the file it wrote with its contents.  \<open>same\<close> says which
  names are names of one file.  The output is opened for writing, which empties it, before any input
  is read; when it is an input too, what is read from it depends on how much of the image the C
  library has written out by then, and there is no result here.
\<close>

definition packer :: "(word_text list \<Rightarrow> argp_call list) \<Rightarrow> word_text list \<Rightarrow> (word_text \<Rightarrow> host_file) \<Rightarrow>
    (word_text \<Rightarrow> word_text \<Rightarrow> bool) \<Rightarrow> (word_text \<Rightarrow> bool) \<Rightarrow> word_text list \<Rightarrow>
    (int \<times> (word_text \<times> u8 list) option) option" where
  "packer argp junk disk same writable argv =
    (case feed_parser (argp argv) (start_arguments junk) of
       None \<Rightarrow> None
     | Some Usage \<Rightarrow> Some (64, None)
     | Some (Goes_on a) \<Rightarrow>
         (let names = take (count a) (args a); files = map disk names; opened = writable (output_file a) in
          if checkFiles files \<and> opened \<and> list_ex (same (output_file a)) names then None
          else case packer_main files opened of
            (code, img) \<Rightarrow> Some (code, map_option (Pair (output_file a)) img)))"

section \<open>What the library promises\<close>

text \<open>
  The plain arguments come in order and numbered from 0, options come where they stand, and the end
  comes once, with the number of the arguments; what comes after it are keys the program does not know.
\<close>

fun plain_from :: "nat \<Rightarrow> argp_call list \<Rightarrow> word_text list \<Rightarrow> bool" where
  "plain_from k [] names = (names = [])"
| "plain_from k ((key, arg, n) # calls) names =
    (case key of
       ARGP_KEY_ARG \<Rightarrow> n = k \<and> names \<noteq> [] \<and> arg = hd names \<and> plain_from (Suc k) calls (tl names)
     | ARGP_KEY_END \<Rightarrow> n = k \<and> names = [] \<and> (\<forall>(k', a', n')\<in>set calls. k' = Other_key)
     | _ \<Rightarrow> plain_from k calls names)"

fun last_output :: "argp_call list \<Rightarrow> word_text \<Rightarrow> word_text" where
  "last_output [] f = f"
| "last_output ((key, arg, n) # calls) f = last_output calls (if key = Key_o then arg else f)"

definition has_end :: "argp_call list \<Rightarrow> bool" where "has_end calls \<longleftrightarrow> list_ex (\<lambda>(k, a, n). k = ARGP_KEY_END) calls"

definition documented :: "argp_call list \<Rightarrow> word_text list \<Rightarrow> bool" where
  "documented calls names \<longleftrightarrow> plain_from 0 calls names \<and> has_end calls"

section \<open>The files that are packed\<close>

lemma feed_others:
  "\<forall>(k', a', n')\<in>set calls. k' = Other_key \<Longrightarrow> feed_parser calls a = Some (Goes_on a) \<and> last_output calls f = f"
  by (induction calls arbitrary: f) auto

lemma feed_from:
  assumes "plain_from k calls names" "has_end calls" "k + length names \<le> MAX_FILES" "0 < k + length names" "length (args a) = MAX_FILES"
  shows "feed_parser calls a = Some (Goes_on (a\<lparr>args := take k (args a) @ names @ drop (k + length names) (args a),
    output_file := last_output calls (output_file a), count := k + length names\<rparr>))"
  using assms
proof (induction k calls names arbitrary: a rule: plain_from.induct)
  case (1 k names)
  then show ?case by (simp add: has_end_def)
next
  case (2 k key arg n calls names)
  show ?case
  proof (cases key)
    case ARGP_KEY_ARG
    then obtain names' where n: "n = k" "names = arg # names'" "plain_from (Suc k) calls names'"
      using "2.prems"(1) by (cases names) auto
    let ?a = "a\<lparr>args := (args a)[k := arg]\<rparr>"
    have "feed_parser calls ?a = Some (Goes_on (?a\<lparr>args := take (Suc k) (args ?a) @ names' @ drop (Suc k + length names') (args ?a),
        output_file := last_output calls (output_file ?a), count := Suc k + length names'\<rparr>))"
      using "2.IH"(2) [of ?a] ARGP_KEY_ARG n "2.prems" by (simp add: has_end_def)
    moreover have "k < MAX_FILES" using "2.prems"(3) n(2) by simp
    moreover have "take (Suc k) ((args a)[k := arg]) = take k (args a) @ [arg]"
      using "2.prems"(3,5) n(2) by (simp add: take_Suc_conv_app_nth)
    ultimately show ?thesis using ARGP_KEY_ARG n by simp
  next
    case ARGP_KEY_END
    then have "n = k" "names = []" "\<forall>(k', a', n')\<in>set calls. k' = Other_key" using "2.prems"(1) by auto
    then show ?thesis
      using feed_others [of calls] ARGP_KEY_END "2.prems"(4,5) by simp
  next
    case Key_o
    then show ?thesis using 2 by (simp add: has_end_def)
  next
    case Other_key
    then show ?thesis using 2 by (simp add: has_end_def)
  qed
qed

text \<open> (C16)
  The packer packs the files its command line names: given the calls the C library documents for a
  line with at most 128 file names, all of them readable and none of them naming the output file, it
  writes the image of their contents, in their order, to the file of the last output option, or to
  \<^verbatim>\<open>packedKernel.bin\<close> when there is no such option.
\<close>

theorem packer_packs_named_files:
  assumes "documented (argp argv) names" "names \<noteq> []" "length names \<le> MAX_FILES" "length junk = MAX_FILES"
    and "out = last_output (argp argv) OUTPUT_FILE" "writable out" "\<forall>n\<in>set names. \<not> same out n"
    and "map disk names = map Some texts"
  shows "packer argp junk disk same writable argv = Some (0, Some (out, buildImage texts))"
proof -
  have "feed_parser (argp argv) (start_arguments junk) = Some (Goes_on (start_arguments junk
      \<lparr>args := names @ drop (length names) junk, output_file := out, count := length names\<rparr>))"
    using feed_from [of 0 "argp argv" names "start_arguments junk"] assms(1-5)
    by (simp add: documented_def start_arguments_def)
  moreover have "checkFiles (map Some texts)" by (simp add: checkFiles_def list_all_iff)
  moreover have "\<not> list_ex (same out) names" using assms(7) by (simp add: list_ex_iff)
  ultimately show ?thesis using assms(6,8) by (simp add: packer_def packer_main_def comp_def)
qed

theorem packer_packs_named_files_witness:
  "packer (\<lambda>argv. [(Other_key, [], 0), (ARGP_KEY_ARG, [107], 0), (Key_o, [111], 1), (ARGP_KEY_ARG, [109], 1), (ARGP_KEY_END, [], 2)])
     (replicate 128 []) (\<lambda>n. if n = [107] then Some [1, 2] else if n = [109] then Some [3] else None) (=) (\<lambda>_. True) [] =
   Some (0, Some ([111], buildImage [[1, 2], [3]]))"
  by (subst packer_packs_named_files [of _ _ "[[107], [109]]" _ _ _ _ _ "[[1, 2], [3]]", OF _ _ _ _ refl])
    (simp_all add: documented_def has_end_def MAX_FILES_def)

text \<open>One more name is written outside the array.\<close>

lemma feed_overflow:
  assumes "plain_from 0 calls names" "MAX_FILES < length names"
  shows "feed_parser calls a = None"
proof -
  have "plain_from k calls names \<Longrightarrow> k \<le> MAX_FILES \<Longrightarrow> MAX_FILES < k + length names \<Longrightarrow> feed_parser calls a = None" for k
  proof (induction k calls names arbitrary: a rule: plain_from.induct)
    case (2 k key arg n calls names)
    then show ?case by (cases key; cases names) (auto simp: MAX_FILES_def)
  qed simp
  then show ?thesis using assms by simp
qed

end
