(* ===== verification/Spec2Isabelle.thy ===== *)
theory Spec2Isabelle
  imports BuddyRuns Sized BootProps ShellEdit TronProps TestsProps Typing BmfsProps Faults Packer
begin

text \<open>
  A small 64-bit operating system and the programs that run on it.

  \<^bold>\<open>The program.\<close>  A tool of the host appends the programs to the kernel
  (\<^verbatim>\<open>Toolchain/ModulePacker\<close>); the kernel's loader puts them at their addresses and \<^verbatim>\<open>main\<close> sets up
  the memory manager, the interrupt table and the first process (\<^verbatim>\<open>Kernel/kernel.c\<close>,
  \<^verbatim>\<open>moduleLoader.c\<close>, \<^verbatim>\<open>idtLoader.c\<close>).  From then on the kernel runs when an interrupt comes: the timer
  tick calls the scheduler (\<^verbatim>\<open>interruptRelated/scheduler.c\<close>), the keyboard calls its driver
  (\<^verbatim>\<open>drivers/keyboard.c\<close>), an exception shows the registers (\<^verbatim>\<open>exceptions.c\<close>), and the software interrupt
  of a program goes to the dispatcher of system calls (\<^verbatim>\<open>syscallsDispatcher.c\<close>), which uses the
  scheduler's process operations, pipes over byte buffers (\<^verbatim>\<open>ipcRelated/pipe.c\<close>,
  \<^verbatim>\<open>bufferManagement.c\<close>), timers, named semaphores (\<^verbatim>\<open>sync.c\<close>), the memory managers and the screen
  (\<^verbatim>\<open>drivers/video.c\<close>).  The programs (\<^verbatim>\<open>Userland\<close>) reach the kernel through the stubs of
  \<^verbatim>\<open>asm/syscalls.asm\<close>; the shell (\<^verbatim>\<open>programs/sh.c\<close>) reads lines and starts the others.

  \<^bold>\<open>How code becomes definitions.\<close>  A definition has the name of the function it models, or of the
  function with a prefix (\<open>u_\<close> for a routine of the programs whose name the kernel uses as well) or
  a suffix (\<open>_loop\<close> for its loop, \<open>_pass\<close> for one pass of a loop that gives up the processor).  A
  structure is a record, an enumeration a datatype, an unsigned integer a word of its width; a
  signed \<^verbatim>\<open>int\<close> whose overflow is undefined is an integer that \<open>int32\<close> keeps in range.  Linked
  structures live in typed heaps, functions from addresses to records; text, arrays that cross an
  interface and the frame buffer live in a flat memory of bytes.  Address 0 is mapped on this
  machine, so reading through a null pointer has a value.  A loop that the code does not bound is a
  \<^verbatim>\<open>partial_function (option)\<close>: \<open>None\<close> is not to return, a division by zero, an overflow of a signed
  integer, or an index outside an array.  No loop runs on fuel.

  A call that gives up the processor inside the kernel is split there: the outcome of a system call
  is a reply, or a switch with the rest of the routine to be resumed (\<open>Syscalls\<close>).  A program sees
  the kernel as a list of replies, each the value of a call with the bytes it stored in the
  program's memory; the calls are recorded (\<open>UProc\<close>).  \<open>ProgramsProps\<close> connects the two sides, with the register
  moves of \<^verbatim>\<open>_syscallsHandler\<close> (\<^verbatim>\<open>asm/interrupts.asm\<close>) between them: every stub reaches the routine of
  its name.

  \<^bold>\<open>The theories of the kernel.\<close>
  \<^item> \<open>Prelude\<close>: machine types, segments of linked lists, the two loops that walk them.
  \<^item> \<open>Lib\<close>, \<open>CString\<close>: \<^verbatim>\<open>lib.c\<close> and \<^verbatim>\<open>string.c\<close>; \<open>CStringProps\<close>: comparison is the lexicographic order,
    numbers are read back as they were written.
  \<^item> \<open>Allocator\<close>: the contract of a memory manager as the locales \<open>block_allocator\<close>,
    \<open>block_manager\<close> and, for clients that write into their blocks, \<open>written_manager\<close>; whoever fulfils
    it never has two outstanding blocks that overlap.  \<open>FreeList\<close> (\<^verbatim>\<open>freeListMemoryManager.c\<close>)
    interprets the second and \<open>Buddy\<close> (\<^verbatim>\<open>buddyMemoryManager.c\<close>) the third.  \<open>FreeListRuns\<close>: first fit,
    boot, and reallocation, which takes headers and bytes for the one memory they share: what the
    copy writes is read as headers again, and what the release writes into headers is seen in the
    bytes.  \<open>BuddyTree\<close>: the recursion over pointers implements operations on binary trees.
    \<open>BuddyRuns\<close>: the manager reads child pointers from memory that clients wrote to, so a block may be
    given back only if none are left where headers may be put below it; a run that breaks this
    makes grants overlap.
  \<^item> \<open>IPCBuffer\<close>: the ring of bytes of \<^verbatim>\<open>bufferManagement.c\<close>, and the locale \<open>byte_queue\<close>: a buffer is a
    first-in first-out queue.  \<open>Pipes\<close>: \<^verbatim>\<open>pipe.c\<close> and what of the buffers reaches the scheduler.
  \<^item> \<open>KState\<close>, \<open>Timers\<close>, \<open>Stacks\<close>, \<open>Scheduler\<close>, \<open>Processes\<close>: \<^verbatim>\<open>scheduler.c\<close>, \<^verbatim>\<open>timer.c\<close> and the stack frames of
    \<^verbatim>\<open>asm/process.asm\<close>.  \<open>Queues\<close> and \<open>Dispatch\<close>: the linked queues as seven lists; \<open>SchedProps\<close>,
    \<open>Ticks\<close>, \<open>Priorities\<close>: a tick refines a tick on lists of processes, which wakes the due sleepers,
    takes the unblocked ones out of the blocked list, puts the running one back as its state says
    (a READY one nowhere) and chooses the first of the best level; priorities move a process between queues, new identifiers are fresh.  \<open>Demo\<close> is a concrete kernel the properties are tried on.
  \<^item> \<open>Sync\<close>: \<^verbatim>\<open>sync.c\<close> with the lock routines of \<^verbatim>\<open>asm/semaphore.asm\<close>, which never block;
    the word the routines take for the lock is an argument of each attempt.
  \<^item> \<open>Keyboard\<close>, \<open>Font\<close>, \<open>Video\<close>: the drivers; \<open>KeyboardProps\<close> and \<open>VideoProps\<close>: what a key types, and that
    drawing stays in the frame buffer.
  \<^item> \<open>Boot\<close>: packer, loader, interrupt table, registers and speaker; \<open>BootProps\<close>: the loader inverts
    the packer.  \<open>Packer\<close>: the packer's command line; which names stand for one file
    of the host is a parameter, and an output that is also an input has no value, because it is
    emptied before it is read.
  \<^item> \<open>Syscalls\<close>, \<open>Exceptions\<close>: the dispatcher, its 43 calls and the exception screen; \<open>SyscallProps\<close>:
    pipes wake their readers, the system processes cannot be killed.  \<open>Exits\<close>: a process other than
    init and idle that calls exit or raised an exception leaves the system in the next tick, alone,
    with its pipe ends closed, if the pipes have room for the end marks.  \<open>Typing\<close>: from scan codes to the
    process that reads standard input.  \<open>Sized\<close>: over everything that
    can happen to the machine no buffer is overfilled.

  \<^bold>\<open>The theories of the programs.\<close>
  \<^item> \<open>UString\<close>, \<open>UProc\<close>, \<open>UStdio\<close>: \<^verbatim>\<open>Userland/string.c\<close>, the stubs with \<^verbatim>\<open>lib.c\<close> and \<^verbatim>\<open>test_utils.c\<close>, and
    \<^verbatim>\<open>stdio.c\<close>; \<open>UStringProps\<close> and \<open>UStdioProps\<close>: copying, cutting into words, formatted output.
  \<^item> \<open>Programs\<close>: cat, filter, wc, clock, mem, memorydump, ps, sleep, loop, kill, block, unblock and
    nice.  \<open>ProgramsProps\<close>: the locale \<open>terminal\<close> of reading and writing characters, interpreted on
    \<^verbatim>\<open>getChar\<close> and \<^verbatim>\<open>putChar\<close>, from which the filters are proved.
  \<^item> \<open>Faults\<close>: the three programs that raise an exception.
  \<^item> \<open>Shell\<close>: \<^verbatim>\<open>sh.c\<close>, \<^verbatim>\<open>help.c\<close> and \<^verbatim>\<open>_loader.c\<close>; \<open>ShellProps\<close>, \<open>ShellEdit\<close>: the command a line names, its
    arguments, and that the line editor implements editing a list of characters.
  \<^item> \<open>Tron\<close>, \<open>TronProps\<close>: the game, and what a round does to the players and the screen.
  \<^item> \<open>Philosophers\<close>: \<^verbatim>\<open>phylo.c\<close> and \<^verbatim>\<open>filosopher.c\<close>; \<open>PhilosophersProps\<close>: their critical sections implement
    a protocol on a list of states, and as steps of a transition relation they keep neighbours from
    eating together and nobody hungry without a reason.  They rely on sections that exclude each
    other, which, as \<open>Sync\<close> shows, this kernel's semaphores do not provide.
  \<^item> \<open>Tests\<close>, \<open>TestsProps\<close>: the four test programs; what the test of the memory manager detects is
    exactly what \<open>block_manager\<close> excludes.

  \<^bold>\<open>The disk tool.\<close>  \<open>Bmfs\<close>: \<^verbatim>\<open>Bootloader/BMFS/bmfs.c\<close>, a program of the host that makes the disk image and
  keeps files in it.  A stream of the C library is its bytes with a position and the room the host
  has; a write that does not fit writes nothing.  \<open>BmfsProps\<close>: the files of a disk from which nothing
  was deleted never overlap, after a deletion they can, a file is read back as it was written, and
  every run finds the directory the last one left.

  \<^bold>\<open>Bounds.\<close>  A property of a buffer or a string names the bytes it needs: 1024 for an IPC buffer, of
  which 1023 hold data, 250 for a formatted text, 500 for a line of the shell, 12 philosophers, 128
  blocks, 64 entries in the directory of a disk.  Runs of calls and of keys have any length.

  \<^bold>\<open>Not modelled.\<close>
  \<^item> The floating point arithmetic of \<^verbatim>\<open>scrDrawLine\<close> and of \<^verbatim>\<open>GetUniform\<close>: its result is a parameter.
  \<^item> The C library's \<^verbatim>\<open>argp\<close>: the calls it makes to the packer are an argument.
  \<^item> The rest of \<^verbatim>\<open>Bootloader\<close>, a boot loader in assembly taken over from another project.
  \<^item> Writes of the programs into blocks of the free list manager as writes to its headers: outside
    reallocation and \<open>BuddyRuns\<close> the headers of the managers and the bytes of blocks are kept apart.
  \<^item> Interrupt controllers and ports beyond what is sent to the speaker; the assembly that saves
    registers, but for the frames of \<open>Stacks\<close>.
\<close>

end
